(* ===== verification/Prelude.thy ===== *)
theory Prelude
  imports Main "HOL-Library.Word"
begin

text \<open>
  Shared vocabulary of the development: the machine integers of the i686 kernel, the ways an
  operation of the kernel can go wrong, the sequencing of fallible operations, and the generic
  lemmas on words and lists that the component theories use.
\<close>

unbundle bit_operations_syntax

section \<open>Machine integers\<close>

text \<open>
  The kernel is built for i686: \<open>size_t\<close>, \<open>uintptr_t\<close> and \<open>unsigned long\<close> have 32 bits.
\<close>

type_synonym u8 = "8 word"
type_synonym u16 = "16 word"
type_synonym u32 = "32 word"
type_synonym u64 = "64 word"

text \<open>A pointer of the kernel: \<open>None\<close> is the null pointer.\<close>

type_synonym addr = u32
type_synonym ptr = "addr option"

text \<open>Byte-addressed memory.\<close>

type_synonym memory = "addr \<Rightarrow> u8"

section \<open>Faults\<close>

text \<open>
  \<open>AssertFail\<close> is a failed \<open>assert\<close>, \<open>NullDeref\<close> a member access through a null pointer,
  \<open>BadAccess\<close> an access to an object that was deleted or never allocated, or past the end of an
  array, \<open>DivZero\<close> a division by zero, \<open>KernelPanic\<close> a call of \<open>panic\<close>.
\<close>

datatype kfault = AssertFail | NullDeref | BadAccess | DivZero | KernelPanic

type_synonym 'a kres = "kfault + 'a"

fun kbind :: "'a kres \<Rightarrow> ('a \<Rightarrow> 'b kres) \<Rightarrow> 'b kres" where
  "kbind (Inl e) f = Inl e"
| "kbind (Inr x) f = f x"

definition kassert :: "bool \<Rightarrow> unit kres" where
  "kassert b = (if b then Inr () else Inl AssertFail)"

lemma kbind_Inr_iff: "kbind m f = Inr y \<longleftrightarrow> (\<exists>x. m = Inr x \<and> f x = Inr y)"
  by (cases m) auto

lemma kbind_Inl_iff: "kbind m f = Inl e \<longleftrightarrow> m = Inl e \<or> (\<exists>x. m = Inr x \<and> f x = Inl e)"
  by (cases m) auto

lemma kbind_cong [fundef_cong]:
  assumes "m = m'" and "\<And>x. m' = Inr x \<Longrightarrow> f x = f' x"
  shows "kbind m f = kbind m' f'"
  using assms by (cases m') auto

lemma kassert_simps [simp]:
  "kassert True = Inr ()" "kassert False = Inl AssertFail"
  by (simp_all add: kassert_def)

lemma kassert_Inr_iff [simp]: "kassert b = Inr u \<longleftrightarrow> b"
  by (simp add: kassert_def)

text \<open>A loop over a list of indices whose body can fault.\<close>

fun kfold :: "('i \<Rightarrow> 's \<Rightarrow> 's kres) \<Rightarrow> 'i list \<Rightarrow> 's \<Rightarrow> 's kres" where
  "kfold f [] s = Inr s"
| "kfold f (i # is) s = kbind (f i s) (kfold f is)"

text \<open>A loop whose body never faults and keeps an indexed invariant ends in the invariant.\<close>

lemma kfold_inv:
  assumes "P 0 s" and "\<And>k s. k < length xs \<Longrightarrow> P k s \<Longrightarrow> \<exists>s'. f (xs ! k) s = Inr s' \<and> P (Suc k) s'"
  shows "\<exists>s'. kfold f xs s = Inr s' \<and> P (length xs) s'"
  using assms
proof (induction xs arbitrary: s P)
  case (Cons x xs)
  obtain s' where s': "f x s = Inr s'" "P (Suc 0) s'" using Cons.prems(2) [of 0] Cons.prems(1) by auto
  have "\<exists>s''. kfold f xs s' = Inr s'' \<and> P (Suc (length xs)) s''"
    using Cons.prems(2) s'(2) by (intro Cons.IH [where P = "\<lambda>k. P (Suc k)"]) fastforce+
  then show ?case using s'(1) by simp
qed auto

lemma kfold_cong [fundef_cong]:
  assumes "xs = ys" "s = t" "\<And>x u. x \<in> set ys \<Longrightarrow> f x u = g x u"
  shows "kfold f xs s = kfold g ys t"
  unfolding assms(1,2) using assms(3)
proof (induction ys arbitrary: t)
  case (Cons y ys)
  then show ?case by (cases "g y t") auto
qed simp

lemma kfold_append: "kfold f (xs @ ys) s = kbind (kfold f xs s) (kfold f ys)"
proof (induction xs arbitrary: s)
  case (Cons x xs)
  then show ?case by (cases "f x s") auto
qed simp

lemma kbind_return [simp]: "kbind m Inr = m"
  by (cases m) simp_all

lemma kfold_single: "kfold f [x] = f x"
proof
  fix s show "kfold f [x] s = f x s" by (cases "f x s") simp_all
qed

section \<open>Operations that may not return\<close>

text \<open>
  Operations that may also run forever or wait: \<open>None\<close> is an operation that does not return. The
  sequencing is monotone, so that it can be used in \<open>partial_function (option)\<close>.
\<close>

definition obind :: "'a kres option \<Rightarrow> ('a \<Rightarrow> 'b kres option) \<Rightarrow> 'b kres option" where
  "obind m f = Option.bind m (case_sum (\<lambda>e. Some (Inl e)) f)"

lemma obind_simps [simp]:
  "obind None f = None" "obind (Some (Inl e)) f = Some (Inl e)" "obind (Some (Inr x)) f = f x"
  by (simp_all add: obind_def)

lemma obind_Some_iff:
  "obind m f = Some (Inr y) \<longleftrightarrow> (\<exists>x. m = Some (Inr x) \<and> f x = Some (Inr y))"
  by (auto simp: obind_def split: sum.splits bind_splits)

lemma obind_cong [fundef_cong]:
  assumes "m = m'" "\<And>x. m' = Some (Inr x) \<Longrightarrow> f x = g x"
  shows "obind m f = obind m' g"
  using assms by (auto simp: obind_def split: bind_splits sum.splits)

lemma obind_mono [partial_function_mono]:
  assumes "mono_option B" "\<And>y. mono_option (\<lambda>f. C y f)"
  shows "mono_option (\<lambda>f. obind (B f) (\<lambda>y. C y f))"
  unfolding obind_def
proof (rule bind_mono [OF assms(1)])
  fix y
  show "mono_option (\<lambda>f. case y of Inl e \<Rightarrow> Some (Inl e) | Inr x \<Rightarrow> C x f)"
    by (cases y) (simp_all add: assms(2) option.const_mono)
qed

primrec okfold :: "('i \<Rightarrow> 's \<Rightarrow> 's kres option) \<Rightarrow> 'i list \<Rightarrow> 's \<Rightarrow> 's kres option" where
  "okfold f [] s = Some (Inr s)"
| "okfold f (i # is) s = obind (f i s) (okfold f is)"

text \<open>A loop every step of which keeps an invariant or faults in an allowed way ends so.\<close>

lemma okfold_invariant:
  assumes "okfold f is s = Some r" "I is s"
    and step: "\<And>i is s r. I (i # is) s \<Longrightarrow> f i s = Some r \<Longrightarrow> r \<in> Inl ` E \<or> (\<exists>s'. r = Inr s' \<and> I is s')"
  shows "r \<in> Inl ` E \<or> (\<exists>s'. r = Inr s' \<and> I [] s')"
  using assms(1,2)
proof (induction "is" arbitrary: s)
  case (Cons i "is")
  then obtain q where q: "f i s = Some q" by (cases "f i s") auto
  with step [OF Cons.prems(2) q] Cons show ?case by (auto simp: image_iff)
qed auto

lemma okfold_total:
  assumes "I is s" and step: "\<And>i is s. I (i # is) s \<Longrightarrow> \<exists>s'. f i s = Some (Inr s') \<and> I is s'"
  shows "\<exists>s'. okfold f is s = Some (Inr s') \<and> I [] s'"
  using assms(1)
proof (induction "is" arbitrary: s)
  case (Cons i "is")
  with step [OF Cons.prems] show ?case by auto
qed simp

section \<open>Objects in memory\<close>

text \<open>
  Linked structures live in a heap, a partial function from addresses to objects. Reading or
  writing a member through a pointer faults when the pointer is null or the object is gone.
\<close>

definition deref :: "(addr \<rightharpoonup> 'n) \<Rightarrow> ptr \<Rightarrow> 'n kres" where
  "deref h p = (case p of None \<Rightarrow> Inl NullDeref
     | Some a \<Rightarrow> (case h a of None \<Rightarrow> Inl BadAccess | Some n \<Rightarrow> Inr n))"

definition store :: "(addr \<rightharpoonup> 'n) \<Rightarrow> ptr \<Rightarrow> ('n \<Rightarrow> 'n) \<Rightarrow> (addr \<rightharpoonup> 'n) kres" where
  "store h p f = (case p of None \<Rightarrow> Inl NullDeref
     | Some a \<Rightarrow> (case h a of None \<Rightarrow> Inl BadAccess | Some n \<Rightarrow> Inr (h(a \<mapsto> f n))))"

lemma deref_null [simp]: "deref h None = Inl NullDeref"
  by (simp add: deref_def)

lemma store_null [simp]: "store h None f = Inl NullDeref"
  by (simp add: store_def)

lemma deref_live [simp]: "h a = Some n \<Longrightarrow> deref h (Some a) = Inr n"
  by (simp add: deref_def)

lemma store_live [simp]: "h a = Some n \<Longrightarrow> store h (Some a) f = Inr (h(a \<mapsto> f n))"
  by (simp add: store_def)

section \<open>Words read as natural numbers\<close>

lemma unat_bound: "unat (v :: 'a::len word) < 2 ^ LENGTH('a)"
  by (rule unsigned_less)

lemma unat_2p: "n < LENGTH('a) \<Longrightarrow> unat (2 ^ n :: 'a::len word) = 2 ^ n"
proof -
  assume "n < LENGTH('a)"
  then have "unat (of_nat (2 ^ n) :: 'a word) = 2 ^ n"
    by (simp only: unat_of_nat) simp
  then show ?thesis by simp
qed

lemma unat_add_small:
  "unat a + unat b < 2 ^ LENGTH('a) \<Longrightarrow> unat (a + b) = unat a + unat (b :: 'a::len word)"
  by (simp add: unat_add_lem)

lemma unat_mult_small:
  "unat a * unat b < 2 ^ LENGTH('a) \<Longrightarrow> unat (a * b) = unat a * unat (b :: 'a::len word)"
  by (simp add: unat_mult_lem)

lemma unat_sub_le: "b \<le> a \<Longrightarrow> unat (a - b) = unat a - unat (b :: 'a::len word)"
  by (simp add: unat_sub)

lemma unat_sub_small: "unat b \<le> unat a \<Longrightarrow> unat (a - b) = unat a - unat (b :: 'a::len word)"
  by (simp add: unat_sub word_le_nat_alt)

lemma unat_Suc_less:
  assumes "a < b"
  shows "unat (a + 1) = Suc (unat (a :: 'a::len word))"
proof -
  have "Suc (unat a) < 2 ^ LENGTH('a)"
    using assms unat_bound [of b] unfolding word_less_nat_alt by linarith
  then show ?thesis using unat_add_small [of a 1] by simp
qed

text \<open>The measure of a loop that counts up to a bound.\<close>

lemma unat_diff_step: "a < b \<Longrightarrow> unat (b - (a + 1)) < unat (b - (a :: 'a::len word))"
  by (simp add: unat_sub_small unat_Suc_less word_less_nat_alt)

lemma unat_div_word [simp]: "unat (a div b) = unat a div unat (b :: 'a::len word)"
  by (simp add: unat_div_distrib)

lemma unat_mod_word [simp]: "unat (a mod b) = unat a mod unat (b :: 'a::len word)"
  by (simp add: unat_mod_distrib)

lemma bit_unat_iff: "bit (v :: 'a::len word) n \<longleftrightarrow> odd (unat v div 2 ^ n)"
  by (simp add: bit_unsigned_iff flip: bit_iff_odd)

lemma unat_of_nat_small: "n < 2 ^ LENGTH('a) \<Longrightarrow> unat (of_nat n :: 'a::len word) = n"
  by (simp add: unsigned_of_nat take_bit_nat_eq_self)

lemma of_nat_eq_small:
  "i < 2 ^ LENGTH('a) \<Longrightarrow> j < 2 ^ LENGTH('a) \<Longrightarrow> (of_nat i :: 'a::len word) = of_nat j \<longleftrightarrow> i = j"
  by (metis unat_of_nat_small)

lemma unat_minus_one: "w \<noteq> 0 \<Longrightarrow> unat (w - 1) = unat (w :: 'a::len word) - 1"
  using unat_sub_small [of 1 w] by (simp add: unat_gt_0 Suc_le_eq)

lemma unat_pred: "0 < w \<Longrightarrow> unat (w - 1) = unat (w :: 'a::len word) - 1"
  by (rule unat_minus_one) auto

lemma word_pred_less: "0 < w \<Longrightarrow> w - 1 < (w :: 'a::len word)"
  using unat_pred [of w] by (simp add: word_less_nat_alt)

lemma word_succ_less: "0 < b \<Longrightarrow> a < b - 1 \<Longrightarrow> a + 1 < (b :: 'a::len word)"
  using unat_Suc_less [of a "b - 1"] unat_pred [of b] by (simp add: word_less_nat_alt)

lemma sint_unat_small:
  assumes "unat (a :: u32) < 2 ^ 31"
  shows "sint a = int (unat a)"
proof -
  have "int (unat a) < int (2 ^ 31)" using assms by (simp only: of_nat_less_iff)
  then have "uint a < 2 ^ 31" by simp
  moreover have "- (2 ^ 31) \<le> uint a" by (rule order_trans [of _ 0]) simp_all
  ultimately have "signed_take_bit 31 (uint a) = uint a" by (intro signed_take_bit_int_eq_self)
  then show ?thesis by (simp add: sint_uint)
qed

text \<open>On values below \<open>2 ^ 31\<close> the signed order is the order of the natural numbers.\<close>

lemma sless_unat: "unat a < 2 ^ 31 \<Longrightarrow> unat b < 2 ^ 31 \<Longrightarrow> (a <s b) = (unat a < unat (b :: u32))"
  unfolding word_sless_alt by (simp only: sint_unat_small of_nat_less_iff)

lemma sle_unat: "unat a < 2 ^ 31 \<Longrightarrow> unat b < 2 ^ 31 \<Longrightarrow> (a \<le>s b) = (unat a \<le> unat (b :: u32))"
  unfolding word_sle_eq by (simp only: sint_unat_small of_nat_le_iff)

text \<open>The index of a place in a grid that is stored row by row.\<close>

lemma grid_index:
  fixes row column w h :: u32
  assumes "row < h" "column < w" "unat w * unat h < 2 ^ 32"
  shows "unat (row * w + column) = unat row * unat w + unat column"
    and "unat row * unat w + unat column < unat w * unat h"
proof -
  have "Suc (unat row) * unat w \<le> unat h * unat w" using assms(1) by (intro mult_right_mono) (simp_all add: word_less_nat_alt Suc_le_eq)
  then show lt: "unat row * unat w + unat column < unat w * unat h"
    using assms(2) by (simp add: mult.commute word_less_nat_alt)
  then have "unat (row * w) = unat row * unat w" using assms(3) by (intro unat_mult_small) simp
  then show "unat (row * w + column) = unat row * unat w + unat column"
    using lt assms(3) by (subst unat_add_small) simp_all
qed

text \<open>Two positions of a ring less than a round apart differ.\<close>

lemma ring_distinct:
  fixes t c i j :: nat
  assumes "i < j" "j - i < c"
  shows "(t + i) mod c \<noteq> (t + j) mod c"
proof
  assume "(t + i) mod c = (t + j) mod c"
  then have "c dvd (t + j) - (t + i)" using assms(1) by (metis mod_eq_dvd_iff_nat add_le_cancel_left less_imp_le)
  then have "c dvd j - i" by simp
  then show False using assms by (auto dest: dvd_imp_le)
qed

end
