(* ===== verification/KMath.thy ===== *)
theory KMath
  imports Prelude
begin

text \<open>
  \<open>include/libk/kmath.hpp\<close>: minimum, maximum, rounding and the next power of two. The C++
  functions are templates over unsigned integers; the model is polymorphic in the word length and
  keeps the wrap-around of every operation.
\<close>

section \<open>The functions\<close>

definition kmin :: "'a::len word \<Rightarrow> 'a word \<Rightarrow> 'a word" where
  "kmin a b = (if a < b then a else b)"

definition kmax :: "'a::len word \<Rightarrow> 'a word \<Rightarrow> 'a word" where
  "kmax a b = (if a < b then b else a)"

text \<open>The loop \<open>for (i = 1; i < sizeof(T) * CHAR_BIT; i *= 2) value |= value >> i\<close>.\<close>

function smear :: "nat \<Rightarrow> 'a::len word \<Rightarrow> 'a word" where
  "smear i v = (if 0 < i \<and> i < LENGTH('a) then smear (i * 2) (v OR drop_bit i v) else v)"
  by pat_completeness auto
termination
  by (relation "measure (\<lambda>(i, v :: 'a word). LENGTH('a) - i)") auto

declare smear.simps [simp del]

definition next_power_of_two :: "'a::len word \<Rightarrow> 'a word" where
  "next_power_of_two v = smear 1 (v - 1) + 1"

definition round_up_to_multiple :: "'a::len word \<Rightarrow> 'a word \<Rightarrow> 'a word" where
  "round_up_to_multiple v m = (if m = 0 then v else (v + m - 1) div m * m)"

definition ceil_div :: "'a::len word \<Rightarrow> 'a word \<Rightarrow> 'a word" where
  "ceil_div v m = (if m = 0 then v else (v + m - 1) div m)"

definition round_down_to_multiple :: "'a::len word \<Rightarrow> 'a word \<Rightarrow> 'a word" where
  "round_down_to_multiple v m = (if m = 0 then v else v div m * m)"

definition round_up_to_power_of_two :: "'a::len word \<Rightarrow> 'a word \<Rightarrow> 'a word" where
  "round_up_to_power_of_two v p = ((v - 1) AND NOT (p - 1)) + p"

definition round_down_to_power_of_two :: "'a::len word \<Rightarrow> 'a word \<Rightarrow> 'a word" where
  "round_down_to_power_of_two v p = v AND NOT (p - 1)"

section \<open>Smearing bits\<close>

lemma bit_smear_step:
  fixes v :: "'a::len word"
  shows "bit (v OR drop_bit i v) n \<longleftrightarrow> bit v n \<or> bit v (i + n)"
  by (simp add: bit_or_iff bit_drop_bit_eq)

lemma bit_smear:
  fixes v :: "'a::len word"
  assumes "0 < i"
  shows "\<And>w :: 'a word. (\<forall>n. bit v n \<longleftrightarrow> (\<exists>k<i. bit w (n + k))) \<Longrightarrow> bit (smear i v) n \<longleftrightarrow> (\<exists>k. bit w (n + k))"
  using assms
proof (induction i v rule: smear.induct)
  case (1 i v)
  show ?case
  proof (cases "i < LENGTH('a)")
    case True
    have step: "\<forall>n. bit (v OR drop_bit i v) n \<longleftrightarrow> (\<exists>k<i * 2. bit w (n + k))"
    proof
      fix n
      have "(\<exists>k<i * 2. bit w (n + k)) \<longleftrightarrow> (\<exists>k<i. bit w (n + k)) \<or> (\<exists>k<i. bit w (i + n + k))"
      proof safe
        fix k assume "k < i * 2" "bit w (n + k)" "\<nexists>k. k < i \<and> bit w (i + n + k)"
        then show "\<exists>k<i. bit w (n + k)"
          by (cases "k < i") (auto dest!: spec [of _ "k - i"])
      next
        fix k assume "k < i" "bit w (n + k)"
        then show "\<exists>k<i * 2. bit w (n + k)" by (intro exI [of _ k]) auto
      next
        fix k assume "k < i" "bit w (i + n + k)"
        then show "\<exists>k<i * 2. bit w (n + k)" by (intro exI [of _ "i + k"]) (auto simp: ac_simps)
      qed
      then show "bit (v OR drop_bit i v) n \<longleftrightarrow> (\<exists>k<i * 2. bit w (n + k))"
        using "1.prems"(1) by (simp add: bit_smear_step)
    qed
    with "1.IH" "1.prems" True show ?thesis by (simp add: smear.simps [of i v])
  next
    case False
    then have "bit w (n + k) \<Longrightarrow> k < i" for k
      using bit_imp_le_length [of w "n + k"] by simp
    with False "1.prems" show ?thesis by (auto simp: smear.simps [of i v])
  qed
qed

lemma bit_smear_1: "bit (smear 1 v) n \<longleftrightarrow> (\<exists>k. bit v (n + k))"
  by (rule bit_smear) simp_all

lemma bit_top:
  fixes v :: "'a::len word"
  assumes "2 ^ m \<le> unat v" "unat v < 2 ^ Suc m"
  shows "bit v m" "m < n \<Longrightarrow> \<not> bit v n"
proof -
  have "unat v div 2 ^ m = 1"
    using assms by (intro div_nat_eqI) auto
  then show "bit v m" by (simp add: bit_unat_iff)
  assume "m < n"
  then have "(2::nat) ^ Suc m \<le> 2 ^ n" by (intro power_increasing) auto
  with assms(2) have "unat v div 2 ^ n = 0" by simp
  then show "\<not> bit v n" by (simp add: bit_unat_iff)
qed

lemma smear_mask:
  fixes v :: "'a::len word"
  assumes "2 ^ m \<le> unat v" "unat v < 2 ^ Suc m"
  shows "smear 1 v = mask (Suc m)"
proof (rule bit_word_eqI)
  fix n assume n: "n < LENGTH('a)"
  have "(\<exists>k. bit v (n + k)) \<longleftrightarrow> n \<le> m"
    using bit_top [OF assms] by (metis le_add_diff_inverse leI less_le_trans le_add1)
  with n show "bit (smear 1 v) n \<longleftrightarrow> bit (mask (Suc m) :: 'a word) n"
    by (simp add: bit_smear_1 [simplified] bit_mask_iff less_Suc_eq_le)
qed

lemma next_power_of_two_exact:
  fixes v :: "'a::len word"
  assumes "2 ^ m < unat v" "unat v \<le> 2 ^ Suc m" "Suc m < LENGTH('a)"
  shows "unat (next_power_of_two v) = 2 ^ Suc m"
proof -
  have "v \<noteq> 0" using assms(1) by auto
  then have u: "unat (v - 1) = unat v - 1"
    by (simp add: unat_minus_one)
  have "smear 1 (v - 1) = mask (Suc m)"
    using assms u by (intro smear_mask) auto
  then have "next_power_of_two v = 2 ^ Suc m"
    by (simp add: next_power_of_two_def mask_eq_decr_exp)
  then show ?thesis using assms(3) by (simp only: unat_2p)
qed

lemma next_power_of_two_0 [simp]: "next_power_of_two (0 :: 'a::len word) = 0"
proof -
  have "smear 1 (- 1 :: 'a word) = - 1"
    by (rule bit_word_eqI) (auto simp: bit_smear_1 simp del: One_nat_def intro: exI [of _ 0])
  then show ?thesis by (simp add: next_power_of_two_def)
qed

lemma unat_round_up:
  assumes "m \<noteq> 0" "unat v + unat m \<le> 2 ^ LENGTH('a)"
  shows "unat (round_up_to_multiple v (m :: 'a::len word)) = (unat v + unat m - 1) div unat m * unat m"
proof -
  have m: "0 < unat m" using assms(1) by (simp add: unat_gt_0)
  have "unat (v + (m - 1)) = unat v + (unat m - 1)"
    using assms m by (subst unat_add_small) (auto simp: unat_minus_one)
  then have s: "unat (v + m - 1) = unat v + unat m - 1"
    using m by (simp add: algebra_simps)
  have "(unat v + unat m - 1) div unat m * unat m \<le> unat v + unat m - 1"
    by (rule div_times_less_eq_dividend)
  then have "(unat v + unat m - 1) div unat m * unat m < 2 ^ LENGTH('a)"
    using assms(2) m by linarith
  then show ?thesis
    using assms(1) s by (simp add: round_up_to_multiple_def unat_mult_small)
qed

lemma round_up_bounds:
  assumes "m \<noteq> 0" "unat v + unat m \<le> 2 ^ LENGTH('a)"
  defines "r \<equiv> round_up_to_multiple v (m :: 'a::len word)"
  shows "unat m dvd unat r \<and> unat v \<le> unat r \<and> unat r < unat v + unat m"
proof -
  have m: "0 < unat m" using assms(1) by (simp add: unat_gt_0)
  have r: "unat r = (unat v + unat m - 1) div unat m * unat m"
    unfolding r_def by (rule unat_round_up [OF assms(1,2)])
  have "(unat v + unat m - 1) mod unat m < unat m"
    using m by (rule mod_less_divisor)
  moreover have "unat r + (unat v + unat m - 1) mod unat m = unat v + unat m - 1"
    unfolding r by simp
  moreover have "unat m dvd unat r" unfolding r by simp
  ultimately show ?thesis using m by linarith
qed

section \<open>Rounding and powers of two\<close>

lemma smear_zero [simp]: "smear i 0 = 0"
proof (induction i "0 :: 'a word" rule: smear.induct)
  case (1 i)
  then show ?case by (cases "0 < i \<and> i < LENGTH('a)") (auto simp: smear.simps [of i])
qed

lemma and_not_mask_div: "v AND NOT (mask k) = v div 2 ^ k * (2 ^ k :: 'a::len word)"
proof -
  have "v AND NOT (mask k) = push_bit k (drop_bit k v)"
    by (rule bit_word_eqI) (auto simp: bit_and_iff bit_not_iff bit_mask_iff bit_push_bit_iff bit_drop_bit_eq)
  then show ?thesis by (simp add: push_bit_eq_mult drop_bit_eq_div)
qed

lemma round_down_power_eq_multiple:
  "k < LENGTH('a) \<Longrightarrow> round_down_to_power_of_two v (2 ^ k) = round_down_to_multiple v (2 ^ k :: 'a::len word)"
  by (simp add: round_down_to_power_of_two_def round_down_to_multiple_def and_not_mask_div
      flip: mask_eq_decr_exp)

lemma round_up_power_eq_multiple:
  assumes k: "k < LENGTH('a)" and small: "unat v + 2 ^ k \<le> 2 ^ LENGTH('a)"
  shows "round_up_to_power_of_two v (2 ^ k) = round_up_to_multiple v (2 ^ k :: 'a::len word)"
proof (cases "v = 0")
  case True
  have "(- 1 :: 'a word) AND NOT (mask k) = - (2 ^ k)"
    by (simp add: minus_exp_eq_not_mask)
  moreover have "(2 ^ k - 1 :: 'a word) div 2 ^ k = 0"
    using k by (simp add: word_eq_iff_unsigned div_eq_0_iff unat_2p unat_minus_one flip: unat_0_iff)
  ultimately show ?thesis using True k
    by (simp add: round_up_to_power_of_two_def round_up_to_multiple_def flip: mask_eq_decr_exp)
next
  case False
  have m: "unat (2 ^ k :: 'a word) = 2 ^ k" using k by (rule unat_2p)
  have nz: "(2 ^ k :: 'a word) \<noteq> 0" using k by simp
  have v: "unat (v - 1) = unat v - 1" using False by (simp add: unat_minus_one)
  have q: "(v - 1) div 2 ^ k * 2 ^ k + 2 ^ k = ((v - 1) div 2 ^ k + 1) * (2 ^ k :: 'a word)"
    by (simp add: distrib_right)
  have "(v + 2 ^ k - 1) div 2 ^ k = (v - 1) div 2 ^ k + (1 :: 'a word)"
  proof -
    have pos: "0 < unat v" using False by (simp add: unat_gt_0)
    have "unat ((v - 1) + 2 ^ k) = unat v - 1 + 2 ^ k"
      using small pos v m by (subst unat_add_small) auto
    then have l: "unat (v + 2 ^ k - 1) = unat v - 1 + 2 ^ k"
      by (simp add: algebra_simps)
    have "(unat v - 1) div 2 ^ k \<le> unat v - 1" by (rule div_le_dividend)
    then have "(unat v - 1) div 2 ^ k + 1 < 2 ^ LENGTH('a)"
      using unat_bound [of v] pos by linarith
    then have "unat ((v - 1) div 2 ^ k + 1) = (unat v - 1) div 2 ^ k + 1"
      using v m by (subst unat_add_small) simp_all
    then show ?thesis using l m by (simp add: word_unat_eq_iff div_add_self2)
  qed
  then show ?thesis using nz q
    by (simp add: round_up_to_power_of_two_def round_up_to_multiple_def and_not_mask_div flip: mask_eq_decr_exp)
qed
lemma next_power_least:
  fixes v :: "'a::len word"
  assumes "0 < unat v" and "unat v \<le> 2 ^ (LENGTH('a) - 1)"
  shows "\<exists>j < LENGTH('a). unat (next_power_of_two v) = 2 ^ j \<and> unat v \<le> 2 ^ j
           \<and> (\<forall>i. unat v \<le> 2 ^ i \<longrightarrow> j \<le> i)"
proof (cases "unat v = 1")
  case True
  then have "v = 1" by (simp add: word_unat_eq_iff)
  then have "next_power_of_two v = 1"
    by (simp add: next_power_of_two_def)
  with True show ?thesis by (intro exI [of _ 0]) simp
next
  case False
  define j where "j = (LEAST i. unat v \<le> 2 ^ i)"
  have le: "unat v \<le> 2 ^ j" unfolding j_def using assms(2) by (rule LeastI)
  have least: "j \<le> i" if "unat v \<le> 2 ^ i" for i unfolding j_def using that by (rule Least_le)
  have "j \<noteq> 0" using le False assms(1) by (cases j) auto
  then obtain m where m: "j = Suc m" using not0_implies_Suc by blast
  have "2 ^ m < unat v" using least [of m] m by (meson not_less Suc_n_not_le_n)
  moreover have "j \<le> LENGTH('a) - 1" using assms(2) by (rule least)
  ultimately show ?thesis
    using le least m next_power_of_two_exact [of m v] by (intro exI [of _ j]) auto
qed

text \<open>
  For every value up to half the range, \<open>next_power_of_two\<close> returns the least power of two
  that is not below the value.
\<close>

theorem next_power_of_two_least:
  fixes v :: "'a::len word"
  assumes "0 < unat v" and "unat v \<le> 2 ^ (LENGTH('a) - 1)"
  shows "\<exists>j < LENGTH('a). unat (next_power_of_two v) = 2 ^ j \<and> unat v \<le> 2 ^ j
           \<and> (\<forall>i. unat v \<le> 2 ^ i \<longrightarrow> j \<le> i)"
  using assms by (rule next_power_least)

text \<open>Witness of C1 at the 32-bit value 1000.\<close>

theorem next_power_of_two_least_witness:
  "\<exists>j < LENGTH(32). unat (next_power_of_two (1000 :: u32)) = 2 ^ j \<and> unat (1000 :: u32) \<le> 2 ^ j
     \<and> (\<forall>i. unat (1000 :: u32) \<le> 2 ^ i \<longrightarrow> j \<le> i)"
  by (rule next_power_of_two_least) simp_all

end
