(* ===== verification/AVLTree.thy ===== *)
theory AVLTree
  imports Prelude
begin

text \<open>
  \<open>include/libk/AVLTree.hpp\<close>: the balanced search tree that holds the memory regions of an address
  space and the blocks of the file system cache. Nodes are objects in a heap and refer to each
  other by pointers, with a pointer to the parent, as in the source; the tree that the pointers
  spell out is a ghost value used in the proofs only.

  The values are compared by a key: both instances of the template in the kernel compare one
  member or a lexicographic pair of members (\<open>memory_region_t\<close> by its virtual address, \<open>fs_block_t\<close>
  by device and block), and their \<open>operator==\<close> compares the same members.
\<close>

section \<open>Nodes and trees\<close>

record 'a node_t =
  nvalue :: 'a
  height :: int
  parent :: ptr
  left :: ptr
  right :: ptr

type_synonym 'a nheap = "addr \<rightharpoonup> 'a node_t"

record 'a avl =
  nodes :: "'a nheap"
  m_tree :: ptr

definition empty_avl :: "'a avl" where
  "empty_avl = \<lparr>nodes = Map.empty, m_tree = None\<rparr>"

section \<open>Heights and rotations\<close>

definition child_height :: "'a nheap \<Rightarrow> ptr \<Rightarrow> int kres" where
  "child_height h p = (if p = None then Inr 0 else kbind (deref h p) (\<lambda>n. Inr (height n)))"

definition update_height :: "'a nheap \<Rightarrow> ptr \<Rightarrow> 'a nheap kres" where
  "update_height h root =
     kbind (deref h root) (\<lambda>r.
     kbind (child_height h (left r)) (\<lambda>lh.
     kbind (child_height h (right r)) (\<lambda>rh.
     store h root (height_update (\<lambda>_. max lh rh + 1)))))"

definition get_balance_factor :: "'a nheap \<Rightarrow> ptr \<Rightarrow> int kres" where
  "get_balance_factor h root =
     kbind (deref h root) (\<lambda>r.
     kbind (child_height h (left r)) (\<lambda>lh.
     kbind (child_height h (right r)) (\<lambda>rh.
     Inr (rh - lh))))"

definition replace_child :: "'a nheap \<Rightarrow> ptr \<Rightarrow> ptr \<Rightarrow> ptr \<Rightarrow> 'a nheap kres" where
  \<comment> \<open>\<open>if (par->left == old) par->left = new; else par->right = new;\<close>\<close>
  "replace_child h par old new =
     kbind (deref h par) (\<lambda>p.
     if left p = old then store h par (left_update (\<lambda>_. new))
     else store h par (right_update (\<lambda>_. new)))"

definition rotate_right :: "'a nheap \<Rightarrow> ptr \<Rightarrow> ('a nheap \<times> ptr) kres" where
  "rotate_right h root =
     kbind (deref h root) (\<lambda>r. let child = left r in
     kbind (deref h child) (\<lambda>c. let middle = right c in
     kbind (store h root (left_update (\<lambda>_. middle))) (\<lambda>h.
     kbind (store h child (right_update (\<lambda>_. root))) (\<lambda>h.
     kbind (if middle \<noteq> None then store h middle (parent_update (\<lambda>_. root)) else Inr h) (\<lambda>h.
     kbind (deref h root) (\<lambda>r.
     kbind (if parent r \<noteq> None then replace_child h (parent r) root child else Inr h) (\<lambda>h.
     kbind (store h child (parent_update (\<lambda>_. parent r))) (\<lambda>h.
     kbind (store h root (parent_update (\<lambda>_. child))) (\<lambda>h.
     kbind (update_height h root) (\<lambda>h.
     kbind (update_height h child) (\<lambda>h.
     Inr (h, child))))))))))))"

definition rotate_left :: "'a nheap \<Rightarrow> ptr \<Rightarrow> ('a nheap \<times> ptr) kres" where
  "rotate_left h root =
     kbind (deref h root) (\<lambda>r. let child = right r in
     kbind (deref h child) (\<lambda>c. let middle = left c in
     kbind (store h root (right_update (\<lambda>_. middle))) (\<lambda>h.
     kbind (store h child (left_update (\<lambda>_. root))) (\<lambda>h.
     kbind (if middle \<noteq> None then store h middle (parent_update (\<lambda>_. root)) else Inr h) (\<lambda>h.
     kbind (deref h root) (\<lambda>r.
     kbind (if parent r \<noteq> None then replace_child h (parent r) root child else Inr h) (\<lambda>h.
     kbind (store h child (parent_update (\<lambda>_. parent r))) (\<lambda>h.
     kbind (store h root (parent_update (\<lambda>_. child))) (\<lambda>h.
     kbind (update_height h root) (\<lambda>h.
     kbind (update_height h child) (\<lambda>h.
     Inr (h, child))))))))))))"

definition rotate_right_left :: "'a nheap \<Rightarrow> ptr \<Rightarrow> ('a nheap \<times> ptr) kres" where
  "rotate_right_left h root =
     kbind (deref h root) (\<lambda>r.
     kbind (rotate_right h (right r)) (\<lambda>(h, c).
     kbind (store h root (right_update (\<lambda>_. c))) (\<lambda>h.
     rotate_left h root)))"

definition rotate_left_right :: "'a nheap \<Rightarrow> ptr \<Rightarrow> ('a nheap \<times> ptr) kres" where
  "rotate_left_right h root =
     kbind (deref h root) (\<lambda>r.
     kbind (rotate_left h (left r)) (\<lambda>(h, c).
     kbind (store h root (left_update (\<lambda>_. c))) (\<lambda>h.
     rotate_right h root)))"

text \<open>The body of the loop of \<open>rebalance\<close> up to the test of the parent.\<close>

definition rebalance_step :: "'a nheap \<Rightarrow> ptr \<Rightarrow> ('a nheap \<times> ptr) kres" where
  "rebalance_step h node =
     kbind (update_height h node) (\<lambda>h.
     kbind (get_balance_factor h node) (\<lambda>bf.
     if bf < -1 then
       kbind (deref h node) (\<lambda>n.
       kbind (get_balance_factor h (left n)) (\<lambda>lbf.
       if lbf \<le> -1 then rotate_right h node else rotate_left_right h node))
     else if bf > 1 then
       kbind (deref h node) (\<lambda>n.
       kbind (get_balance_factor h (right n)) (\<lambda>rbf.
       if rbf \<ge> 1 then rotate_left h node else rotate_right_left h node))
     else Inr (h, node)))"

partial_function (option) rebalance :: "'a nheap \<Rightarrow> ptr \<Rightarrow> ptr \<Rightarrow> ('a nheap \<times> ptr) kres option" where
  "rebalance h root node =
     (case node of None \<Rightarrow> Some (Inr (h, root))
      | Some _ \<Rightarrow>
        (case rebalance_step h node of Inl e \<Rightarrow> Some (Inl e)
         | Inr r \<Rightarrow>
           (case deref (fst r) (snd r) of Inl e \<Rightarrow> Some (Inl e)
            | Inr n \<Rightarrow> rebalance (fst r) (if parent n = None then snd r else root) (parent n))))"

section \<open>Searching\<close>

partial_function (option) find_loop ::
  "('a \<Rightarrow> 'k::linorder) \<Rightarrow> 'k \<Rightarrow> 'a nheap \<Rightarrow> ptr \<Rightarrow> ptr kres option" where
  "find_loop key k h current =
     (case current of None \<Rightarrow> Some (Inr None)
      | Some _ \<Rightarrow>
        (case deref h current of Inl e \<Rightarrow> Some (Inl e)
         | Inr c \<Rightarrow>
           if key (nvalue c) = k then Some (Inr current)
           else if key (nvalue c) < k then find_loop key k h (right c)
           else find_loop key k h (left c)))"

definition find_node :: "('a \<Rightarrow> 'k::linorder) \<Rightarrow> 'a \<Rightarrow> 'a avl \<Rightarrow> ptr kres option" where
  "find_node key v t = find_loop key (key v) (nodes t) (m_tree t)"

partial_function (option) find_loop_by :: "('a \<Rightarrow> int) \<Rightarrow> 'a nheap \<Rightarrow> ptr \<Rightarrow> ptr kres option" where
  "find_loop_by comparator h current =
     (case current of None \<Rightarrow> Some (Inr None)
      | Some _ \<Rightarrow>
        (case deref h current of Inl e \<Rightarrow> Some (Inl e)
         | Inr c \<Rightarrow>
           if comparator (nvalue c) = 0 then Some (Inr current)
           else if comparator (nvalue c) < 0 then find_loop_by comparator h (right c)
           else find_loop_by comparator h (left c)))"

definition find_node_by :: "('a \<Rightarrow> int) \<Rightarrow> 'a avl \<Rightarrow> ptr kres option" where
  "find_node_by comparator t = find_loop_by comparator (nodes t) (m_tree t)"

text \<open>\<open>find\<close> returns a pointer to the value of the node; the model returns the value.\<close>

definition value_at :: "'a avl \<Rightarrow> ptr kres option \<Rightarrow> 'a option kres option" where
  "value_at t r = (case r of None \<Rightarrow> None
     | Some (Inl e) \<Rightarrow> Some (Inl e)
     | Some (Inr None) \<Rightarrow> Some (Inr None)
     | Some (Inr (Some a)) \<Rightarrow> Some (kbind (deref (nodes t) (Some a)) (\<lambda>n. Inr (Some (nvalue n)))))"

definition avl_find :: "('a \<Rightarrow> 'k::linorder) \<Rightarrow> 'a \<Rightarrow> 'a avl \<Rightarrow> 'a option kres option" where
  "avl_find key v t = value_at t (find_node key v t)"

definition avl_find_by :: "('a \<Rightarrow> int) \<Rightarrow> 'a avl \<Rightarrow> 'a option kres option" where
  "avl_find_by comparator t = value_at t (find_node_by comparator t)"

section \<open>Insertion\<close>

partial_function (option) descend ::
  "('a \<Rightarrow> 'k::linorder) \<Rightarrow> 'k \<Rightarrow> 'a nheap \<Rightarrow> ptr \<Rightarrow> ptr \<Rightarrow> ptr kres option" where
  "descend key k h current par =
     (case current of None \<Rightarrow> Some (Inr par)
      | Some _ \<Rightarrow>
        (case deref h current of Inl e \<Rightarrow> Some (Inl e)
         | Inr c \<Rightarrow>
           if k < key (nvalue c) then descend key k h (left c) current
           else if key (nvalue c) < k then descend key k h (right c) current
           else Some (Inl AssertFail)))"

definition link_new :: "('a \<Rightarrow> 'k::linorder) \<Rightarrow> 'k \<Rightarrow> 'a nheap \<Rightarrow> ptr \<Rightarrow> ptr \<Rightarrow> ptr \<Rightarrow> ('a nheap \<times> ptr) kres" where
  "link_new key k h root par node =
     kbind (store h node (parent_update (\<lambda>_. par))) (\<lambda>h.
     if par \<noteq> None then
       kbind (deref h par) (\<lambda>p.
       kbind (if k < key (nvalue p) then store h par (left_update (\<lambda>_. node))
              else store h par (right_update (\<lambda>_. node))) (\<lambda>h.
       Inr (h, root)))
     else Inr (h, node))"

text \<open>The node was allocated by \<open>operator new\<close> at address \<open>a\<close>.\<close>

definition avl_insert :: "('a \<Rightarrow> 'k::linorder) \<Rightarrow> addr \<Rightarrow> 'a \<Rightarrow> 'a avl \<Rightarrow> 'a avl kres option" where
  "avl_insert key a v t =
     (let h = (nodes t)(a \<mapsto> \<lparr>nvalue = v, height = 1, parent = None, left = None, right = None\<rparr>) in
      case descend key (key v) h (m_tree t) None of
        None \<Rightarrow> None
      | Some (Inl e) \<Rightarrow> Some (Inl e)
      | Some (Inr par) \<Rightarrow>
        (case link_new key (key v) h (m_tree t) par (Some a) of
           Inl e \<Rightarrow> Some (Inl e)
         | Inr (h, root) \<Rightarrow>
           (case rebalance h root (Some a) of
              None \<Rightarrow> None
            | Some (Inl e) \<Rightarrow> Some (Inl e)
            | Some (Inr (h, root)) \<Rightarrow> Some (Inr \<lparr>nodes = h, m_tree = root\<rparr>))))"

section \<open>Removal\<close>

text \<open>\<open>while (successor->left) successor = successor->left;\<close>\<close>

partial_function (option) leftmost :: "'a nheap \<Rightarrow> ptr \<Rightarrow> ptr kres option" where
  "leftmost h p =
     (case deref h p of Inl e \<Rightarrow> Some (Inl e)
      | Inr n \<Rightarrow> if left n \<noteq> None then leftmost h (left n) else Some (Inr p))"

text \<open>
  The node has two children and \<open>succ\<close> is its in-order successor: it is taken out of the right
  subtree, then put in the place of the node.
\<close>

definition splice_succ :: "'a nheap \<Rightarrow> addr \<Rightarrow> ptr \<Rightarrow> 'a nheap kres" where
  "splice_succ h node succ =
     kbind (deref h succ) (\<lambda>s.
     if parent s \<noteq> Some node then
       kbind (store h (parent s) (left_update (\<lambda>_. right s))) (\<lambda>h.
       if right s \<noteq> None then store h (right s) (parent_update (\<lambda>_. parent s)) else Inr h)
     else store h (Some node) (right_update (\<lambda>_. right s)))"

definition take_place :: "'a nheap \<Rightarrow> addr \<Rightarrow> ptr \<Rightarrow> 'a nheap kres" where
  "take_place h node succ =
     kbind (deref h (Some node)) (\<lambda>n.
     kbind (store h succ (left_update (\<lambda>_. left n))) (\<lambda>h.
     kbind (deref h (Some node)) (\<lambda>n.
     kbind (store h (left n) (parent_update (\<lambda>_. succ))) (\<lambda>h.
     kbind (deref h (Some node)) (\<lambda>n.
     kbind (store h succ (right_update (\<lambda>_. right n))) (\<lambda>h.
     kbind (deref h (Some node)) (\<lambda>n.
     kbind (if right n \<noteq> None then store h (right n) (parent_update (\<lambda>_. succ)) else Inr h) (\<lambda>h.
     kbind (deref h (Some node)) (\<lambda>n.
     kbind (store h succ (parent_update (\<lambda>_. parent n))) (\<lambda>h.
     kbind (deref h (Some node)) (\<lambda>n.
     kbind (replace_child h (parent n) (Some node) succ) (\<lambda>h.
     Inr (h(node := None))))))))))))))"

definition unlink_two :: "'a nheap \<Rightarrow> addr \<Rightarrow> ptr \<Rightarrow> ('a nheap \<times> ptr) kres" where
  "unlink_two h node succ =
     kbind (splice_succ h node succ) (\<lambda>h.
     kbind (deref h succ) (\<lambda>s. let new_node = (if parent s = Some node then succ else parent s) in
     kbind (take_place h node succ) (\<lambda>h.
     Inr (h, new_node))))"

text \<open>The node has at most one child.\<close>

definition unlink_one :: "'a nheap \<Rightarrow> addr \<Rightarrow> ('a nheap \<times> ptr) kres" where
  "unlink_one h node =
     kbind (deref h (Some node)) (\<lambda>n.
     let nxt = (if left n \<noteq> None then left n else right n) in
     kbind (if nxt \<noteq> None then store h nxt (parent_update (\<lambda>_. parent n)) else Inr h) (\<lambda>h.
     kbind (if parent n \<noteq> None then replace_child h (parent n) (Some node) nxt else Inr h) (\<lambda>h.
     Inr (h(node := None), nxt))))"

definition finish_remove :: "ptr \<Rightarrow> ptr \<Rightarrow> ('a nheap \<times> ptr) kres \<Rightarrow> ('a avl \<times> bool) kres option" where
  "finish_remove root par r =
     (case r of Inl e \<Rightarrow> Some (Inl e)
      | Inr (h, node) \<Rightarrow>
        if node = None \<and> par = None then Some (Inr (\<lparr>nodes = h, m_tree = None\<rparr>, True))
        else (case rebalance h root (if node \<noteq> None then node else par) of
                None \<Rightarrow> None
              | Some (Inl e) \<Rightarrow> Some (Inl e)
              | Some (Inr (h, root)) \<Rightarrow> Some (Inr (\<lparr>nodes = h, m_tree = root\<rparr>, True))))"

definition remove_node :: "ptr \<Rightarrow> 'a avl \<Rightarrow> ('a avl \<times> bool) kres option" where
  "remove_node node t =
     (case node of None \<Rightarrow> Some (Inr (t, False))
      | Some a \<Rightarrow>
        (case deref (nodes t) node of Inl e \<Rightarrow> Some (Inl e)
         | Inr n \<Rightarrow>
           if left n \<noteq> None \<and> right n \<noteq> None then
             (case leftmost (nodes t) (right n) of
                None \<Rightarrow> None
              | Some (Inl e) \<Rightarrow> Some (Inl e)
              | Some (Inr succ) \<Rightarrow> finish_remove (m_tree t) (parent n) (unlink_two (nodes t) a succ))
           else finish_remove (m_tree t) (parent n) (unlink_one (nodes t) a)))"

definition avl_remove :: "('a \<Rightarrow> 'k::linorder) \<Rightarrow> 'a \<Rightarrow> 'a avl \<Rightarrow> ('a avl \<times> bool) kres option" where
  "avl_remove key v t =
     (case find_node key v t of
        None \<Rightarrow> None
      | Some (Inl e) \<Rightarrow> Some (Inl e)
      | Some (Inr node) \<Rightarrow> remove_node node t)"

section \<open>Traversal\<close>

text \<open>
  The callback returns whether to go on; what it captures by reference is a state that it is given
  and returns. The stack of \<open>LibK::stack\<close> is a list with its top at the head.
\<close>

partial_function (option) traverse_loop ::
  "('s \<Rightarrow> 'a \<Rightarrow> bool \<times> 's) \<Rightarrow> 'a nheap \<Rightarrow> ptr list \<Rightarrow> ptr \<Rightarrow> 's \<Rightarrow> 's kres option" where
  "traverse_loop cb h stack node s =
     (case node of
        Some a \<Rightarrow>
          (case deref h node of Inl e \<Rightarrow> Some (Inl e)
           | Inr n \<Rightarrow> traverse_loop cb h (node # stack) (left n) s)
      | None \<Rightarrow>
          (case stack of [] \<Rightarrow> Some (Inr s)
           | t # rest \<Rightarrow>
             (case deref h t of Inl e \<Rightarrow> Some (Inl e)
              | Inr n \<Rightarrow>
                if fst (cb s (nvalue n)) then traverse_loop cb h rest (right n) (snd (cb s (nvalue n)))
                else Some (Inr (snd (cb s (nvalue n)))))))"

definition avl_traverse :: "('s \<Rightarrow> 'a \<Rightarrow> bool \<times> 's) \<Rightarrow> 'a avl \<Rightarrow> 's \<Rightarrow> 's kres option" where
  "avl_traverse cb t s = traverse_loop cb (nodes t) [] (m_tree t) s"

declare rebalance.simps [code] find_loop.simps [code] find_loop_by.simps [code] descend.simps [code]
  leftmost.simps [code] traverse_loop.simps [code]

end
