(* ===== verification/AVLProofs.thy ===== *)
theory AVLProofs
  imports AVLTree
begin

text \<open>
  The tree of \<open>AVLTree.hpp\<close> refines a functional search tree. A ghost tree \<open>gtree\<close> names the address,
  value and stored height of every node; \<open>in_heap\<close> says that the pointers in the heap spell it out.
  A context (a list of \<open>frame\<close>s, the path to the root) lets a rotation in the middle of the tree be
  described by what it does to the subtree alone.
\<close>

section \<open>Ghost trees and contexts\<close>

datatype 'a gtree = Lf | Nd "'a gtree" addr 'a int "'a gtree"

datatype 'a frame = FL addr 'a int "'a gtree" | FR "'a gtree" addr 'a int

fun gptr :: "'a gtree \<Rightarrow> ptr" where
  "gptr Lf = None"
| "gptr (Nd l a v n r) = Some a"

fun ht :: "'a gtree \<Rightarrow> int" where
  "ht Lf = 0"
| "ht (Nd l a v n r) = n"

fun addrs :: "'a gtree \<Rightarrow> addr list" where
  "addrs Lf = []"
| "addrs (Nd l a v n r) = addrs l @ a # addrs r"

fun elems :: "'a gtree \<Rightarrow> 'a list" where
  "elems Lf = []"
| "elems (Nd l a v n r) = elems l @ v # elems r"

fun in_heap :: "'a nheap \<Rightarrow> ptr \<Rightarrow> 'a gtree \<Rightarrow> bool" where
  "in_heap h p Lf \<longleftrightarrow> True"
| "in_heap h p (Nd l a v n r) \<longleftrightarrow>
     h a = Some \<lparr>nvalue = v, height = n, parent = p, left = gptr l, right = gptr r\<rparr> \<and>
     in_heap h (Some a) l \<and> in_heap h (Some a) r"

fun plug :: "'a frame list \<Rightarrow> 'a gtree \<Rightarrow> 'a gtree" where
  "plug [] t = t"
| "plug (FL a v n r # c) t = plug c (Nd t a v n r)"
| "plug (FR l a v n # c) t = plug c (Nd l a v n t)"

fun ctx_parent :: "'a frame list \<Rightarrow> ptr" where
  "ctx_parent [] = None"
| "ctx_parent (FL a v n r # c) = Some a"
| "ctx_parent (FR l a v n # c) = Some a"

fun ctx_in_heap :: "'a nheap \<Rightarrow> ptr \<Rightarrow> 'a frame list \<Rightarrow> bool" where
  "ctx_in_heap h p [] \<longleftrightarrow> True"
| "ctx_in_heap h p (FL a v n r # c) \<longleftrightarrow>
     h a = Some \<lparr>nvalue = v, height = n, parent = ctx_parent c, left = p, right = gptr r\<rparr> \<and>
     in_heap h (Some a) r \<and> ctx_in_heap h (Some a) c"
| "ctx_in_heap h p (FR l a v n # c) \<longleftrightarrow>
     h a = Some \<lparr>nvalue = v, height = n, parent = ctx_parent c, left = gptr l, right = p\<rparr> \<and>
     in_heap h (Some a) l \<and> ctx_in_heap h (Some a) c"

fun ctx_addrs :: "'a frame list \<Rightarrow> addr set" where
  "ctx_addrs [] = {}"
| "ctx_addrs (FL a v n r # c) = insert a (set (addrs r) \<union> ctx_addrs c)"
| "ctx_addrs (FR l a v n # c) = insert a (set (addrs l) \<union> ctx_addrs c)"

fun ctx_distinct :: "'a frame list \<Rightarrow> bool" where
  "ctx_distinct [] \<longleftrightarrow> True"
| "ctx_distinct (FL a v n r # c) \<longleftrightarrow> distinct (addrs r) \<and> a \<notin> set (addrs r) \<and> a \<notin> ctx_addrs c \<and>
     set (addrs r) \<inter> ctx_addrs c = {} \<and> ctx_distinct c"
| "ctx_distinct (FR l a v n # c) \<longleftrightarrow> distinct (addrs l) \<and> a \<notin> set (addrs l) \<and> a \<notin> ctx_addrs c \<and>
     set (addrs l) \<inter> ctx_addrs c = {} \<and> ctx_distinct c"

lemma in_heap_plug:
  "in_heap h None (plug c t) \<longleftrightarrow> in_heap h (ctx_parent c) t \<and> ctx_in_heap h (gptr t) c"
  by (induction c t rule: plug.induct) auto

lemma set_addrs_plug: "set (addrs (plug c t)) = set (addrs t) \<union> ctx_addrs c"
  by (induction c t rule: plug.induct) auto

lemma distinct_plug:
  "distinct (addrs (plug c t)) \<longleftrightarrow>
     distinct (addrs t) \<and> ctx_distinct c \<and> set (addrs t) \<inter> ctx_addrs c = {}"
  by (induction c t rule: plug.induct) (auto simp: set_addrs_plug)

lemma gptr_in_addrs: "gptr t = Some a \<Longrightarrow> a \<in> set (addrs t)"
  by (cases t) auto

lemma gptr_None [simp]: "gptr t = None \<longleftrightarrow> t = Lf"
  by (cases t) auto

lemma ctx_parent_in_addrs: "ctx_parent c = Some a \<Longrightarrow> a \<in> ctx_addrs c"
  by (cases c rule: ctx_parent.cases) auto

lemma in_heap_frame [simp]: "b \<notin> set (addrs t) \<Longrightarrow> in_heap (h(b := x)) p t = in_heap h p t"
  by (induction t arbitrary: p) auto

lemma ctx_in_heap_frame [simp]: "b \<notin> ctx_addrs c \<Longrightarrow> ctx_in_heap (h(b := x)) p c = ctx_in_heap h p c"
  by (induction c arbitrary: p rule: ctx_addrs.induct) auto

lemma in_heap_dom: "in_heap h p t \<Longrightarrow> a \<in> set (addrs t) \<Longrightarrow> h a \<noteq> None"
  by (induction t arbitrary: p) auto

lemma child_height_None [simp]: "child_height h None = Inr 0"
  by (simp add: child_height_def)

lemma child_height_Some [simp]: "h a = Some n \<Longrightarrow> child_height h (Some a) = Inr (height n)"
  by (simp add: child_height_def)

lemma child_height_frame [simp]:
  "b \<notin> set (addrs t) \<Longrightarrow> child_height (h(b := x)) (gptr t) = child_height h (gptr t)"
  by (cases t) (auto simp: child_height_def deref_def)

lemma child_height_gptr: "in_heap h p t \<Longrightarrow> child_height h (gptr t) = Inr (ht t)"
  by (cases t) auto

section \<open>Rotations\<close>

definition mk :: "'a gtree \<Rightarrow> addr \<Rightarrow> 'a \<Rightarrow> 'a gtree \<Rightarrow> 'a gtree" where
  "mk l a v r = Nd l a v (max (ht l) (ht r) + 1) r"

lemma mk_simps [simp]:
  "gptr (mk l a v r) = Some a"
  "ht (mk l a v r) = max (ht l) (ht r) + 1"
  "addrs (mk l a v r) = addrs l @ a # addrs r"
  "elems (mk l a v r) = elems l @ v # elems r"
  "in_heap h p (mk l a v r) \<longleftrightarrow>
     h a = Some \<lparr>nvalue = v, height = max (ht l) (ht r) + 1, parent = p, left = gptr l, right = gptr r\<rparr> \<and>
     in_heap h (Some a) l \<and> in_heap h (Some a) r"
  "mk l a v r \<noteq> Lf"
  by (simp_all add: mk_def)

definition same_outside :: "addr set \<Rightarrow> 'a nheap \<Rightarrow> 'a nheap \<Rightarrow> bool" where
  "same_outside A h h' \<longleftrightarrow> (\<forall>x. x \<notin> A \<longrightarrow> h' x = h x)"

lemma same_outside_refl [simp]: "same_outside A h h"
  by (simp add: same_outside_def)

lemma same_outside_upd [simp]: "a \<in> A \<Longrightarrow> same_outside A h (h'(a := x)) = same_outside A h h'"
  by (auto simp: same_outside_def)

lemma same_outside_trans: "same_outside A h h' \<Longrightarrow> same_outside A h' h'' \<Longrightarrow> same_outside A h h''"
  by (simp add: same_outside_def)

text \<open>A focused tree: the subtree \<open>t\<close> under the path \<open>c\<close>, all nodes distinct.\<close>

definition focus :: "'a nheap \<Rightarrow> 'a frame list \<Rightarrow> 'a gtree \<Rightarrow> bool" where
  "focus h c t \<longleftrightarrow> in_heap h (ctx_parent c) t \<and> ctx_in_heap h (gptr t) c \<and> distinct (addrs (plug c t))"

lemmas rotate_defs = replace_child_def update_height_def Let_def

lemma rotate_right_refines:
  assumes "focus h c (Nd (Nd ll b w m lr) a v n r)"
  shows "\<exists>h'. rotate_right h (Some a) = Inr (h', Some b) \<and> focus h' c (mk ll b w (mk lr a v r)) \<and>
     same_outside (set (addrs (plug c (Nd (Nd ll b w m lr) a v n r)))) h h'"
proof -
  have ch: "child_height h (gptr ll) = Inr (ht ll)" "child_height h (gptr r) = Inr (ht r)"
    using assms by (auto simp: focus_def intro: child_height_gptr)
  show ?thesis
    using assms ch
    by (cases lr; cases c rule: ctx_parent.cases)
      (auto simp: focus_def rotate_right_def rotate_defs distinct_plug set_addrs_plug
        dest: gptr_in_addrs ctx_parent_in_addrs)
qed

lemma rotate_left_refines:
  assumes "focus h c (Nd l a v n (Nd rl b w m rr))"
  shows "\<exists>h'. rotate_left h (Some a) = Inr (h', Some b) \<and> focus h' c (mk (mk l a v rl) b w rr) \<and>
     same_outside (set (addrs (plug c (Nd l a v n (Nd rl b w m rr))))) h h'"
proof -
  have ch: "child_height h (gptr l) = Inr (ht l)" "child_height h (gptr rr) = Inr (ht rr)"
    using assms by (auto simp: focus_def intro: child_height_gptr)
  show ?thesis
    using assms ch
    by (cases rl; cases c rule: ctx_parent.cases)
      (auto simp: focus_def rotate_left_def rotate_defs distinct_plug set_addrs_plug
        dest: gptr_in_addrs ctx_parent_in_addrs)
qed

text \<open>Moving the focus between a node and its children.\<close>

lemma focus_down_left: "focus h c (Nd l a v n r) \<longleftrightarrow> focus h (FL a v n r # c) l"
  by (auto simp: focus_def)

lemma focus_down_right: "focus h c (Nd l a v n r) \<longleftrightarrow> focus h (FR l a v n # c) r"
  by (auto simp: focus_def)

lemma focus_node: "focus h c (Nd l a v n r) \<Longrightarrow>
  h a = Some \<lparr>nvalue = v, height = n, parent = ctx_parent c, left = gptr l, right = gptr r\<rparr>"
  by (simp add: focus_def)

lemma store_same: "h a = Some n \<Longrightarrow> f n = n \<Longrightarrow> store h (Some a) f = Inr h"
  by (simp add: fun_upd_idem)

lemma rotate_left_right_refines:
  assumes "focus h c (Nd (Nd ll b w m (Nd x d u k y)) a v n r)"
  shows "\<exists>h'. rotate_left_right h (Some a) = Inr (h', Some d) \<and>
     focus h' c (mk (mk ll b w x) d u (mk y a v r)) \<and>
     same_outside (set (addrs (plug c (Nd (Nd ll b w m (Nd x d u k y)) a v n r)))) h h'"
proof -
  let ?t = "Nd (mk (mk ll b w x) d u y) a v n r"
  obtain h1 where h1: "rotate_left h (Some b) = Inr (h1, Some d)" "focus h1 c ?t"
      "same_outside (set (addrs (plug c (Nd (Nd ll b w m (Nd x d u k y)) a v n r)))) h h1"
    using rotate_left_refines [OF assms [unfolded focus_down_left [of h c]]]
    by (auto simp: focus_down_left [symmetric])
  obtain h2 where h2: "rotate_right h1 (Some a) = Inr (h2, Some d)"
      "focus h2 c (mk (mk ll b w x) d u (mk y a v r))"
      "same_outside (set (addrs (plug c ?t))) h1 h2"
    using rotate_right_refines [OF h1(2) [unfolded mk_def [of _ d]]] by (auto simp: mk_def [of _ d])
  have "store h1 (Some a) (left_update (\<lambda>_. Some d)) = Inr h1"
    using focus_node [OF h1(2)] by (intro store_same) auto
  moreover have "same_outside (set (addrs (plug c (Nd (Nd ll b w m (Nd x d u k y)) a v n r)))) h h2"
    using h1(3) h2(3) by (auto simp: set_addrs_plug same_outside_def)
  ultimately show ?thesis
    using focus_node [OF assms] h1(1) h2 by (simp add: rotate_left_right_def)
qed

lemma rotate_right_left_refines:
  assumes "focus h c (Nd l a v n (Nd (Nd x d u k y) b w m rr))"
  shows "\<exists>h'. rotate_right_left h (Some a) = Inr (h', Some d) \<and>
     focus h' c (mk (mk l a v x) d u (mk y b w rr)) \<and>
     same_outside (set (addrs (plug c (Nd l a v n (Nd (Nd x d u k y) b w m rr))))) h h'"
proof -
  let ?t = "Nd l a v n (mk x d u (mk y b w rr))"
  obtain h1 where h1: "rotate_right h (Some b) = Inr (h1, Some d)" "focus h1 c ?t"
      "same_outside (set (addrs (plug c (Nd l a v n (Nd (Nd x d u k y) b w m rr))))) h h1"
    using rotate_right_refines [OF assms [unfolded focus_down_right [of h c]]]
    by (auto simp: focus_down_right [symmetric])
  obtain h2 where h2: "rotate_left h1 (Some a) = Inr (h2, Some d)"
      "focus h2 c (mk (mk l a v x) d u (mk y b w rr))"
      "same_outside (set (addrs (plug c ?t))) h1 h2"
    using rotate_left_refines [OF h1(2) [unfolded mk_def [of _ d]]] by (auto simp: mk_def [of _ d])
  have "store h1 (Some a) (right_update (\<lambda>_. Some d)) = Inr h1"
    using focus_node [OF h1(2)] by (intro store_same) auto
  moreover have "same_outside (set (addrs (plug c (Nd l a v n (Nd (Nd x d u k y) b w m rr))))) h h2"
    using h1(3) h2(3) by (auto simp: set_addrs_plug same_outside_def)
  ultimately show ?thesis
    using focus_node [OF assms] h1(1) h2 by (simp add: rotate_right_left_def)
qed

section \<open>Rebalancing\<close>

fun hts :: "'a gtree \<Rightarrow> bool" where
  "hts Lf \<longleftrightarrow> True"
| "hts (Nd l a v n r) \<longleftrightarrow> n = max (ht l) (ht r) + 1 \<and> hts l \<and> hts r"

fun ctx_hts :: "'a frame list \<Rightarrow> bool" where
  "ctx_hts [] \<longleftrightarrow> True"
| "ctx_hts (FL a v n r # c) \<longleftrightarrow> hts r \<and> ctx_hts c"
| "ctx_hts (FR l a v n # c) \<longleftrightarrow> hts l \<and> ctx_hts c"

lemma hts_mk [simp]: "hts (mk l a v r) \<longleftrightarrow> hts l \<and> hts r"
  by (simp add: mk_def)

lemma hts_nonneg: "hts t \<Longrightarrow> 0 \<le> ht t"
  by (induction t) auto

lemma hts_pos: "hts t \<Longrightarrow> 0 < ht t \<longleftrightarrow> t \<noteq> Lf"
  using hts_nonneg by (cases t) fastforce+

lemma ctx_hts_plug: "hts (plug c t) \<Longrightarrow> hts t \<and> ctx_hts c"
  by (induction c t rule: plug.induct) auto

text \<open>What one turn of the loop makes of a node with subtrees \<open>l\<close> and \<open>r\<close>.\<close>

definition bal :: "'a gtree \<Rightarrow> addr \<Rightarrow> 'a \<Rightarrow> 'a gtree \<Rightarrow> 'a gtree" where
  "bal l a v r =
     (if ht r - ht l < -1 then
        (case l of Nd ll b w _ lr \<Rightarrow>
           if ht lr - ht ll \<le> -1 then mk ll b w (mk lr a v r)
           else (case lr of Nd x d u _ y \<Rightarrow> mk (mk ll b w x) d u (mk y a v r) | Lf \<Rightarrow> mk l a v r)
         | Lf \<Rightarrow> mk l a v r)
      else if ht r - ht l > 1 then
        (case r of Nd rl b w _ rr \<Rightarrow>
           if ht rr - ht rl \<ge> 1 then mk (mk l a v rl) b w rr
           else (case rl of Nd x d u _ y \<Rightarrow> mk (mk l a v x) d u (mk y b w rr) | Lf \<Rightarrow> mk l a v r)
         | Lf \<Rightarrow> mk l a v r)
      else mk l a v r)"

fun rebuild :: "'a frame list \<Rightarrow> 'a gtree \<Rightarrow> 'a gtree" where
  "rebuild [] t = t"
| "rebuild (FL a v n r # c) t = rebuild c (bal t a v r)"
| "rebuild (FR l a v n # c) t = rebuild c (bal l a v t)"

lemma bal_shape [simp]:
  "addrs (bal l a v r) = addrs l @ a # addrs r"
  "elems (bal l a v r) = elems l @ v # elems r"
  "bal l a v r \<noteq> Lf"
  by (auto simp: bal_def split: gtree.splits)

lemma hts_bal [simp]: "hts l \<Longrightarrow> hts r \<Longrightarrow> hts (bal l a v r)"
  by (auto simp: bal_def split: gtree.splits)

lemma rebuild_shape [simp]:
  "addrs (rebuild c t) = addrs (plug c t)"
  "elems (rebuild c t) = elems (plug c t)"
proof -
  have *: "addrs t = addrs t' \<Longrightarrow> addrs (plug c t) = addrs (plug c t')"
    "elems t = elems t' \<Longrightarrow> elems (plug c t) = elems (plug c t')" for t' :: "'a gtree" and t c
    by (induction c t arbitrary: t' rule: plug.induct) auto
  show "addrs (rebuild c t) = addrs (plug c t)" "elems (rebuild c t) = elems (plug c t)"
    by (induction c t rule: rebuild.induct) (auto intro: *)
qed

lemma rebuild_Lf [simp]: "t \<noteq> Lf \<Longrightarrow> rebuild c t \<noteq> Lf"
  by (induction c t rule: rebuild.induct) auto

lemma hts_rebuild: "hts t \<Longrightarrow> ctx_hts c \<Longrightarrow> hts (rebuild c t)"
  by (induction c t rule: rebuild.induct) auto

lemma get_balance_factor_node:
  "in_heap h p (Nd l a v n r) \<Longrightarrow> get_balance_factor h (Some a) = Inr (ht r - ht l)"
  using child_height_gptr [of h "Some a"] by (simp add: get_balance_factor_def)

lemma update_height_node:
  assumes "focus h c (Nd l a v n r)"
  shows "\<exists>h'. update_height h (Some a) = Inr h' \<and> focus h' c (mk l a v r) \<and>
    same_outside (set (addrs (plug c (Nd l a v n r)))) h h'"
  using assms child_height_gptr [of h "Some a"]
  by (auto simp: update_height_def focus_def set_addrs_plug distinct_plug)

lemma rebalance_step_refines:
  assumes "focus h c (Nd l a v n r)" "hts l" "hts r"
  shows "\<exists>h'. rebalance_step h (Some a) = Inr (h', gptr (bal l a v r)) \<and> focus h' c (bal l a v r) \<and>
    same_outside (set (addrs (plug c (Nd l a v n r)))) h h'"
proof -
  let ?A = "set (addrs (plug c (Nd l a v n r)))"
  obtain h1 where h1: "update_height h (Some a) = Inr h1" "focus h1 c (mk l a v r)" "same_outside ?A h h1"
    using update_height_node [OF assms(1)] by auto
  have f: "focus h1 c (Nd l a v (max (ht l) (ht r) + 1) r)" using h1(2) by (simp add: mk_def)
  then have n: "deref h1 (Some a) =
      Inr \<lparr>nvalue = v, height = max (ht l) (ht r) + 1, parent = ctx_parent c, left = gptr l, right = gptr r\<rparr>"
    by (auto simp: focus_def)
  have bf: "get_balance_factor h1 (Some a) = Inr (ht r - ht l)"
    using f by (auto simp: focus_def intro!: get_balance_factor_node)
  note step = rebalance_step_def h1(1) bf n
  consider (ll) "ht r - ht l < -1" | (rr) "ht r - ht l > 1" | (ok) "\<not> ht r - ht l < -1" "\<not> ht r - ht l > 1"
    by linarith
  then show ?thesis
  proof cases
    case ok
    then show ?thesis using h1 by (auto simp: step bal_def)
  next
    case ll
    then obtain lt b w m lr where l: "l = Nd lt b w m lr"
      using hts_nonneg [OF assms(3)] by (cases l) auto
    have bfl: "get_balance_factor h1 (Some b) = Inr (ht lr - ht lt)"
      using f l by (auto simp: focus_def intro!: get_balance_factor_node)
    show ?thesis
    proof (cases "ht lr - ht lt \<le> -1")
      case True
      then show ?thesis
        using ll l bfl h1(3) rotate_right_refines [OF f [unfolded l]]
        by (auto simp: step bal_def set_addrs_plug same_outside_def)
    next
      case False
      then obtain x d u k y where lr: "lr = Nd x d u k y"
        using ll l assms(2) hts_nonneg [OF assms(3)] hts_nonneg [of lt] by (cases lr) auto
      show ?thesis
        using False ll l lr bfl h1(3) rotate_left_right_refines [OF f [unfolded l lr]]
        by (auto simp: step bal_def set_addrs_plug same_outside_def)
    qed
  next
    case rr
    then obtain rl b w m rt where r: "r = Nd rl b w m rt"
      using hts_nonneg [OF assms(2)] by (cases r) auto
    have bfr: "get_balance_factor h1 (Some b) = Inr (ht rt - ht rl)"
      using f r by (auto simp: focus_def intro!: get_balance_factor_node)
    show ?thesis
    proof (cases "ht rt - ht rl \<ge> 1")
      case True
      then show ?thesis
        using rr r bfr h1(3) rotate_left_refines [OF f [unfolded r]]
        by (auto simp: step bal_def set_addrs_plug same_outside_def)
    next
      case False
      then obtain x d u k y where rl: "rl = Nd x d u k y"
        using rr r assms(3) hts_nonneg [OF assms(2)] hts_nonneg [of rt] by (cases rl) auto
      show ?thesis
        using False rr r rl bfr h1(3) rotate_right_left_refines [OF f [unfolded r rl]]
        by (auto simp: step bal_def set_addrs_plug same_outside_def)
    qed
  qed
qed

lemma rebalance_refines:
  assumes "focus h c (Nd l a v n r)" "hts l" "hts r" "ctx_hts c"
  shows "\<exists>h'. rebalance h root (Some a) = Some (Inr (h', gptr (rebuild c (bal l a v r)))) \<and>
    focus h' [] (rebuild c (bal l a v r)) \<and> same_outside (set (addrs (plug c (Nd l a v n r)))) h h'"
  using assms
proof (induction c arbitrary: h root l a v n r)
  case Nil
  obtain h1 where h1: "rebalance_step h (Some a) = Inr (h1, gptr (bal l a v r))" "focus h1 [] (bal l a v r)"
    "same_outside (set (addrs (Nd l a v n r))) h h1"
    using rebalance_step_refines [OF Nil.prems(1-3)] by auto
  obtain l' a' v' n' r' where "bal l a v r = Nd l' a' v' n' r'"
    by (cases "bal l a v r") auto
  with h1 show ?case
    using focus_node [of h1 "[]" l' a' v' n' r'] by (auto simp: rebalance.simps)
next
  case (Cons f c)
  obtain h1 where h1: "rebalance_step h (Some a) = Inr (h1, gptr (bal l a v r))"
    "focus h1 (f # c) (bal l a v r)" "same_outside (set (addrs (plug (f # c) (Nd l a v n r)))) h h1"
    using rebalance_step_refines [OF Cons.prems(1-3)] by blast
  obtain x where x: "deref h1 (gptr (bal l a v r)) = Inr x" "parent x = ctx_parent (f # c)"
    using h1(2) by (cases "bal l a v r") (auto dest: focus_node)
  have hts: "hts (bal l a v r)" using Cons.prems by simp
  show ?case
  proof (cases f)
    case (FL b w m s)
    have "focus h1 c (Nd (bal l a v r) b w m s)"
      using h1(2) by (simp add: FL focus_down_left)
    from Cons.IH [OF this hts, of root] show ?thesis
      using Cons.prems h1 x
      by (subst rebalance.simps) (auto simp: FL set_addrs_plug same_outside_def)
  next
    case (FR s b w m)
    have "focus h1 c (Nd s b w m (bal l a v r))"
      using h1(2) by (simp add: FR focus_down_right)
    from Cons.IH [OF this _ hts, of root] show ?thesis
      using Cons.prems h1 x
      by (subst rebalance.simps) (auto simp: FR set_addrs_plug same_outside_def)
  qed
qed

section \<open>The balance invariant\<close>

fun balanced :: "'a gtree \<Rightarrow> bool" where
  "balanced Lf \<longleftrightarrow> True"
| "balanced (Nd l a v n r) \<longleftrightarrow> \<bar>ht r - ht l\<bar> \<le> 1 \<and> balanced l \<and> balanced r"

fun leans :: "'a gtree \<Rightarrow> bool" where
  "leans Lf \<longleftrightarrow> False"
| "leans (Nd l a v n r) \<longleftrightarrow> ht l \<noteq> ht r"

text \<open>
  The subtree \<open>s\<close> replaced \<open>t\<close> during an insertion: its height is that of \<open>t\<close> or one more, and in
  the second case it is a new leaf or it leans to one side, so a single rotation is enough.
\<close>

definition grown :: "'a gtree \<Rightarrow> 'a gtree \<Rightarrow> bool" where
  "grown t s \<longleftrightarrow> hts s \<and> balanced s \<and> (ht s = ht t \<or> ht s = ht t + 1 \<and> (t = Lf \<or> leans s))"

lemma balanced_plug: "balanced (plug c t) \<Longrightarrow> balanced t"
  by (induction c t rule: plug.induct) auto

lemma grown_bal_left:
  assumes "grown t s" "hts (Nd t a v n r)" "balanced (Nd t a v n r)"
  shows "grown (Nd t a v n r) (bal s a v r)"
proof (cases "ht r - ht s < -1")
  case False
  moreover have "\<not> ht r - ht s > 1" using assms by (auto simp: grown_def)
  ultimately have "bal s a v r = mk s a v r" by (simp add: bal_def)
  with assms False show ?thesis by (auto simp: grown_def mk_def)
next
  case True
  then have *: "ht s = ht t + 1" "ht t = ht r + 1" "leans s" "hts s" "balanced s" "hts r" "balanced r"
    using assms hts_nonneg [of r] by (auto simp: grown_def)
  then obtain ll b w m lr where s: "s = Nd ll b w m lr" by (cases s) auto
  show ?thesis
  proof (cases "ht lr < ht ll")
    case True
    with \<open>ht r - ht s < -1\<close> have "bal s a v r = mk ll b w (mk lr a v r)" by (simp add: bal_def s)
    with * True assms(2) show ?thesis by (simp add: grown_def s mk_def)
  next
    case False
    with * hts_nonneg [of ll] obtain x d u k y where lr: "lr = Nd x d u k y"
      by (cases lr) (auto simp: s)
    with False \<open>ht r - ht s < -1\<close> have "bal s a v r = mk (mk ll b w x) d u (mk y a v r)"
      by (simp add: bal_def s)
    moreover have "ht ll = ht r" "max (ht x) (ht y) = ht r" "ht x \<le> ht r" "ht y \<le> ht r" "\<bar>ht y - ht x\<bar> \<le> 1"
      using * False by (auto simp: s lr)
    ultimately show ?thesis
      using * assms(2) by (simp add: grown_def s lr mk_def) linarith
  qed
qed

lemma grown_bal_right:
  assumes "grown t s" "hts (Nd l a v n t)" "balanced (Nd l a v n t)"
  shows "grown (Nd l a v n t) (bal l a v s)"
proof (cases "ht s - ht l > 1")
  case False
  moreover have "\<not> ht s - ht l < -1" using assms by (auto simp: grown_def)
  ultimately have "bal l a v s = mk l a v s" by (simp add: bal_def)
  with assms False show ?thesis by (auto simp: grown_def mk_def)
next
  case True
  then have *: "ht s = ht t + 1" "ht t = ht l + 1" "leans s" "hts s" "balanced s" "hts l" "balanced l"
    using assms hts_nonneg [of l] by (auto simp: grown_def)
  then obtain rl b w m rr where s: "s = Nd rl b w m rr" by (cases s) auto
  show ?thesis
  proof (cases "ht rl < ht rr")
    case True
    with \<open>ht s - ht l > 1\<close> have "bal l a v s = mk (mk l a v rl) b w rr" by (simp add: bal_def s)
    with * True assms(2) show ?thesis by (simp add: grown_def s mk_def)
  next
    case False
    with * hts_nonneg [of rr] obtain x d u k y where rl: "rl = Nd x d u k y"
      by (cases rl) (auto simp: s)
    with False \<open>ht s - ht l > 1\<close> have "bal l a v s = mk (mk l a v x) d u (mk y b w rr)"
      by (simp add: bal_def s)
    moreover have "ht rr = ht l" "max (ht x) (ht y) = ht l" "ht x \<le> ht l" "ht y \<le> ht l" "\<bar>ht y - ht x\<bar> \<le> 1"
      using * False by (auto simp: s rl)
    ultimately show ?thesis
      using * assms(2) by (simp add: grown_def s rl mk_def) linarith
  qed
qed

lemma grown_rebuild:
  "grown t s \<Longrightarrow> hts (plug c t) \<Longrightarrow> balanced (plug c t) \<Longrightarrow> grown (plug c t) (rebuild c s)"
proof (induction c t arbitrary: s rule: plug.induct)
  case (2 a v n r c t)
  have "grown (Nd t a v n r) (bal s a v r)"
    using grown_bal_left [OF 2(2)] ctx_hts_plug [OF 2(3) [unfolded plug.simps]]
      balanced_plug [OF 2(4) [unfolded plug.simps]] by blast
  from 2(1) [OF this] 2(3,4) show ?case by simp
next
  case (3 l a v n c t)
  have "grown (Nd l a v n t) (bal l a v s)"
    using grown_bal_right [OF 3(2)] ctx_hts_plug [OF 3(3) [unfolded plug.simps]]
      balanced_plug [OF 3(4) [unfolded plug.simps]] by blast
  from 3(1) [OF this] 3(3,4) show ?case by simp
qed simp

end
