(* ===== verification/AVLOps.thy ===== *)
theory AVLOps
  imports AVLProofs
begin

text \<open>
  \<open>insert\<close>, \<open>find\<close> and \<open>traverse\<close> of \<open>AVLTree.hpp\<close> against a sorted list: what they do to the sequence
  of values that the tree holds, and that they return.
\<close>

section \<open>Insertion\<close>

fun locate :: "('a \<Rightarrow> 'k::linorder) \<Rightarrow> 'k \<Rightarrow> 'a frame list \<Rightarrow> 'a gtree \<Rightarrow> 'a frame list option" where
  "locate key k c Lf = Some c"
| "locate key k c (Nd l a v n r) =
     (if k < key v then locate key k (FL a v n r # c) l
      else if key v < k then locate key k (FR l a v n # c) r
      else None)"

lemma locate_plug: "locate key k c t = Some c' \<Longrightarrow> plug c' Lf = plug c t"
  by (induction key k c t rule: locate.induct) (auto split: if_splits)

lemma descend_locate:
  "in_heap h p t \<Longrightarrow> descend key k h (gptr t) (ctx_parent c) =
     Some (case locate key k c t of None \<Rightarrow> Inl AssertFail | Some c' \<Rightarrow> Inr (ctx_parent c'))"
proof (induction key k c t arbitrary: p rule: locate.induct)
  case (1 key k c)
  show ?case by (simp add: descend.simps)
next
  case (2 key k c l a v n r)
  from 2(3) show ?case
    using 2(1) [of "Some a"] 2(2) [of "Some a"] by (subst descend.simps) auto
qed

fun head_dir :: "('a \<Rightarrow> 'k::linorder) \<Rightarrow> 'k \<Rightarrow> 'a frame list \<Rightarrow> bool" where
  "head_dir key k [] \<longleftrightarrow> True"
| "head_dir key k (FL a v n r # c) \<longleftrightarrow> k < key v"
| "head_dir key k (FR l a v n # c) \<longleftrightarrow> \<not> k < key v"

lemma locate_head_dir: "locate key k c t = Some c' \<Longrightarrow> head_dir key k c \<Longrightarrow> head_dir key k c'"
  by (induction key k c t rule: locate.induct) (auto split: if_splits)

lemma link_new_refines:
  assumes "focus h c Lf" "head_dir key k c" "a \<notin> ctx_addrs c" "root = gptr (plug c Lf)"
  shows "\<exists>h' root'. link_new key k (h(a \<mapsto> \<lparr>nvalue = v, height = 1, parent = None, left = None, right = None\<rparr>))
      root (ctx_parent c) (Some a) = Inr (h', root') \<and> focus h' c (Nd Lf a v 1 Lf) \<and>
      same_outside (insert a (ctx_addrs c)) h h'"
  using assms
  by (cases c rule: ctx_parent.cases) (auto simp: link_new_def focus_def distinct_plug)

fun ctx_pre :: "'a frame list \<Rightarrow> 'a list" where
  "ctx_pre [] = []"
| "ctx_pre (FL a v n r # c) = ctx_pre c"
| "ctx_pre (FR l a v n # c) = ctx_pre c @ elems l @ [v]"

fun ctx_post :: "'a frame list \<Rightarrow> 'a list" where
  "ctx_post [] = []"
| "ctx_post (FL a v n r # c) = v # elems r @ ctx_post c"
| "ctx_post (FR l a v n # c) = ctx_post c"

lemma elems_plug: "elems (plug c t) = ctx_pre c @ elems t @ ctx_post c"
  by (induction c t rule: plug.induct) auto

definition bst :: "('a \<Rightarrow> 'k::linorder) \<Rightarrow> 'a gtree \<Rightarrow> bool" where
  "bst key t \<longleftrightarrow> sorted_wrt (<) (map key (elems t))"

lemma locate_None: "locate key k c t = None \<Longrightarrow> k \<in> key ` set (elems t)"
  by (induction key k c t rule: locate.induct) (auto split: if_splits)

lemma bst_Nd: "bst key (Nd l a v n r) \<longleftrightarrow> bst key l \<and> bst key r \<and>
  (\<forall>x \<in> set (elems l). key x < key v) \<and> (\<forall>x \<in> set (elems r). key v < key x)"
  unfolding bst_def by (simp add: sorted_wrt_append) (meson less_trans)

lemma locate_bounds:
  assumes "locate key k c t = Some c'" "bst key t"
    "\<forall>x \<in> set (ctx_pre c). key x < k" "\<forall>x \<in> set (ctx_post c). k < key x"
  shows "(\<forall>x \<in> set (ctx_pre c'). key x < k) \<and> (\<forall>x \<in> set (ctx_post c'). k < key x)"
  using assms
proof (induction key k c t rule: locate.induct)
  case (1 key k c)
  then show ?case by simp
next
  case (2 key k c l a v n r)
  note b = 2(4) [unfolded bst_Nd]
  consider "k < key v" | "key v < k" using 2(3) by (auto split: if_splits)
  then show ?case
  proof cases
    case 1
    show ?thesis 
    proof (rule 2(1) [OF 1])
      show "\<forall>x\<in>set (ctx_post (FL a v n r # c)). k < key x" using b 1 2(6) by (simp add: ball_Un) (meson less_trans)
    qed (use 1 2(3,5,6) b in simp_all)
  next
    case 3: 2
    then have n: "\<not> k < key v" by simp
    show ?thesis
    proof (rule 2(2) [OF n 3])
      show "\<forall>x\<in>set (ctx_pre (FR l a v n # c)). key x < k" using b 3 2(5) by (simp add: ball_Un) (meson less_trans)
    qed (use n 3 2(3,5,6) b in simp_all)
  qed
qed

lemma insort_key_between:
  assumes "\<forall>x \<in> set xs. key x < key v" "\<forall>x \<in> set ys. key v < key x"
  shows "insort_key key v (xs @ ys) = xs @ v # ys"
  using assms
proof (induction xs)
  case Nil
  then show ?case by (cases ys) auto
qed auto

text \<open>
  \<open>holds key t T\<close>: the object \<open>t\<close> is the search tree \<open>T\<close>, with correct heights and parent pointers.
\<close>

definition holds :: "('a \<Rightarrow> 'k::linorder) \<Rightarrow> 'a avl \<Rightarrow> 'a gtree \<Rightarrow> bool" where
  "holds key t T \<longleftrightarrow> focus (nodes t) [] T \<and> m_tree t = gptr T \<and> hts T \<and> bst key T"

lemma insert_refines:
  assumes t: "holds key t T" and a: "a \<notin> set (addrs T)" and c: "locate key (key v) [] T = Some c"
  shows "\<exists>t'. avl_insert key a v t = Some (Inr t') \<and> holds key t' (rebuild c (mk Lf a v Lf)) \<and>
    elems (rebuild c (mk Lf a v Lf)) = insort_key key v (elems T) \<and>
    same_outside (insert a (set (addrs T))) (nodes t) (nodes t')"
proof -
  let ?h = "(nodes t)(a \<mapsto> \<lparr>nvalue = v, height = 1, parent = None, left = None, right = None\<rparr>)"
  have pl: "plug c Lf = T" using locate_plug [OF c] by simp
  have ca: "ctx_addrs c = set (addrs T)" using set_addrs_plug [of c Lf] pl by simp
  have "in_heap ?h None T" using t a by (simp add: holds_def focus_def)
  then have d: "descend key (key v) ?h (m_tree t) None = Some (Inr (ctx_parent c))"
    using descend_locate [of ?h None T key "key v" "[]"] t c by (simp add: holds_def)
  have f: "focus (nodes t) c Lf"
    using t in_heap_plug [of "nodes t" c Lf] by (simp add: holds_def focus_def pl)
  obtain h1 root1 where h1: "link_new key (key v) ?h (m_tree t) (ctx_parent c) (Some a) = Inr (h1, root1)"
      "focus h1 c (Nd Lf a v 1 Lf)" "same_outside (insert a (set (addrs T))) (nodes t) h1"
    using link_new_refines [OF f locate_head_dir [OF c]] a t ca by (fastforce simp: holds_def pl)
  have ch: "ctx_hts c" using ctx_hts_plug [of c Lf] t by (simp add: pl holds_def)
  have m: "bal Lf a v Lf = mk Lf a v Lf" by (simp add: bal_def)
  obtain h2 where h2: "rebalance h1 root1 (Some a) = Some (Inr (h2, gptr (rebuild c (mk Lf a v Lf))))"
      "focus h2 [] (rebuild c (mk Lf a v Lf))" "same_outside (insert a (set (addrs T))) h1 h2"
    using rebalance_refines [OF h1(2) _ _ ch, of root1] by (auto simp: m set_addrs_plug ca)
  have b: "(\<forall>x \<in> set (ctx_pre c). key x < key v) \<and> (\<forall>x \<in> set (ctx_post c). key v < key x)"
    using locate_bounds [OF c] t by (simp add: holds_def)
  have e: "elems (rebuild c (mk Lf a v Lf)) = insort_key key v (elems T)"
    using b insort_key_between [of "ctx_pre c" key v "ctx_post c"] by (simp add: elems_plug flip: pl)
  have "bst key (rebuild c (mk Lf a v Lf))"
    using t b by (auto simp: holds_def bst_def elems_plug sorted_wrt_append simp flip: pl)
  with h2 ch have "holds key \<lparr>nodes = h2, m_tree = gptr (rebuild c (mk Lf a v Lf))\<rparr> (rebuild c (mk Lf a v Lf))"
    by (simp add: holds_def hts_rebuild)
  moreover have "avl_insert key a v t = Some (Inr \<lparr>nodes = h2, m_tree = gptr (rebuild c (mk Lf a v Lf))\<rparr>)"
    using d h1(1) h2(1) by (simp add: avl_insert_def Let_def)
  moreover have "same_outside (insert a (set (addrs T))) (nodes t) h2"
    using h1(3) h2(3) by (rule same_outside_trans)
  ultimately show ?thesis using e by auto
qed

section \<open>Searching\<close>

fun seek :: "('a \<Rightarrow> int) \<Rightarrow> 'a frame list \<Rightarrow> 'a gtree \<Rightarrow> ('a frame list \<times> 'a gtree) option" where
  "seek f c Lf = None"
| "seek f c (Nd l a v n r) =
     (if f v = 0 then Some (c, Nd l a v n r)
      else if f v < 0 then seek f (FR l a v n # c) r
      else seek f (FL a v n r # c) l)"

definition key_cmp :: "('a \<Rightarrow> 'k::linorder) \<Rightarrow> 'k \<Rightarrow> 'a \<Rightarrow> int" where
  "key_cmp key k x = (if key x = k then 0 else if key x < k then -1 else 1)"

lemma key_cmp_simps [simp]:
  "key_cmp key k x = 0 \<longleftrightarrow> key x = k"
  "key_cmp key k x < 0 \<longleftrightarrow> key x < k"
  by (auto simp: key_cmp_def)

lemma find_loop_by_seek:
  "in_heap h p t \<Longrightarrow> find_loop_by f h (gptr t) =
     Some (Inr (case seek f c t of None \<Rightarrow> None | Some (_, s) \<Rightarrow> gptr s))"
proof (induction f c t arbitrary: p rule: seek.induct)
  case (1 f c)
  show ?case by (simp add: find_loop_by.simps)
next
  case (2 f c l a v n r)
  from 2(3) show ?case
    using 2(1) [of "Some a"] 2(2) [of "Some a"] by (subst find_loop_by.simps) auto
qed

lemma find_loop_seek:
  "in_heap h p t \<Longrightarrow> find_loop key k h (gptr t) =
     Some (Inr (case seek (key_cmp key k) c t of None \<Rightarrow> None | Some (_, s) \<Rightarrow> gptr s))"
proof (induction "key_cmp key k" c t arbitrary: p rule: seek.induct)
  case (1 c)
  show ?case by (simp add: find_loop.simps)
next
  case (2 c l a v n r)
  from 2(3) show ?case
    using 2(1) [of "Some a"] 2(2) [of "Some a"] by (subst find_loop.simps) auto
qed

lemma seek_Some:
  "seek f c t = Some (c', s) \<Longrightarrow> plug c' s = plug c t \<and> (\<exists>l a v n r. s = Nd l a v n r \<and> f v = 0)"
  by (induction f c t rule: seek.induct) (auto split: if_splits)

text \<open>A comparator fits a sequence when its sign grows along it: negative before the matches, positive after.\<close>

definition fits :: "('a \<Rightarrow> int) \<Rightarrow> 'a list \<Rightarrow> bool" where
  "fits f xs \<longleftrightarrow> sorted_wrt (\<lambda>x y. sgn (f x) \<le> sgn (f y)) xs"

lemma fits_key: "sorted_wrt (<) (map key xs) \<Longrightarrow> fits (key_cmp key k) xs"
  by (induction xs) (auto simp: fits_def key_cmp_def)

lemma fits_split:
  assumes "fits f (xs @ v # ys)"
  shows "f v < 0 \<Longrightarrow> \<forall>x \<in> set xs. f x \<noteq> 0" "0 < f v \<Longrightarrow> \<forall>x \<in> set ys. f x \<noteq> 0"
    "fits f xs" "fits f ys"
  using assms by (auto simp: fits_def sorted_wrt_append sgn_if split: if_splits)

lemma seek_None: "fits f (elems t) \<Longrightarrow> seek f c t = None \<Longrightarrow> \<forall>x \<in> set (elems t). f x \<noteq> 0"
proof (induction f c t rule: seek.induct)
  case (1 f c)
  show ?case by simp
next
  case (2 f c l a v n r)
  note s = fits_split [OF 2(3) [unfolded elems.simps]]
  from 2(4) consider "f v < 0" "seek f (FR l a v n # c) r = None" | "0 < f v" "seek f (FL a v n r # c) l = None"
    by (auto split: if_splits)
  then show ?case
  proof cases
    case 1
    with 2(1) s show ?thesis by auto
  next
    case 3: 2
    with 2(2) s show ?thesis by auto
  qed
qed

lemma value_at_node:
  "in_heap (nodes t) None (plug c (Nd l a v n r)) \<Longrightarrow> value_at t (Some (Inr (Some a))) = Some (Inr (Some v))"
  by (simp add: value_at_def in_heap_plug)

lemma find_by_refines:
  assumes "holds key t T" "fits f (elems T)"
  shows "\<exists>q. avl_find_by f t = Some (Inr q) \<and>
    (case q of None \<Rightarrow> \<forall>x \<in> set (elems T). f x \<noteq> 0 | Some v \<Rightarrow> v \<in> set (elems T) \<and> f v = 0)"
proof -
  have h: "in_heap (nodes t) None T" "m_tree t = gptr T" using assms(1) by (auto simp: holds_def focus_def)
  show ?thesis
  proof (cases "seek f [] T")
    case None
    with h assms(2) seek_None show ?thesis
      by (auto simp: avl_find_by_def find_node_by_def find_loop_by_seek [where c = "[]"] value_at_def)
  next
    case (Some z)
    then obtain c l a v n r where z: "z = (c, Nd l a v n r)" "plug c (Nd l a v n r) = T" "f v = 0"
      using seek_Some by (cases z) fastforce
    with h Some value_at_node [of t c l a v n r] show ?thesis
      by (auto simp: avl_find_by_def find_node_by_def find_loop_by_seek [where c = "[]"] elems_plug)
  qed
qed

lemma find_avl_by: "holds key t T \<Longrightarrow> avl_find key v t = avl_find_by (key_cmp key (key v)) t"
  using find_loop_seek [of "nodes t" None T key "key v" "[]"] find_loop_by_seek [of "nodes t" None T "key_cmp key (key v)" "[]"]
  by (simp add: avl_find_def avl_find_by_def find_node_def find_node_by_def holds_def focus_def)

lemma find_unique:
  fixes key :: "'a \<Rightarrow> 'k::linorder"
  assumes "sorted_wrt (<) (map key xs)" "x \<in> set xs" "key x = k"
  shows "List.find (\<lambda>y. key y = k) xs = Some x"
  using assms
proof (induction xs)
  case (Cons y ys)
  show ?case
  proof (cases "x = y")
    case False
    then have "key y \<noteq> k" using Cons.prems by auto
    with False Cons show ?thesis by simp
  qed (use Cons.prems in simp)
qed simp

lemma find_refines:
  assumes "holds key t T"
  shows "avl_find key v t = Some (Inr (List.find (\<lambda>x. key x = key v) (elems T)))"
proof -
  have s: "sorted_wrt (<) (map key (elems T))" using assms by (simp add: holds_def bst_def)
  obtain q where q: "avl_find key v t = Some (Inr q)"
      "case q of None \<Rightarrow> \<forall>x \<in> set (elems T). key x \<noteq> key v | Some w \<Rightarrow> w \<in> set (elems T) \<and> key w = key v"
    using find_by_refines [OF assms fits_key [OF s, of "key v"]] by (auto simp: find_avl_by [OF assms] cong: option.case_cong)
  then show ?thesis
  proof (cases q)
    case None
    with q have "List.find (\<lambda>x. key x = key v) (elems T) = None" by (auto simp: find_None_iff)
    with q None show ?thesis by simp
  next
    case (Some w)
    with q find_unique [OF s, of w "key v"] show ?thesis by simp
  qed
qed

section \<open>Traversal\<close>

text \<open>The callback over a sequence, with whether it wants to go on.\<close>

fun visit :: "('s \<Rightarrow> 'a \<Rightarrow> bool \<times> 's) \<Rightarrow> 'a list \<Rightarrow> 's \<Rightarrow> bool \<times> 's" where
  "visit cb [] s = (True, s)"
| "visit cb (x # xs) s = (if fst (cb s x) then visit cb xs (snd (cb s x)) else (False, snd (cb s x)))"

lemma visit_append:
  "visit cb (xs @ ys) s = (if fst (visit cb xs s) then visit cb ys (snd (visit cb xs s)) else visit cb xs s)"
  by (induction cb xs s rule: visit.induct) auto

lemma traverse_loop_visit:
  "in_heap h p t \<Longrightarrow> traverse_loop cb h st (gptr t) s =
     (if fst (visit cb (elems t) s) then traverse_loop cb h st None (snd (visit cb (elems t) s))
      else Some (Inr (snd (visit cb (elems t) s))))"
proof (induction t arbitrary: p st s)
  case (Nd l a v n r)
  let ?s = "snd (visit cb (elems l) s)"
  have "traverse_loop cb h st (Some a) s = traverse_loop cb h (Some a # st) (gptr l) s"
    using Nd.prems by (subst traverse_loop.simps) simp
  moreover have "traverse_loop cb h (Some a # st) None ?s =
      (if fst (cb ?s v) then traverse_loop cb h st (gptr r) (snd (cb ?s v)) else Some (Inr (snd (cb ?s v))))"
    using Nd.prems by (subst traverse_loop.simps) simp
  ultimately show ?case
    using Nd.prems Nd.IH(1) [of "Some a" "Some a # st" s] Nd.IH(2) [of "Some a" st "snd (cb ?s v)"]
    by (auto simp: visit_append)
qed simp

lemma traverse_refines: "holds key t T \<Longrightarrow> avl_traverse cb t s = Some (Inr (snd (visit cb (elems T) s)))"
  using traverse_loop_visit [of "nodes t" None T cb "[]" s]
  by (simp add: avl_traverse_def holds_def focus_def traverse_loop.simps [of _ _ "[]" None])

end
