(* ===== verification/AVLRemove.thy ===== *)
theory AVLRemove
  imports AVLOps
begin

text \<open>
  \<open>remove\<close> of \<open>AVLTree.hpp\<close>: a node with at most one child is replaced by that child, a node with two
  by its in-order successor; in both cases the tree then holds the same sequence without the value.
  The source dereferences the parent of a node with two children without a test, so removing the
  root while it has two children faults.
\<close>

section \<open>Removal\<close>

lemma plug_append: "plug (c @ d) t = plug d (plug c t)"
  by (induction c t rule: plug.induct) auto

lemma focus_plug: "focus h (c @ d) t \<longleftrightarrow> focus h d (plug c t)"
  by (induction c t rule: plug.induct) (auto simp: focus_down_left [symmetric] focus_down_right [symmetric])

fun rebal :: "'a gtree \<Rightarrow> 'a gtree" where
  "rebal Lf = Lf"
| "rebal (Nd l a v n r) = bal l a v r"

fun sub_hts :: "'a gtree \<Rightarrow> bool" where
  "sub_hts Lf \<longleftrightarrow> True"
| "sub_hts (Nd l a v n r) \<longleftrightarrow> hts l \<and> hts r"

lemma rebal_elems [simp]: "elems (rebal t) = elems t" "addrs (rebal t) = addrs t"
  by (cases t; simp)+

lemma hts_rebal: "sub_hts t \<Longrightarrow> hts (rebal t)"
  by (cases t) auto

lemma hts_sub_hts: "hts t \<Longrightarrow> sub_hts t"
  by (cases t) auto

text \<open>
  The end of \<open>remove\<close>: the loop runs from the replacement of the removed node, or from its parent
  when nothing replaced it.
\<close>

lemma finish_remove_refines:
  assumes "focus h c t" "sub_hts t" "ctx_hts c" "c = [] \<longrightarrow> t \<noteq> Lf \<or> par = None" "t = Lf \<longrightarrow> par = ctx_parent c"
  shows "\<exists>h'. finish_remove root par (Inr (h, gptr t)) =
      Some (Inr (\<lparr>nodes = h', m_tree = gptr (rebuild c (rebal t))\<rparr>, True)) \<and> focus h' [] (rebuild c (rebal t))"
proof (cases t)
  case (Nd l a v n r)
  with assms rebalance_refines [of h c l a v n r root] show ?thesis
    by (auto simp: finish_remove_def)
next
  case Lf
  show ?thesis
  proof (cases c rule: ctx_parent.cases)
    case 1
    with Lf assms show ?thesis by (auto simp: finish_remove_def focus_def)
  next
    case (2 a v n r d)
    with Lf assms rebalance_refines [of h d Lf a v n r root] show ?thesis
      by (auto simp: finish_remove_def focus_down_left [symmetric])
  next
    case (3 l a v n d)
    with Lf assms rebalance_refines [of h d l a v n Lf root] show ?thesis
      by (auto simp: finish_remove_def focus_down_right [symmetric])
  qed
qed

lemma unlink_one_refines:
  assumes "focus h c (Nd l a v n r)" "l = Lf \<or> r = Lf"
  shows "\<exists>h'. unlink_one h a = Inr (h', gptr (if l = Lf then r else l)) \<and> focus h' c (if l = Lf then r else l)"
proof -
  define t where "t = (if l = Lf then r else l)"
  have "gptr t = (if gptr l \<noteq> None then gptr l else gptr r)" by (simp add: t_def)
  then show ?thesis
    unfolding t_def [symmetric]
    using assms
    by (cases t; cases c rule: ctx_parent.cases)
      (auto simp: t_def unlink_one_def focus_def replace_child_def distinct_plug Let_def split: if_splits
        dest: gptr_in_addrs ctx_parent_in_addrs)
qed

definition left_spine :: "'a frame list \<Rightarrow> bool" where
  "left_spine c \<longleftrightarrow> (\<forall>f \<in> set c. \<exists>a v n r. f = FL a v n r)"

lemma left_spine_pre: "left_spine c \<Longrightarrow> ctx_pre c = []"
  by (induction c rule: ctx_pre.induct) (auto simp: left_spine_def)

lemma leftmost_spine:
  assumes "in_heap h p (Nd l a v n r)"
  shows "\<exists>c s w k sr. Nd l a v n r = plug c (Nd Lf s w k sr) \<and> left_spine c \<and>
    leftmost h (Some a) = Some (Inr (Some s))"
  using assms
proof (induction l arbitrary: p a v n r)
  case Lf
  then show ?case
    by (intro exI [of _ "[]"]) (auto simp: left_spine_def leftmost.simps)
next
  case (Nd ll b w m lr)
  have "in_heap h (Some a) (Nd ll b w m lr)" using Nd.prems by simp
  from Nd.IH(1) [OF this] obtain c s u k sr where
    "Nd ll b w m lr = plug c (Nd Lf s u k sr)" "left_spine c" "leftmost h (Some b) = Some (Inr (Some s))"
    by blast
  moreover have "leftmost h (Some a) = leftmost h (Some b)"
    using Nd.prems by (subst leftmost.simps) simp
  ultimately show ?case
    by (intro exI [of _ "c @ [FL a v n r]"]) (auto simp: plug_append left_spine_def)
qed

lemma successor_spine:
  assumes "focus h c (Nd l a v n r)" "r \<noteq> Lf"
  shows "\<exists>cs s w k sr. r = plug cs (Nd Lf s w k sr) \<and> left_spine cs \<and>
    leftmost h (gptr r) = Some (Inr (Some s))"
proof (cases r)
  case (Nd rl e x j rr)
  then have "in_heap h (Some a) (Nd rl e x j rr)" using assms(1) by (simp add: focus_def)
  from leftmost_spine [OF this] show ?thesis unfolding Nd gptr.simps .
qed (use assms in simp)

text \<open>Splicing the successor out of the right subtree, and putting it in the place of the removed node.\<close>

lemma take_place_refines:
  assumes "in_heap h (Some a) (Nd ll b u m lr)" "in_heap h p r"
    "h a = Some \<lparr>nvalue = v, height = n, parent = ctx_parent c, left = Some b, right = gptr r\<rparr>"
    "ctx_in_heap h (Some a) c" "distinct (addrs (plug c (Nd (Nd ll b u m lr) a v n r)))"
    "h s = Some \<lparr>nvalue = w, height = k, parent = sp, left = sl, right = srr\<rparr>"
    "s \<notin> set (addrs (plug c (Nd (Nd ll b u m lr) a v n r)))" "c \<noteq> []"
  shows "\<exists>h'. take_place h a (Some s) = Inr h' \<and> focus h' c (Nd (Nd ll b u m lr) s w k r)"
  using assms
  by (cases r; cases c rule: ctx_parent.cases)
    (auto simp: take_place_def focus_def replace_child_def distinct_plug set_addrs_plug
      dest: gptr_in_addrs ctx_parent_in_addrs)

lemma plug_Cons_Lf [simp]: "plug (f # c) t \<noteq> Lf"
  by (induction c arbitrary: f t) (case_tac f; simp)+

text \<open>
  The node's place is taken by its successor; the loop will start at the successor when that was
  the node's child and at the successor's old parent otherwise.
\<close>

lemma unlink_two_next:
  assumes f: "focus h c (Nd (Nd ll b u m lr) a v n (Nd Lf s w k sr))" and c: "c \<noteq> []"
  shows "\<exists>h'. unlink_two h a (Some s) = Inr (h', Some s) \<and> focus h' c (Nd (Nd ll b u m lr) s w k sr)"
proof -
  let ?h = "h(a \<mapsto> \<lparr>nvalue = v, height = n, parent = ctx_parent c, left = Some b, right = gptr sr\<rparr>)"
  have "splice_succ h a (Some s) = Inr ?h"
    using f by (simp add: focus_def splice_succ_def distinct_plug)
  moreover from f have "?h s = Some \<lparr>nvalue = w, height = k, parent = Some a, left = None, right = gptr sr\<rparr>"
    by (auto simp: focus_def distinct_plug)
  moreover have "\<exists>h'. take_place ?h a (Some s) = Inr h' \<and> focus h' c (Nd (Nd ll b u m lr) s w k sr)"
    by (rule take_place_refines [where v = v and n = n and p = "Some s" and sp = "Some a" and sl = None and srr = "gptr sr"])
      (use f c in \<open>auto simp: focus_def distinct_plug set_addrs_plug\<close>)
  ultimately show ?thesis by (auto simp: unlink_two_def)
qed

lemma splice_far:
  assumes f: "focus h (FL p x j q # d) (Nd Lf s w k sr)" and p: "a \<noteq> p"
  shows "\<exists>h'. splice_succ h a (Some s) = Inr h' \<and> focus h' (FL p x j q # d) sr \<and>
    h' s = Some \<lparr>nvalue = w, height = k, parent = Some p, left = None, right = gptr sr\<rparr>"
  using f p by (cases sr) (auto simp: splice_succ_def focus_def distinct_plug)

lemma unlink_two_far:
  assumes f: "focus h c (Nd (Nd ll b u m lr) a v n (plug (FL p x j q # cs) (Nd Lf s w k sr)))" and c: "c \<noteq> []"
  shows "\<exists>h'. unlink_two h a (Some s) = Inr (h', Some p) \<and>
    focus h' c (Nd (Nd ll b u m lr) s w k (plug (FL p x j q # cs) sr))"
proof -
  let ?l = "Nd ll b u m lr"
  let ?d = "cs @ FR ?l a v n # c"
  have f': "focus h (FL p x j q # ?d) (Nd Lf s w k sr)"
    using f focus_plug [of h "FL p x j q # cs" "FR ?l a v n # c" "Nd Lf s w k sr"]
    by (simp add: focus_down_right [of h c])
  have "a \<in> ctx_addrs ?d" by (induction cs rule: ctx_addrs.induct) auto
  then have ap: "a \<noteq> p" and s: "s \<notin> ctx_addrs (FL p x j q # ?d)" "s \<notin> set (addrs sr)"
    using f' by (auto simp: focus_def distinct_plug)
  obtain h1 where h1: "splice_succ h a (Some s) = Inr h1" "focus h1 (FL p x j q # ?d) sr"
      "h1 s = Some \<lparr>nvalue = w, height = k, parent = Some p, left = None, right = gptr sr\<rparr>"
    using splice_far [OF f' ap] by blast
  let ?r = "plug (FL p x j q # cs) sr"
  have pl: "plug (FL p x j q # ?d) sr = plug c (Nd ?l a v n ?r)" by (simp add: plug_append)
  have f1: "focus h1 c (Nd ?l a v n ?r)"
    using h1(2) focus_plug [of h1 "FL p x j q # cs" "FR ?l a v n # c" sr]
    by (simp add: focus_down_right [of h1 c])
  have "s \<notin> set (addrs (plug c (Nd ?l a v n ?r)))"
    unfolding pl [symmetric] set_addrs_plug using s by blast
  then have "\<exists>h'. take_place h1 a (Some s) = Inr h' \<and> focus h' c (Nd ?l s w k ?r)"
    using f1 c h1(3)
    by (intro take_place_refines [where v = v and n = n and p = "Some a" and sp = "Some p" and sl = None
      and srr = "gptr sr"]) (auto simp: focus_def)
  with h1 ap show ?thesis by (auto simp: unlink_two_def)
qed

lemma remove_node_step:
  assumes "focus (nodes t) c (Nd l a v n r)"
  shows "remove_node (Some a) t =
    (if l \<noteq> Lf \<and> r \<noteq> Lf then
       (case leftmost (nodes t) (gptr r) of None \<Rightarrow> None | Some (Inl e) \<Rightarrow> Some (Inl e)
        | Some (Inr succ) \<Rightarrow> finish_remove (m_tree t) (ctx_parent c) (unlink_two (nodes t) a succ))
     else finish_remove (m_tree t) (ctx_parent c) (unlink_one (nodes t) a))"
  using focus_node [OF assms] by (simp add: remove_node_def cong: option.case_cong sum.case_cong)

lemma remove_node_one:
  assumes f: "focus (nodes t) c (Nd l a v n r)" and lr: "l = Lf \<or> r = Lf"
    and h: "hts l" "hts r" "ctx_hts c" and T': "T' = rebuild c (rebal (if l = Lf then r else l))"
  shows "\<exists>h'. remove_node (Some a) t = Some (Inr (\<lparr>nodes = h', m_tree = gptr T'\<rparr>, True)) \<and>
    focus h' [] T' \<and> hts T' \<and> elems T' = ctx_pre c @ elems l @ elems r @ ctx_post c"
proof -
  let ?s = "if l = Lf then r else l"
  obtain h1 where h1: "unlink_one (nodes t) a = Inr (h1, gptr ?s)" "focus h1 c ?s"
    using unlink_one_refines [OF f lr] by blast
  have "sub_hts ?s" using h by (simp add: hts_sub_hts)
  then obtain h2 where "finish_remove (m_tree t) (ctx_parent c) (Inr (h1, gptr ?s)) =
      Some (Inr (\<lparr>nodes = h2, m_tree = gptr T'\<rparr>, True))" "focus h2 [] T'"
    using finish_remove_refines [OF h1(2) _ h(3), of "ctx_parent c" "m_tree t"] by (auto simp: T')
  with h1 lr have "remove_node (Some a) t = Some (Inr (\<lparr>nodes = h2, m_tree = gptr T'\<rparr>, True))"
    by (auto simp: remove_node_step [OF f])
  moreover have "hts T'" using h by (auto simp: T' intro: hts_rebuild hts_rebal hts_sub_hts)
  moreover have "elems T' = ctx_pre c @ elems l @ elems r @ ctx_post c"
    using lr by (auto simp: T' elems_plug)
  ultimately show ?thesis using \<open>focus h2 [] _\<close> by blast
qed

lemma ctx_hts_append: "ctx_hts (c @ d) \<longleftrightarrow> ctx_hts c \<and> ctx_hts d"
  by (induction c rule: ctx_hts.induct) auto

lemma unlink_two_refines:
  assumes f: "focus h c (Nd l a v n (plug cs (Nd Lf s w k sr)))" and l: "l \<noteq> Lf"
    and c: "c \<noteq> []" and cs: "left_spine cs" and hts: "hts l" "ctx_hts c" "ctx_hts cs" "hts sr"
  shows "\<exists>h' d t. unlink_two h a (Some s) = Inr (h', gptr t) \<and> focus h' d t \<and> t \<noteq> Lf \<and>
    sub_hts t \<and> ctx_hts d \<and> plug d t = plug (cs @ FR l s w k # c) sr"
proof -
  from l obtain ll b u m lr where l': "l = Nd ll b u m lr" by (cases l) auto
  show ?thesis
  proof (cases cs)
    case Nil
    then obtain h' where "unlink_two h a (Some s) = Inr (h', Some s)" "focus h' c (Nd l s w k sr)"
      using unlink_two_next [of h c ll b u m lr a v n s w k sr] f c by (auto simp: l')
    with Nil hts show ?thesis
      by (intro exI [of _ h'] exI [of _ c] exI [of _ "Nd l s w k sr"]) simp
  next
    case (Cons g ds)
    with cs obtain p x j q where g: "g = FL p x j q" by (auto simp: left_spine_def)
    obtain h' where h': "unlink_two h a (Some s) = Inr (h', Some p)"
        "focus h' c (Nd l s w k (plug (FL p x j q # ds) sr))"
      using unlink_two_far [OF f [unfolded Cons g l'] c] unfolding l' by blast
    then have "focus h' (ds @ FR l s w k # c) (Nd sr p x j q)"
      by (simp add: focus_plug focus_down_right [of h' c])
    with h'(1) hts show ?thesis
      by (intro exI [of _ h'] exI [of _ "ds @ FR l s w k # c"] exI [of _ "Nd sr p x j q"])
        (simp add: Cons g ctx_hts_append)
  qed
qed

lemma remove_node_two:
  assumes f: "focus (nodes t) c (Nd l a v n r)" and lr: "l \<noteq> Lf" "r \<noteq> Lf" and c: "c \<noteq> []"
    and h: "hts l" "hts r" "ctx_hts c"
  shows "\<exists>t' T'. remove_node (Some a) t = Some (Inr (t', True)) \<and> focus (nodes t') [] T' \<and>
    m_tree t' = gptr T' \<and> hts T' \<and> elems T' = ctx_pre c @ elems l @ elems r @ ctx_post c"
proof -
  obtain cs s w k sr where r: "r = plug cs (Nd Lf s w k sr)" "left_spine cs"
      "leftmost (nodes t) (gptr r) = Some (Inr (Some s))"
    using successor_spine [OF f lr(2)] by blast
  have hr: "hts sr" "ctx_hts cs" using ctx_hts_plug [OF h(2) [unfolded r(1)]] by simp_all
  obtain h1 d x where u: "unlink_two (nodes t) a (Some s) = Inr (h1, gptr x)" "focus h1 d x" "x \<noteq> Lf"
      "sub_hts x" "ctx_hts d" "plug d x = plug (cs @ FR l s w k # c) sr"
    using unlink_two_refines [OF f [unfolded r(1)] lr(1) c r(2) h(1,3) hr(2,1)] by blast
  let ?T = "rebuild d (rebal x)"
  obtain h2 where h2: "finish_remove (m_tree t) (ctx_parent c) (Inr (h1, gptr x)) =
      Some (Inr (\<lparr>nodes = h2, m_tree = gptr ?T\<rparr>, True))" "focus h2 [] ?T"
    using finish_remove_refines [OF u(2,4,5), of "ctx_parent c" "m_tree t"] u(3) by auto
  with u(1) lr r(3) have "remove_node (Some a) t = Some (Inr (\<lparr>nodes = h2, m_tree = gptr ?T\<rparr>, True))"
    by (simp add: remove_node_step [OF f])
  moreover have "elems ?T = elems (plug (cs @ FR l s w k # c) sr)"
    by (simp add: elems_plug flip: u(6))
  then have "elems ?T = ctx_pre c @ elems l @ elems r @ ctx_post c"
    by (simp add: r(1) plug_append elems_plug left_spine_pre [OF r(2)])
  moreover have "hts ?T" using u by (auto intro: hts_rebuild hts_rebal)
  ultimately show ?thesis using h2(2)
    by (intro exI [of _ "\<lparr>nodes = h2, m_tree = gptr ?T\<rparr>"] exI [of _ ?T]) simp
qed

lemma take_place_root:
  assumes "in_heap h (Some a) l" "in_heap h p r" "l \<noteq> Lf"
    "h a = Some \<lparr>nvalue = v, height = n, parent = None, left = gptr l, right = gptr r\<rparr>"
    "distinct (addrs (Nd l a v n r))" "h s \<noteq> None" "s \<notin> set (addrs (Nd l a v n r))"
  shows "take_place h a (Some s) = Inl NullDeref"
  using assms by (cases r; cases l) (auto simp: take_place_def replace_child_def)

lemma remove_root_two:
  assumes f: "focus (nodes t) [] (Nd l a v n r)" and lr: "l \<noteq> Lf" "r \<noteq> Lf"
  shows "remove_node (Some a) t = Some (Inl NullDeref)"
proof -
  obtain cs s w k sr where r: "r = plug cs (Nd Lf s w k sr)" "left_spine cs"
      "leftmost (nodes t) (gptr r) = Some (Inr (Some s))"
    using successor_spine [OF f lr(2)] by blast
  have "unlink_two (nodes t) a (Some s) = Inl NullDeref"
  proof (cases cs)
    case Nil
    let ?h = "(nodes t)(a \<mapsto> \<lparr>nvalue = v, height = n, parent = None, left = gptr l, right = gptr sr\<rparr>)"
    have "splice_succ (nodes t) a (Some s) = Inr ?h"
      using f by (simp add: r(1) Nil focus_def splice_succ_def)
    moreover have "take_place ?h a (Some s) = Inl NullDeref"
      by (rule take_place_root [where p = "Some s" and l = l and r = sr and v = v and n = n])
        (use f lr(1) in \<open>auto simp: r(1) Nil focus_def\<close>)
    moreover have "?h s = Some \<lparr>nvalue = w, height = k, parent = Some a, left = None, right = gptr sr\<rparr>"
      using f by (auto simp: r(1) Nil focus_def)
    ultimately show ?thesis by (simp add: unlink_two_def)
  next
    case (Cons g ds)
    with r(2) obtain p x j q where g: "g = FL p x j q" by (auto simp: left_spine_def)
    let ?d = "ds @ [FR l a v n]"
    have f': "focus (nodes t) (FL p x j q # ?d) (Nd Lf s w k sr)"
      using f focus_plug [of "nodes t" "FL p x j q # ds" "[FR l a v n]" "Nd Lf s w k sr"]
      by (simp add: r(1) Cons g focus_down_right [of _ "[]"])
    have "a \<in> ctx_addrs ?d" by (induction ds rule: ctx_addrs.induct) auto
    then have ap: "a \<noteq> p" and s: "s \<notin> ctx_addrs (FL p x j q # ?d)" "s \<notin> set (addrs sr)"
      using f' by (auto simp: focus_def distinct_plug)
    obtain h1 where h1: "splice_succ (nodes t) a (Some s) = Inr h1" "focus h1 (FL p x j q # ?d) sr"
        "h1 s = Some \<lparr>nvalue = w, height = k, parent = Some p, left = None, right = gptr sr\<rparr>"
      using splice_far [OF f' ap] by blast
    let ?r = "plug (FL p x j q # ds) sr"
    have f1: "focus h1 [] (Nd l a v n ?r)"
      using h1(2) focus_plug [of h1 "FL p x j q # ds" "[FR l a v n]" sr]
      by (simp add: focus_down_right [of _ "[]"])
    have "s \<notin> set (addrs (Nd l a v n ?r))"
      using s set_addrs_plug [of "FL p x j q # ?d" sr] by (auto simp: plug_append set_addrs_plug)
    then have "take_place h1 a (Some s) = Inl NullDeref"
      using f1 lr(1) h1(3) by (intro take_place_root [where p = "Some a" and l = l and r = ?r]) (auto simp: focus_def)
    with h1 show ?thesis by (simp add: unlink_two_def)
  qed
  with r(3) lr show ?thesis
    by (simp add: remove_node_step [OF f] finish_remove_def)
qed

end
