(* ===== verification/AVLSpec.thy ===== *)
theory AVLSpec
  imports AVLRemove
begin

text \<open>
  What the tree of \<open>AVLTree.hpp\<close> promises its clients: the sequence it holds (\<open>avl_contents\<close>), the
  interface \<open>sorted_store\<close> that \<open>VirtualMemoryManager.cpp\<close> relies on, its interpretation by the heap
  operations, and the properties of the operations.
\<close>

section \<open>The sequence a tree holds\<close>

definition avl_contents :: "('a \<Rightarrow> 'k::linorder) \<Rightarrow> 'a avl \<Rightarrow> 'a list \<Rightarrow> bool" where
  "avl_contents key t xs \<longleftrightarrow> (\<exists>T. holds key t T \<and> elems T = xs)"

definition avl_balanced :: "'a avl \<Rightarrow> bool" where
  "avl_balanced t \<longleftrightarrow> (\<exists>T. focus (nodes t) [] T \<and> m_tree t = gptr T \<and> hts T \<and> balanced T)"

lemma in_heap_unique:
  "in_heap h p S \<Longrightarrow> in_heap h q T \<Longrightarrow> gptr S = gptr T \<Longrightarrow> S = T"
proof (induction S arbitrary: p q T)
  case (Nd l a v n r)
  then obtain l' v' n' r' where "T = Nd l' a v' n' r'" by (cases T) auto
  with Nd.prems Nd.IH(1) [of "Some a" "Some a" l'] Nd.IH(2) [of "Some a" "Some a" r'] show ?case by simp
next
  case Lf
  then show ?case by (cases T) auto
qed

lemma avl_balanced_focus:
  "focus (nodes t) [] T \<Longrightarrow> m_tree t = gptr T \<Longrightarrow> hts T \<Longrightarrow> avl_balanced t \<longleftrightarrow> balanced T"
  using in_heap_unique [of "nodes t" None _ None T] by (auto simp: avl_balanced_def focus_def)

lemma avl_balanced_holds: "holds key t T \<Longrightarrow> avl_balanced t \<longleftrightarrow> balanced T"
  by (simp add: holds_def avl_balanced_focus)

lemma elems_Nil [simp]: "elems T = [] \<longleftrightarrow> T = Lf" "[] = elems T \<longleftrightarrow> T = Lf"
  by (cases T; auto)+

lemma contents_sorted: "avl_contents key t xs \<Longrightarrow> sorted_wrt (<) (map key xs)"
  by (auto simp: avl_contents_def holds_def bst_def)

lemma insert_contents:
  assumes "avl_contents key t xs" "nodes t a = None" "key v \<notin> key ` set xs"
  shows "\<exists>t'. avl_insert key a v t = Some (Inr t') \<and> avl_contents key t' (insort_key key v xs) \<and>
    (avl_balanced t \<longrightarrow> avl_balanced t')"
proof -
  obtain T where T: "holds key t T" "elems T = xs" using assms(1) by (auto simp: avl_contents_def)
  have a: "a \<notin> set (addrs T)"
    using in_heap_dom [of "nodes t" None T a] T(1) assms(2) by (auto simp: holds_def focus_def)
  obtain c where c: "locate key (key v) [] T = Some c"
    using locate_None [of key "key v" "[]" T] T(2) assms(3) by (cases "locate key (key v) [] T") auto
  let ?T = "rebuild c (mk Lf a v Lf)"
  obtain t' where t': "avl_insert key a v t = Some (Inr t')" "holds key t' ?T"
      "elems ?T = insort_key key v (elems T)"
    using insert_refines [OF T(1) a c] by blast
  have "grown Lf (mk Lf a v Lf)" by (simp add: grown_def mk_def)
  then have "balanced ?T" if "balanced T"
    using grown_rebuild [of Lf "mk Lf a v Lf" c] locate_plug [OF c] T(1) that
    by (simp add: grown_def holds_def)
  with t' T show ?thesis
    by (auto simp: avl_contents_def avl_balanced_holds)
qed

lemma locate_dup:
  fixes key :: "'a \<Rightarrow> 'k::linorder"
  shows "bst key t \<Longrightarrow> k \<in> key ` set (elems t) \<Longrightarrow> locate key k c t = None"
proof (induction key k c t rule: locate.induct)
  case (2 key k c l a v n r)
  note b = 2(3) [unfolded bst_Nd]
  have "k \<in> key ` set (elems l)" if "k < key v" using that b 2(4) by force
  moreover have "k \<in> key ` set (elems r)" if "key v < k" using that b 2(4) by force
  ultimately show ?case using 2(1,2) b by simp
qed simp

lemma insert_dup:
  assumes "avl_contents key t xs" "nodes t a = None" "key v \<in> key ` set xs"
  shows "avl_insert key a v t = Some (Inl AssertFail)"
proof -
  obtain T where T: "holds key t T" "elems T = xs" using assms(1) by (auto simp: avl_contents_def)
  have "a \<notin> set (addrs T)"
    using in_heap_dom [of "nodes t" None T a] T(1) assms(2) by (auto simp: holds_def focus_def)
  then have "in_heap ((nodes t)(a \<mapsto> x)) None T" for x
    using T(1) by (simp add: holds_def focus_def)
  from descend_locate [OF this, where key = key and k = "key v" and c = "[]"] show ?thesis
    using locate_dup [of key T "key v" "[]"] T assms(3) by (simp add: avl_insert_def holds_def)
qed

lemma find_contents:
  "avl_contents key t xs \<Longrightarrow> avl_find key v t = Some (Inr (List.find (\<lambda>x. key x = key v) xs))"
  using find_refines by (auto simp: avl_contents_def)

lemma filter_key_middle:
  fixes key :: "'a \<Rightarrow> 'k::linorder"
  assumes "sorted_wrt (<) (map key (xs @ v # ys))"
  shows "filter (\<lambda>x. key x \<noteq> key v) (xs @ v # ys) = xs @ ys"
proof -
  have "filter (\<lambda>x. key x \<noteq> key v) xs = xs" "filter (\<lambda>x. key x \<noteq> key v) ys = ys"
    using assms by (force simp: sorted_wrt_append filter_id_conv)+
  then show ?thesis by simp
qed

lemma seek_found:
  assumes T: "holds key t T" and k: "key v \<in> key ` set (elems T)"
  shows "\<exists>c l a w n r. seek (key_cmp key (key v)) [] T = Some (c, Nd l a w n r) \<and> plug c (Nd l a w n r) = T \<and>
    key w = key v \<and> find_node key v t = Some (Inr (Some a)) \<and> focus (nodes t) c (Nd l a w n r)"
proof -
  have "seek (key_cmp key (key v)) [] T \<noteq> None"
  proof
    assume "seek (key_cmp key (key v)) [] T = None"
    then have "\<forall>x \<in> set (elems T). key x \<noteq> key v"
      using seek_None [OF fits_key, of key T "key v" "[]"] T by (simp add: holds_def bst_def)
    with k show False by auto
  qed
  then obtain c l a w n r where s: "seek (key_cmp key (key v)) [] T = Some (c, Nd l a w n r)"
      "plug c (Nd l a w n r) = T" "key w = key v"
    using seek_Some [of "key_cmp key (key v)" "[]" T] by fastforce
  moreover have "focus (nodes t) c (Nd l a w n r)"
    using T s(2) in_heap_plug [of "nodes t" c "Nd l a w n r"] by (simp add: holds_def focus_def)
  moreover have "find_node key v t = Some (Inr (Some a))"
    using find_loop_seek [of "nodes t" None T key "key v" "[]"] T s(1)
    by (simp add: find_node_def holds_def focus_def)
  ultimately show ?thesis by blast
qed

lemma holds_after_removal:
  assumes "holds key t (plug c (Nd l a w n r))" "focus h' [] T'" "hts T'"
    "elems T' = ctx_pre c @ elems l @ elems r @ ctx_post c"
  shows "holds key \<lparr>nodes = h', m_tree = gptr T'\<rparr> T'"
    "elems T' = filter (\<lambda>x. key x \<noteq> key w) (elems (plug c (Nd l a w n r)))"
proof -
  have s: "sorted_wrt (<) (map key ((ctx_pre c @ elems l) @ w # elems r @ ctx_post c))"
    using assms(1) by (simp add: holds_def bst_def elems_plug)
  show e: "elems T' = filter (\<lambda>x. key x \<noteq> key w) (elems (plug c (Nd l a w n r)))"
    using filter_key_middle [OF s] assms(4) by (simp add: elems_plug)
  have "sorted_wrt (<) (map key (elems T'))"
    using s by (auto simp: assms(4) sorted_wrt_append)
  then show "holds key \<lparr>nodes = h', m_tree = gptr T'\<rparr> T'"
    using assms(2,3) by (simp add: holds_def bst_def)
qed

lemma remove_contents:
  assumes T: "holds key t T" and k: "key v \<in> key ` set (elems T)"
    and root: "\<not> (\<exists>l a w n r. T = Nd l a w n r \<and> key w = key v \<and> l \<noteq> Lf \<and> r \<noteq> Lf)"
  shows "\<exists>t'. avl_remove key v t = Some (Inr (t', True)) \<and>
    avl_contents key t' (filter (\<lambda>x. key x \<noteq> key v) (elems T))"
proof -
  obtain c l a w n r where s: "plug c (Nd l a w n r) = T" "key w = key v"
      "find_node key v t = Some (Inr (Some a))" "focus (nodes t) c (Nd l a w n r)"
    using seek_found [OF T k] by blast
  have h: "hts l" "hts r" "ctx_hts c"
    using T ctx_hts_plug [of c "Nd l a w n r"] by (auto simp: holds_def s(1))
  obtain h' T' where r: "remove_node (Some a) t = Some (Inr (\<lparr>nodes = h', m_tree = gptr T'\<rparr>, True))"
      "focus h' [] T'" "hts T'" "elems T' = ctx_pre c @ elems l @ elems r @ ctx_post c"
  proof (cases "l = Lf \<or> r = Lf")
    case True
    with remove_node_one [OF s(4) True h refl] that show ?thesis by blast
  next
    case False
    then have "c \<noteq> []" using root s(1,2) by auto
    with False remove_node_two [OF s(4) _ _ _ h] obtain t' T' where
      "remove_node (Some a) t = Some (Inr (t', True))" "focus (nodes t') [] T'" "m_tree t' = gptr T'" "hts T'"
      "elems T' = ctx_pre c @ elems l @ elems r @ ctx_post c" by blast
    then show ?thesis by (intro that [of "nodes t'" T']) simp_all
  qed
  with s T holds_after_removal [of key t c l a w n r h' T'] show ?thesis
    by (auto simp: avl_remove_def avl_contents_def)
qed

lemma remove_absent:
  assumes "avl_contents key t xs" "key v \<notin> key ` set xs"
  shows "avl_remove key v t = Some (Inr (t, False))"
proof -
  obtain T where T: "holds key t T" "elems T = xs" using assms(1) by (auto simp: avl_contents_def)
  have "seek (key_cmp key (key v)) [] T = None"
    using seek_Some [of "key_cmp key (key v)" "[]" T] assms(2) T(2)
    by (cases "seek (key_cmp key (key v)) [] T") (force simp: elems_plug)+
  then have "find_node key v t = Some (Inr None)"
    using find_loop_seek [of "nodes t" None T key "key v" "[]"] T(1)
    by (simp add: find_node_def holds_def focus_def)
  then show ?thesis by (simp add: avl_remove_def remove_node_def)
qed

definition two_child_root :: "('a \<Rightarrow> 'k::linorder) \<Rightarrow> 'a \<Rightarrow> 'a avl \<Rightarrow> bool" where
  "two_child_root key v t \<longleftrightarrow>
     (case m_tree t of None \<Rightarrow> False
      | Some a \<Rightarrow> (case nodes t a of None \<Rightarrow> False
         | Some n \<Rightarrow> key (nvalue n) = key v \<and> left n \<noteq> None \<and> right n \<noteq> None))"

lemma two_child_root_holds:
  assumes "holds key t T"
  shows "two_child_root key v t \<longleftrightarrow> (\<exists>l a w n r. T = Nd l a w n r \<and> key w = key v \<and> l \<noteq> Lf \<and> r \<noteq> Lf)"
  using assms by (cases T) (auto simp: two_child_root_def holds_def focus_def)

lemma remove_root_contents:
  assumes "avl_contents key t xs" "two_child_root key v t"
  shows "avl_remove key v t = Some (Inl NullDeref)"
proof -
  obtain T where T: "holds key t T" "elems T = xs" using assms(1) by (auto simp: avl_contents_def)
  then obtain l a w n r where T': "T = Nd l a w n r" "key w = key v" "l \<noteq> Lf" "r \<noteq> Lf"
    using assms(2) two_child_root_holds [OF T(1)] by blast
  have "find_node key v t = Some (Inr (Some a))"
    using find_loop_seek [of "nodes t" None T key "key v" "[]"] T T'
    by (simp add: find_node_def holds_def focus_def)
  moreover have "remove_node (Some a) t = Some (Inl NullDeref)"
    using remove_root_two [of t l a w n r] T(1) T' unfolding holds_def by blast
  ultimately show ?thesis by (simp add: avl_remove_def)
qed

lemma remove_seq:
  assumes "avl_contents key t xs" "\<not> two_child_root key v t"
  shows "\<exists>t'. avl_remove key v t = Some (Inr (t', key v \<in> key ` set xs)) \<and>
    avl_contents key t' (filter (\<lambda>x. key x \<noteq> key v) xs)"
proof (cases "key v \<in> key ` set xs")
  case True
  obtain T where T: "holds key t T" "elems T = xs" using assms(1) by (auto simp: avl_contents_def)
  with True assms(2) remove_contents [OF T(1)] show ?thesis by (simp add: two_child_root_holds)
next
  case False
  then have "filter (\<lambda>x. key x \<noteq> key v) xs = xs" by (auto simp: filter_id_conv image_iff)
  with False assms(1) remove_absent show ?thesis by fastforce
qed

text \<open>Every well-formed tree is laid out in some heap.\<close>

fun lay_out :: "ptr \<Rightarrow> 'a gtree \<Rightarrow> 'a nheap" where
  "lay_out p Lf = Map.empty"
| "lay_out p (Nd l a v n r) = (lay_out (Some a) l ++ lay_out (Some a) r)
     (a \<mapsto> \<lparr>nvalue = v, height = n, parent = p, left = gptr l, right = gptr r\<rparr>)"

lemma dom_lay_out: "dom (lay_out p t) = set (addrs t)"
  by (induction t arbitrary: p) auto

lemma lay_out_None: "a \<notin> set (addrs t) \<Longrightarrow> lay_out p t a = None"
  using dom_lay_out [of p t] by blast

lemma in_heap_eq_on: "in_heap h p t \<Longrightarrow> \<forall>a \<in> set (addrs t). h' a = h a \<Longrightarrow> in_heap h' p t"
  by (induction t arbitrary: p) auto

lemma in_heap_lay_out: "distinct (addrs t) \<Longrightarrow> in_heap (lay_out p t) p t"
proof (induction t arbitrary: p)
  case (Nd l a v n r)
  let ?h = "lay_out (Some a) l ++ lay_out (Some a) r"
  have "in_heap ?h (Some a) l"
    using Nd.prems by (intro in_heap_eq_on [OF Nd.IH(1)]) (auto simp: map_add_def lay_out_None disjoint_iff)
  moreover have "in_heap ?h (Some a) r"
    using Nd.prems by (intro in_heap_eq_on [OF Nd.IH(2)]) (auto simp: dom_lay_out map_add_dom_app_simps(1))
  moreover have "a \<notin> set (addrs l)" "a \<notin> set (addrs r)" using Nd.prems by simp_all
  ultimately show ?case unfolding lay_out.simps in_heap.simps by (simp only: in_heap_frame fun_upd_same simp_thms)
qed simp

definition tree_at :: "'a gtree \<Rightarrow> 'a avl" where
  "tree_at T = \<lparr>nodes = lay_out None T, m_tree = gptr T\<rparr>"

lemma holds_tree_at: "distinct (addrs T) \<Longrightarrow> hts T \<Longrightarrow> bst key T \<Longrightarrow> holds key (tree_at T) T"
  by (simp add: holds_def tree_at_def focus_def in_heap_lay_out)

section \<open>The interface of a sorted store\<close>

text \<open>
  What the clients of the tree rely on: a store that holds a sequence sorted by key, into which a value
  with a new key can be put at a fresh address, and from which the value with a given key can be got
  and deleted. Deletion may fault, so its law is about the calls that return.
\<close>

locale sorted_store =
  fixes key :: "'a \<Rightarrow> 'k::linorder"
    and seq :: "'t \<Rightarrow> 'a list \<Rightarrow> bool"
    and fresh :: "addr \<Rightarrow> 't \<Rightarrow> bool"
    and put :: "addr \<Rightarrow> 'a \<Rightarrow> 't \<Rightarrow> 't kres option"
    and get :: "'a \<Rightarrow> 't \<Rightarrow> 'a option kres option"
  assumes seq_sorted: "seq t xs \<Longrightarrow> sorted_wrt (<) (map key xs)"
    and put_new: "seq t xs \<Longrightarrow> fresh a t \<Longrightarrow> key v \<notin> key ` set xs \<Longrightarrow>
      \<exists>t'. put a v t = Some (Inr t') \<and> seq t' (insort_key key v xs)"
    and put_dup: "seq t xs \<Longrightarrow> fresh a t \<Longrightarrow> key v \<in> key ` set xs \<Longrightarrow> put a v t = Some (Inl AssertFail)"
    and get_seq: "seq t xs \<Longrightarrow> get v t = Some (Inr (List.find (\<lambda>x. key x = key v) xs))"
begin

lemma put_seq:
  assumes "seq t xs" "fresh a t" "put a v t = Some (Inr t')"
  shows "key v \<notin> key ` set xs" "seq t' (insort_key key v xs)"
proof -
  show n: "key v \<notin> key ` set xs"
    using put_dup [OF assms(1,2)] assms(3) by fastforce
  show "seq t' (insort_key key v xs)"
    using put_new [OF assms(1,2) n] assms(3) by auto
qed

lemma find_insort_same:
  "key v \<notin> key ` set xs \<Longrightarrow> List.find (\<lambda>x. key x = key v) (insort_key key v xs) = Some v"
  by (induction xs) auto

lemma find_insort_other:
  "key w \<noteq> key v \<Longrightarrow> List.find (\<lambda>x. key x = key w) (insort_key key v xs) = List.find (\<lambda>x. key x = key w) xs"
  by (induction xs) auto

lemma get_put:
  assumes "seq t xs" "fresh a t" "put a v t = Some (Inr t')"
  shows "get w t' = (if key w = key v then Some (Inr (Some v)) else get w t)"
  using get_seq [OF put_seq(2) [OF assms], of w] get_seq [OF assms(1), of w]
    find_insort_same [OF put_seq(1) [OF assms]] find_insort_other
  by auto

end

locale sorted_store_del = sorted_store key seq fresh put get
  for key :: "'a \<Rightarrow> 'k::linorder" and seq :: "'t \<Rightarrow> 'a list \<Rightarrow> bool" and fresh :: "addr \<Rightarrow> 't \<Rightarrow> bool"
    and put :: "addr \<Rightarrow> 'a \<Rightarrow> 't \<Rightarrow> 't kres option" and get :: "'a \<Rightarrow> 't \<Rightarrow> 'a option kres option" +
  fixes del :: "'a \<Rightarrow> 't \<Rightarrow> ('t \<times> bool) kres option"
  assumes del_seq: "seq t xs \<Longrightarrow> del v t = Some (Inr (t', b)) \<Longrightarrow>
      seq t' (filter (\<lambda>x. key x \<noteq> key v) xs) \<and> b = (key v \<in> key ` set xs)"
begin

lemma find_filter:
  "List.find (\<lambda>x. key x = k) (filter (\<lambda>x. key x \<noteq> j) xs) = (if k = j then None else List.find (\<lambda>x. key x = k) xs)"
  by (induction xs) auto

lemma get_del:
  assumes "seq t xs" "del v t = Some (Inr (t', b))"
  shows "get w t' = (if key w = key v then Some (Inr None) else get w t)"
  using get_seq [OF conjunct1 [OF del_seq [OF assms]], of w] get_seq [OF assms(1), of w]
  by (simp add: find_filter)

lemma filter_insort:
  "key v \<notin> key ` set xs \<Longrightarrow> filter (\<lambda>x. key x \<noteq> key v) (insort_key key v xs) = xs"
  by (induction xs) (auto simp: filter_id_conv image_iff)

lemma del_put:
  assumes "seq t xs" "fresh a t" "put a v t = Some (Inr t')" "del v t' = Some (Inr (t'', b))"
  shows "seq t'' xs \<and> b"
  using del_seq [OF put_seq(2) [OF assms(1-3)] assms(4)] put_seq(1) [OF assms(1-3)]
  by (simp add: filter_insort set_insort_key)

end

interpretation tree_store: sorted_store_del key "avl_contents key" "\<lambda>a t. nodes t a = None"
    "avl_insert key" "avl_find key" "avl_remove key"
  for key :: "'a \<Rightarrow> 'k::linorder"
proof unfold_locales
  fix t :: "'a avl" and xs v a
  assume t: "avl_contents key t xs"
  show "sorted_wrt (<) (map key xs)" using t by (rule contents_sorted)
  show "avl_find key v t = Some (Inr (List.find (\<lambda>x. key x = key v) xs))" using t by (rule find_contents)
  assume a: "nodes t a = None"
  show "avl_insert key a v t = Some (Inl AssertFail)" if "key v \<in> key ` set xs"
    using t a that by (rule insert_dup)
  show "\<exists>t'. avl_insert key a v t = Some (Inr t') \<and> avl_contents key t' (insort_key key v xs)"
    if "key v \<notin> key ` set xs"
    using insert_contents [OF t a that] by blast
next
  fix t xs v t' b
  assume t: "avl_contents key t xs" and r: "avl_remove key v t = Some (Inr (t', b))"
  then have "\<not> two_child_root key v t" using remove_root_contents by fastforce
  from remove_seq [OF t this] r show "avl_contents key t' (filter (\<lambda>x. key x \<noteq> key v) xs) \<and> b = (key v \<in> key ` set xs)"
    by auto
qed


section \<open>The height of a tree built by insertions\<close>

text \<open>Insertions one after the other; each comes with the address that \<open>new\<close> returns for its node.\<close>

fun insert_all :: "('a \<Rightarrow> 'k::linorder) \<Rightarrow> (addr \<times> 'a) list \<Rightarrow> 'a avl \<Rightarrow> 'a avl kres option" where
  "insert_all key [] t = Some (Inr t)"
| "insert_all key ((a, v) # avs) t =
     (case avl_insert key a v t of
        Some (Inr t') \<Rightarrow> insert_all key avs t' | Some (Inl e) \<Rightarrow> Some (Inl e) | None \<Rightarrow> None)"

text \<open>An insertion uses no other address than its own.\<close>

lemma insert_fresh:
  assumes "avl_contents key t xs" "nodes t a = None" "key v \<notin> key ` set xs" "avl_insert key a v t = Some (Inr t')"
    and "nodes t b = None" "b \<noteq> a"
  shows "nodes t' b = None"
proof -
  obtain T where T: "holds key t T" "elems T = xs" using assms(1) by (auto simp: avl_contents_def)
  have out: "a \<notin> set (addrs T)" "b \<notin> set (addrs T)"
    using in_heap_dom [of "nodes t" None T a] in_heap_dom [of "nodes t" None T b] T(1) assms(2,5)
    by (auto simp: holds_def focus_def)
  obtain c where c: "locate key (key v) [] T = Some c"
    using locate_None [of key "key v" "[]" T] T(2) assms(3) by (cases "locate key (key v) [] T") auto
  from insert_refines [OF T(1) out(1) c] show ?thesis
    using assms(4-6) out(2) by (auto simp: same_outside_def)
qed

lemma insert_all_contents:
  assumes "avl_contents key t xs" "avl_balanced t" "\<forall>a\<in>fst ` set avs. nodes t a = None"
    "distinct (map fst avs)" "distinct (map (key \<circ> snd) avs)" "key ` snd ` set avs \<inter> key ` set xs = {}"
  shows "\<exists>t' ys. insert_all key avs t = Some (Inr t') \<and> avl_contents key t' ys \<and> avl_balanced t' \<and>
    set ys = set xs \<union> snd ` set avs \<and> length ys = length xs + length avs"
  using assms
proof (induction avs arbitrary: t xs)
  case (Cons av avs)
  obtain a v where av: "av = (a, v)" by (cases av)
  have fresh: "nodes t a = None" "key v \<notin> key ` set xs" using Cons.prems av by auto
  obtain t1 where t1: "avl_insert key a v t = Some (Inr t1)" "avl_contents key t1 (insort_key key v xs)" "avl_balanced t1"
    using insert_contents [OF Cons.prems(1) fresh] Cons.prems(2) by blast
  have "\<forall>b\<in>fst ` set avs. nodes t1 b = None"
  proof
    fix b assume "b \<in> fst ` set avs"
    then have "nodes t b = None" "b \<noteq> a" using Cons.prems(3,4) av by auto
    then show "nodes t1 b = None" by (rule insert_fresh [OF Cons.prems(1) fresh t1(1)])
  qed
  moreover have "key ` snd ` set avs \<inter> key ` set (insort_key key v xs) = {}"
    using Cons.prems(5,6) av by (force simp: set_insort_key)
  ultimately obtain t' ys where "insert_all key avs t1 = Some (Inr t')" "avl_contents key t' ys" "avl_balanced t'"
    "set ys = set (insort_key key v xs) \<union> snd ` set avs" "length ys = length (insort_key key v xs) + length avs"
    using Cons.IH [OF t1(2,3)] Cons.prems(4,5) by auto
  then show ?case using t1(1) av by (intro exI [of _ t'] exI [of _ ys]) (auto simp: set_insort_key)
qed auto

text \<open>A balanced tree of height \<open>h\<close> has a number of leaves whose square is at least \<open>2 ^ h\<close>.\<close>

lemma leaves_square:
  assumes "(2::nat) ^ m \<le> c ^ 2" "2 ^ m \<le> d ^ 2" "2 ^ n \<le> c ^ 2" "n \<le> m + 1"
  shows "2 ^ (n + 1) \<le> (c + d) ^ 2"
proof -
  have "c ^ 2 \<le> c * d \<or> d ^ 2 \<le> c * d"
    by (cases "c \<le> d") (simp_all add: power2_eq_square)
  then have "2 ^ m \<le> c * d" using assms(1,2) by auto
  moreover have "(2::nat) ^ n \<le> 2 ^ (m + 1)" using assms(4) by (intro power_increasing) simp_all
  ultimately show ?thesis using assms(3) by (simp add: power2_sum)
qed

lemma balanced_leaves:
  "hts T \<Longrightarrow> balanced T \<Longrightarrow> 2 ^ nat (ht T) \<le> (length (elems T) + 1) ^ 2"
proof (induction T)
  case (Nd l a v n r)
  let ?c = "length (elems l) + 1" and ?d = "length (elems r) + 1" and ?hl = "nat (ht l)" and ?hr = "nat (ht r)"
  have nn: "0 \<le> ht l" "0 \<le> ht r" using Nd.prems hts_nonneg by auto
  have ih: "2 ^ ?hl \<le> ?c ^ 2" "2 ^ ?hr \<le> ?d ^ 2" using Nd by auto
  have n: "nat n = max ?hl ?hr + 1" and bal: "?hl \<le> ?hr + 1" "?hr \<le> ?hl + 1" using Nd.prems nn by auto
  have "2 ^ (max ?hl ?hr + 1) \<le> (?c + ?d) ^ 2"
  proof (cases "?hl \<le> ?hr")
    case True
    then have "(2::nat) ^ ?hl \<le> 2 ^ ?hr" by (intro power_increasing) simp_all
    from leaves_square [OF order_trans [OF this ih(2)] ih bal(2)] show ?thesis
      using True by (simp only: max_def if_True add.commute)
  next
    case False
    then have "(2::nat) ^ ?hr \<le> 2 ^ ?hl" by (intro power_increasing) simp_all
    from leaves_square [OF order_trans [OF this ih(1)] ih(2,1) bal(1)] show ?thesis
      using False by (simp only: max_def if_False)
  qed
  then show ?case using n by (simp add: algebra_simps)
qed simp

section \<open>Properties\<close>

text \<open>
  C1. Inserting a value whose key is not in the tree returns, adds exactly that value in key order,
  keeps the heights, the parent pointers and the search order (they are part of \<open>avl_contents\<close>), and
  keeps a balanced tree balanced.
\<close>

theorem avl_insert_correct:
  assumes "avl_contents key t xs" "nodes t a = None" "key v \<notin> key ` set xs"
  shows "\<exists>t'. avl_insert key a v t = Some (Inr t') \<and> avl_contents key t' (insort_key key v xs) \<and>
    (avl_balanced t \<longrightarrow> avl_balanced t')"
  using assms by (rule insert_contents)

text \<open>The tree with the keys 1, 2 and 3 used in the witnesses.\<close>

definition tree123 :: "nat gtree" where
  "tree123 = mk (mk Lf 16 1 Lf) 32 2 (mk Lf 48 3 Lf)"

lemma tree123_holds: "holds id (tree_at tree123) tree123" "elems tree123 = [1, 2, 3]" "balanced tree123"
  by (auto intro!: holds_tree_at simp: tree123_def mk_def bst_def)

theorem avl_insert_correct_witness:
  "\<exists>t'. avl_insert id 64 0 (tree_at tree123) = Some (Inr t') \<and> avl_contents id t' [0, 1, 2, 3] \<and> avl_balanced t'"
proof -
  have "avl_contents id (tree_at tree123) [1, 2, 3]" "avl_balanced (tree_at tree123)"
    using tree123_holds by (auto simp: avl_contents_def avl_balanced_holds)
  moreover have "nodes (tree_at tree123) 64 = None" by (simp add: tree_at_def tree123_def mk_def)
  ultimately show ?thesis
    using avl_insert_correct [of id "tree_at tree123" "[1, 2, 3]" 64 0] by auto
qed

text \<open>Inserting a value whose key is already in the tree runs into the assertion and changes nothing.\<close>

theorem avl_insert_duplicate:
  assumes "avl_contents key t xs" "nodes t a = None" "key v \<in> key ` set xs"
  shows "avl_insert key a v t = Some (Inl AssertFail)"
  using assms by (rule insert_dup)

lemma tree123_contents: "avl_contents id (tree_at tree123) [1, 2, 3]" "avl_balanced (tree_at tree123)"
  using tree123_holds by (auto simp: avl_contents_def avl_balanced_holds)

lemma tree123_fresh: "nodes (tree_at tree123) 64 = None"
  by (simp add: tree_at_def tree123_def mk_def)

theorem avl_insert_duplicate_witness: "avl_insert id 64 3 (tree_at tree123) = Some (Inl AssertFail)"
  using avl_insert_duplicate [OF tree123_contents(1) tree123_fresh, of 3] by simp

text \<open>
  C16. After an insertion that returned, \<open>find\<close> returns the inserted value for its key and for every
  other key what it returned before.
\<close>

theorem avl_find_after_insert:
  assumes "avl_contents key t xs" "nodes t a = None" "avl_insert key a v t = Some (Inr t')"
  shows "avl_find key w t' = (if key w = key v then Some (Inr (Some v)) else avl_find key w t)"
  using assms by (rule tree_store.get_put)

theorem avl_find_after_insert_witness:
  "\<exists>t'. avl_insert id 64 0 (tree_at tree123) = Some (Inr t') \<and>
    avl_find id 0 t' = Some (Inr (Some 0)) \<and> avl_find id 2 t' = avl_find id 2 (tree_at tree123)"
proof -
  obtain t' where t': "avl_insert id 64 0 (tree_at tree123) = Some (Inr t')"
    using tree_store.put_new [OF tree123_contents(1) tree123_fresh, of 0] by auto
  from avl_find_after_insert [OF tree123_contents(1) tree123_fresh t'] t' show ?thesis by simp
qed

text \<open>
  C25. \<open>find\<close> with a comparator whose sign grows along the sequence returns, and returns a matching
  value if there is one.
\<close>

theorem avl_find_by_correct:
  assumes "avl_contents key t xs" "fits f xs"
  shows "\<exists>q. avl_find_by f t = Some (Inr q) \<and>
    (case q of None \<Rightarrow> \<forall>x \<in> set xs. f x \<noteq> 0 | Some v \<Rightarrow> v \<in> set xs \<and> f v = 0)"
  using assms find_by_refines by (auto simp: avl_contents_def)

theorem avl_find_by_correct_witness:
  "\<exists>q. avl_find_by (\<lambda>x. int x - 2) (tree_at tree123) = Some (Inr q) \<and>
    (case q of None \<Rightarrow> \<forall>x \<in> set [1, 2, 3]. int x - 2 \<noteq> 0 | Some v \<Rightarrow> v \<in> set [1, 2, 3] \<and> int v - 2 = 0)"
  by (rule avl_find_by_correct [OF tree123_contents(1)]) (simp add: fits_def)

text \<open>
  C27. \<open>traverse\<close> returns after calling the callback on the values in key order, up to the first call
  that returns false.
\<close>

theorem avl_traverse_in_order:
  assumes "avl_contents key t xs"
  shows "avl_traverse cb t s = Some (Inr (snd (visit cb xs s)))"
  using assms traverse_refines by (auto simp: avl_contents_def)

theorem avl_traverse_in_order_witness:
  "avl_traverse (\<lambda>s x. (x < 2, s @ [x])) (tree_at tree123) [] = Some (Inr [1, 2])"
  using avl_traverse_in_order [OF tree123_contents(1), of "\<lambda>s x. (x < 2, s @ [x])" "[]"] by simp

text \<open>
  C4. Unless it is asked to remove a root with two children, \<open>remove\<close> returns whether the key was
  there, and the tree then holds the same sequence without the value of that key, with heights,
  parent pointers and search order intact.
\<close>

theorem avl_remove_correct:
  assumes "avl_contents key t xs" "\<not> two_child_root key v t"
  shows "\<exists>t'. avl_remove key v t = Some (Inr (t', key v \<in> key ` set xs)) \<and>
    avl_contents key t' (filter (\<lambda>x. key x \<noteq> key v) xs)"
  using assms by (rule remove_seq)

theorem avl_remove_correct_witness:
  "\<exists>t'. avl_remove id 3 (tree_at tree123) = Some (Inr (t', True)) \<and> avl_contents id t' [1, 2]"
proof -
  have "\<not> two_child_root id 3 (tree_at tree123)"
    by (simp add: two_child_root_def tree_at_def tree123_def mk_def)
  from avl_remove_correct [OF tree123_contents(1) this] show ?thesis by simp
qed

text \<open>
  Removing the value at the root while the root has two children dereferences the null parent of
  the root.
\<close>

theorem avl_remove_root_faults:
  assumes "avl_contents key t xs" "two_child_root key v t"
  shows "avl_remove key v t = Some (Inl NullDeref)"
  using assms by (rule remove_root_contents)

theorem avl_remove_root_faults_witness: "avl_remove id 2 (tree_at tree123) = Some (Inl NullDeref)"
  by (rule avl_remove_root_faults [OF tree123_contents(1)])
    (simp add: two_child_root_def tree_at_def tree123_def mk_def)

text \<open>
  A removed value stays removed, and removing a value that was just inserted restores the
  sequence, whenever the removal returns.
\<close>

theorem avl_remove_undoes_insert:
  assumes "avl_contents key t xs" "nodes t a = None" "avl_insert key a v t = Some (Inr t')"
    "avl_remove key v t' = Some (Inr (t'', b))"
  shows "avl_contents key t'' xs \<and> b \<and> avl_find key v t'' = Some (Inr None)"
proof -
  have "avl_contents key t'' xs \<and> b" using assms by (rule tree_store.del_put)
  moreover have "avl_contents key t' (insort_key key v xs)"
    using tree_store.put_seq(2) assms(1-3) .
  from tree_store.get_del [OF this assms(4), of v] have "avl_find key v t'' = Some (Inr None)" by simp
  ultimately show ?thesis by simp
qed

theorem avl_remove_undoes_insert_witness:
  "\<exists>t' t'' b. avl_insert id 64 0 (tree_at (mk Lf 16 (1::nat) Lf)) = Some (Inr t') \<and>
    avl_remove id 0 t' = Some (Inr (t'', b)) \<and> avl_contents id t'' [1] \<and> b"
proof -
  let ?t = "tree_at (mk Lf 16 (1::nat) Lf)"
  have t: "avl_contents id ?t [1]" "nodes ?t 64 = None"
    by (auto intro!: exI [of _ "mk Lf 16 1 Lf"]
      simp: avl_contents_def holds_def focus_def bst_def mk_def tree_at_def)
  obtain t' where t': "avl_insert id 64 0 ?t = Some (Inr t')"
    using tree_store.put_new [OF t, of 0] by auto
  then have c: "avl_contents id t' [0, 1]" using tree_store.put_seq(2) [OF t] by fastforce
  obtain T where T: "holds id t' T" "elems T = [0, 1]" using c by (auto simp: avl_contents_def)
  have "\<not> two_child_root id 0 t'"
    using T by (auto simp: two_child_root_holds [OF T(1)] append_eq_Cons_conv)
  from remove_seq [OF c this] obtain t'' where r: "avl_remove id 0 t' = Some (Inr (t'', True))" by auto
  from avl_remove_undoes_insert [OF t t' r] t' r show ?thesis by blast
qed

text \<open>
  Removal does not keep the tree balanced: the choice of the rotation treats a child of balance
  factor 0 like one that leans inward, and the double rotation then leaves a node with a balance
  factor of -2.
\<close>

definition tree8 :: "nat gtree" where
  "tree8 = mk (mk (mk (mk Lf 5 5 Lf) 10 10 Lf) 20 20 (mk Lf 30 30 (mk Lf 40 40 Lf))) 50 50
              (mk Lf 60 60 (mk Lf 70 70 Lf))"

theorem avl_remove_unbalances:
  "\<exists>t' :: nat avl. avl_balanced (tree_at tree8) \<and> avl_contents id (tree_at tree8) [5, 10, 20, 30, 40, 50, 60, 70] \<and>
     avl_remove id 70 (tree_at tree8) = Some (Inr (t', True)) \<and> \<not> avl_balanced t'"
proof -
  have h: "holds id (tree_at tree8) tree8" "elems tree8 = [5, 10, 20, 30, 40, 50, 60, 70]" "balanced tree8"
    by (auto intro!: holds_tree_at simp: tree8_def mk_def bst_def)
  have "id 70 \<in> id ` set (elems tree8)" by (simp add: h(2))
  from seek_found [OF h(1) this] obtain c l a w n r where
    s: "seek (key_cmp id 70) [] tree8 = Some (c, Nd l a w n r)" "find_node id 70 (tree_at tree8) = Some (Inr (Some a))"
      "focus (nodes (tree_at tree8)) c (Nd l a w n r)"
    unfolding id_apply by blast
  then have e: "l = Lf" "r = Lf" "c = [FR Lf 60 60 2, FR (mk (mk (mk Lf 5 5 Lf) 10 10 Lf) 20 20 (mk Lf 30 30 (mk Lf 40 40 Lf))) 50 50 4]"
    by (auto simp: tree8_def mk_def)
  let ?T = "rebuild c (rebal Lf)"
  obtain h' where r: "remove_node (Some a) (tree_at tree8) = Some (Inr (\<lparr>nodes = h', m_tree = gptr ?T\<rparr>, True))"
      "focus h' [] ?T" "hts ?T"
    using remove_node_one [OF s(3) _ _ _ _ refl] by (auto simp: e)
  have "\<not> balanced ?T" by (simp add: e bal_def mk_def)
  moreover have "avl_balanced \<lparr>nodes = h', m_tree = gptr ?T\<rparr> \<longleftrightarrow> balanced ?T"
    using r(2,3) by (intro avl_balanced_focus) simp_all
  ultimately show ?thesis
    using r(1) s(2) h by (auto simp: avl_remove_def avl_contents_def avl_balanced_holds)
qed

text \<open>
  C29. Starting from the empty tree, any sequence of insertions with different keys and fresh addresses
  returns, and the tree it builds has exactly the inserted values, is balanced, and stores at its root
  a height of at most twice the binary logarithm of the number of values plus one: \<open>2 ^ height\<close> is at
  most \<open>(n + 1)\<^sup>2\<close>. That the stored height is the height of the tree is part of \<open>avl_contents\<close>.
\<close>

theorem avl_height_log:
  assumes "distinct (map fst avs)" "distinct (map (key \<circ> snd) avs)"
  shows "\<exists>t ys. insert_all key avs empty_avl = Some (Inr t) \<and> avl_contents key t ys \<and> avl_balanced t \<and>
    set ys = snd ` set avs \<and> length ys = length avs \<and>
    (\<forall>a n. m_tree t = Some a \<longrightarrow> nodes t a = Some n \<longrightarrow> 2 ^ nat (height n) \<le> (length avs + 1) ^ 2)"
proof -
  have "holds key empty_avl Lf" by (simp add: holds_def focus_def empty_avl_def bst_def)
  then have "avl_contents key empty_avl []" "avl_balanced (empty_avl :: 'a avl)"
    by (auto simp: avl_contents_def avl_balanced_holds intro!: exI [of _ Lf])
  from insert_all_contents [OF this _ assms] obtain t ys where t: "insert_all key avs empty_avl = Some (Inr t)"
    "avl_contents key t ys" "avl_balanced t" "set ys = snd ` set avs" "length ys = length avs"
    by (auto simp: empty_avl_def)
  obtain T where T: "holds key t T" "elems T = ys" using t(2) by (auto simp: avl_contents_def)
  have "2 ^ nat (height n) \<le> (length avs + 1) ^ 2" if "m_tree t = Some a" "nodes t a = Some n" for a n
  proof -
    have "ht T = height n" using T(1) that by (cases T) (auto simp: holds_def focus_def)
    then show ?thesis using balanced_leaves [of T] T t(3,5) by (auto simp: avl_balanced_holds holds_def)
  qed
  with t show ?thesis by blast
qed

theorem avl_height_log_witness:
  "\<exists>t ys. insert_all id [(16, 1), (32, 2), (48, 3 :: nat)] empty_avl = Some (Inr t) \<and> avl_contents id t ys \<and>
    set ys = {1, 2, 3} \<and> (\<forall>a n. m_tree t = Some a \<longrightarrow> nodes t a = Some n \<longrightarrow> 2 ^ nat (height n) \<le> (16 :: nat))"
proof -
  let ?avs = "[(16, 1), (32, 2), (48, 3 :: nat)] :: (addr \<times> nat) list"
  have d: "distinct (map fst ?avs)" "distinct (map (id \<circ> snd) ?avs)" by simp_all
  have e: "snd ` set ?avs = {1, 2, 3}" "(length ?avs + 1) ^ 2 = 16" by (simp_all add: power2_eq_square)
  from avl_height_log [OF d] show ?thesis unfolding e by blast
qed

end
