(* ===== verification/BitmapHeap.thy ===== *)
theory BitmapHeap
  imports Prelude
begin

text \<open>
  \<open>heap/BitmapHeap.cpp\<close>: the kernel heap. A heap is a list of regions; each region is cut into blocks
  of equal size, and a bitmap at its start holds a 2-bit id per block: 0 for a free block, and ids
  that differ between neighbouring allocations, so that the extent of an allocation can be read off
  the bitmap. The headers of the regions are records; bitmap and user data are bytes of one memory.
  The spin lock of the heap is taken and released on every path and is not part of the state.
\<close>

section \<open>Regions and statistics\<close>

record heap_block_t =
  hb_addr :: addr
  mem_size :: u32
  used_blocks :: u32
  block_size :: u32
  last_alloc :: u32

record heap_statistics_t =
  stat_size :: u32
  stat_free :: u32
  stat_used :: u32
  stat_meta :: u32

record bitmap_heap =
  m_first_block :: "heap_block_t list"
  m_stats :: heap_statistics_t
  hmem :: memory

definition empty_heap :: "memory \<Rightarrow> bitmap_heap" where
  "empty_heap m = \<lparr>m_first_block = [], m_stats = \<lparr>stat_size = 0, stat_free = 0, stat_used = 0, stat_meta = 0\<rparr>, hmem = m\<rparr>"

definition sizeof_heap_block_t :: u32 where
  "sizeof_heap_block_t = 20"

definition bitmap_of :: "heap_block_t \<Rightarrow> addr" where
  \<comment> \<open>\<open>(uint8_t * )(block + 1)\<close>\<close>
  "bitmap_of b = hb_addr b + sizeof_heap_block_t"

definition block_count :: "heap_block_t \<Rightarrow> u32" where
  "block_count b = mem_size b div block_size b"

section \<open>The bitmap\<close>

definition setID :: "memory \<Rightarrow> addr \<Rightarrow> u32 \<Rightarrow> u8 \<Rightarrow> memory" where
  "setID m bitmap block i =
     (let index = block div 4; offset = unat (block mod 4) in
      m(bitmap + index := (m (bitmap + index) AND NOT (push_bit (offset * 2) 3)) OR push_bit (offset * 2) (i AND 3)))"

definition getID :: "memory \<Rightarrow> addr \<Rightarrow> u32 \<Rightarrow> u8" where
  "getID m bitmap block =
     (let index = block div 4; offset = unat (block mod 4) in
      drop_bit (offset * 2) (m (bitmap + index) AND push_bit (offset * 2) 3))"

definition getFreeID :: "u8 \<Rightarrow> u8 \<Rightarrow> u8" where
  "getFreeID idLeft idRight =
     (if idLeft \<noteq> 1 \<and> idRight \<noteq> 1 then 1
      else if idLeft \<noteq> 2 \<and> idRight \<noteq> 2 then 2
      else 3)"

text \<open>\<open>for (uint32_t i = 0; i < count; i++) setID(bitmap, start + i, id);\<close>\<close>

definition set_run :: "memory \<Rightarrow> addr \<Rightarrow> u32 \<Rightarrow> u32 \<Rightarrow> u8 \<Rightarrow> memory" where
  "set_run m bitmap start count i =
     fold (\<lambda>k m. setID m bitmap (start + of_nat k) i) [0..<unat count] m"

section \<open>Alignment\<close>

definition can_align :: "addr \<Rightarrow> u32 \<Rightarrow> u32 \<Rightarrow> u32 \<Rightarrow> bool" where
  "can_align bitmap bs block align \<longleftrightarrow>
     (if align \<le> bs then True
      else (bitmap + block * bs) mod align + bs > align)"

definition get_aligment_offset :: "addr \<Rightarrow> u32 \<Rightarrow> u32" where
  "get_aligment_offset address align = (if align = 1 then 0 else align - address mod align)"

section \<open>Growing the heap\<close>

definition expand :: "addr \<Rightarrow> u32 \<Rightarrow> u32 \<Rightarrow> bitmap_heap \<Rightarrow> bitmap_heap kres" where
  "expand addr sz bs h =
     (let msize = sz - sizeof_heap_block_t; bitmap = addr + sizeof_heap_block_t in
      if bs = 0 then Inl DivZero
      else
        let count = msize div bs;
            bytes = (count + 4 - 1) div 4;
            m = fold (\<lambda>i m. m(bitmap + of_nat i := 0)) [0..<unat bytes] (hmem h);
            blocks = (bytes + bs - 1) div bs;
            m = set_run m bitmap 0 blocks 1;
            meta = blocks * bs + sizeof_heap_block_t;
            st = m_stats h
        in Inr \<lparr>m_first_block = \<lparr>hb_addr = addr, mem_size = msize, used_blocks = blocks, block_size = bs,
                                  last_alloc = blocks - 1\<rparr> # m_first_block h,
                m_stats = st\<lparr>stat_size := stat_size st + sz, stat_free := stat_free st + (sz - meta),
                             stat_meta := stat_meta st + meta\<rparr>,
                hmem = m\<rparr>)"

section \<open>Allocation\<close>

text \<open>
  \<open>for (; getID(bitmap, start + count) == 0 && count < needed && start + count < block_count; count++);\<close>
\<close>

function free_run :: "memory \<Rightarrow> heap_block_t \<Rightarrow> u32 \<Rightarrow> u32 \<Rightarrow> u32 \<Rightarrow> u32" where
  "free_run m b start needed count =
     (if getID m (bitmap_of b) (start + count) = 0 \<and> count < needed \<and> start + count < block_count b
      then free_run m b start needed (count + 1) else count)"
  by pat_completeness auto

termination
  by (relation "measure (\<lambda>(m, b, start, needed, count). unat (needed - count))") (auto simp: unat_diff_step)

declare free_run.simps [simp del]

definition needed_blocks :: "heap_block_t \<Rightarrow> u32 \<Rightarrow> u32 \<Rightarrow> u32 \<Rightarrow> u32" where
  "needed_blocks b sz align start =
     (let address = bitmap_of b + start * block_size b; offset = get_aligment_offset address align in
      (sz + offset + block_size b - 1) div block_size b)"

text \<open>
  The search of one region: the index runs from the block after the last allocation, wraps around at
  the end, and the search gives up when the index is that of the last allocation again. The result is
  the first block and the number of blocks.
\<close>

partial_function (option) alloc_scan ::
  "memory \<Rightarrow> heap_block_t \<Rightarrow> u32 \<Rightarrow> u32 \<Rightarrow> u32 \<Rightarrow> (u32 \<times> u32) option kres option" where
  "alloc_scan m b sz align start0 =
     (if start0 = last_alloc b then Some (Inr None)
      else let start = (if block_count b \<le> start0 then 0 else start0) in
        if \<not> can_align (bitmap_of b) (block_size b) start align then alloc_scan m b sz align (start + 1)
        else if align = 0 then Some (Inl DivZero)
        else if getID m (bitmap_of b) start \<noteq> 0 then alloc_scan m b sz align (start + 1)
        else let needed = needed_blocks b sz align start; count = free_run m b start needed 0 in
          if count < needed then alloc_scan m b sz align (start + (count - 1) + 1)
          else Some (Inr (Some (start, count))))"

declare alloc_scan.simps [code]

text \<open>Marking the blocks found: the id differs from those of both neighbours.\<close>

definition take_blocks :: "memory \<Rightarrow> heap_block_t \<Rightarrow> u32 \<Rightarrow> u32 \<Rightarrow> memory \<times> heap_block_t" where
  "take_blocks m b start count =
     (let bitmap = bitmap_of b;
          leftID = (if start = 0 then 0 else getID m bitmap (start - 1));
          rightID = (if block_count b \<le> start + count then 0 else getID m bitmap (start + count));
          i = getFreeID leftID rightID
      in (set_run m bitmap start count i,
          b\<lparr>last_alloc := start + count - 1, used_blocks := used_blocks b + count\<rparr>))"

text \<open>The regions in turn; the result is the address and the number of bytes taken.\<close>

fun alloc_in :: "memory \<Rightarrow> u32 \<Rightarrow> u32 \<Rightarrow> heap_block_t list \<Rightarrow>
    (memory \<times> heap_block_t list \<times> (addr \<times> u32) option) kres option" where
  "alloc_in m sz align [] = Some (Inr (m, [], None))"
| "alloc_in m sz align (b # bs) =
     (let next_block = (case alloc_in m sz align bs of
            Some (Inr (m', bs', r)) \<Rightarrow> Some (Inr (m', b # bs', r)) | e \<Rightarrow> e) in
      if mem_size b - used_blocks b * block_size b < sz then next_block
      else if block_size b = 0 \<or> block_count b = 0 then Some (Inl DivZero)
      else (case alloc_scan m b sz align ((last_alloc b + 1) mod block_count b) of
              None \<Rightarrow> None
            | Some (Inl e) \<Rightarrow> Some (Inl e)
            | Some (Inr None) \<Rightarrow> next_block
            | Some (Inr (Some (start, count))) \<Rightarrow>
                let (m', b') = take_blocks m b start count;
                    address = bitmap_of b + start * block_size b
                in Some (Inr (m', b' # bs, Some (address + get_aligment_offset address align, count * block_size b)))))"

definition heap_alloc :: "u32 \<Rightarrow> u32 \<Rightarrow> bitmap_heap \<Rightarrow> (bitmap_heap \<times> ptr) kres option" where
  "heap_alloc sz align h =
     (case alloc_in (hmem h) sz align (m_first_block h) of
        None \<Rightarrow> None
      | Some (Inl e) \<Rightarrow> Some (Inl e)
      | Some (Inr (m, bs, None)) \<Rightarrow> Some (Inr (h, None))
      | Some (Inr (m, bs, Some (p, bytes))) \<Rightarrow>
          let st = m_stats h in
          Some (Inr (\<lparr>m_first_block = bs,
                     m_stats = st\<lparr>stat_free := stat_free st - bytes, stat_used := stat_used st + bytes\<rparr>,
                     hmem = m\<rparr>, Some p)))"

section \<open>Freeing\<close>

definition ptr_inside :: "addr \<Rightarrow> heap_block_t \<Rightarrow> bool" where
  "ptr_inside p b \<longleftrightarrow> bitmap_of b \<le> p \<and> p < hb_addr b + sizeof_heap_block_t + mem_size b"

text \<open>\<open>while (getID(bitmap, block_index) == id && block_index != 0) block_index--;\<close>\<close>

function run_back :: "memory \<Rightarrow> addr \<Rightarrow> u8 \<Rightarrow> u32 \<Rightarrow> u32" where
  "run_back m bitmap i idx =
     (if getID m bitmap idx = i \<and> idx \<noteq> 0 then run_back m bitmap i (idx - 1) else idx)"
  by pat_completeness auto

termination
  by (relation "measure (\<lambda>(m, bitmap, i, idx). unat idx)") (auto simp: measure_unat)

text \<open>\<open>for (; getID(bitmap, i) == id && i < block_count; i++) setID(bitmap, i, 0);\<close>\<close>

function clear_run :: "memory \<Rightarrow> addr \<Rightarrow> u8 \<Rightarrow> u32 \<Rightarrow> u32 \<Rightarrow> memory \<times> u32" where
  "clear_run m bitmap i n idx =
     (if getID m bitmap idx = i \<and> idx < n then clear_run (setID m bitmap idx 0) bitmap i n (idx + 1)
      else (m, idx))"
  by pat_completeness auto

termination
  by (relation "measure (\<lambda>(m, bitmap, i, n, idx). unat (n - idx))") (auto simp: unat_diff_step)

declare run_back.simps [simp del] clear_run.simps [simp del]

definition free_in_block :: "addr \<Rightarrow> memory \<Rightarrow> heap_block_t \<Rightarrow> (memory \<times> heap_block_t \<times> u32) kres" where
  "free_in_block p m b =
     (if block_size b = 0 then Inl DivZero
      else
        let bitmap = bitmap_of b;
            idx = (p - bitmap) div block_size b;
            i = getID m bitmap idx
        in kbind (kassert (i \<noteq> 0)) (\<lambda>_.
           let idx = run_back m bitmap i idx;
               idx = (if getID m bitmap idx \<noteq> i then idx + 1 else idx);
               (m', e) = clear_run m bitmap i (block_count b) idx;
               sz = e - idx
           in Inr (m', b\<lparr>used_blocks := used_blocks b - sz\<rparr>, sz * block_size b)))"

fun free_in :: "addr \<Rightarrow> memory \<Rightarrow> heap_block_t list \<Rightarrow> (memory \<times> heap_block_t list \<times> u32) kres" where
  "free_in p m [] = Inr (m, [], 0)"
| "free_in p m (b # bs) =
     (if ptr_inside p b then kbind (free_in_block p m b) (\<lambda>(m', b', bytes). Inr (m', b' # bs, bytes))
      else kbind (free_in p m bs) (\<lambda>(m', bs', bytes). Inr (m', b # bs', bytes)))"

definition heap_free :: "addr \<Rightarrow> bitmap_heap \<Rightarrow> bitmap_heap kres" where
  "heap_free p h =
     kbind (free_in p (hmem h) (m_first_block h)) (\<lambda>(m, bs, bytes).
     let st = m_stats h in
     Inr \<lparr>m_first_block = bs,
          m_stats = st\<lparr>stat_free := stat_free st + bytes, stat_used := stat_used st - bytes\<rparr>,
          hmem = m\<rparr>)"

section \<open>The size of an allocation\<close>

function run_length :: "memory \<Rightarrow> addr \<Rightarrow> u8 \<Rightarrow> u32 \<Rightarrow> u32 \<Rightarrow> u32 \<Rightarrow> u32" where
  "run_length m bitmap i n idx count =
     (if getID m bitmap (idx + count) = i \<and> idx + count < n then run_length m bitmap i n idx (count + 1) else count)"
  by pat_completeness auto

termination
proof (relation "measure (\<lambda>(m, bitmap, i, n, idx, count). unat (n - (idx + count)))")
  fix m bitmap i and n idx count :: u32
  assume "getID m bitmap (idx + count) = i \<and> idx + count < n"
  then show "((m, bitmap, i, n, idx, count + 1), (m, bitmap, i, n, idx, count))
      \<in> measure (\<lambda>(m, bitmap, i, n, idx, count). unat (n - (idx + count)))"
    using unat_diff_step [of "idx + count" n] by (simp add: add.assoc)
qed simp

declare run_length.simps [simp del]

fun size_in :: "addr \<Rightarrow> memory \<Rightarrow> heap_block_t list \<Rightarrow> u32 kres" where
  "size_in p m [] = Inr 0"
| "size_in p m (b # bs) =
     (if ptr_inside p b then
        if block_size b = 0 then Inl DivZero
        else
          let bitmap = bitmap_of b; offset = p - bitmap; alignment = offset mod block_size b;
              idx = offset div block_size b; i = getID m bitmap idx;
              count = run_length m bitmap i (block_count b) idx 0
          in Inr (count * block_size b - alignment)
      else size_in p m bs)"

definition heap_size :: "addr \<Rightarrow> bitmap_heap \<Rightarrow> u32 kres" where
  "heap_size p h = size_in p (hmem h) (m_first_block h)"

end
