(* ===== verification/HeapMap.thy ===== *)
theory HeapMap
  imports BitmapHeap
begin

text \<open>
  The bitmap of a region of \<open>heap/BitmapHeap.cpp\<close> as a set of disjoint allocations, and what marking
  and clearing blocks does to that set.
\<close>

section \<open>Ids of blocks\<close>

lemma bit_3_int: "bit (3 :: int) k \<longleftrightarrow> k < 2"
proof -
  have *: "(3 :: int) = mask 2" by (simp add: mask_eq_exp_minus_1)
  show ?thesis unfolding * bit_mask_iff by auto
qed

lemma bit_getID:
  "bit (getID m bm j) k \<longleftrightarrow> k < 2 \<and> bit (m (bm + j div 4)) (2 * (unat j mod 4) + k)"
proof -
  have "unat j mod 4 < 4" by simp
  then have "k < 2 \<Longrightarrow> 2 * (unat j mod 4) + k < 8" by linarith
  then show ?thesis
    by (auto simp: getID_def Let_def bit_drop_bit_eq bit_and_iff bit_push_bit_iff bit_3_int mult.commute)
qed

lemma getID_setID:
  "getID (setID m bm i x) bm j = (if i = j then x AND 3 else getID m bm j)"
proof (rule bit_eqI)
  fix k
  have lt: "unat i mod 4 < 4" "unat j mod 4 < 4" by simp_all
  have eq: "i = j \<longleftrightarrow> unat i div 4 = unat j div 4 \<and> unat i mod 4 = unat j mod 4"
    by (metis div_mult_mod_eq word_unat_eq_iff)
  have ix: "i div 4 = j div 4 \<longleftrightarrow> unat i div 4 = unat j div 4" "j div 4 = i div 4 \<longleftrightarrow> unat i div 4 = unat j div 4"
    by (auto simp: word_unat_eq_iff)
  show "bit (getID (setID m bm i x) bm j) k \<longleftrightarrow> bit (if i = j then x AND 3 else getID m bm j) k"
  proof (cases "k < 2 \<and> unat i div 4 = unat j div 4")
    case True
    have "2 * (unat j mod 4) + k < 8" "i div 4 = j div 4" using True lt ix by auto
    with True lt show ?thesis
      by (auto simp: bit_getID setID_def Let_def bit_and_iff bit_or_iff bit_not_iff bit_push_bit_iff bit_3_int eq mult.commute)
  next
    case False
    then show ?thesis
      by (auto simp: bit_getID setID_def Let_def ix eq bit_and_iff bit_3_int)
  qed
qed

lemma getID_le: "getID m bm j AND 3 = getID m bm j"
  by (rule bit_eqI) (auto simp: bit_and_iff bit_getID bit_3_int)

lemma getFreeID_fresh: "getFreeID l r \<noteq> 0" "getFreeID l r \<noteq> l" "getFreeID l r \<noteq> r" "getFreeID l r AND 3 = getFreeID l r"
  by (auto simp: getFreeID_def)

text \<open>The ids of the blocks of a region, by number.\<close>

definition ids :: "memory \<Rightarrow> heap_block_t \<Rightarrow> nat \<Rightarrow> u8" where
  "ids m b i = getID m (bitmap_of b) (of_nat i)"

lemma getID_ids: "getID m (bitmap_of b) w = ids m b (unat w)"
  by (simp add: ids_def)

lemma ids_set_run:
  assumes "unat s + unat c \<le> 2 ^ 32" "i < 2 ^ 32"
  shows "ids (set_run m (bitmap_of b) s c x) b i =
    (if unat s \<le> i \<and> i < unat s + unat c then x AND 3 else ids m b i)"
proof -
  have "ids (fold (\<lambda>k m. setID m (bitmap_of b) (s + of_nat k) x) [0..<n] m) b i =
      (if unat s \<le> i \<and> i < unat s + n then x AND 3 else ids m b i)" if "unat s + n \<le> 2 ^ 32" for n
    using that
  proof (induction n)
    case (Suc n)
    have "s + of_nat n = (of_nat (unat s + n) :: u32)" by simp
    then have "s + of_nat n = (of_nat i :: u32) \<longleftrightarrow> unat s + n = i"
      using Suc.prems assms(2) of_nat_eq_small [where 'a = 32, of "unat s + n" i] by simp
    with Suc show ?case by (auto simp: ids_def getID_setID)
  qed auto
  from this [OF assms(1)] show ?thesis by (simp add: set_run_def)
qed


section \<open>The map of a region\<close>

text \<open>
  What the ids of a region say: \<open>A\<close> is the set of its allocations, each a first block and a number of
  blocks. Allocations are disjoint, all blocks of one have one id, neighbours have different ids, and
  a block outside all allocations has id 0.
\<close>

datatype extent = Extent (first_block: nat) (blocks: nat)

definition covers :: "extent \<Rightarrow> nat \<Rightarrow> bool" where
  "covers a i \<longleftrightarrow> first_block a \<le> i \<and> i < first_block a + blocks a"

definition heap_map :: "(nat \<Rightarrow> u8) \<Rightarrow> nat \<Rightarrow> extent set \<Rightarrow> bool" where
  "heap_map f n A \<longleftrightarrow>
     (\<forall>a \<in> A. 0 < blocks a \<and> first_block a + blocks a \<le> n \<and> f (first_block a) \<noteq> 0 \<and> (\<forall>i. covers a i \<longrightarrow> f i = f (first_block a))) \<and>
     (\<forall>a \<in> A. \<forall>a' \<in> A. \<forall>i. covers a i \<and> covers a' i \<longrightarrow> a = a') \<and>
     (\<forall>a \<in> A. \<forall>a' \<in> A. first_block a' = first_block a + blocks a \<longrightarrow> f (first_block a) \<noteq> f (first_block a')) \<and>
     (\<forall>i < n. f i \<noteq> 0 \<longrightarrow> (\<exists>a \<in> A. covers a i))"

lemma heap_mapD:
  assumes "heap_map f n A" "a \<in> A"
  shows "0 < blocks a" "first_block a + blocks a \<le> n" "f (first_block a) \<noteq> 0" "covers a i \<Longrightarrow> f i = f (first_block a)"
    "a' \<in> A \<Longrightarrow> covers a i \<Longrightarrow> covers a' i \<Longrightarrow> a = a'"
    "a' \<in> A \<Longrightarrow> first_block a' = first_block a + blocks a \<Longrightarrow> f (first_block a) \<noteq> f (first_block a')"
  using assms unfolding heap_map_def by blast+

lemma heap_mapI:
  assumes "\<And>a. a \<in> A \<Longrightarrow> 0 < blocks a \<and> first_block a + blocks a \<le> n \<and> f (first_block a) \<noteq> 0 \<and> (\<forall>i. covers a i \<longrightarrow> f i = f (first_block a))"
    "\<And>a a' i. a \<in> A \<Longrightarrow> a' \<in> A \<Longrightarrow> covers a i \<Longrightarrow> covers a' i \<Longrightarrow> a = a'"
    "\<And>a a'. a \<in> A \<Longrightarrow> a' \<in> A \<Longrightarrow> first_block a' = first_block a + blocks a \<Longrightarrow> f (first_block a) \<noteq> f (first_block a')"
    "\<And>i. i < n \<Longrightarrow> f i \<noteq> 0 \<Longrightarrow> \<exists>a \<in> A. covers a i"
  shows "heap_map f n A"
  unfolding heap_map_def using assms by blast

lemma heap_map_used: "heap_map f n A \<Longrightarrow> i < n \<Longrightarrow> f i \<noteq> 0 \<Longrightarrow> \<exists>a \<in> A. covers a i"
  by (auto simp: heap_map_def)

text \<open>The block before and the block after an allocation do not carry its id.\<close>

lemma heap_map_before:
  assumes A: "heap_map f n A" and a: "a \<in> A" and p: "0 < first_block a"
  shows "f (first_block a - 1) \<noteq> f (first_block a)"
proof
  let ?i = "first_block a - 1"
  assume eq: "f ?i = f (first_block a)"
  have "?i < n" using heap_mapD(1,2) [OF A a] by linarith
  moreover have "f ?i \<noteq> 0" using eq heap_mapD(3) [OF A a] by simp
  ultimately obtain a' where a': "a' \<in> A" "covers a' ?i" using heap_map_used [OF A] by blast
  have "covers a (first_block a)" "\<not> covers a ?i" using heap_mapD(1) [OF A a] p by (auto simp: covers_def)
  then have "\<not> covers a' (first_block a)" using heap_mapD(5) [OF A a a'(1)] a'(2) by blast
  then have "first_block a = first_block a' + blocks a'" using a'(2) p by (auto simp: covers_def)
  then show False
    using heap_mapD(6) [OF A a'(1) a] heap_mapD(4) [OF A a'] eq by simp
qed

lemma heap_map_after:
  assumes A: "heap_map f n A" and a: "a \<in> A" and p: "first_block a + blocks a < n"
  shows "f (first_block a + blocks a) \<noteq> f (first_block a)"
proof
  let ?i = "first_block a + blocks a"
  assume eq: "f ?i = f (first_block a)"
  have "f ?i \<noteq> 0" using eq heap_mapD(3) [OF A a] by simp
  then obtain a' where a': "a' \<in> A" "covers a' ?i" using heap_map_used [OF A p] by blast
  have "covers a (?i - 1)" "\<not> covers a ?i" using heap_mapD(1) [OF A a] by (auto simp: covers_def)
  then have "\<not> covers a' (?i - 1)" using heap_mapD(5) [OF A a a'(1)] a'(2) by blast
  then have "first_block a' = ?i" using a'(2) heap_mapD(1) [OF A a] by (auto simp: covers_def)
  then show False using heap_mapD(6) [OF A a a'(1)] eq by simp
qed

lemma heap_map_insert:
  assumes A: "heap_map f n A" and s: "0 < c" "s + c \<le> n" "\<And>i. covers (Extent s c) i \<Longrightarrow> f i = 0"
    and x: "x \<noteq> 0" "0 < s \<Longrightarrow> f (s - 1) \<noteq> x" "s + c < n \<Longrightarrow> f (s + c) \<noteq> x"
    and g: "\<And>i. i < n \<Longrightarrow> g i = (if covers (Extent s c) i then x else f i)"
  shows "heap_map g n (insert (Extent s c) A)"
proof -
  have disj: "\<not> (covers a i \<and> covers (Extent s c) i)" if "a \<in> A" for a i
    using heap_mapD(3) [OF A that] heap_mapD(4) [OF A that, of i] s(3) [of i] by fastforce
  have in_n: "covers a i \<Longrightarrow> i < n" if "a \<in> A" for a i
    using heap_mapD(2) [OF A that] by (auto simp: covers_def)
  have g_old: "covers a i \<Longrightarrow> g i = f i" if "a \<in> A" for a i
    using g [OF in_n [OF that], of i] disj [OF that, of i] by presburger
  have first: "covers a (first_block a)" if "a \<in> A" for a
    using heap_mapD(1) [OF A that] by (simp add: covers_def)
  have g_new: "covers (Extent s c) i \<Longrightarrow> g i = x" for i using g s(2) by (auto simp: covers_def)
  have gs: "g s = x" using g_new [of s] s(1) by (simp add: covers_def)
  have left: "g (first_block a) \<noteq> x" if "a \<in> A" "first_block a + blocks a = s" for a
  proof -
    have "covers a (s - 1)" "0 < s" using that heap_mapD(1) [OF A that(1)] by (auto simp: covers_def)
    then show ?thesis using x(2) heap_mapD(4) [OF A that(1), of "s - 1"] g_old [OF that(1) first [OF that(1)]] by simp
  qed
  have right: "g (first_block a) \<noteq> x" if "a \<in> A" "first_block a = s + c" for a
    using x(3) heap_mapD(1,2) [OF A that(1)] g_old [OF that(1) first [OF that(1)]] that(2) by auto
  have 1: "0 < blocks a \<and> first_block a + blocks a \<le> n \<and> g (first_block a) \<noteq> 0 \<and> (\<forall>i. covers a i \<longrightarrow> g i = g (first_block a))"
    if "a \<in> insert (Extent s c) A" for a
  proof (cases "a = (Extent s c)")
    case True
    then show ?thesis using s(1,2) x(1) gs g_new by simp
  next
    case False
    with that have a: "a \<in> A" by simp
    have f: "g (first_block a) = f (first_block a)" using g_old [OF a first [OF a]] .
    have "g i = g (first_block a)" if "covers a i" for i
      using g_old [OF a that] heap_mapD(4) [OF A a that] f by simp
    then show ?thesis using heap_mapD(1-3) [OF A a] f by simp
  qed
  have 2: "a = a'" if "a \<in> insert (Extent s c) A" "a' \<in> insert (Extent s c) A" "covers a i" "covers a' i" for a a' i
    using that heap_mapD(5) [OF A, of a a' i] disj [of a i] disj [of a' i] by blast
  have 3: "g (first_block a) \<noteq> g (first_block a')" if "a \<in> insert (Extent s c) A" "a' \<in> insert (Extent s c) A" "first_block a' = first_block a + blocks a" for a a'
  proof (cases "a = (Extent s c)"; cases "a' = (Extent s c)")
    assume "a = (Extent s c)" "a' = (Extent s c)" then show ?thesis using that(3) s(1) by simp
  next
    assume "a = (Extent s c)" "a' \<noteq> (Extent s c)" then show ?thesis using that right [of a'] gs by auto
  next
    assume "a \<noteq> (Extent s c)" "a' = (Extent s c)" then show ?thesis using that left [of a] gs by auto
  next
    assume "a \<noteq> (Extent s c)" "a' \<noteq> (Extent s c)"
    then have a: "a \<in> A" "a' \<in> A" using that by auto
    then show ?thesis using heap_mapD(6) [OF A a that(3)] g_old [OF a(1) first [OF a(1)]] g_old [OF a(2) first [OF a(2)]] by simp
  qed
  have 4: "\<exists>a \<in> insert (Extent s c) A. covers a i" if "i < n" "g i \<noteq> 0" for i
    using that g [OF that(1)] heap_map_used [OF A that(1)] by (cases "covers (Extent s c) i") auto
  show ?thesis by (rule heap_mapI [OF 1 2 3 4])
qed

lemma heap_map_remove:
  assumes A: "heap_map f n A" and a: "a \<in> A"
    and g: "\<And>i. i < n \<Longrightarrow> g i = (if covers a i then 0 else f i)"
  shows "heap_map g n (A - {a})"
proof -
  have in_n: "covers a' i \<Longrightarrow> i < n" if "a' \<in> A" for a' i
    using heap_mapD(2) [OF A that] by (auto simp: covers_def)
  have g_old: "g i = f i" if "a' \<in> A - {a}" "covers a' i" for a' i
    using g [OF in_n [of a' i]] heap_mapD(5) [OF A a, of a' i] that by (metis DiffE singletonI)
  have first: "covers a' (first_block a')" if "a' \<in> A" for a'
    using heap_mapD(1) [OF A that] by (simp add: covers_def)
  have 1: "0 < blocks b \<and> first_block b + blocks b \<le> n \<and> g (first_block b) \<noteq> 0 \<and> (\<forall>i. covers b i \<longrightarrow> g i = g (first_block b))"
    if "b \<in> A - {a}" for b
  proof -
    from that have b: "b \<in> A" by simp
    have f: "g (first_block b) = f (first_block b)" using g_old [OF that first [OF b]] .
    have "g i = g (first_block b)" if "covers b i" for i
      using g_old [OF \<open>b \<in> A - {a}\<close> that] heap_mapD(4) [OF A b that] f by simp
    then show ?thesis using heap_mapD(1-3) [OF A b] f by simp
  qed
  have 3: "g (first_block b) \<noteq> g (first_block b')" if "b \<in> A - {a}" "b' \<in> A - {a}" "first_block b' = first_block b + blocks b" for b b'
    using heap_mapD(6) [OF A, of b b'] g_old [OF that(1) first] g_old [OF that(2) first] that by auto
  have 4: "\<exists>b \<in> A - {a}. covers b i" if "i < n" "g i \<noteq> 0" for i
    using that g [OF that(1)] heap_map_used [OF A that(1)] by (metis DiffI singletonD)
  have 2: "b = b'" if "b \<in> A - {a}" "b' \<in> A - {a}" "covers b i" "covers b' i" for b b' i
    using heap_mapD(5) [OF A, of b b' i] that by simp
  show ?thesis by (rule heap_mapI [OF 1 2 3 4])
qed

section \<open>Regions\<close>

abbreviation nblocks :: "heap_block_t \<Rightarrow> nat" where
  "nblocks b \<equiv> unat (block_count b)"

text \<open>
  A well-formed region: it does not wrap around the address space, its blocks have a size, its bitmap
  describes the allocations \<open>A\<close>, and the counter of used blocks is right.
\<close>

definition region_ok :: "memory \<Rightarrow> heap_block_t \<Rightarrow> extent set \<Rightarrow> bool" where
  "region_ok m b A \<longleftrightarrow>
     block_size b \<noteq> 0 \<and> block_count b \<noteq> 0 \<and> unat (hb_addr b) + 20 + unat (mem_size b) < 2 ^ 32 \<and>
     heap_map (ids m b) (nblocks b) A \<and>
     unat (used_blocks b) = card {i. i < nblocks b \<and> ids m b i \<noteq> 0}"

lemma ids_update [simp]:
  "ids m (b\<lparr>used_blocks := u\<rparr>) = ids m b" "ids m (b\<lparr>last_alloc := l\<rparr>) = ids m b"
  by (auto simp: ids_def bitmap_of_def)

lemma block_count_update [simp]:
  "block_count (b\<lparr>used_blocks := u\<rparr>) = block_count b" "block_count (b\<lparr>last_alloc := l\<rparr>) = block_count b"
  by (auto simp: block_count_def)

lemma used_card:
  assumes "region_ok m b A"
  shows "unat (used_blocks b) \<le> nblocks b"
proof -
  have "card {i. i < nblocks b \<and> ids m b i \<noteq> 0} \<le> card {..<nblocks b}"
    by (intro card_mono) auto
  then show ?thesis using assms by (simp add: region_ok_def)
qed

lemma take_blocks_ok:
  assumes r: "region_ok m b A" and c: "c \<noteq> 0" "unat s + unat c \<le> nblocks b"
    and free: "\<And>i. covers (Extent (unat s) (unat c)) i \<Longrightarrow> ids m b i = 0"
    and t: "take_blocks m b s c = (m', b')"
  shows "region_ok m' b' (insert (Extent (unat s) (unat c)) A)"
proof -
  let ?n = "nblocks b" and ?e = "Extent (unat s) (unat c)"
  define x where "x = getFreeID (if s = 0 then 0 else ids m b (unat (s - 1)))
    (if block_count b \<le> s + c then 0 else ids m b (unat (s + c)))"
  have m': "m' = set_run m (bitmap_of b) s c x"
    and b': "b' = b\<lparr>last_alloc := s + c - 1, used_blocks := used_blocks b + c\<rparr>"
    using t by (auto simp: take_blocks_def Let_def x_def getID_ids)
  have n: "?n < 2 ^ 32" using unat_bound [of "block_count b"] by simp
  have sc: "unat (s + c) = unat s + unat c" using c(2) n by (intro unat_add_small) simp
  have g: "ids m' b i = (if covers ?e i then x else ids m b i)" if "i < ?n" for i
    using ids_set_run [of s c i m b x] that n c(2) getFreeID_fresh(4) by (simp add: m' x_def covers_def)
  have x0: "x \<noteq> 0" by (simp add: x_def getFreeID_fresh)
  have hm: "heap_map (ids m' b) ?n (insert ?e A)"
  proof (rule heap_map_insert [OF _ _ c(2) free])
    show "heap_map (ids m b) ?n A" using r by (simp add: region_ok_def)
    show "0 < unat c" using c(1) by (simp add: unat_gt_0)
    show "x \<noteq> 0" by (rule x0)
    show "ids m b (unat s - 1) \<noteq> x" if "0 < unat s"
    proof -
      have "s \<noteq> 0" using that by auto
      then show ?thesis
        unfolding x_def using getFreeID_fresh(2) [THEN not_sym, of "ids m b (unat s - 1)"] by (simp add: unat_minus_one)
    qed
    show "ids m b (unat s + unat c) \<noteq> x" if "unat s + unat c < ?n"
    proof -
      have "\<not> block_count b \<le> s + c" using that sc by (simp add: word_le_nat_alt)
      then show ?thesis
        unfolding x_def using getFreeID_fresh(3) [THEN not_sym, of "ids m b (unat s + unat c)"] by (simp add: sc)
    qed
  qed (assumption | rule g)+
  have "{i. i < ?n \<and> ids m' b i \<noteq> 0} = {i. i < ?n \<and> ids m b i \<noteq> 0} \<union> {unat s..<unat s + unat c}"
    using g free c(2) x0 by (auto simp: covers_def split: if_splits)
  moreover have "{i. i < ?n \<and> ids m b i \<noteq> 0} \<inter> {unat s..<unat s + unat c} = {}"
    using free by (auto simp: covers_def)
  ultimately have card: "card {i. i < ?n \<and> ids m' b i \<noteq> 0} = unat (used_blocks b) + unat c"
    using r by (simp add: card_Un_disjoint region_ok_def)
  moreover have "card {i. i < ?n \<and> ids m' b i \<noteq> 0} \<le> card {..<?n}" by (intro card_mono) auto
  ultimately have "unat (used_blocks b + c) = unat (used_blocks b) + unat c"
    using n by (intro unat_add_small) simp
  with r hm card show ?thesis by (simp add: region_ok_def b')
qed

lemma run_back_first:
  assumes A: "heap_map (ids m b) (nblocks b) A" and a: "a \<in> A" and "covers a (unat w)" "x = ids m b (first_block a)"
  shows "unat (run_back m (bitmap_of b) x w) = first_block a - 1"
  using assms(3)
proof (induction "unat w" arbitrary: w)
  case 0
  then show ?case by (subst run_back.simps) (simp add: covers_def unat_eq_zero)
next
  case (Suc k)
  have id: "getID m (bitmap_of b) w = x"
    using heap_mapD(4) [OF A a Suc.prems] assms(4) by (simp add: getID_ids)
  have w: "w \<noteq> 0" "unat (w - 1) = k" using Suc.hyps(2) by (auto simp: unat_sub_small)
  then have step: "run_back m (bitmap_of b) x w = run_back m (bitmap_of b) x (w - 1)"
    using id by (subst run_back.simps) simp
  show ?case
  proof (cases "first_block a \<le> k")
    case True
    then have "covers a (unat (w - 1))" using w Suc by (auto simp: covers_def)
    with Suc.hyps(1) w step show ?thesis by simp
  next
    case False
    then have f: "first_block a = Suc k" using Suc by (auto simp: covers_def)
    then have "getID m (bitmap_of b) (w - 1) \<noteq> x"
      using heap_map_before [OF A a] w assms(4) by (simp add: getID_ids)
    then have "run_back m (bitmap_of b) x (w - 1) = w - 1" by (subst run_back.simps) simp
    then show ?thesis using step f w by simp
  qed
qed

lemma clear_run_extent:
  assumes "unat w \<le> e" "e \<le> nblocks b" "x \<noteq> 0" "\<And>i. unat w \<le> i \<Longrightarrow> i < e \<Longrightarrow> ids m b i = x"
    "e < nblocks b \<Longrightarrow> ids m b e \<noteq> x"
  shows "\<exists>m' w'. clear_run m (bitmap_of b) x (block_count b) w = (m', w') \<and> unat w' = e \<and>
    (\<forall>i < 2 ^ 32. ids m' b i = (if unat w \<le> i \<and> i < e then 0 else ids m b i))"
  using assms
proof (induction "e - unat w" arbitrary: m w)
  case 0
  then have "unat w = e" by simp
  then have "\<not> (getID m (bitmap_of b) w = x \<and> w < block_count b)"
    using 0(6) by (auto simp: getID_ids word_less_nat_alt)
  then have "clear_run m (bitmap_of b) x (block_count b) w = (m, w)" by (subst clear_run.simps) auto
  then show ?case using \<open>unat w = e\<close> by auto
next
  case (Suc k)
  have lt: "unat w < e" "w < block_count b" using Suc.hyps(2) Suc.prems(2) by (auto simp: word_less_nat_alt)
  have w1: "unat (w + 1) = Suc (unat w)" using unat_Suc_less [OF lt(2)] .
  let ?m = "setID m (bitmap_of b) w 0"
  have ids: "ids ?m b i = (if i = unat w then 0 else ids m b i)" if "i < 2 ^ 32" for i
    using that of_nat_eq_small [where 'a = 32, of i "unat w"] unat_bound [of w]
    by (auto simp: ids_def getID_setID)
  have n: "nblocks b < 2 ^ 32" using unat_bound [of "block_count b"] by simp
  have "\<exists>m' w'. clear_run ?m (bitmap_of b) x (block_count b) (w + 1) = (m', w') \<and> unat w' = e \<and>
    (\<forall>i < 2 ^ 32. ids m' b i = (if unat (w + 1) \<le> i \<and> i < e then 0 else ids ?m b i))"
    (is "\<exists>m' w'. ?P m' w'")
  proof (rule Suc.hyps(1))
    show "k = e - unat (w + 1)" "unat (w + 1) \<le> e" using Suc.hyps(2) w1 lt by simp_all
    show "ids ?m b i = x" if "unat (w + 1) \<le> i" "i < e" for i
      using that ids [of i] Suc.prems(2) Suc.prems(4) [of i] w1 n by simp
    show "ids ?m b e \<noteq> x" if "e < nblocks b"
      using that ids [of e] Suc.prems(5) lt n by simp
  qed (use Suc.prems in simp_all)
  then obtain m' w' where mw: "?P m' w'" by blast
  have "ids m' b i = (if unat w \<le> i \<and> i < e then 0 else ids m b i)" if "i < 2 ^ 32" for i
    using mw ids [OF that] that w1 lt(1) by auto
  moreover have "clear_run m (bitmap_of b) x (block_count b) w = clear_run ?m (bitmap_of b) x (block_count b) (w + 1)"
    using Suc.prems(4) [of "unat w"] lt by (subst clear_run.simps) (simp add: getID_ids)
  ultimately show ?case using mw by simp
qed


lemma free_in_block_ok:
  assumes r: "region_ok m b A" and a: "a \<in> A" and cov: "covers a (unat ((p - bitmap_of b) div block_size b))"
  shows "\<exists>m' b'. free_in_block p m b = Inr (m', b', of_nat (blocks a) * block_size b) \<and>
    region_ok m' b' (A - {a}) \<and> hb_addr b' = hb_addr b \<and> mem_size b' = mem_size b \<and> block_size b' = block_size b \<and>
    last_alloc b' = last_alloc b \<and> (\<forall>i < 2 ^ 32. ids m' b i = (if covers a i then 0 else ids m b i))"
proof -
  let ?idx = "(p - bitmap_of b) div block_size b" and ?bm = "bitmap_of b" and ?n = "nblocks b"
  have A: "heap_map (ids m b) ?n A" using r by (simp add: region_ok_def)
  note d = heap_mapD [OF A a]
  define x where "x = ids m b (first_block a)"
  have x: "getID m ?bm ?idx = x" "x \<noteq> 0" using d(3) d(4) [OF cov] by (simp_all add: x_def getID_ids)
  define bk where "bk = run_back m ?bm x ?idx"
  have bk: "unat bk = first_block a - 1"
    using run_back_first [OF A a cov x_def] by (simp add: bk_def)
  define s where "s = (if getID m ?bm bk \<noteq> x then bk + 1 else bk)"
  have n: "?n < 2 ^ 32" using unat_bound [of "block_count b"] by simp
  have s: "unat s = first_block a"
  proof (cases "first_block a = 0")
    case True
    then show ?thesis using bk by (simp add: s_def getID_ids x_def)
  next
    case False
    then have "getID m ?bm bk \<noteq> x" using heap_map_before [OF A a] bk by (simp add: getID_ids x_def)
    moreover have "unat (bk + 1) = unat bk + 1"
      using d(1,2) n bk False unat_add_small [of bk 1] by simp
    ultimately show ?thesis using False bk by (simp add: s_def)
  qed
  let ?e = "first_block a + blocks a"
  have same: "ids m b i = x" if "first_block a \<le> i" "i < ?e" for i
    using d(4) [of i] that by (simp add: covers_def x_def)
  have after: "ids m b ?e \<noteq> x" if "?e < ?n"
    using heap_map_after [OF A a that] by (simp add: x_def)
  have "\<exists>m' w'. clear_run m ?bm x (block_count b) s = (m', w') \<and> unat w' = ?e \<and>
      (\<forall>i < 2 ^ 32. ids m' b i = (if unat s \<le> i \<and> i < ?e then 0 else ids m b i))"
    using s d(2) x(2) after same by (intro clear_run_extent) simp_all
  then obtain m' w' where cl: "clear_run m ?bm x (block_count b) s = (m', w')" "unat w' = ?e"
      "\<And>i. i < 2 ^ 32 \<Longrightarrow> ids m' b i = (if covers a i then 0 else ids m b i)"
    by (auto simp: covers_def s)
  define b' where "b' = b\<lparr>used_blocks := used_blocks b - (w' - s)\<rparr>"
  have sz: "w' - s = of_nat (blocks a)" "unat (w' - s) = blocks a"
  proof -
    show u: "unat (w' - s) = blocks a" using cl(2) s by (simp add: unat_sub_small)
    show "w' - s = of_nat (blocks a)" unfolding u [symmetric] by simp
  qed
  have "free_in_block p m b = Inr (m', b', of_nat (blocks a) * block_size b)"
    using r x cl(1) sz(1)
    by (cases "getID m ?bm bk = x")
      (simp_all add: free_in_block_def region_ok_def Let_def b'_def s_def bk_def [symmetric])
  moreover have "region_ok m' b' (A - {a})"
  proof -
    have "heap_map (ids m' b) ?n (A - {a})" using A a cl(3) n by (intro heap_map_remove) auto
    moreover have "{i. i < ?n \<and> ids m b i \<noteq> 0} = {i. i < ?n \<and> ids m' b i \<noteq> 0} \<union> {first_block a..<?e}"
      using cl(3) n d(2) same x(2) by (auto simp: covers_def split: if_splits)
    moreover have "{i. i < ?n \<and> ids m' b i \<noteq> 0} \<inter> {first_block a..<?e} = {}"
      using cl(3) n by (auto simp: covers_def)
    ultimately have "unat (used_blocks b) = card {i. i < ?n \<and> ids m' b i \<noteq> 0} + blocks a"
      using r by (simp add: card_Un_disjoint region_ok_def)
    then have "unat (used_blocks b - (w' - s)) = card {i. i < ?n \<and> ids m' b i \<noteq> 0}"
      using sz(2) by (simp add: unat_sub_small)
    with r \<open>heap_map (ids m' b) ?n (A - {a})\<close> show ?thesis by (simp add: region_ok_def b'_def)
  qed
  ultimately show ?thesis using cl(3) by (auto simp: b'_def)
qed

section \<open>The search for free blocks\<close>

lemma free_run_spec:
  assumes "unat s + unat c \<le> nblocks b" "c \<le> needed" and r_def: "r = free_run m b s needed c"
  shows "unat c \<le> unat r \<and> r \<le> needed \<and> unat s + unat r \<le> nblocks b \<and>
    (\<forall>i. unat s + unat c \<le> i \<and> i < unat s + unat r \<longrightarrow> ids m b i = 0) \<and>
    (r < needed \<longrightarrow> unat s + unat r = nblocks b \<or> ids m b (unat s + unat r) \<noteq> 0)"
  using assms(1,2) unfolding r_def
proof (induction m b s needed c rule: free_run.induct)
  case (1 m b s needed c)
  have n: "nblocks b < 2 ^ 32" using unat_bound [of "block_count b"] by simp
  have sc: "unat (s + c) = unat s + unat c" using 1(2) n by (intro unat_add_small) simp
  show ?case
  proof (cases "getID m (bitmap_of b) (s + c) = 0 \<and> c < needed \<and> s + c < block_count b")
    case True
    have c1: "unat (c + 1) = Suc (unat c)" using True unat_Suc_less by blast
    have lt: "unat s + unat c < nblocks b" using True sc by (simp add: word_less_nat_alt)
    have le: "c + 1 \<le> needed" using True c1 by (simp add: word_le_nat_alt word_less_nat_alt)
    have id0: "ids m b (unat s + unat c) = 0" using True sc by (simp add: getID_ids)
    have "free_run m b s needed c = free_run m b s needed (c + 1)" using True by (subst free_run.simps) simp
    moreover have "ids m b i = 0"
      if "\<forall>i. unat s + unat (c + 1) \<le> i \<and> i < z \<longrightarrow> ids m b i = 0" "unat s + unat c \<le> i \<and> i < z" for i z
      using that c1 id0 by (cases "i = unat s + unat c") auto
    moreover have "unat s + unat (c + 1) \<le> nblocks b" using lt c1 by simp
    ultimately show ?thesis using 1(1) [OF True _ le] c1 by (metis Suc_leD)
  next
    case False
    then have "free_run m b s needed c = c" by (subst free_run.simps) auto
    with False sc 1(2,3) show ?thesis by (auto simp: getID_ids word_less_nat_alt)
  qed
qed

text \<open>A place for \<open>k\<close> blocks at block \<open>i\<close>.\<close>

definition fits_at :: "memory \<Rightarrow> heap_block_t \<Rightarrow> nat \<Rightarrow> nat \<Rightarrow> bool" where
  "fits_at m b k i \<longleftrightarrow> i + k \<le> nblocks b \<and> (\<forall>j. i \<le> j \<and> j < i + k \<longrightarrow> ids m b j = 0)"

lemma free_run_fits:
  assumes "s < block_count b"
  shows "\<not> free_run m b s needed 0 < needed \<Longrightarrow>
      free_run m b s needed 0 = needed \<and> fits_at m b (unat needed) (unat s)"
    "free_run m b s needed 0 < needed \<Longrightarrow>
      unat s \<le> i \<Longrightarrow> i < unat s + unat (free_run m b s needed 0) \<Longrightarrow> \<not> fits_at m b (unat needed) i"
proof -
  have "unat s + unat (0::u32) \<le> nblocks b" using assms by (simp add: word_less_nat_alt)
  note * = free_run_spec [OF this, of needed _ m, OF _ refl, simplified]
  show "\<not> free_run m b s needed 0 < needed \<Longrightarrow>
      free_run m b s needed 0 = needed \<and> fits_at m b (unat needed) (unat s)"
    using * by (auto simp: fits_at_def)
  assume "free_run m b s needed 0 < needed" "unat s \<le> i" "i < unat s + unat (free_run m b s needed 0)"
  then show "\<not> fits_at m b (unat needed) i"
    using * by (auto simp: fits_at_def word_less_nat_alt)
qed

text \<open>Whatever the search returns is a place for the blocks needed.\<close>

lemma alloc_scan_sound:
  assumes "alloc_scan m b sz align start = Some (Inr (Some (s, c)))" "block_count b \<noteq> 0"
  shows "align \<noteq> 0 \<and> s < block_count b \<and> ids m b (unat s) = 0 \<and> c = needed_blocks b sz align s \<and>
    fits_at m b (unat c) (unat s)"
proof -
  have "y = Inr (Some (s, c)) \<longrightarrow> block_count b \<noteq> 0 \<longrightarrow> align \<noteq> 0 \<and> s < block_count b \<and>
      ids m b (unat s) = 0 \<and> c = needed_blocks b sz align s \<and> fits_at m b (unat c) (unat s)"
    if "alloc_scan m b sz align start = Some y" for y
  proof (rule alloc_scan.raw_induct [where P = "\<lambda>m b sz align start y. y = Inr (Some (s, c)) \<longrightarrow>
      block_count b \<noteq> 0 \<longrightarrow> align \<noteq> 0 \<and> s < block_count b \<and>
      ids m b (unat s) = 0 \<and> c = needed_blocks b sz align s \<and> fits_at m b (unat c) (unat s)", OF _ that])
    fix rec m b sz align start0 y
    assume ih: "\<And>m b sz align start y. rec m b sz align start = Some y \<Longrightarrow> y = Inr (Some (s, c)) \<longrightarrow>
        block_count b \<noteq> 0 \<longrightarrow> align \<noteq> 0 \<and> s < block_count b \<and>
        ids m b (unat s) = 0 \<and> c = needed_blocks b sz align s \<and> fits_at m b (unat c) (unat s)"
      and eq: "(if start0 = last_alloc b then Some (Inr None)
        else let start = if block_count b \<le> start0 then 0 else start0
             in if \<not> can_align (bitmap_of b) (block_size b) start align then rec m b sz align (start + 1)
                else if align = 0 then Some (Inl DivZero)
                else if getID m (bitmap_of b) start \<noteq> 0 then rec m b sz align (start + 1)
                else let needed = needed_blocks b sz align start; count = free_run m b start needed 0
                     in if count < needed then rec m b sz align (start + (count - 1) + 1)
                        else Some (Inr (Some (start, count)))) = Some y"
    define st where "st = (if block_count b \<le> start0 then 0 else start0)"
    define nd where "nd = needed_blocks b sz align st"
    note body = eq [unfolded Let_def, folded st_def nd_def]
    show "y = Inr (Some (s, c)) \<longrightarrow> block_count b \<noteq> 0 \<longrightarrow> align \<noteq> 0 \<and> s < block_count b \<and>
        ids m b (unat s) = 0 \<and> c = needed_blocks b sz align s \<and> fits_at m b (unat c) (unat s)"
    proof (intro impI)
      assume y: "y = Inr (Some (s, c))" and bc: "block_count b \<noteq> 0"
      have st: "st < block_count b" using bc by (auto simp: st_def word_gt_0 not_le)
      from body y have "(\<exists>st'. rec m b sz align st' = Some y) \<or>
          align \<noteq> 0 \<and> getID m (bitmap_of b) st = 0 \<and> \<not> free_run m b st nd 0 < nd \<and> s = st \<and> c = free_run m b st nd 0"
        by (auto split: if_splits)
      then show "align \<noteq> 0 \<and> s < block_count b \<and> ids m b (unat s) = 0 \<and> c = needed_blocks b sz align s \<and>
          fits_at m b (unat c) (unat s)"
      proof
        assume "\<exists>st'. rec m b sz align st' = Some y"
        with ih y bc show ?thesis by blast
      next
        assume "align \<noteq> 0 \<and> getID m (bitmap_of b) st = 0 \<and> \<not> free_run m b st nd 0 < nd \<and> s = st \<and> c = free_run m b st nd 0"
        with st free_run_fits(1) [OF st, of m nd] show ?thesis by (simp add: getID_ids nd_def)
      qed
    qed
  qed
  from this [OF assms(1)] assms(2) show ?thesis by blast
qed

text \<open>
  With the last allocation still in use, and not at the first block, the search ends. When it finds
  nothing, every block at which the request would fit was stepped over: it follows, in the same run of
  free blocks, a block at which the request could be aligned too but needs more room than the run has,
  because the padding for the alignment is larger there. Without alignment there is no such block.
  \<open>rest\<close> is what the search has still to look at from \<open>start\<close> on.
\<close>

definition usable :: "memory \<Rightarrow> heap_block_t \<Rightarrow> u32 \<Rightarrow> u32 \<Rightarrow> nat \<Rightarrow> bool" where
  "usable m b sz align i \<longleftrightarrow> i < nblocks b \<and> ids m b i = 0 \<and>
     can_align (bitmap_of b) (block_size b) (of_nat i) align \<and>
     fits_at m b (unat (needed_blocks b sz align (of_nat i))) i"

definition stepped_over :: "memory \<Rightarrow> heap_block_t \<Rightarrow> u32 \<Rightarrow> u32 \<Rightarrow> nat \<Rightarrow> bool" where
  "stepped_over m b sz align i \<longleftrightarrow> (\<exists>j<i. (\<forall>k. j \<le> k \<and> k \<le> i \<longrightarrow> ids m b k = 0) \<and>
     can_align (bitmap_of b) (block_size b) (of_nat j) align \<and>
     i - j + unat (needed_blocks b sz align (of_nat i)) < unat (needed_blocks b sz align (of_nat j)))"

lemma stepped_over_unaligned: "\<not> stepped_over m b sz 1 i"
  by (auto simp: stepped_over_def needed_blocks_def get_aligment_offset_def)

lemma not_usable_steps_over:
  assumes "j < nblocks b" "can_align (bitmap_of b) (block_size b) (of_nat j) align"
    and nofit: "\<not> fits_at m b (unat (needed_blocks b sz align (of_nat j))) j"
    and free: "\<forall>k. j \<le> k \<and> k \<le> i \<longrightarrow> ids m b k = 0" and i: "j \<le> i" "usable m b sz align i"
  shows "stepped_over m b sz align i"
proof -
  let ?nd = "\<lambda>i. unat (needed_blocks b sz align (of_nat i))"
  have fit: "fits_at m b (?nd i) i" using i(2) by (simp add: usable_def)
  have less: "i - j + ?nd i < ?nd j"
  proof (rule ccontr)
    assume "\<not> i - j + ?nd i < ?nd j"
    then have le: "j + ?nd j \<le> i + ?nd i" using i(1) by linarith
    have "ids m b k = 0" if "j \<le> k" "k < j + ?nd j" for k
    proof (cases "k \<le> i")
      case False
      then show ?thesis using fit that le by (auto simp: fits_at_def)
    qed (use free that in blast)
    moreover have "j + ?nd j \<le> nblocks b" using le fit by (simp add: fits_at_def)
    ultimately show False using nofit by (simp add: fits_at_def)
  qed
  moreover have "j \<noteq> i" using nofit fit by auto
  ultimately show ?thesis using assms(2) free i(1) unfolding stepped_over_def by (intro exI [of _ j]) simp
qed

definition rest :: "heap_block_t \<Rightarrow> nat \<Rightarrow> nat \<Rightarrow> bool" where
  "rest b start i \<longleftrightarrow>
     (if start \<le> unat (last_alloc b) then start \<le> i \<and> i < unat (last_alloc b)
      else start \<le> i \<and> i < nblocks b \<or> i < unat (last_alloc b))"

definition scan_dist :: "heap_block_t \<Rightarrow> nat \<Rightarrow> nat" where
  "scan_dist b start =
     (if start \<le> unat (last_alloc b) then unat (last_alloc b) - start else nblocks b - start + unat (last_alloc b))"

lemma scan_step:
  assumes L: "0 < unat (last_alloc b)" "unat (last_alloc b) < nblocks b"
    and start: "start \<le> nblocks b" "start \<noteq> unat (last_alloc b)"
    and st: "st = (if nblocks b \<le> start then 0 else start)"
    and k: "0 < k" "st + k \<le> nblocks b" "st < unat (last_alloc b) \<Longrightarrow> st + k \<le> unat (last_alloc b)"
  shows "scan_dist b (st + k) < scan_dist b start"
    "rest b start i \<Longrightarrow> st \<le> i \<and> i < st + k \<or> rest b (st + k) i"
  using assms by (auto simp: scan_dist_def rest_def split: if_splits)


lemma alloc_scan_total:
  assumes L: "0 < unat (last_alloc b)" "unat (last_alloc b) < nblocks b"
    "ids m b (unat (last_alloc b)) \<noteq> 0" and al: "align \<noteq> 0" and start: "unat start \<le> nblocks b"
  shows "(\<exists>s c. alloc_scan m b sz align start = Some (Inr (Some (s, c)))) \<or>
    alloc_scan m b sz align start = Some (Inr None) \<and>
    (\<forall>i. rest b (unat start) i \<longrightarrow> usable m b sz align i \<longrightarrow> stepped_over m b sz align i)"
  using start
proof (induction "scan_dist b (unat start)" arbitrary: start rule: less_induct)
  case less
  let ?L = "unat (last_alloc b)"
  have n: "nblocks b < 2 ^ 32" using unat_bound [of "block_count b"] by simp
  show ?case
  proof (cases "start = last_alloc b")
    case True
    then have "alloc_scan m b sz align start = Some (Inr None)" by (subst alloc_scan.simps) simp
    moreover have "\<not> rest b (unat start) i" for i using True by (simp add: rest_def)
    ultimately show ?thesis by blast
  next
    case False
    then have ne: "unat start \<noteq> ?L" by (simp add: word_unat_eq_iff)
    define st where "st = (if block_count b \<le> start then 0 else start)"
    have st: "unat st = (if nblocks b \<le> unat start then 0 else unat start)"
      by (simp add: st_def word_le_nat_alt)
    have st_n: "st < block_count b" "unat st < nblocks b" using L st by (auto simp: word_less_nat_alt)
    note scan = alloc_scan.simps [of m b sz align start, folded st_def, unfolded Let_def, folded st_def]
    have step: ?thesis
      if d: "unat (st + d) = unat st + unat d" "0 < unat d" "unat st + unat d \<le> nblocks b"
        "unat st < ?L \<Longrightarrow> unat st + unat d \<le> ?L"
        and eq: "alloc_scan m b sz align start = alloc_scan m b sz align (st + d)"
        and over: "\<And>i. unat st \<le> i \<Longrightarrow> i < unat st + unat d \<Longrightarrow> usable m b sz align i \<Longrightarrow> stepped_over m b sz align i" for d
    proof -
      note sc = scan_step [OF L(1,2) less.prems ne st d(2,3)]
      have "scan_dist b (unat (st + d)) < scan_dist b (unat start)" using sc(1) d by simp
      from less.hyps [OF this] d(3) show ?thesis using eq d(1) sc(2) d(4) over by metis
    qed
    have one: ?thesis if eq: "alloc_scan m b sz align start = alloc_scan m b sz align (st + 1)"
      and no: "\<not> usable m b sz align (unat st)"
    proof (rule step [OF _ _ _ _ eq])
      show "unat (st + 1) = unat st + unat (1 :: u32)" using unat_Suc_less [OF st_n(1)] by simp
      show "stepped_over m b sz align i" if "unat st \<le> i" "i < unat st + unat (1 :: u32)" "usable m b sz align i" for i
      proof -
        have "i = unat st" using that(1,2) by simp
        then show ?thesis using no that(3) by simp
      qed
    qed (use st_n in simp_all)
    consider (skip) "\<not> can_align (bitmap_of b) (block_size b) st align"
      | (used) "can_align (bitmap_of b) (block_size b) st align" "ids m b (unat st) \<noteq> 0"
      | (free) "can_align (bitmap_of b) (block_size b) st align" "ids m b (unat st) = 0" by blast
    then show ?thesis
    proof cases
      case skip
      show ?thesis by (rule one) (use False skip in \<open>simp_all add: scan usable_def\<close>)
    next
      case used
      show ?thesis by (rule one) (use False used al in \<open>simp_all add: scan usable_def getID_ids\<close>)
    next
      case free
      define k where "k = needed_blocks b sz align st"
      define count where "count = free_run m b st k 0"
      have "unat st + unat (0::u32) \<le> nblocks b" using st_n by simp
      note sp = free_run_spec [OF this _ count_def, simplified]
      show ?thesis
      proof (cases "count < k")
        case True
        have c0: "0 < unat count" using sp True free st_n by (cases "unat count = 0") auto
        have sum: "unat (st + count) = unat st + unat count" using sp n by (intro unat_add_small) simp
        show ?thesis
        proof (rule step [OF sum c0])
          show "unat st + unat count \<le> nblocks b" using sp by simp
          show "unat st + unat count \<le> ?L" if "unat st < ?L"
          proof (rule ccontr)
            assume "\<not> unat st + unat count \<le> ?L"
            then have "ids m b ?L = 0" using sp that by simp
            then show False using L(3) by simp
          qed
          show "alloc_scan m b sz align start = alloc_scan m b sz align (st + count)"
            using False free True al by (subst scan) (simp add: getID_ids k_def [symmetric] count_def [symmetric])
          show "stepped_over m b sz align i" if i: "unat st \<le> i" "i < unat st + unat count" "usable m b sz align i" for i
          proof (rule not_usable_steps_over [OF st_n(2) _ _ _ i(1,3)])
            show "\<not> fits_at m b (unat (needed_blocks b sz align (of_nat (unat st)))) (unat st)"
              using free_run_fits(2) [OF st_n(1), of m k "unat st"] True c0 by (simp add: count_def k_def)
          qed (use free sp i in simp_all)
        qed
      next
        case found: False
        then have "alloc_scan m b sz align start = Some (Inr (Some (st, count)))"
          using False free al by (subst scan) (simp add: getID_ids k_def [symmetric] count_def [symmetric])
        then show ?thesis by blast
      qed
    qed
  qed
qed

section \<open>Writes stay in their region\<close>

definition in_region :: "heap_block_t \<Rightarrow> addr \<Rightarrow> bool" where
  "in_region b a \<longleftrightarrow> unat (a - bitmap_of b) < unat (mem_size b)"

definition frame_outside :: "heap_block_t \<Rightarrow> memory \<Rightarrow> memory \<Rightarrow> bool" where
  "frame_outside b m m' \<longleftrightarrow> (\<forall>a. \<not> in_region b a \<longrightarrow> m' a = m a)"

lemma nblocks_le: "nblocks b \<le> unat (mem_size b)"
  by (simp add: block_count_def)

lemma setID_frame: "unat w < nblocks b \<Longrightarrow> frame_outside b m (setID m (bitmap_of b) w x)"
  using nblocks_le [of b] by (auto simp: frame_outside_def in_region_def setID_def Let_def)

lemma frame_outside_trans: "frame_outside b m m' \<Longrightarrow> frame_outside b m' m'' \<Longrightarrow> frame_outside b m m''"
  by (simp add: frame_outside_def)

lemma set_run_frame:
  assumes "unat s + unat c \<le> nblocks b"
  shows "frame_outside b m (set_run m (bitmap_of b) s c x)"
proof -
  have n: "nblocks b < 2 ^ 32" using unat_bound [of "block_count b"] by simp
  have "frame_outside b m (fold (\<lambda>k m. setID m (bitmap_of b) (s + of_nat k) x) [0..<j] m)" if "unat s + j \<le> nblocks b" for j
    using that
  proof (induction j)
    case (Suc j)
    have "s + of_nat j = (of_nat (unat s + j) :: u32)" by simp
    then have "unat (s + of_nat j :: u32) = unat s + j"
      using Suc.prems n unat_of_nat_small [where 'a = 32, of "unat s + j"] by simp
    then have "unat (s + of_nat j :: u32) < nblocks b" using Suc.prems by simp
    from setID_frame [OF this] Suc show ?case by (auto intro: frame_outside_trans)
  qed (simp add: frame_outside_def)
  from this [OF assms] show ?thesis by (simp add: set_run_def)
qed

lemma clear_run_frame:
  "clear_run m (bitmap_of b) x n w = (m', w') \<Longrightarrow> n = block_count b \<Longrightarrow> frame_outside b m m'"
proof (induction m "bitmap_of b" x n w rule: clear_run.induct)
  case (1 m x n w)
  show ?case
  proof (cases "getID m (bitmap_of b) w = x \<and> w < n")
    case True
    then have "clear_run (setID m (bitmap_of b) w 0) (bitmap_of b) x n (w + 1) = (m', w')"
      using 1(2) by (subst (asm) clear_run.simps) simp
    from 1(1) [OF True this 1(3)] setID_frame [of w b m 0] True 1(3) show ?thesis
      by (auto intro: frame_outside_trans simp: word_less_nat_alt)
  next
    case False
    then have "m' = m" using 1(2) by (subst (asm) clear_run.simps) auto
    then show ?thesis by (simp add: frame_outside_def)
  qed
qed

definition regions_disjoint :: "heap_block_t \<Rightarrow> heap_block_t \<Rightarrow> bool" where
  "regions_disjoint b b' \<longleftrightarrow> (\<forall>a. \<not> (in_region b a \<and> in_region b' a))"

lemma ids_frame:
  assumes "frame_outside b m m'" "regions_disjoint b b'" "i < nblocks b'"
  shows "ids m' b' i = ids m b' i"
proof -
  have "i < 2 ^ 32" using assms(3) unat_bound [of "block_count b'"] by simp
  then have "unat (of_nat i div 4 :: u32) = i div 4" using unat_of_nat_small [where 'a = 32, of i] by simp
  moreover have "i div 4 < unat (mem_size b')"
    using assms(3) nblocks_le [of b'] div_le_dividend [of i 4] by linarith
  ultimately have "in_region b' (bitmap_of b' + of_nat i div 4)" by (simp add: in_region_def)
  then have "m' (bitmap_of b' + of_nat i div 4) = m (bitmap_of b' + of_nat i div 4)"
    using assms by (auto simp: frame_outside_def regions_disjoint_def)
  then show ?thesis by (simp add: ids_def getID_def Let_def)
qed

lemma heap_map_cong:
  assumes "heap_map f n A" "\<And>i. i < n \<Longrightarrow> g i = f i"
  shows "heap_map g n A"
proof (rule heap_mapI)
  fix a assume a: "a \<in> A"
  note d = heap_mapD [OF assms(1) a]
  have lt: "covers a i \<Longrightarrow> i < n" for i using d(2) by (auto simp: covers_def)
  have f: "g (first_block a) = f (first_block a)" using assms(2) d(1,2) by simp
  have "g i = g (first_block a)" if "covers a i" for i
    using d(4) [OF that] assms(2) [OF lt [OF that]] f by simp
  then show "0 < blocks a \<and> first_block a + blocks a \<le> n \<and> g (first_block a) \<noteq> 0 \<and>
      (\<forall>i. covers a i \<longrightarrow> g i = g (first_block a))"
    using d(1-3) f by simp
next
  fix a a' assume a: "a \<in> A" "a' \<in> A" "first_block a' = first_block a + blocks a"
  have "g (first_block a) = f (first_block a)" "g (first_block a') = f (first_block a')"
    using assms(2) heap_mapD(1,2) [OF assms(1) a(1)] heap_mapD(1,2) [OF assms(1) a(2)] by simp_all
  then show "g (first_block a) \<noteq> g (first_block a')" using heap_mapD(6) [OF assms(1) a] by simp
qed (use assms heap_mapD(5) heap_map_used in \<open>metis+\<close>)

lemma region_ok_frame:
  assumes "region_ok m b' A" "frame_outside b m m'" "regions_disjoint b b'"
  shows "region_ok m' b' A"
proof -
  have i: "ids m' b' i = ids m b' i" if "i < nblocks b'" for i
    using ids_frame [OF assms(2,3) that] .
  have "heap_map (ids m' b') (nblocks b') A"
    using assms(1) unfolding region_ok_def by (blast intro: heap_map_cong i)
  moreover have "{i. i < nblocks b' \<and> ids m' b' i \<noteq> 0} = {i. i < nblocks b' \<and> ids m b' i \<noteq> 0}"
    using i by (simp cong: conj_cong)
  ultimately show ?thesis using assms(1) by (simp add: region_ok_def)
qed

section \<open>Addresses\<close>

definition ext_range :: "heap_block_t \<Rightarrow> extent \<Rightarrow> nat set" where
  "ext_range b e = {unat (bitmap_of b) + first_block e * unat (block_size b)..<
     unat (bitmap_of b) + (first_block e + blocks e) * unat (block_size b)}"

lemma ext_range_disjoint:
  assumes "\<And>i. \<not> (covers e i \<and> covers e' i)" "0 < blocks e" "0 < blocks e'"
  shows "ext_range b e \<inter> ext_range b e' = {}"
proof -
  have "first_block e + blocks e \<le> first_block e' \<or> first_block e' + blocks e' \<le> first_block e"
    using assms(1) [of "first_block e"] assms(1) [of "first_block e'"] assms(2,3)
    by (auto simp: covers_def not_le)
  then have "(first_block e + blocks e) * unat (block_size b) \<le> first_block e' * unat (block_size b) \<or>
      (first_block e' + blocks e') * unat (block_size b) \<le> first_block e * unat (block_size b)"
    by (meson mult_le_mono1)
  then show ?thesis by (auto simp: ext_range_def)
qed

lemma region_bytes:
  assumes "region_ok m b A"
  shows "unat (bitmap_of b) = unat (hb_addr b) + 20" "0 < unat (block_size b)"
    "nblocks b * unat (block_size b) \<le> unat (mem_size b)"
    "unat (bitmap_of b) + unat (mem_size b) < 2 ^ 32"
proof -
  have w: "unat (hb_addr b) + 20 + unat (mem_size b) < 2 ^ 32" using assms by (simp add: region_ok_def)
  show bm: "unat (bitmap_of b) = unat (hb_addr b) + 20"
    using w unat_add_small [of "hb_addr b" 20] by (simp add: bitmap_of_def sizeof_heap_block_t_def)
  show "0 < unat (block_size b)" using assms by (simp add: region_ok_def unat_gt_0)
  show "nblocks b * unat (block_size b) \<le> unat (mem_size b)"
    by (simp add: block_count_def)
  show "unat (bitmap_of b) + unat (mem_size b) < 2 ^ 32" using w bm by simp
qed

lemma block_addr:
  assumes "region_ok m b A" "unat s \<le> nblocks b"
  shows "unat (bitmap_of b + s * block_size b) = unat (bitmap_of b) + unat s * unat (block_size b)"
proof -
  note r = region_bytes [OF assms(1)]
  have "unat s * unat (block_size b) \<le> unat (mem_size b)"
    using r(3) mult_le_mono1 [OF assms(2), of "unat (block_size b)"] by linarith
  then show ?thesis
    using r(4) by (simp add: unat_add_small unat_mult_small)
qed

lemma aligment_offset:
  assumes "align \<noteq> 0"
  shows "unat (get_aligment_offset x align) \<le> unat align"
    "(unat x + unat (get_aligment_offset x align)) mod unat align = 0"
proof -
  have pos: "0 < unat align" using assms by (simp add: unat_gt_0)
  show le: "unat (get_aligment_offset x align) \<le> unat align"
    using pos by (auto simp: get_aligment_offset_def unat_sub_small)
  show "(unat x + unat (get_aligment_offset x align)) mod unat align = 0"
  proof (cases "align = 1")
    case False
    then have "unat (get_aligment_offset x align) = unat align - unat x mod unat align"
      using pos by (simp add: get_aligment_offset_def unat_sub_small)
    moreover have "unat x + (unat align - unat x mod unat align) = unat x div unat align * unat align + unat align"
      using pos mod_le_divisor [OF pos, of "unat x"] div_mult_mod_eq [of "unat x" "unat align"] by linarith
    ultimately show ?thesis by simp
  qed (simp add: get_aligment_offset_def)
qed

lemma alloc_addr:
  assumes r: "region_ok m b A" and sc: "unat s + unat c \<le> nblocks b" and c: "c = needed_blocks b sz align s"
    and sz: "sz \<noteq> 0" "align \<noteq> 0" "unat sz + unat align + unat (block_size b) < 2 ^ 32"
    and p: "p = (bitmap_of b + s * block_size b) + get_aligment_offset (bitmap_of b + s * block_size b) align"
  shows "c \<noteq> 0 \<and> {unat p..<unat p + unat sz} \<subseteq> ext_range b (Extent (unat s) (unat c)) \<and> unat p mod unat align = 0"
proof -
  let ?bs = "unat (block_size b)" and ?x = "bitmap_of b + s * block_size b"
  define off where "off = get_aligment_offset ?x align"
  note rb = region_bytes [OF r]
  note o = aligment_offset [OF sz(2), of ?x, folded off_def]
  have x: "unat ?x = unat (bitmap_of b) + unat s * ?bs" using block_addr [OF r] sc by simp
  have s1: "unat (sz + off) = unat sz + unat off" using o(1) sz(3) by (intro unat_add_small) simp
  have s2: "unat (sz + off + block_size b) = unat sz + unat off + ?bs"
    using o(1) sz(3) s1 by (subst unat_add_small) auto
  have "unat (sz + off + block_size b - 1) = unat sz + unat off + ?bs - 1"
    using s2 rb(2) unat_sub_small [of 1 "sz + off + block_size b"] by simp
  then have cv: "unat c = (unat sz + unat off + ?bs - 1) div ?bs"
    by (simp add: c needed_blocks_def Let_def off_def)
  have "unat sz + unat off + ?bs - 1 < (unat c + 1) * ?bs"
    using dividend_less_div_times [OF rb(2), of "unat sz + unat off + ?bs - 1"] cv by (simp add: mult.commute)
  then have cb: "unat sz + unat off \<le> unat c * ?bs" using rb(2) by simp
  have szp: "0 < unat sz" using sz(1) by (simp add: unat_gt_0)
  have "(unat s + unat c) * ?bs \<le> unat (mem_size b)"
    using rb(3) mult_le_mono1 [OF sc, of ?bs] by linarith
  then have fit: "unat ?x + unat off + unat sz \<le> unat (bitmap_of b) + (unat s + unat c) * ?bs"
      "unat (bitmap_of b) + (unat s + unat c) * ?bs < 2 ^ 32"
    using cb x rb(4) by (simp_all add: add_mult_distrib)
  then have pv: "unat p = unat ?x + unat off"
    unfolding p off_def [symmetric] by (intro unat_add_small) simp
  have "c \<noteq> 0" using cb szp by auto
  moreover have "{unat p..<unat p + unat sz} \<subseteq> ext_range b (Extent (unat s) (unat c))"
    using fit x pv by (auto simp: ext_range_def)
  moreover have "unat p mod unat align = 0" using o(2) pv by simp
  ultimately show ?thesis by blast
qed

end
