(* ===== verification/HeapSpec.thy ===== *)
theory HeapSpec
  imports HeapMap
begin

text \<open>
  The kernel heap of \<open>heap/BitmapHeap.cpp\<close> against its contract: a set of disjoint allocations that
  \<open>alloc\<close> extends and \<open>free\<close> shrinks, with the failures that the source has.
\<close>

section \<open>The heap\<close>

text \<open>
  \<open>heap_ok h As\<close>: every region of the heap is well formed, \<open>As\<close> lists the allocations of the regions,
  and the regions do not overlap.
\<close>

definition heap_ok :: "bitmap_heap \<Rightarrow> extent set list \<Rightarrow> bool" where
  "heap_ok h As \<longleftrightarrow> list_all2 (region_ok (hmem h)) (m_first_block h) As \<and>
     (\<forall>i < length As. \<forall>j < length As. i \<noteq> j \<longrightarrow> regions_disjoint (m_first_block h ! i) (m_first_block h ! j))"

lemma heap_okD:
  assumes "heap_ok h As"
  shows "length (m_first_block h) = length As" "k < length As \<Longrightarrow> region_ok (hmem h) (m_first_block h ! k) (As ! k)"
    "i < length As \<Longrightarrow> j < length As \<Longrightarrow> i \<noteq> j \<Longrightarrow> regions_disjoint (m_first_block h ! i) (m_first_block h ! j)"
  using assms by (auto simp: heap_ok_def list_all2_conv_all_nth)

lemma in_region_cong:
  "hb_addr b' = hb_addr b \<Longrightarrow> mem_size b' = mem_size b \<Longrightarrow> in_region b' = in_region b"
  by (auto simp: in_region_def bitmap_of_def)

text \<open>An operation that changes one region only.\<close>

lemma heap_ok_update:
  assumes h: "heap_ok h As" and k: "k < length As" and r: "region_ok m' b' A'"
    and fr: "frame_outside (m_first_block h ! k) (hmem h) m'"
    and b': "hb_addr b' = hb_addr (m_first_block h ! k)" "mem_size b' = mem_size (m_first_block h ! k)"
    and h': "hmem h' = m'" "m_first_block h' = (m_first_block h)[k := b']"
  shows "heap_ok h' (As[k := A'])"
proof -
  note d = heap_okD [OF h]
  have reg: "in_region (m_first_block h' ! i) = in_region (m_first_block h ! i)" if "i < length As" for i
    using that d(1) in_region_cong [OF b'] by (cases "i = k") (auto simp: h')
  have "region_ok m' (m_first_block h' ! i) (As[k := A'] ! i)" if i: "i < length As" for i
  proof (cases "i = k")
    case True
    then show ?thesis using r i d(1) by (simp add: h')
  next
    case False
    then show ?thesis
      using region_ok_frame [OF d(2) [OF i] fr d(3) [OF k i]] i d(1) by (simp add: h')
  qed
  then show ?thesis
    using d(1,3) reg by (auto simp: heap_ok_def list_all2_conv_all_nth h'(1) regions_disjoint_def)
       (simp_all add: h'(2))
qed

lemma alloc_in_Some:
  assumes "alloc_in m sz align bs = Some (Inr (m', bs', Some (p, bytes)))"
  shows "\<exists>k s c b'. k < length bs \<and> block_count (bs ! k) \<noteq> 0 \<and>
    alloc_scan m (bs ! k) sz align ((last_alloc (bs ! k) + 1) mod block_count (bs ! k)) = Some (Inr (Some (s, c))) \<and>
    take_blocks m (bs ! k) s c = (m', b') \<and> bs' = bs[k := b'] \<and>
    p = (bitmap_of (bs ! k) + s * block_size (bs ! k)) +
      get_aligment_offset (bitmap_of (bs ! k) + s * block_size (bs ! k)) align"
  using assms
proof (induction bs arbitrary: bs')
  case (Cons b bs)
  show ?case
  proof (cases "\<exists>bs''. alloc_in m sz align bs = Some (Inr (m', bs'', Some (p, bytes))) \<and> bs' = b # bs''")
    case True
    with Cons.IH obtain k s c b' bs'' where "k < length bs" "block_count (bs ! k) \<noteq> 0"
      "alloc_scan m (bs ! k) sz align ((last_alloc (bs ! k) + 1) mod block_count (bs ! k)) = Some (Inr (Some (s, c)))"
      "take_blocks m (bs ! k) s c = (m', b')" "bs' = b # bs[k := b']"
      "p = (bitmap_of (bs ! k) + s * block_size (bs ! k)) +
        get_aligment_offset (bitmap_of (bs ! k) + s * block_size (bs ! k)) align" by blast
    then show ?thesis by (intro exI [of _ "Suc k"] exI [of _ s] exI [of _ c] exI [of _ b']) simp
  next
    case False
    with Cons.prems show ?thesis
      by - (rule exI [of _ 0], auto simp: Let_def split: if_splits option.splits sum.splits prod.splits)
  qed
qed simp


lemma take_blocks_frame:
  assumes "take_blocks m b s c = (m', b')" "unat s + unat c \<le> nblocks b"
  shows "frame_outside b m m'" "hb_addr b' = hb_addr b" "mem_size b' = mem_size b" "block_size b' = block_size b"
    "bitmap_of b' = bitmap_of b" "last_alloc b' = s + c - 1"
  using assms set_run_frame by (auto simp: take_blocks_def Let_def bitmap_of_def)

text \<open>What a successful allocation does, at block level.\<close>

lemma heap_alloc_region:
  assumes h: "heap_ok h As" and a: "heap_alloc sz align h = Some (Inr (h', Some p))"
    and sz: "sz \<noteq> 0" "\<forall>b \<in> set (m_first_block h). unat sz + unat align + unat (block_size b) < 2 ^ 32"
  shows "\<exists>k e. k < length As \<and> heap_ok h' (As[k := insert e (As ! k)]) \<and> 0 < blocks e \<and>
    (\<forall>e' \<in> As ! k. \<forall>i. \<not> (covers e i \<and> covers e' i)) \<and>
    {unat p..<unat p + unat sz} \<subseteq> ext_range (m_first_block h ! k) e \<and> unat p mod unat align = 0 \<and>
    (\<forall>i < length As. hb_addr (m_first_block h' ! i) = hb_addr (m_first_block h ! i) \<and>
       block_size (m_first_block h' ! i) = block_size (m_first_block h ! i))"
proof -
  note d = heap_okD [OF h]
  obtain m bs bytes where ai: "alloc_in (hmem h) sz align (m_first_block h) = Some (Inr (m, bs, Some (p, bytes)))"
      "hmem h' = m" "m_first_block h' = bs"
    using a by (auto simp: heap_alloc_def Let_def split: option.splits sum.splits)
  obtain k s c b' where k: "k < length As" and ks: "block_count (m_first_block h ! k) \<noteq> 0"
      "alloc_scan (hmem h) (m_first_block h ! k) sz align
        ((last_alloc (m_first_block h ! k) + 1) mod block_count (m_first_block h ! k)) = Some (Inr (Some (s, c)))"
      "take_blocks (hmem h) (m_first_block h ! k) s c = (m, b')" "bs = (m_first_block h)[k := b']"
      "p = (bitmap_of (m_first_block h ! k) + s * block_size (m_first_block h ! k)) +
        get_aligment_offset (bitmap_of (m_first_block h ! k) + s * block_size (m_first_block h ! k)) align"
    using alloc_in_Some [OF ai(1)] d(1) by auto
  let ?b = "m_first_block h ! k" and ?e = "Extent (unat s) (unat c)"
  note r = d(2) [OF k]
  have sound: "align \<noteq> 0" "c = needed_blocks ?b sz align s" "fits_at (hmem h) ?b (unat c) (unat s)"
    using alloc_scan_sound [OF ks(2,1)] by auto
  have sc: "unat s + unat c \<le> nblocks ?b" using sound(3) by (simp add: fits_at_def)
  have "?b \<in> set (m_first_block h)" using k d(1) by simp
  then have addr: "c \<noteq> 0" "{unat p..<unat p + unat sz} \<subseteq> ext_range ?b ?e" "unat p mod unat align = 0"
    using alloc_addr [OF r sc sound(2) sz(1) sound(1) _ ks(5)] sz(2) by auto
  have free: "ids (hmem h) ?b i = 0" if "covers ?e i" for i
    using sound(3) that by (auto simp: fits_at_def covers_def)
  have tb: "region_ok m b' (insert ?e (As ! k))" by (rule take_blocks_ok [OF r addr(1) sc free ks(3)])
  note fr = take_blocks_frame [OF ks(3) sc]
  have "heap_ok h' (As[k := insert ?e (As ! k)])"
    using heap_ok_update [OF h k tb fr(1,2,3)] ai(2,3) ks(4) by simp
  moreover have "\<not> (covers ?e i \<and> covers e' i)" if e': "e' \<in> As ! k" for e' i
  proof
    assume c: "covers ?e i \<and> covers e' i"
    have hm: "heap_map (ids (hmem h) ?b) (nblocks ?b) (As ! k)" using r by (simp add: region_ok_def)
    have "ids (hmem h) ?b i \<noteq> 0" using heap_mapD(3,4) [OF hm e'] c by simp
    with free c show False by simp
  qed
  moreover have "0 < blocks ?e" using addr(1) by (simp add: unat_gt_0)
  moreover have "hb_addr (m_first_block h' ! i) = hb_addr (m_first_block h ! i) \<and>
       block_size (m_first_block h' ! i) = block_size (m_first_block h ! i)" if "i < length As" for i
    using that fr d(1) by (cases "i = k") (auto simp: ai(3) ks(4))
  ultimately show ?thesis using addr k by (intro exI [of _ k] exI [of _ ?e]) blast
qed


lemma ptr_inside_region:
  assumes "region_ok m b A"
  shows "ptr_inside p b \<longleftrightarrow> in_region b p"
proof -
  note r = region_bytes [OF assms]
  have e: "unat (hb_addr b + sizeof_heap_block_t + mem_size b) = unat (bitmap_of b) + unat (mem_size b)"
    using r(4) unat_add_small [of "bitmap_of b" "mem_size b"] by (simp add: bitmap_of_def)
  show ?thesis
  proof (cases "bitmap_of b \<le> p")
    case True
    then show ?thesis
      using e by (auto simp: ptr_inside_def in_region_def unat_sub_le word_less_nat_alt word_le_nat_alt)
  next
    case False
    then have "unat (p - bitmap_of b) = 2 ^ 32 - (unat (bitmap_of b) - unat p)"
      using unat_sub_if' [of p "bitmap_of b"] by (simp add: word_le_nat_alt)
    then show ?thesis using False r(4) by (simp add: ptr_inside_def in_region_def word_le_nat_alt)
  qed
qed

lemma ext_range_block:
  assumes r: "region_ok m b A" and e: "e \<in> A" and p: "unat p \<in> ext_range b e"
  shows "in_region b p" "covers e (unat ((p - bitmap_of b) div block_size b))"
proof -
  note rb = region_bytes [OF r]
  have hm: "heap_map (ids m b) (nblocks b) A" using r by (simp add: region_ok_def)
  have le: "bitmap_of b \<le> p" using p by (auto simp: ext_range_def word_le_nat_alt)
  have off: "unat (p - bitmap_of b) = unat p - unat (bitmap_of b)" using le by (rule unat_sub_le)
  have "(first_block e + blocks e) * unat (block_size b) \<le> unat (mem_size b)"
    using rb(3) mult_le_mono1 [OF heap_mapD(2) [OF hm e], of "unat (block_size b)"] by linarith
  then show "in_region b p" using p off by (auto simp: in_region_def ext_range_def)
  have "first_block e * unat (block_size b) \<le> unat p - unat (bitmap_of b)"
    "unat p - unat (bitmap_of b) < (first_block e + blocks e) * unat (block_size b)"
    using p by (auto simp: ext_range_def)
  then show "covers e (unat ((p - bitmap_of b) div block_size b))"
    using rb(2) by (simp add: covers_def off less_eq_div_iff_mult_less_eq less_mult_imp_div_less)
qed

lemma free_in_at:
  assumes "k < length bs" "ptr_inside p (bs ! k)" "\<forall>i < k. \<not> ptr_inside p (bs ! i)"
  shows "free_in p m bs = kbind (free_in_block p m (bs ! k)) (\<lambda>(m', b', bytes). Inr (m', bs[k := b'], bytes))"
  using assms
proof (induction bs arbitrary: k)
  case (Cons b bs)
  show ?case
  proof (cases k)
    case 0
    then show ?thesis using Cons.prems by simp
  next
    case (Suc j)
    then have "\<not> ptr_inside p b" using Cons.prems(3) by (metis nth_Cons_0 zero_less_Suc)
    moreover have "free_in p m bs = kbind (free_in_block p m (bs ! j)) (\<lambda>(m', b', bytes). Inr (m', bs[j := b'], bytes))"
      using Cons.prems Suc by (intro Cons.IH) auto
    ultimately show ?thesis using Suc by (cases "free_in_block p m (bs ! j)") auto
  qed
qed simp

lemma inside_first:
  assumes h: "heap_ok h As" and k: "k < length As" and p: "in_region (m_first_block h ! k) p"
  shows "ptr_inside p (m_first_block h ! k)" "\<forall>i < k. \<not> ptr_inside p (m_first_block h ! i)"
proof -
  note d = heap_okD [OF h]
  show "ptr_inside p (m_first_block h ! k)" using ptr_inside_region [OF d(2) [OF k]] p by simp
  show "\<forall>i < k. \<not> ptr_inside p (m_first_block h ! i)"
  proof (intro allI impI)
    fix i assume "i < k"
    then show "\<not> ptr_inside p (m_first_block h ! i)"
      using ptr_inside_region [OF d(2) [of i]] d(3) [of i k] k p by (auto simp: regions_disjoint_def)
  qed
qed

lemma free_in_block_frame:
  assumes "free_in_block p m b = Inr (m', b', bytes)"
  shows "frame_outside b m m'"
  using assms clear_run_frame by (auto simp: free_in_block_def Let_def kbind_Inr_iff split: if_splits prod.splits)

lemma heap_free_extent:
  assumes h: "heap_ok h As" and k: "k < length As" and e: "e \<in> As ! k"
    and p: "unat p \<in> ext_range (m_first_block h ! k) e"
  shows "\<exists>h'. heap_free p h = Inr h' \<and> heap_ok h' (As[k := As ! k - {e}])"
proof -
  note d = heap_okD [OF h]
  let ?b = "m_first_block h ! k"
  note r = d(2) [OF k]
  note blk = ext_range_block [OF r e p]
  obtain m' b' where f: "free_in_block p (hmem h) ?b = Inr (m', b', of_nat (blocks e) * block_size ?b)"
      "region_ok m' b' (As ! k - {e})" "hb_addr b' = hb_addr ?b" "mem_size b' = mem_size ?b"
    using free_in_block_ok [OF r e blk(2)] by blast
  have "free_in p (hmem h) (m_first_block h) =
      Inr (m', (m_first_block h)[k := b'], of_nat (blocks e) * block_size ?b)"
    using free_in_at [OF _ inside_first [OF h k blk(1)]] k d(1) f(1) by simp
  then have "\<exists>h'. heap_free p h = Inr h' \<and> hmem h' = m' \<and> m_first_block h' = (m_first_block h)[k := b']"
    by (simp add: heap_free_def Let_def)
  then show ?thesis
    using heap_ok_update [OF h k f(2) free_in_block_frame [OF f(1)] f(3,4)] by blast
qed

section \<open>A new region\<close>

lemma zero_bytes:
  "fold (\<lambda>i m. m(bm + of_nat i := 0)) [0..<n] m (bm + of_nat j) =
     (if j < n then 0 else m (bm + of_nat j))" if "n \<le> 2 ^ 32" "j < 2 ^ 32" for bm :: u32
  using that
proof (induction n)
  case (Suc n)
  then have "(of_nat j :: u32) = of_nat n \<longleftrightarrow> j = n"
    using of_nat_eq_small [where 'a = 32, of j n] by simp
  with Suc show ?case by auto
qed simp

lemma ids_zero:
  assumes "m (bitmap_of b + of_nat i div 4) = 0"
  shows "ids m b i = 0"
  using assms by (simp add: ids_def getID_def Let_def)

lemma heap_map_single:
  assumes "0 < k" "k \<le> n" "\<And>i. i < n \<Longrightarrow> f i = (if i < k then x else 0)" "x \<noteq> 0"
  shows "heap_map f n {Extent 0 k}"
proof (rule heap_mapI)
  fix a assume "a \<in> {Extent 0 k}"
  then show "0 < blocks a \<and> first_block a + blocks a \<le> n \<and> f (first_block a) \<noteq> 0 \<and>
      (\<forall>i. covers a i \<longrightarrow> f i = f (first_block a))"
    using assms by (auto simp: covers_def)
next
  fix a a' assume "a \<in> {Extent 0 k}" "a' \<in> {Extent 0 k}" "first_block a' = first_block a + blocks a"
  then show "f (first_block a) \<noteq> f (first_block a')" using assms(1) by simp
next
  fix i assume "i < n" "f i \<noteq> 0"
  then show "\<exists>a \<in> {Extent 0 k}. covers a i" using assms(3) [of i] by (auto simp: covers_def split: if_splits)
qed simp

text \<open>The sizes that \<open>expand\<close> computes do not overflow.\<close>

lemma expand_sizes:
  fixes count bs :: u32
  assumes "bs \<noteq> 0" "count \<noteq> 0" "unat count * unat bs \<le> M" "M + 20 < 2 ^ 32"
  defines "bytes \<equiv> (count + 4 - 1) div 4"
  defines "blks \<equiv> (bytes + bs - 1) div bs"
  shows "unat bytes = (unat count + 3) div 4" "unat blks = (unat bytes + unat bs - 1) div unat bs"
    "0 < unat blks" "unat blks \<le> unat count" "unat bytes \<le> unat blks * unat bs"
proof -
  have bs: "0 < unat bs" and c: "0 < unat count" using assms(1,2) by (auto simp: unat_gt_0)
  have cM: "unat count \<le> M" "unat bs \<le> M"
    using assms(3) bs c by (metis le_trans mult_le_mono1 mult.commute nat_mult_1 Suc_leI One_nat_def)+
  have c3: "unat (count + 3) = unat count + 3" using cM assms(4) unat_add_small [of count 3] by simp
  have e: "count + 4 - 1 = count + 3" by simp
  show b: "unat bytes = (unat count + 3) div 4" unfolding bytes_def e unat_div_word c3 by simp
  have bc: "0 < unat bytes" "unat bytes \<le> unat count" using b c by auto
  have sum: "unat count + unat bs \<le> M + 1"
  proof -
    have "(unat count - 1) * (unat bs - 1) \<ge> 0" by simp
    then have "unat count + unat bs \<le> unat count * unat bs + 1"
      using bs c by (cases "unat count"; cases "unat bs") auto
    then show ?thesis using assms(3) by simp
  qed
  have "unat (bytes + bs) = unat bytes + unat bs"
    using bc sum assms(4) by (intro unat_add_small) simp
  then have "unat (bytes + bs - 1) = unat bytes + unat bs - 1"
    using bs unat_sub_small [of 1 "bytes + bs"] by simp
  then show k: "unat blks = (unat bytes + unat bs - 1) div unat bs" by (simp add: blks_def)
  show "0 < unat blks" using k bs bc by (simp add: div_greater_zero_iff)
  have "unat bytes + unat bs - 1 < (unat blks + 1) * unat bs"
    using dividend_less_div_times [OF bs, of "unat bytes + unat bs - 1"] k by (simp add: mult.commute)
  then show "unat bytes \<le> unat blks * unat bs" using bs by simp
  have "unat blks * unat bs \<le> unat bytes + unat bs - 1" using k by simp
  also have "\<dots> \<le> unat bytes * unat bs" using bs bc by (cases "unat bytes"; cases "unat bs") auto
  finally show "unat blks \<le> unat count" using bs bc(2) by simp
qed

lemma zero_bytes_frame:
  assumes "n \<le> k" "k \<le> 2 ^ 32" "unat (a - bm) \<ge> k"
  shows "fold (\<lambda>i m. m(bm + of_nat i := 0)) [0..<n] m a = m (a :: u32)"
  using assms(1)
proof (induction n)
  case (Suc n)
  have "unat (of_nat n :: u32) = n" using Suc.prems assms(2) by (intro unat_of_nat_small) simp
  then have "a \<noteq> bm + of_nat n" using Suc.prems assms(3) by auto
  with Suc show ?case by auto
qed simp

lemma expand_ok:
  assumes h: "heap_ok h As" and sz: "20 \<le> unat sz" "unat addr + unat sz < 2 ^ 32"
    and bs: "bs \<noteq> 0" "unat bs \<le> unat sz - 20"
    and disj: "\<And>b. b \<in> set (m_first_block h) \<Longrightarrow> regions_disjoint b \<lparr>hb_addr = addr, mem_size = sz - 20,
      used_blocks = 0, block_size = bs, last_alloc = 0\<rparr>"
  shows "\<exists>h' k. expand addr sz bs h = Inr h' \<and> heap_ok h' ({Extent 0 k} # As) \<and> 0 < k \<and>
    ((unat sz - 20) div unat bs + 3) div 4 \<le> k * unat bs"
proof -
  define msize where "msize = sz - 20"
  define count where "count = msize div bs"
  define bytes where "bytes = (count + 4 - 1) div 4"
  define blks where "blks = (bytes + bs - 1) div bs"
  define bm where "bm = addr + 20"
  define m1 where "m1 = fold (\<lambda>i m. m(bm + of_nat i := 0)) [0..<unat bytes] (hmem h)"
  define m2 where "m2 = set_run m1 bm 0 blks 1"
  define b where "b = \<lparr>hb_addr = addr, mem_size = msize, used_blocks = blks, block_size = bs, last_alloc = blks - 1\<rparr>"
  obtain h' where ex: "expand addr sz bs h = Inr h'" "m_first_block h' = b # m_first_block h" "hmem h' = m2"
    using bs(1) by (simp add: expand_def Let_def sizeof_heap_block_t_def b_def m2_def m1_def bm_def blks_def bytes_def
      count_def msize_def)
  have ms: "unat msize = unat sz - 20" using sz(1) unat_sub_small [of 20 sz] by (simp add: msize_def)
  have "0 < unat count" using bs ms by (simp add: count_def div_greater_zero_iff unat_gt_0)
  then have c0: "count \<noteq> 0" by auto
  have cb: "unat count * unat bs \<le> unat msize" by (simp add: count_def)
  have M: "unat msize + 20 < 2 ^ 32" using ms sz by simp
  note es = expand_sizes [OF bs(1) c0 cb M, folded bytes_def, folded blks_def]
  have bmb: "bm = bitmap_of b" by (simp add: bm_def b_def bitmap_of_def sizeof_heap_block_t_def)
  have bc: "block_count b = count" by (simp add: block_count_def b_def count_def)
  have cl: "unat count < 2 ^ 32" using unat_bound [of count] by simp
  have id1: "ids m1 b i = 0" if "i < unat count" for i
  proof (rule ids_zero)
    have i: "i div 4 < unat bytes" using that es(1) by linarith
    have "of_nat i div 4 = (of_nat (i div 4) :: u32)"
      using that cl unat_of_nat_small [where 'a = 32, of i] unat_of_nat_small [where 'a = 32, of "i div 4"]
      by (simp add: word_unat_eq_iff)
    then show "m1 (bitmap_of b + of_nat i div 4) = 0"
      using zero_bytes [of "unat bytes" "i div 4" bm "hmem h"] i that cl unat_bound [of bytes]
      by (simp add: m1_def bmb)
  qed
  have id2: "ids m2 b i = (if i < unat blks then 1 else 0)" if "i < unat count" for i
    using ids_set_run [of 0 blks i m1 b 1] id1 [OF that] that cl es(4) by (simp add: m2_def bmb)
  have "heap_map (ids m2 b) (nblocks b) {Extent 0 (unat blks)}"
    by (rule heap_map_single [where x = 1]) (use es(3,4) id2 bc in auto)
  moreover have "{i. i < nblocks b \<and> ids m2 b i \<noteq> 0} = {..<unat blks}"
    using id2 bc es(4) by (auto split: if_splits)
  ultimately have r: "region_ok m2 b {Extent 0 (unat blks)}"
    using bs(1) c0 bc sz ms by (simp add: region_ok_def) (simp add: b_def)
  have fr: "frame_outside b (hmem h) m2"
  proof (rule frame_outside_trans)
    have "unat bytes \<le> unat msize" using es(4,5) cb mult_le_mono1 [OF es(4), of "unat bs"] by linarith
    moreover have mb: "mem_size b = msize" by (simp add: b_def)
    ultimately show "frame_outside b (hmem h) m1"
      using zero_bytes_frame [of "unat bytes" "unat msize" _ bm "hmem h"] unat_bound [of msize]
      by (simp add: frame_outside_def in_region_def m1_def bmb [symmetric] mb not_less)
    show "frame_outside b m1 m2" unfolding m2_def bmb by (rule set_run_frame) (use es(4) bc in simp)
  qed
  have dj: "regions_disjoint b b'" "regions_disjoint b' b" if "b' \<in> set (m_first_block h)" for b'
    using disj [OF that] in_region_cong [of b "\<lparr>hb_addr = addr, mem_size = sz - 20, used_blocks = 0, block_size = bs, last_alloc = 0\<rparr>"]
    by (auto simp: regions_disjoint_def b_def msize_def)
  have "list_all2 (region_ok m2) (b # m_first_block h) ({Extent 0 (unat blks)} # As)"
    using r h region_ok_frame [OF _ fr dj(1)]
      list.rel_mono_strong [of "region_ok (hmem h)" "m_first_block h" As "region_ok m2"]
    by (auto simp: heap_ok_def)
  moreover have "regions_disjoint ((b # m_first_block h) ! i) ((b # m_first_block h) ! j)"
    if "i < Suc (length As)" "j < Suc (length As)" "i \<noteq> j" for i j
    using that heap_okD(1,3) [OF h] dj by (cases i; cases j) auto
  ultimately have "heap_ok h' ({Extent 0 (unat blks)} # As)"
    by (simp add: heap_ok_def ex)
  moreover have "((unat sz - 20) div unat bs + 3) div 4 \<le> unat blks * unat bs"
    using es(1,5) ms by (simp add: count_def)
  ultimately show ?thesis using ex(1) es(3) by blast
qed

section \<open>Sequences of operations\<close>

datatype heap_op = Alloc u32 u32 | Free addr

fun run_ops :: "heap_op list \<Rightarrow> bitmap_heap \<Rightarrow> bitmap_heap kres option" where
  "run_ops [] h = Some (Inr h)"
| "run_ops (Alloc sz align # ops) h =
     (case heap_alloc sz align h of
        None \<Rightarrow> None | Some (Inl e) \<Rightarrow> Some (Inl e) | Some (Inr (h', _)) \<Rightarrow> run_ops ops h')"
| "run_ops (Free p # ops) h = (case heap_free p h of Inl e \<Rightarrow> Some (Inl e) | Inr h' \<Rightarrow> run_ops ops h')"

text \<open>What a test can see of a heap with one region: its header and the ids of its first blocks.\<close>

definition view :: "nat \<Rightarrow> bitmap_heap \<Rightarrow> heap_block_t list \<times> u8 list" where
  "view n h = (m_first_block h, map (ids (hmem h) (hd (m_first_block h))) [0..<n])"

lemma viewD:
  assumes "view n h = ([b], xs)"
  shows "m_first_block h = [b]" "i < n \<Longrightarrow> ids (hmem h) b i = xs ! i"
  using assms by (auto simp: view_def)





lemma alloc_scan_diverges:
  assumes "\<And>start. S start \<Longrightarrow> start \<noteq> last_alloc b \<and>
      (let st = (if block_count b \<le> start then 0 else start) in
       can_align (bitmap_of b) (block_size b) st align \<and>
       (if getID m (bitmap_of b) st \<noteq> 0 then S (st + 1)
        else let needed = needed_blocks b sz align st; count = free_run m b st needed 0 in
          count < needed \<and> S (st + (count - 1) + 1)))" "align \<noteq> 0"
  shows "S start \<Longrightarrow> alloc_scan m b sz align start = None"
proof (rule ccontr)
  assume s: "S start" and "alloc_scan m b sz align start \<noteq> None"
  then obtain y where y: "alloc_scan m b sz align start = Some y" by auto
  have "\<not> (m = m \<and> b = b \<and> sz = sz \<and> align = align \<and> S start)"
  proof (rule alloc_scan.raw_induct [where P = "\<lambda>m' b' sz' align' start' y. \<not> (m' = m \<and> b' = b \<and> sz' = sz \<and> align' = align \<and> S start')", OF _ y])
    fix rec m' b' sz' align' start0 y
    assume ih: "\<And>m' b' sz' align' start' y. rec m' b' sz' align' start' = Some y \<Longrightarrow>
        \<not> (m' = m \<and> b' = b \<and> sz' = sz \<and> align' = align \<and> S start')"
      and eq: "(if start0 = last_alloc b' then Some (Inr None)
        else let start = if block_count b' \<le> start0 then 0 else start0
             in if \<not> can_align (bitmap_of b') (block_size b') start align' then rec m' b' sz' align' (start + 1)
                else if align' = 0 then Some (Inl DivZero)
                else if getID m' (bitmap_of b') start \<noteq> 0 then rec m' b' sz' align' (start + 1)
                else let needed = needed_blocks b' sz' align' start; count = free_run m' b' start needed 0
                     in if count < needed then rec m' b' sz' align' (start + (count - 1) + 1)
                        else Some (Inr (Some (start, count)))) = Some y"
    show "\<not> (m' = m \<and> b' = b \<and> sz' = sz \<and> align' = align \<and> S start0)"
    proof
      assume e: "m' = m \<and> b' = b \<and> sz' = sz \<and> align' = align \<and> S start0"
      define st where "st = (if block_count b \<le> start0 then 0 else start0)"
      define nd where "nd = needed_blocks b sz align st"
      have S0: "S start0" using e by simp
      note a = assms(1) [OF S0, unfolded Let_def, folded st_def nd_def]
      from e have q: "m' = m" "b' = b" "sz' = sz" "align' = align" by simp_all
      note body = eq [unfolded q Let_def, folded st_def nd_def]
      have "\<exists>st'. rec m b sz align st' = Some y \<and> S st'"
        using body a assms(2) by (auto split: if_splits)
      then show False using ih by blast
    qed
  qed
  then show False using s by simp
qed

section \<open>Properties\<close>

text \<open>
  C36. \<open>expand\<close> adds a well-formed region whose only allocation is its own bitmap, which is large enough
  for two bits per block, and leaves the other regions as they are.
\<close>

theorem heap_expand_correct:
  assumes "heap_ok h As" "20 \<le> unat sz" "unat addr + unat sz < 2 ^ 32" "bs \<noteq> 0" "unat bs \<le> unat sz - 20"
    and "\<And>b. b \<in> set (m_first_block h) \<Longrightarrow> regions_disjoint b \<lparr>hb_addr = addr, mem_size = sz - 20,
      used_blocks = 0, block_size = bs, last_alloc = 0\<rparr>"
  shows "\<exists>h' k. expand addr sz bs h = Inr h' \<and> heap_ok h' ({Extent 0 k} # As) \<and> 0 < k \<and>
    ((unat sz - 20) div unat bs + 3) div 4 \<le> k * unat bs"
  using assms by (rule expand_ok)

text \<open>The heap of \<open>heap/kcmalloc.cpp\<close> with 2 MiB in blocks of 16 bytes, and a small one for examples.\<close>

lemma empty_heap_ok: "heap_ok (empty_heap m) []"
  by (simp add: heap_ok_def empty_heap_def)

theorem heap_expand_correct_witness:
  "\<exists>h' k. expand 0xC0400000 (2 * 1024 * 1024) 16 (empty_heap (\<lambda>_. 0)) = Inr h' \<and> heap_ok h' [{Extent 0 k}] \<and> 0 < k"
  using heap_expand_correct [OF empty_heap_ok, of "2 * 1024 * 1024" "0xC0400000" 16 "\<lambda>_. 0"]
  by (auto simp: empty_heap_def)

definition small_heap :: bitmap_heap where
  "small_heap = (case expand 0x1000 100 16 (empty_heap (\<lambda>_. 0)) of Inr h \<Rightarrow> h | Inl e \<Rightarrow> empty_heap (\<lambda>_. 0))"

lemma small_heap_view: "view 5 small_heap =
  ([\<lparr>hb_addr = 0x1000, mem_size = 80, used_blocks = 1, block_size = 16, last_alloc = 0\<rparr>], [1, 0, 0, 0, 0])"
  by code_simp

lemma small_heap_ok: "heap_ok small_heap [{Extent 0 1}]"
proof -
  define b where "b = \<lparr>hb_addr = 0x1000, mem_size = 80, used_blocks = 1, block_size = 16, last_alloc = (0::u32)\<rparr>"
  note v = viewD [OF small_heap_view [folded b_def]]
  have n: "block_count b = 5" by (simp add: b_def block_count_def)
  have ids: "ids (hmem small_heap) b i = (if i < 1 then 1 else 0)" if "i < 5" for i
    using v(2) [OF that] that by (auto simp: less_Suc_eq numeral_nat)
  have "heap_map (ids (hmem small_heap) b) 5 {Extent 0 1}"
    by (rule heap_map_single [where x = 1]) (use ids in auto)
  moreover have "{i. i < 5 \<and> ids (hmem small_heap) b i \<noteq> 0} = {0}" using ids by (auto split: if_splits)
  ultimately have "region_ok (hmem small_heap) b {Extent 0 1}"
    by (simp add: region_ok_def n) (simp add: b_def)
  then show ?thesis by (simp add: heap_ok_def v(1))
qed

text \<open>
  C8. A successful \<open>alloc\<close> returns an aligned range of the requested size that lies in blocks no live
  allocation has, and adds exactly those blocks to the allocations of one region, keeping the heap
  well formed (ids of neighbours differ, the counter of used blocks is right).
\<close>

theorem heap_alloc_safe:
  assumes "heap_ok h As" "heap_alloc sz align h = Some (Inr (h', Some p))" "sz \<noteq> 0"
    "\<forall>b \<in> set (m_first_block h). unat sz + unat align + unat (block_size b) < 2 ^ 32"
  shows "\<exists>k e. k < length As \<and> heap_ok h' (As[k := insert e (As ! k)]) \<and>
    {unat p..<unat p + unat sz} \<subseteq> ext_range (m_first_block h ! k) e \<and> unat p mod unat align = 0 \<and>
    (\<forall>e' \<in> As ! k. ext_range (m_first_block h ! k) e \<inter> ext_range (m_first_block h ! k) e' = {})"
proof -
  obtain k e where k: "k < length As" "heap_ok h' (As[k := insert e (As ! k)])" "0 < blocks e"
      "\<forall>e' \<in> As ! k. \<forall>i. \<not> (covers e i \<and> covers e' i)"
      "{unat p..<unat p + unat sz} \<subseteq> ext_range (m_first_block h ! k) e" "unat p mod unat align = 0"
    using heap_alloc_region [OF assms] by metis
  have "heap_map (ids (hmem h) (m_first_block h ! k)) (nblocks (m_first_block h ! k)) (As ! k)"
    using heap_okD(2) [OF assms(1) k(1)] by (simp add: region_ok_def)
  then have dj: "ext_range (m_first_block h ! k) e \<inter> ext_range (m_first_block h ! k) e' = {}" if "e' \<in> As ! k" for e'
    using ext_range_disjoint [of e e'] k(3,4) heap_mapD(1) [OF _ that] that by blast
  show ?thesis by (intro exI [of _ k] exI [of _ e] conjI ballI k dj)
qed

lemma result_snd:
  assumes "map_option (map_sum id snd) r = Some (Inr q)"
  shows "\<exists>h'. r = Some (Inr (h', q))"
proof -
  obtain z where z: "r = Some z" "map_sum id snd z = Inr q" using assms by auto
  then show ?thesis by (cases z) auto
qed

lemma small_heap_alloc: "\<exists>h'. heap_alloc 24 8 small_heap = Some (Inr (h', Some 0x1028))"
proof -
  have "map_option (map_sum id snd) (heap_alloc 24 8 small_heap) = Some (Inr (Some 0x1028))" by code_simp
  then show ?thesis by (rule result_snd)
qed

lemma small_heap_sizes: "\<forall>b \<in> set (m_first_block small_heap). unat (24::u32) + unat (8::u32) + unat (block_size b) < 2 ^ 32"
  using viewD(1) [OF small_heap_view] by simp

theorem heap_alloc_safe_witness:
  "\<exists>h' e. heap_alloc 24 8 small_heap = Some (Inr (h', Some 0x1028)) \<and> heap_ok h' [{e, Extent 0 1}] \<and>
    {0x1028..<0x1028 + 24} \<subseteq> ext_range (hd (m_first_block small_heap)) e"
proof -
  obtain h' where h': "heap_alloc 24 8 small_heap = Some (Inr (h', Some 0x1028))" using small_heap_alloc by blast
  from heap_alloc_safe [OF small_heap_ok h' _ small_heap_sizes] h' show ?thesis
    using viewD(1) [OF small_heap_view] by auto
qed

text \<open>
  C11. Freeing any address of a live allocation frees exactly the blocks of that allocation and keeps
  the heap well formed.
\<close>

theorem heap_free_exact:
  assumes "heap_ok h As" "k < length As" "e \<in> As ! k" "unat p \<in> ext_range (m_first_block h ! k) e"
  shows "\<exists>h'. heap_free p h = Inr h' \<and> heap_ok h' (As[k := As ! k - {e}])"
  using assms by (rule heap_free_extent)

theorem heap_free_exact_witness:
  "\<exists>h'. heap_free 0x1014 small_heap = Inr h' \<and> heap_ok h' [{}]"
  using heap_free_exact [OF small_heap_ok, of 0 "Extent 0 1" "0x1014"] viewD(1) [OF small_heap_view]
  by (simp add: ext_range_def bitmap_of_def sizeof_heap_block_t_def)

text \<open>Freeing an address of a free block, a double free for one, runs into the assertion.\<close>

theorem heap_double_free_asserts:
  assumes "heap_ok h As" "k < length As" "in_region (m_first_block h ! k) p"
    "\<forall>e \<in> As ! k. \<not> covers e (unat ((p - bitmap_of (m_first_block h ! k)) div block_size (m_first_block h ! k)))"
    "unat ((p - bitmap_of (m_first_block h ! k)) div block_size (m_first_block h ! k)) < nblocks (m_first_block h ! k)"
  shows "heap_free p h = Inl AssertFail"
proof -
  let ?b = "m_first_block h ! k" and ?i = "(p - bitmap_of (m_first_block h ! k)) div block_size (m_first_block h ! k)"
  have r: "region_ok (hmem h) ?b (As ! k)" by (rule heap_okD(2) [OF assms(1,2)])
  then have "heap_map (ids (hmem h) ?b) (nblocks ?b) (As ! k)" by (simp add: region_ok_def)
  from heap_map_used [OF this assms(5)] assms(4) have "getID (hmem h) (bitmap_of ?b) ?i = 0"
    by (auto simp: getID_ids)
  then have "free_in_block p (hmem h) ?b = Inl AssertFail"
    using r by (simp add: free_in_block_def region_ok_def Let_def)
  then show ?thesis
    using free_in_at [OF _ inside_first [OF assms(1-3)], of "hmem h"] assms(2) heap_okD(1) [OF assms(1)]
    by (simp add: heap_free_def)
qed

theorem heap_double_free_asserts_witness: "heap_free 0x1024 small_heap = Inl AssertFail"
  using heap_double_free_asserts [OF small_heap_ok, of 0 "0x1024"] viewD(1) [OF small_heap_view]
  by (simp add: in_region_def covers_def bitmap_of_def sizeof_heap_block_t_def block_count_def)

text \<open>
  A request of no bytes and no alignment takes no blocks: it returns the address of a block that stays
  free.
\<close>

lemma alloc_nothing:
  assumes h: "heap_ok h As" and a: "heap_alloc 0 1 h = Some (Inr (h', Some p))"
  shows "\<exists>k i. k < length As \<and> heap_ok h' As \<and> i < block_count (m_first_block h' ! k) \<and> ids (hmem h') (m_first_block h' ! k) (unat i) = 0 \<and>
    p = bitmap_of (m_first_block h' ! k) + i * block_size (m_first_block h' ! k)"
proof -
  note d = heap_okD [OF h]
  obtain m bs bytes where ai: "alloc_in (hmem h) 0 1 (m_first_block h) = Some (Inr (m, bs, Some (p, bytes)))"
      "hmem h' = m" "m_first_block h' = bs"
    using a by (auto simp: heap_alloc_def Let_def split: option.splits sum.splits)
  obtain k s c b' where k: "k < length As" and ks: "block_count (m_first_block h ! k) \<noteq> 0"
      "alloc_scan (hmem h) (m_first_block h ! k) 0 1
        ((last_alloc (m_first_block h ! k) + 1) mod block_count (m_first_block h ! k)) = Some (Inr (Some (s, c)))"
      "take_blocks (hmem h) (m_first_block h ! k) s c = (m, b')" "bs = (m_first_block h)[k := b']"
      "p = (bitmap_of (m_first_block h ! k) + s * block_size (m_first_block h ! k)) +
        get_aligment_offset (bitmap_of (m_first_block h ! k) + s * block_size (m_first_block h ! k)) 1"
    using alloc_in_Some [OF ai(1)] d(1) by auto
  let ?b = "m_first_block h ! k"
  note r = d(2) [OF k]
  have sound: "s < block_count ?b" "ids (hmem h) ?b (unat s) = 0" "c = needed_blocks ?b 0 1 s"
    using alloc_scan_sound [OF ks(2,1)] by auto
  have "block_size ?b \<noteq> 0" using r by (simp add: region_ok_def)
  then have "unat (block_size ?b - 1) < unat (block_size ?b)" by (simp add: unat_minus_one unat_gt_0)
  then have c: "c = 0" by (simp add: sound(3) needed_blocks_def get_aligment_offset_def word_unat_eq_iff unat_div)
  have b': "m = hmem h" "b' = ?b\<lparr>last_alloc := s - 1\<rparr>" using ks(3) by (auto simp: c take_blocks_def Let_def set_run_def)
  have "region_ok m b' (As ! k)" using r by (simp add: b' region_ok_def)
  then have "heap_ok h' (As[k := As ! k])"
    by (rule heap_ok_update [OF h k]) (simp_all add: b' ai ks(4) frame_outside_def)
  moreover have "m_first_block h' ! k = b'" using k d(1) by (simp add: ai(3) ks(4))
  ultimately show ?thesis
    using k sound(1,2) ks(5) by (intro exI [of _ k] exI [of _ s]) (simp add: ai(2) b' get_aligment_offset_def bitmap_of_def)
qed

lemma free_nothing:
  assumes h: "heap_ok h As" and k: "k < length As" and i: "i < block_count (m_first_block h ! k)"
    "ids (hmem h) (m_first_block h ! k) (unat i) = 0"
    and p: "p = bitmap_of (m_first_block h ! k) + i * block_size (m_first_block h ! k)"
  shows "heap_free p h = Inl AssertFail"
proof (rule heap_double_free_asserts [OF h k])
  let ?b = "m_first_block h ! k"
  note r = heap_okD(2) [OF h k] and rb = region_bytes [OF heap_okD(2) [OF h k]]
  have lt: "unat i * unat (block_size ?b) < unat (mem_size ?b)"
  proof -
    have "(unat i + 1) * unat (block_size ?b) \<le> nblocks ?b * unat (block_size ?b)"
      using i(1) by (intro mult_le_mono1) (simp add: word_less_nat_alt)
    also have "\<dots> \<le> unat (mem_size ?b)" using rb(3) by simp
    finally show ?thesis using rb(2) by simp
  qed
  then have mul: "unat (i * block_size ?b) = unat i * unat (block_size ?b)"
    using unat_bound [of "mem_size ?b"] by (intro unat_mult_small) simp
  have idx: "(p - bitmap_of ?b) div block_size ?b = i"
    using mul rb(2) by (simp add: p word_unat_eq_iff unat_div)
  show "in_region ?b p" using lt mul by (simp add: p in_region_def)
  have "heap_map (ids (hmem h) ?b) (nblocks ?b) (As ! k)" using r by (simp add: region_ok_def)
  from heap_mapD(3,4) [OF this] i(2)
  show "\<forall>e \<in> As ! k. \<not> covers e (unat ((p - bitmap_of ?b) div block_size ?b))" unfolding idx by metis
  show "unat ((p - bitmap_of ?b) div block_size ?b) < nblocks ?b" using i(1) unfolding idx by (simp add: word_less_nat_alt)
qed

text \<open>
  C32. Freeing what was just allocated. For a request of at least one byte, \<open>free\<close> succeeds and restores
  the set of allocations. For a request of no bytes without alignment it does not: \<open>alloc\<close> returns an
  address, but takes no block for it, and \<open>free\<close> of that address stops in its assertion. Requests of no
  bytes with an alignment above 1 are not covered, and neither are sizes and alignments whose sum with
  the size of a block wraps around.
\<close>

theorem heap_alloc_free_roundtrip:
  assumes "heap_ok h As" "heap_alloc sz align h = Some (Inr (h', Some p))"
    "\<forall>b \<in> set (m_first_block h). unat sz + unat align + unat (block_size b) < 2 ^ 32"
  shows "(sz \<noteq> 0 \<longrightarrow> (\<exists>h''. heap_free p h' = Inr h'' \<and> heap_ok h'' As)) \<and>
    (sz = 0 \<and> align = 1 \<longrightarrow> heap_free p h' = Inl AssertFail)"
proof
  show "sz \<noteq> 0 \<longrightarrow> (\<exists>h''. heap_free p h' = Inr h'' \<and> heap_ok h'' As)"
  proof
    assume sz: "sz \<noteq> 0"
    obtain k e where k: "k < length As" "heap_ok h' (As[k := insert e (As ! k)])" "0 < blocks e"
        "\<forall>e' \<in> As ! k. \<forall>i. \<not> (covers e i \<and> covers e' i)"
        "{unat p..<unat p + unat sz} \<subseteq> ext_range (m_first_block h ! k) e"
        "\<forall>i < length As. hb_addr (m_first_block h' ! i) = hb_addr (m_first_block h ! i) \<and>
           block_size (m_first_block h' ! i) = block_size (m_first_block h ! i)"
      using heap_alloc_region [OF assms(1,2) sz assms(3)] by metis
    have "covers e (first_block e)" using k(3) by (simp add: covers_def)
    then have ne: "insert e (As ! k) - {e} = As ! k" using k(4) by blast
    have "ext_range (m_first_block h' ! k) e = ext_range (m_first_block h ! k) e"
      using k(1,6) by (simp add: ext_range_def bitmap_of_def)
    moreover have "unat p \<in> {unat p..<unat p + unat sz}" using sz by (simp add: unat_gt_0)
    ultimately have "unat p \<in> ext_range (m_first_block h' ! k) e" using k(5) by blast
    from heap_free_extent [OF k(2) _ _ this] k(1) show "\<exists>h''. heap_free p h' = Inr h'' \<and> heap_ok h'' As"
      using ne by simp
  qed
  show "sz = 0 \<and> align = 1 \<longrightarrow> heap_free p h' = Inl AssertFail"
    using alloc_nothing [OF assms(1), of h' p] free_nothing assms(2) by blast
qed

lemma small_heap_alloc_0: "\<exists>h'. heap_alloc 0 1 small_heap = Some (Inr (h', Some 0x1024))"
proof -
  have "map_option (map_sum id snd) (heap_alloc 0 1 small_heap) = Some (Inr (Some 0x1024))" by code_simp
  then show ?thesis by (rule result_snd)
qed

theorem heap_alloc_free_roundtrip_witness:
  "(\<exists>h' h''. heap_alloc 24 8 small_heap = Some (Inr (h', Some 0x1028)) \<and>
     heap_free 0x1028 h' = Inr h'' \<and> heap_ok h'' [{Extent 0 1}]) \<and>
   (\<exists>h'. heap_alloc 0 1 small_heap = Some (Inr (h', Some 0x1024)) \<and> heap_free 0x1024 h' = Inl AssertFail)"
proof -
  obtain h' h0 where h': "heap_alloc 24 8 small_heap = Some (Inr (h', Some 0x1028))"
    "heap_alloc 0 1 small_heap = Some (Inr (h0, Some 0x1024))" using small_heap_alloc small_heap_alloc_0 by blast
  have "\<forall>b \<in> set (m_first_block small_heap). unat (0::u32) + unat (1::u32) + unat (block_size b) < 2 ^ 32"
    using viewD(1) [OF small_heap_view] by simp
  from heap_alloc_free_roundtrip [OF small_heap_ok h'(2) this]
    heap_alloc_free_roundtrip [OF small_heap_ok h'(1) small_heap_sizes] h'
  show ?thesis by auto
qed


lemma run_ops_view:
  assumes "map_option (map_sum id (view n)) r = Some (Inr v)"
  shows "\<exists>h. r = Some (Inr h) \<and> view n h = v"
proof -
  obtain z where z: "r = Some z" "map_sum id (view n) z = Inr v" using assms by auto
  then show ?thesis by (cases z) auto
qed


text \<open>
  C34. After the last allocation has been freed, a request that no free run can satisfy makes \<open>alloc\<close>
  loop forever: the step over a short run can jump past the block at which the loop is to stop. The
  sequence of calls below leads to such a state.
\<close>

definition fragment_ops :: "heap_op list" where
  "fragment_ops = [Alloc 16 1, Alloc 16 1, Alloc 32 1, Free 0x1024, Free 0x1044]"

theorem heap_alloc_diverges:
  "\<exists>h. run_ops fragment_ops small_heap = Some (Inr h) \<and> heap_alloc 48 1 h = None"
proof -
  define b where "b = \<lparr>hb_addr = 0x1000, mem_size = 80, used_blocks = 2, block_size = 16, last_alloc = (4::u32)\<rparr>"
  let ?ids = "[1, 0, 1, 0, 0] :: u8 list"
  have "map_option (map_sum id (view 5)) (run_ops fragment_ops small_heap) = Some (Inr ([b], ?ids))"
    unfolding b_def by code_simp
  then obtain h where h: "run_ops fragment_ops small_heap = Some (Inr h)" "view 5 h = ([b], ?ids)"
    using run_ops_view by blast
  note v = viewD [OF h(2)]
  have n: "block_count b = 5" "last_alloc b = 4" "block_size b = 16" by (simp_all add: b_def block_count_def)
  have nd: "needed_blocks b 48 1 st = 3" for st
    by (simp add: needed_blocks_def get_aligment_offset_def n)
  have g: "getID (hmem h) (bitmap_of b) w = ?ids ! unat w" if "unat w < 5" for w
    using v(2) [OF that] by (simp add: getID_ids)
  have f2: "free_run (hmem h) b 1 3 0 = 1"
    by (subst free_run.simps, subst free_run.simps) (simp add: g n)
  have f4: "free_run (hmem h) b 3 3 0 = 2"
    by (subst free_run.simps, subst free_run.simps, subst free_run.simps) (simp add: g n)
  have "alloc_scan (hmem h) b 48 1 0 = None"
  proof (rule alloc_scan_diverges [where S = "\<lambda>st. st \<in> {0, 1, 2, 3, 5}"])
    fix start :: u32
    assume "start \<in> {0, 1, 2, 3, 5}"
    then show "start \<noteq> last_alloc b \<and>
      (let st = (if block_count b \<le> start then 0 else start) in
       can_align (bitmap_of b) (block_size b) st 1 \<and>
       (if getID (hmem h) (bitmap_of b) st \<noteq> 0 then st + 1 \<in> {0, 1, 2, 3, 5}
        else let needed = needed_blocks b 48 1 st; count = free_run (hmem h) b st needed 0 in
          count < needed \<and> st + (count - 1) + 1 \<in> {0, 1, 2, 3, 5}))"
      by (elim insertE) (simp_all add: Let_def n g nd f2 f4 can_align_def)
  qed simp_all
  then have "alloc_in (hmem h) 48 1 [b] = None"
    using n by (simp add: Let_def) (simp add: b_def)
  then show ?thesis using h(1) v(1) by (auto simp: heap_alloc_def)
qed


lemma run_length_extent:
  assumes A: "heap_map (ids m b) (nblocks b) A" and a: "a \<in> A" and x: "x = ids m b (first_block a)"
  shows "first_block a \<le> unat (idx + count) \<Longrightarrow> unat (idx + count) \<le> first_block a + blocks a \<Longrightarrow>
    unat idx + unat count = unat (idx + count) \<Longrightarrow>
    unat idx + unat (run_length m (bitmap_of b) x (block_count b) idx count) = first_block a + blocks a"
proof (induction "first_block a + blocks a - unat (idx + count)" arbitrary: count)
  case 0
  then have e: "unat (idx + count) = first_block a + blocks a" by simp
  then have "\<not> (getID m (bitmap_of b) (idx + count) = x \<and> idx + count < block_count b)"
    using heap_map_after [OF A a] x by (auto simp: getID_ids word_less_nat_alt)
  then have "run_length m (bitmap_of b) x (block_count b) idx count = count"
    by (subst run_length.simps) auto
  with 0 e show ?case by simp
next
  case (Suc j)
  then have c: "covers a (unat (idx + count))" by (simp add: covers_def)
  have lt: "idx + count < block_count b" using c heap_mapD(2) [OF A a] by (auto simp: covers_def word_less_nat_alt)
  have "getID m (bitmap_of b) (idx + count) = x" using heap_mapD(4) [OF A a c] x by (simp add: getID_ids)
  then have step: "run_length m (bitmap_of b) x (block_count b) idx count =
      run_length m (bitmap_of b) x (block_count b) idx (count + 1)"
    using lt by (subst run_length.simps) simp
  have s1: "unat (idx + (count + 1)) = Suc (unat (idx + count))"
    using unat_Suc_less [OF lt] by (simp add: add.assoc)
  have "unat count < unat (block_count b)" using lt Suc.prems(3) by (simp add: word_less_nat_alt)
  then have c1: "unat (count + 1) = Suc (unat count)" by (intro unat_Suc_less) (simp add: word_less_nat_alt)
  show ?case unfolding step
    using Suc.hyps(2) Suc.prems s1 c1 c by (intro Suc.hyps(1)) (auto simp: covers_def)
qed

lemma size_in_at:
  assumes "k < length bs" "ptr_inside p (bs ! k)" "\<forall>i < k. \<not> ptr_inside p (bs ! i)"
  shows "size_in p m bs = size_in p m [bs ! k]"
  using assms
proof (induction bs arbitrary: k)
  case (Cons b bs)
  show ?case
  proof (cases k)
    case 0
    then show ?thesis using Cons.prems by simp
  next
    case (Suc j)
    then have "\<not> ptr_inside p b" using Cons.prems(3) by (metis nth_Cons_0 zero_less_Suc)
    then have "size_in p m (b # bs) = size_in p m bs" by simp
    also have "\<dots> = size_in p m [bs ! j]" using Cons.prems Suc by (intro Cons.IH) auto
    finally show ?thesis using Suc by simp
  qed
qed simp

text \<open>\<open>size\<close> returns the number of bytes from the address to the end of its allocation.\<close>

theorem heap_size_correct:
  assumes h: "heap_ok h As" and k: "k < length As" and e: "e \<in> As ! k"
    and p: "unat p \<in> ext_range (m_first_block h ! k) e"
  shows "\<exists>w. heap_size p h = Inr w \<and> unat p + unat w =
    unat (bitmap_of (m_first_block h ! k)) + (first_block e + blocks e) * unat (block_size (m_first_block h ! k))"
proof -
  define b where "b = m_first_block h ! k"
  let ?bs = "unat (block_size b)" and ?n = "first_block e + blocks e"
  note d = heap_okD [OF h]
  have r: "region_ok (hmem h) b (As ! k)" using d(2) [OF k] by (simp add: b_def)
  note rb = region_bytes [OF r] and blk = ext_range_block [OF r e p [folded b_def]]
  have A: "heap_map (ids (hmem h) b) (nblocks b) (As ! k)" using r by (simp add: region_ok_def)
  define off where "off = p - bitmap_of b"
  define idx where "idx = off div block_size b"
  define count where "count = run_length (hmem h) (bitmap_of b) (getID (hmem h) (bitmap_of b) idx) (block_count b) idx 0"
  have cov: "covers e (unat idx)" using blk(2) by (simp add: idx_def off_def)
  have "getID (hmem h) (bitmap_of b) idx = ids (hmem h) b (first_block e)"
    using heap_mapD(4) [OF A e cov] by (simp add: getID_ids)
  from run_length_extent [OF A e this, of idx 0] cov
  have cnt: "unat idx + unat count = ?n" by (simp add: count_def covers_def)
  have "(unat idx + unat count) * ?bs \<le> unat (mem_size b)"
    using rb(3) mult_le_mono1 [OF heap_mapD(2) [OF A e], of ?bs] unfolding cnt by linarith
  then have fit: "unat idx * ?bs + unat count * ?bs \<le> unat (mem_size b)" by (simp add: add_mult_distrib)
  then have m: "unat (count * block_size b) = unat count * ?bs"
    using rb(4) by (intro unat_mult_small) simp
  have "0 < unat count" using cnt cov by (simp add: covers_def)
  then have le: "?bs \<le> unat count * ?bs" by simp
  have "unat off mod ?bs < ?bs" using rb(2) by simp
  then have al: "unat off mod ?bs \<le> unat count * ?bs" using le by linarith
  have w: "unat (count * block_size b - off mod block_size b) = unat count * ?bs - unat off mod ?bs"
    using al m unat_sub_small [of "off mod block_size b" "count * block_size b"] by simp
  have "bitmap_of b \<le> p" using p by (auto simp: ext_range_def word_le_nat_alt b_def)
  then have po: "unat p = unat (bitmap_of b) + unat off" by (simp add: off_def unat_sub_le word_le_nat_alt)
  have "unat off = unat idx * ?bs + unat off mod ?bs" by (simp add: idx_def)
  then have "unat p + unat (count * block_size b - off mod block_size b) = unat (bitmap_of b) + ?n * ?bs"
    using po w al cnt [symmetric] by (simp add: add_mult_distrib)
  moreover have "heap_size p h = Inr (count * block_size b - off mod block_size b)"
  proof -
    have "in_region (m_first_block h ! k) p" using blk(1) by (simp add: b_def)
    note ins = inside_first [OF h k this]
    have "heap_size p h = size_in p (hmem h) [b]"
      unfolding heap_size_def b_def using ins k d(1) by (intro size_in_at) auto
    also have "\<dots> = Inr (count * block_size b - off mod block_size b)"
      using ins(1) rb(2) unfolding count_def idx_def off_def b_def [symmetric] by (auto simp: Let_def)
    finally show ?thesis .
  qed
  ultimately show ?thesis by (auto simp: b_def)
qed

theorem heap_size_correct_witness: "\<exists>w. heap_size 0x1018 small_heap = Inr w \<and> 0x1018 + unat w = 0x1024"
  using heap_size_correct [OF small_heap_ok, of 0 "Extent 0 1" "0x1018"] viewD(1) [OF small_heap_view]
  by (simp add: ext_range_def bitmap_of_def sizeof_heap_block_t_def)

end
