(* ===== verification/Ctype.thy ===== *)
theory Ctype
  imports Prelude
begin

text \<open>
  \<open>libk/kcctype.cpp\<close> and \<open>include/libk/kcctype.hpp\<close>: the character classification of the kernel.
  Every predicate is a lookup in a table of flags. The lemmas show that the table and the masks
  give the classes of the C locale.
\<close>

section \<open>The table\<close>

definition CT_UPPER :: u8 where "CT_UPPER = 0x01"
definition CT_LOWER :: u8 where "CT_LOWER = 0x02"
definition CT_DIGIT :: u8 where "CT_DIGIT = 0x04"
definition CT_CNTRL :: u8 where "CT_CNTRL = 0x08"
definition CT_PUNCT :: u8 where "CT_PUNCT = 0x10"
definition CT_WHITE :: u8 where "CT_WHITE = 0x20"
definition CT_HEXDG :: u8 where "CT_HEXDG = 0x40"
definition CT_SPACE :: u8 where "CT_SPACE = 0x80"

lemmas ct_defs = CT_UPPER_def CT_LOWER_def CT_DIGIT_def CT_CNTRL_def CT_PUNCT_def CT_WHITE_def
  CT_HEXDG_def CT_SPACE_def

text \<open>
  The array has 256 entries and an initialiser for the first 128; the rest is zero.
\<close>

definition ctype_initialiser :: "u8 list" where
  "ctype_initialiser =
    [
     CT_CNTRL, CT_CNTRL, CT_CNTRL, CT_CNTRL,
     CT_CNTRL, CT_CNTRL, CT_CNTRL, CT_CNTRL,
     CT_CNTRL, CT_WHITE + CT_CNTRL, CT_WHITE + CT_CNTRL, CT_WHITE + CT_CNTRL,
     CT_WHITE + CT_CNTRL, CT_WHITE + CT_CNTRL, CT_CNTRL, CT_CNTRL,
     CT_CNTRL, CT_CNTRL, CT_CNTRL, CT_CNTRL,
     CT_CNTRL, CT_CNTRL, CT_CNTRL, CT_CNTRL,
     CT_CNTRL, CT_CNTRL, CT_CNTRL, CT_CNTRL,
     CT_CNTRL, CT_CNTRL, CT_CNTRL, CT_CNTRL,
     CT_SPACE + CT_WHITE, CT_PUNCT, CT_PUNCT, CT_PUNCT,
     CT_PUNCT, CT_PUNCT, CT_PUNCT, CT_PUNCT,
     CT_PUNCT, CT_PUNCT, CT_PUNCT, CT_PUNCT,
     CT_PUNCT, CT_PUNCT, CT_PUNCT, CT_PUNCT,
     CT_DIGIT + CT_HEXDG, CT_DIGIT + CT_HEXDG, CT_DIGIT + CT_HEXDG, CT_DIGIT + CT_HEXDG,
     CT_DIGIT + CT_HEXDG, CT_DIGIT + CT_HEXDG, CT_DIGIT + CT_HEXDG, CT_DIGIT + CT_HEXDG,
     CT_DIGIT + CT_HEXDG, CT_DIGIT + CT_HEXDG, CT_PUNCT, CT_PUNCT,
     CT_PUNCT, CT_PUNCT, CT_PUNCT, CT_PUNCT,
     CT_PUNCT, CT_UPPER + CT_HEXDG, CT_UPPER + CT_HEXDG, CT_UPPER + CT_HEXDG,
     CT_UPPER + CT_HEXDG, CT_UPPER + CT_HEXDG, CT_UPPER + CT_HEXDG, CT_UPPER,
     CT_UPPER, CT_UPPER, CT_UPPER, CT_UPPER,
     CT_UPPER, CT_UPPER, CT_UPPER, CT_UPPER,
     CT_UPPER, CT_UPPER, CT_UPPER, CT_UPPER,
     CT_UPPER, CT_UPPER, CT_UPPER, CT_UPPER,
     CT_UPPER, CT_UPPER, CT_UPPER, CT_PUNCT,
     CT_PUNCT, CT_PUNCT, CT_PUNCT, CT_PUNCT,
     CT_PUNCT, CT_LOWER + CT_HEXDG, CT_LOWER + CT_HEXDG, CT_LOWER + CT_HEXDG,
     CT_LOWER + CT_HEXDG, CT_LOWER + CT_HEXDG, CT_LOWER + CT_HEXDG, CT_LOWER,
     CT_LOWER, CT_LOWER, CT_LOWER, CT_LOWER,
     CT_LOWER, CT_LOWER, CT_LOWER, CT_LOWER,
     CT_LOWER, CT_LOWER, CT_LOWER, CT_LOWER,
     CT_LOWER, CT_LOWER, CT_LOWER, CT_LOWER,
     CT_LOWER, CT_LOWER, CT_LOWER, CT_PUNCT,
     CT_PUNCT, CT_PUNCT, CT_PUNCT, CT_CNTRL]"

definition ctype_lookup :: "u8 \<Rightarrow> u8" where
  "ctype_lookup c = (if unat c < length ctype_initialiser then ctype_initialiser ! unat c else 0)"

section \<open>The predicates\<close>

text \<open>The argument is an \<open>int\<close>; the index is its low byte. The result is the set of matching flags.\<close>

definition isalnum :: "u32 \<Rightarrow> u8" where
  "isalnum c = ctype_lookup (ucast c) AND (CT_UPPER OR CT_LOWER OR CT_DIGIT)"

definition isalpha :: "u32 \<Rightarrow> u8" where
  "isalpha c = ctype_lookup (ucast c) AND (CT_UPPER OR CT_LOWER)"

definition iscntrl :: "u32 \<Rightarrow> u8" where
  "iscntrl c = ctype_lookup (ucast c) AND CT_CNTRL"

definition isgraph :: "u32 \<Rightarrow> u8" where
  "isgraph c = ctype_lookup (ucast c) AND (CT_PUNCT OR CT_UPPER OR CT_LOWER OR CT_DIGIT)"

definition islower :: "u32 \<Rightarrow> u8" where
  "islower c = ctype_lookup (ucast c) AND CT_LOWER"

definition isupper :: "u32 \<Rightarrow> u8" where
  "isupper c = ctype_lookup (ucast c) AND CT_UPPER"

definition isprint :: "u32 \<Rightarrow> u8" where
  "isprint c = ctype_lookup (ucast c) AND (CT_PUNCT OR CT_UPPER OR CT_LOWER OR CT_DIGIT OR CT_SPACE)"

definition ispunct :: "u32 \<Rightarrow> u8" where
  "ispunct c = ctype_lookup (ucast c) AND CT_PUNCT"

definition isspace :: "u32 \<Rightarrow> u8" where
  "isspace c = ctype_lookup (ucast c) AND CT_WHITE"

definition isdigit :: "u32 \<Rightarrow> u8" where
  "isdigit c = ctype_lookup (ucast c) AND CT_DIGIT"

definition isxdigit :: "u32 \<Rightarrow> u8" where
  "isxdigit c = ctype_lookup (ucast c) AND (CT_DIGIT OR CT_HEXDG)"

definition isascii :: "u32 \<Rightarrow> bool" where
  "isascii c = (c \<le> 0x7F)"

definition toascii :: "u32 \<Rightarrow> u32" where
  "toascii c = c AND 0x7F"

text \<open>
  \<open>tolower\<close> and \<open>toupper\<close> index the table with the \<open>int\<close> itself: an argument outside
  \<open>[0, 255]\<close>, for instance a negative \<open>char\<close>, reads outside the array.
\<close>

definition ctype_at :: "u32 \<Rightarrow> u8 kres" where
  "ctype_at c = (if c < 256 then Inr (ctype_lookup (ucast c)) else Inl BadAccess)"

definition tolower :: "u32 \<Rightarrow> u32 kres" where
  "tolower c = kbind (ctype_at c) (\<lambda>f. Inr (if f AND CT_UPPER \<noteq> 0 then c + (97 - 65) else c))"

definition toupper :: "u32 \<Rightarrow> u32 kres" where
  "toupper c = kbind (ctype_at c) (\<lambda>f. Inr (if f AND CT_LOWER \<noteq> 0 then c - (97 - 65) else c))"

text \<open>A \<open>char\<close> is signed: as an \<open>int\<close> argument it is sign-extended.\<close>

definition int_of_char :: "u8 \<Rightarrow> u32" where
  "int_of_char c = scast c"

section \<open>The classes\<close>

text \<open>The classes of the C locale, as ranges of bytes, and the flags a byte of them has.\<close>

definition upper_class :: "u8 \<Rightarrow> bool" where "upper_class c = (65 \<le> c \<and> c \<le> 90)"
definition lower_class :: "u8 \<Rightarrow> bool" where "lower_class c = (97 \<le> c \<and> c \<le> 122)"
definition digit_class :: "u8 \<Rightarrow> bool" where "digit_class c = (48 \<le> c \<and> c \<le> 57)"
definition cntrl_class :: "u8 \<Rightarrow> bool" where "cntrl_class c = (c < 32 \<or> c = 127)"
definition graph_class :: "u8 \<Rightarrow> bool" where "graph_class c = (33 \<le> c \<and> c \<le> 126)"
definition white_class :: "u8 \<Rightarrow> bool" where "white_class c = (9 \<le> c \<and> c \<le> 13 \<or> c = 32)"
definition xletter_class :: "u8 \<Rightarrow> bool" where
  "xletter_class c = (65 \<le> c \<and> c \<le> 70 \<or> 97 \<le> c \<and> c \<le> 102)"

definition alnum_class :: "u8 \<Rightarrow> bool" where
  "alnum_class c = (upper_class c \<or> lower_class c \<or> digit_class c)"

definition class_flags :: "u8 \<Rightarrow> u8" where
  "class_flags c =
     (if upper_class c then CT_UPPER else 0) OR (if lower_class c then CT_LOWER else 0) OR
     (if digit_class c then CT_DIGIT else 0) OR (if cntrl_class c then CT_CNTRL else 0) OR
     (if graph_class c \<and> \<not> alnum_class c then CT_PUNCT else 0) OR
     (if white_class c then CT_WHITE else 0) OR
     (if digit_class c \<or> xletter_class c then CT_HEXDG else 0) OR
     (if c = 32 then CT_SPACE else 0)"

text \<open>The comparison of a part of the table, from the byte \<open>c\<close> on.\<close>

primrec table_ok :: "u8 \<Rightarrow> u8 list \<Rightarrow> bool" where
  "table_ok c [] = True"
| "table_ok c (f # fs) = (f = class_flags c \<and> table_ok (c + 1) fs)"

lemma table_ok_nth: "table_ok c fs \<Longrightarrow> i < length fs \<Longrightarrow> fs ! i = class_flags (c + of_nat i)"
  by (induction fs arbitrary: c i) (auto simp: nth_Cons ac_simps split: nat.splits)

lemma ctype_initialiser_ok: "table_ok 0 ctype_initialiser"
  by code_simp

lemma ctype_lookup_flags: "ctype_lookup c = class_flags c"
proof (cases "unat c < length ctype_initialiser")
  case True
  then show ?thesis
    using table_ok_nth [OF ctype_initialiser_ok True] by (simp add: ctype_lookup_def)
next
  case False
  have "length ctype_initialiser = 128" by (simp add: ctype_initialiser_def)
  with False have "128 \<le> unat c" by simp
  then have "class_flags c = 0"
    by (auto simp: class_flags_def upper_class_def lower_class_def digit_class_def cntrl_class_def
        graph_class_def white_class_def xletter_class_def word_le_nat_alt word_less_nat_alt)
  then show ?thesis using False by (simp add: ctype_lookup_def)
qed

lemma or_nonzero_iff: "(a OR b :: 'a::len word) \<noteq> 0 \<longleftrightarrow> a \<noteq> 0 \<or> b \<noteq> 0"
  by (auto simp: bit_eq_iff bit_or_iff)

lemma if_and_nonzero_iff: "((if P then k else 0) AND (m :: 'a::len word)) \<noteq> 0 \<longleftrightarrow> P \<and> k AND m \<noteq> 0"
  by auto

lemma class_flags_and: "class_flags c AND m \<noteq> 0 \<longleftrightarrow>
    upper_class c \<and> CT_UPPER AND m \<noteq> 0 \<or> lower_class c \<and> CT_LOWER AND m \<noteq> 0 \<or>
    digit_class c \<and> CT_DIGIT AND m \<noteq> 0 \<or> cntrl_class c \<and> CT_CNTRL AND m \<noteq> 0 \<or>
    (graph_class c \<and> \<not> alnum_class c) \<and> CT_PUNCT AND m \<noteq> 0 \<or>
    white_class c \<and> CT_WHITE AND m \<noteq> 0 \<or>
    (digit_class c \<or> xletter_class c) \<and> CT_HEXDG AND m \<noteq> 0 \<or> c = 32 \<and> CT_SPACE AND m \<noteq> 0"
  unfolding class_flags_def and.commute [of _ m] bit.conj_disj_distrib or_nonzero_iff
  unfolding and.commute [of m] if_and_nonzero_iff by blast

lemma alnum_graph: "alnum_class c \<Longrightarrow> graph_class c"
  by (auto simp: alnum_class_def graph_class_def upper_class_def lower_class_def digit_class_def
      word_le_nat_alt)

lemmas is_defs = isalnum_def isalpha_def iscntrl_def isgraph_def islower_def isupper_def isprint_def
  ispunct_def isspace_def isdigit_def isxdigit_def

lemma low_byte_of_char [simp]: "ucast (int_of_char c) = c"
proof (rule bit_word_eqI)
  fix n assume "n < LENGTH(8)"
  then have "n < 7 \<or> n = 7" by auto
  then show "bit (ucast (int_of_char c) :: u8) n = bit c n"
    by (auto simp: int_of_char_def bit_unsigned_iff bit_signed_iff min_def)
qed

lemma isdigit_char: "isdigit (int_of_char c) \<noteq> 0 \<longleftrightarrow> digit_class c"
  by (simp add: isdigit_def ctype_lookup_flags class_flags_and ct_defs)

lemma isalnum_char: "isalnum (int_of_char c) \<noteq> 0 \<longleftrightarrow> alnum_class c"
  by (simp add: isalnum_def ctype_lookup_flags class_flags_and ct_defs alnum_class_def)

lemma isspace_char: "isspace (int_of_char c) \<noteq> 0 \<longleftrightarrow> white_class c"
  by (simp add: isspace_def ctype_lookup_flags class_flags_and ct_defs)

text \<open>
  The table and the masks of the character predicates give the classes of the C locale: for
  every argument, read through its low byte, each predicate is non-zero exactly on its class. In
  particular no byte above 127 is in any class.
\<close>

theorem ctype_classes:
  "(isalnum i \<noteq> 0) = alnum_class (ucast i) \<and>
   (isalpha i \<noteq> 0) = (upper_class (ucast i) \<or> lower_class (ucast i)) \<and>
   (iscntrl i \<noteq> 0) = cntrl_class (ucast i) \<and>
   (isgraph i \<noteq> 0) = graph_class (ucast i) \<and>
   (islower i \<noteq> 0) = lower_class (ucast i) \<and>
   (isupper i \<noteq> 0) = upper_class (ucast i) \<and>
   (isprint i \<noteq> 0) = (graph_class (ucast i) \<or> ucast i = (32 :: u8)) \<and>
   (ispunct i \<noteq> 0) = (graph_class (ucast i) \<and> \<not> alnum_class (ucast i)) \<and>
   (isspace i \<noteq> 0) = white_class (ucast i) \<and>
   (isdigit i \<noteq> 0) = digit_class (ucast i) \<and>
   (isxdigit i \<noteq> 0) = (digit_class (ucast i) \<or> xletter_class (ucast i))"
  unfolding is_defs ctype_lookup_flags class_flags_and
  using alnum_graph [of "ucast i"] by (simp add: ct_defs alnum_class_def) blast

end
