(* ===== verification/CString.thy ===== *)
theory CString
  imports Ctype
begin

text \<open>
  \<open>libk/kcstring.cpp\<close> and \<open>libk/kcstdlib.cpp\<close>: the C string and memory functions of the kernel
  over byte-addressed memory. A pointer is its address, the null pointer is the address 0, and
  pointer arithmetic wraps as it does on the machine. The string functions walk the memory until
  they find a terminator; where there is none they do not return, which is the value \<open>None\<close> of
  their \<open>partial_function\<close>.
\<close>

section \<open>Lengths, reversal and comparison\<close>

partial_function (option) strlen_from :: "memory \<Rightarrow> addr \<Rightarrow> u32 \<Rightarrow> u32 option" where
  "strlen_from m str len = (if m str \<noteq> 0 then strlen_from m (str + 1) (len + 1) else Some len)"

definition strlen :: "memory \<Rightarrow> addr \<Rightarrow> u32 option" where
  "strlen m str = strlen_from m str 0"

function strnlen_from :: "memory \<Rightarrow> addr \<Rightarrow> u32 \<Rightarrow> u32 \<Rightarrow> u32" where
  "strnlen_from m str count len =
     (if len < count \<and> m str \<noteq> 0 then strnlen_from m (str + 1) count (len + 1) else len)"
  by pat_completeness auto
termination
  by (relation "measure (\<lambda>(m, str, count, len). unat (count - len))") (auto simp: unat_diff_step)

definition strnlen_s :: "memory \<Rightarrow> addr \<Rightarrow> u32 \<Rightarrow> u32" where
  "strnlen_s m str count = (if str = 0 then 0 else strnlen_from m str count 0)"

function strrev_from :: "memory \<Rightarrow> addr \<Rightarrow> u32 \<Rightarrow> u32 \<Rightarrow> memory" where
  "strrev_from m str len i =
     (if i < len div 2
      then let ch = m (str + i);
               m1 = m(str + i := m (str + (len - i - 1)));
               m2 = m1(str + (len - i - 1) := ch)
           in strrev_from m2 str len (i + 1)
      else m)"
  by pat_completeness auto
termination
  by (relation "measure (\<lambda>(m, str, len, i). unat (len div 2 - i))") (auto simp: unat_diff_step)

definition strrev :: "memory \<Rightarrow> addr \<Rightarrow> memory option" where
  "strrev m str = map_option (\<lambda>len. strrev_from m str len 0) (strlen m str)"

text \<open>The difference of two signed characters, as an \<open>int\<close>.\<close>

definition char_diff :: "u8 \<Rightarrow> u8 \<Rightarrow> u32" where
  "char_diff c1 c2 = int_of_char c1 - int_of_char c2"

partial_function (option) strcmp :: "memory \<Rightarrow> addr \<Rightarrow> addr \<Rightarrow> u32 option" where
  "strcmp m lhs rhs =
     (let c1 = m lhs; c2 = m rhs
      in if c1 = c2 \<and> c1 \<noteq> 0 then strcmp m (lhs + 1) (rhs + 1) else Some (char_diff c1 c2))"

function strncmp_loop :: "memory \<Rightarrow> addr \<Rightarrow> addr \<Rightarrow> u32 \<Rightarrow> u8 \<Rightarrow> u8 \<Rightarrow> u32" where
  "strncmp_loop m lhs rhs count c1 c2 =
     (if c1 = c2 \<and> c1 \<noteq> 0 \<and> count \<noteq> 0
      then strncmp_loop m (lhs + 1) (rhs + 1) (count - 1) (m lhs) (m rhs)
      else char_diff c1 c2)"
  by pat_completeness auto
termination
  by (relation "measure (\<lambda>(m, lhs, rhs, count, c1, c2). unat count)")
    (auto simp: unat_minus_one unat_gt_0)

definition strncmp :: "memory \<Rightarrow> addr \<Rightarrow> addr \<Rightarrow> u32 \<Rightarrow> u32" where
  "strncmp m lhs rhs count = strncmp_loop m lhs rhs count (m lhs) (m rhs)"

section \<open>Numbers\<close>

partial_function (option) skip_space :: "memory \<Rightarrow> addr \<Rightarrow> addr option" where
  "skip_space m str = (if isspace (int_of_char (m str)) \<noteq> 0 then skip_space m (str + 1) else Some str)"

text \<open>The prefix \<open>0\<close> or \<open>0x\<close> of a number whose base is not given.\<close>

definition detect_base :: "memory \<Rightarrow> addr \<Rightarrow> (addr \<times> u32) kres" where
  "detect_base m str =
     (if m str = 48
      then kbind (tolower (int_of_char (m (str + 1))))
             (\<lambda>c. Inr (if c = 120 then (str + 1 + 1, 16) else (str + 1, 8)))
      else Inr (str, 10))"

text \<open>The value of a digit or a letter.\<close>

definition digit_of :: "u8 \<Rightarrow> u32 kres" where
  "digit_of c =
     (if isdigit (int_of_char c) \<noteq> 0 then Inr (int_of_char c - 48)
      else kbind (toupper (int_of_char c)) (\<lambda>u. Inr (u - 65 + 10)))"

partial_function (option) strtoul_digits :: "memory \<Rightarrow> addr \<Rightarrow> u32 \<Rightarrow> u32 \<Rightarrow> (u32 \<times> addr) kres option" where
  "strtoul_digits m str base number =
     (if m str \<noteq> 0 \<and> isalnum (int_of_char (m str)) \<noteq> 0
      then (case digit_of (m str) of
              Inl e \<Rightarrow> Some (Inl e)
            | Inr value \<Rightarrow>
                (if base \<le>s value then Some (Inr (number, str))
                 else strtoul_digits m (str + 1) base (number * base + value)))
      else Some (Inr (number, str)))"

text \<open>
  The result is the number and the address stored through \<open>str_end\<close>, which is left alone on the
  two early returns.
\<close>

definition strtoul :: "memory \<Rightarrow> addr \<Rightarrow> u32 \<Rightarrow> (u32 \<times> addr option) kres option" where
  "strtoul m str base =
     (if str = 0 then Some (Inr (0, None))
      else if 36 <s base \<or> base = 1 \<or> base <s 0 then Some (Inr (0, None))
      else Option.bind (skip_space m str)
        (\<lambda>str. case (if base = 0 then detect_base m str else Inr (str, base)) of
                 Inl e \<Rightarrow> Some (Inl e)
               | Inr (str, base) \<Rightarrow>
                   map_option (\<lambda>r. kbind r (\<lambda>(n, e). Inr (n, Some e))) (strtoul_digits m str base 0)))"

text \<open>\<open>strtol\<close> of \<open>kcstdlib.cpp\<close> knows digits only, no sign and no space.\<close>

partial_function (option) strtol_digits :: "memory \<Rightarrow> addr \<Rightarrow> u32 \<Rightarrow> u32 \<Rightarrow> (u32 \<times> addr) option" where
  "strtol_digits m str base num =
     (if int_of_char (m str) <s 48 \<or> 48 + base \<le>s int_of_char (m str) then Some (num, str)
      else strtol_digits m (str + 1) base (num * base + ucast (m str - 48)))"

definition strtol :: "memory \<Rightarrow> addr \<Rightarrow> u32 \<Rightarrow> (u32 \<times> addr option) option" where
  "strtol m str base =
     (if base = 1 \<or> 36 <s base \<or> base <s 0 then Some (0, None)
      else if str = 0 then Some (0, None)
      else map_option (\<lambda>(n, e). (n, Some e)) (strtol_digits m str base 0))"

section \<open>Blocks of memory\<close>

text \<open>\<open>rep stosb\<close>: the counter register counts down, the destination register up.\<close>

fun rep_stosb :: "nat \<Rightarrow> memory \<Rightarrow> addr \<Rightarrow> u8 \<Rightarrow> memory" where
  "rep_stosb 0 m di al = m"
| "rep_stosb (Suc cx) m di al = rep_stosb cx (m(di := al)) (di + 1) al"

definition memset :: "memory \<Rightarrow> addr \<Rightarrow> u32 \<Rightarrow> u32 \<Rightarrow> memory" where
  "memset m dest ch count = rep_stosb (unat count) m dest (ucast ch)"

text \<open>A little-endian double word in memory.\<close>

definition byte_of :: "u32 \<Rightarrow> nat \<Rightarrow> u8" where
  "byte_of w k = ucast (drop_bit (8 * k) w)"

definition store32 :: "memory \<Rightarrow> addr \<Rightarrow> u32 \<Rightarrow> memory" where
  "store32 m a w = m(a := byte_of w 0, a + 1 := byte_of w 1, a + 2 := byte_of w 2, a + 3 := byte_of w 3)"

definition load32 :: "memory \<Rightarrow> addr \<Rightarrow> u32" where
  "load32 m a = ucast (m a) OR push_bit 8 (ucast (m (a + 1))) OR push_bit 16 (ucast (m (a + 2))) OR
     push_bit 24 (ucast (m (a + 3)))"

fun rep_stosl :: "nat \<Rightarrow> memory \<Rightarrow> addr \<Rightarrow> u32 \<Rightarrow> memory" where
  "rep_stosl 0 m di eax = m"
| "rep_stosl (Suc cx) m di eax = rep_stosl cx (store32 m di eax) (di + 4) eax"

definition memset32 :: "memory \<Rightarrow> addr \<Rightarrow> u32 \<Rightarrow> u32 \<Rightarrow> memory" where
  "memset32 m dest w count = rep_stosl (unat count) m dest w"

text \<open>
  The copy loop of \<open>memcpy\<close>: \<open>rep movsl\<close> for the double words, then \<open>rep movsb\<close> for the last
  bytes, whose number is \<open>n & 3\<close>.
\<close>

fun rep_movsb :: "nat \<Rightarrow> memory \<Rightarrow> addr \<Rightarrow> addr \<Rightarrow> memory" where
  "rep_movsb 0 m di si = m"
| "rep_movsb (Suc cx) m di si = rep_movsb cx (m(di := m si)) (di + 1) (si + 1)"

fun rep_movsl :: "nat \<Rightarrow> memory \<Rightarrow> addr \<Rightarrow> addr \<Rightarrow> memory \<times> addr \<times> addr" where
  "rep_movsl 0 m di si = (m, di, si)"
| "rep_movsl (Suc cx) m di si = rep_movsl cx (store32 m di (load32 m si)) (di + 4) (si + 4)"

definition memcpy :: "memory \<Rightarrow> addr \<Rightarrow> addr \<Rightarrow> u32 \<Rightarrow> memory" where
  "memcpy m dest src n =
     (let (m', di, si) = rep_movsl (unat (n div 4)) m dest src
      in rep_movsb (unat (n AND 3)) m' di si)"

text \<open>The loop of \<open>memmove\<close> that copies from the last byte to the first.\<close>

fun copy_down :: "nat \<Rightarrow> memory \<Rightarrow> addr \<Rightarrow> addr \<Rightarrow> memory" where
  "copy_down 0 m dp sp = m"
| "copy_down (Suc i) m dp sp = copy_down i (m(dp + of_nat i := m (sp + of_nat i))) dp sp"

definition memmove :: "memory \<Rightarrow> addr \<Rightarrow> addr \<Rightarrow> u32 \<Rightarrow> memory" where
  "memmove m dest src count =
     (if src < dest then copy_down (unat count) m dest src
      else if dest < src then memcpy m dest src count
      else m)"

text \<open>\<open>--num\<close> is evaluated only when the bytes agree, and wraps when \<open>num\<close> is 0.\<close>

function memcmp :: "memory \<Rightarrow> addr \<Rightarrow> addr \<Rightarrow> u32 \<Rightarrow> u32" where
  "memcmp m p1 p2 num =
     (if m p1 = m p2 \<and> num - 1 \<noteq> 0 then memcmp m (p1 + 1) (p2 + 1) (num - 1)
      else char_diff (m p1) (m p2))"
  by pat_completeness auto
termination
proof (relation "measure (\<lambda>(m, p1, p2, num). unat (num - 1))", goal_cases)
  case (2 m p1 p2 num)
  then have "num - 1 \<noteq> 0" by simp
  from unat_minus_one [OF this] this show ?case by (simp add: unat_gt_0)
qed simp

section \<open>Searching and copying strings\<close>

partial_function (option) strchr_from :: "memory \<Rightarrow> addr \<Rightarrow> u8 \<Rightarrow> addr option" where
  "strchr_from m str ch =
     (if m str = ch then Some str
      else if m str = 0 then Some 0
      else strchr_from m (str + 1) ch)"

definition strchr :: "memory \<Rightarrow> addr \<Rightarrow> u32 \<Rightarrow> addr option" where
  "strchr m str character = strchr_from m str (ucast character)"

partial_function (option) strcpy_from :: "memory \<Rightarrow> addr \<Rightarrow> addr \<Rightarrow> memory option" where
  "strcpy_from m dest src =
     (if m src \<noteq> 0 then strcpy_from (m(dest := m src)) (dest + 1) (src + 1) else Some (m(dest := 0)))"

definition strcpy :: "memory \<Rightarrow> addr \<Rightarrow> addr \<Rightarrow> memory option" where
  "strcpy m dest src = (if src = 0 then Some (m(dest := 0)) else strcpy_from m dest src)"

function strncpy_copy :: "memory \<Rightarrow> addr \<Rightarrow> addr \<Rightarrow> u32 \<Rightarrow> u32 \<Rightarrow> memory \<times> u32" where
  "strncpy_copy m dest src count i =
     (if i < count \<and> m (src + i) \<noteq> 0
      then strncpy_copy (m(dest + i := m (src + i))) dest src count (i + 1)
      else (m, i))"
  by pat_completeness auto
termination
  by (relation "measure (\<lambda>(m, dest, src, count, i). unat (count - i))") (auto simp: unat_diff_step)

function strncpy_pad :: "memory \<Rightarrow> addr \<Rightarrow> u32 \<Rightarrow> u32 \<Rightarrow> memory" where
  "strncpy_pad m dest count i =
     (if i < count then strncpy_pad (m(dest + i := 0)) dest count (i + 1) else m)"
  by pat_completeness auto
termination
  by (relation "measure (\<lambda>(m, dest, count, i). unat (count - i))") (auto simp: unat_diff_step)

definition strncpy :: "memory \<Rightarrow> addr \<Rightarrow> addr \<Rightarrow> u32 \<Rightarrow> memory" where
  "strncpy m dest src count =
     (let (m', i) = strncpy_copy m dest src count 0 in strncpy_pad m' dest count i)"

declare strlen_from.simps [code] strcmp.simps [code] skip_space.simps [code]
  strtoul_digits.simps [code] strtol_digits.simps [code] strchr_from.simps [code] strcpy_from.simps [code]

declare strnlen_from.simps [simp del] strrev_from.simps [simp del] strncmp_loop.simps [simp del]
  memcmp.simps [simp del] strncpy_copy.simps [simp del] strncpy_pad.simps [simp del]

end
