(* ===== verification/CStringSpec.thy ===== *)
theory CStringSpec
  imports CString
begin

text \<open>
  What the functions of \<open>kcstring.cpp\<close> compute: the copies of \<open>memcpy\<close> and \<open>memmove\<close>, the fills
  of \<open>memset\<close> and \<open>memset32\<close>, the length and the reversal of a string, and the value \<open>strtoul\<close>
  reads.
\<close>

section \<open>Copies\<close>

text \<open>The memory after a copy in which every byte is read before any is written.\<close>

definition copied :: "memory \<Rightarrow> addr \<Rightarrow> addr \<Rightarrow> nat \<Rightarrow> memory" where
  "copied m d s n = (\<lambda>a. if unat (a - d) < n then m (s + (a - d)) else m a)"

text \<open>A copy upwards reads no byte it has written.\<close>

definition up_safe :: "addr \<Rightarrow> addr \<Rightarrow> nat \<Rightarrow> bool" where
  "up_safe d s n = (d = s \<or> n \<le> unat (d - s))"

lemma unat_minus_if: "unat (a - b :: u32) = (if unat b \<le> unat a then unat a - unat b else 2 ^ 32 + unat a - unat b)"
  by (auto simp: unat_sub_if_size word_le_nat_alt word_size)

lemma unat_minus_add:
  fixes x d a :: u32
  shows "unat (x - (d + a)) = (if unat a \<le> unat (x - d) then unat (x - d) - unat a else 2 ^ 32 + unat (x - d) - unat a)"
  using unat_minus_if [of "x - d" a] by (simp add: algebra_simps)

lemma copied_0 [simp]: "copied m d s 0 = m"
  by (simp add: copied_def)

lemma copied_1: "copied m d s (Suc 0) = m(d := m s)"
  by (auto simp: copied_def fun_eq_iff unat_eq_0)

lemma copied_add:
  assumes "a + b \<le> 2 ^ 32" "up_safe d s (a + b)" "a < 2 ^ 32"
  shows "copied (copied m d s a) (d + of_nat a) (s + of_nat a) b = copied m d s (a + b)"
proof
  fix x
  define k where "k = unat (x - d)"
  have ua: "unat (of_nat a :: u32) = a" using assms(3) by (simp add: unat_of_nat_small)
  have kb: "k < 2 ^ 32" using unat_bound [of "x - d"] by (simp add: k_def)
  have "unat (x - (d + of_nat a)) = (if a \<le> k then k - a else 2 ^ 32 + k - a)"
    unfolding unat_minus_add ua k_def ..
  then have outer: "unat (x - (d + of_nat a)) < b \<longleftrightarrow> a \<le> k \<and> k < a + b"
    using assms(1) kb by auto
  have y: "s + of_nat a + (x - (d + of_nat a)) = s + (x - d)" by (simp add: algebra_simps)
  have "\<not> unat (s + (x - d) - d) < a \<or> s + (x - d) = x" if "a \<le> k" "k < a + b"
  proof (cases "d = s")
    case False
    then have D: "a + b \<le> unat (d - s)" using assms(2) by (simp add: up_safe_def)
    have "unat (s + (x - d) - d) = unat ((x - d) - (d - s))" by (simp add: algebra_simps)
    also have "\<dots> = 2 ^ 32 + k - unat (d - s)"
      using D that unfolding unat_minus_if [of "x - d"] k_def by simp
    finally have "a \<le> unat (s + (x - d) - d)" using that unat_bound [of "d - s"] by simp
    then show ?thesis by simp
  qed simp
  then show "copied (copied m d s a) (d + of_nat a) (s + of_nat a) b x = copied m d s (a + b) x"
    unfolding copied_def outer y by (auto simp: k_def)
qed

lemma up_safe_mono: "up_safe d s n \<Longrightarrow> k \<le> n \<Longrightarrow> up_safe d s k"
  by (auto simp: up_safe_def)

lemma up_safe_shift [simp]: "up_safe (d + a) (s + a) n = up_safe d s n"
  by (simp add: up_safe_def)

lemma rep_movsb_copied:
  "n \<le> 2 ^ 32 \<Longrightarrow> up_safe d s n \<Longrightarrow> rep_movsb n m d s = copied m d s n"
proof (induction n arbitrary: m d s)
  case (Suc n)
  have "rep_movsb (Suc n) m d s = copied (m(d := m s)) (d + 1) (s + 1) n"
    using Suc by (simp add: up_safe_mono [of d s "Suc n" n])
  also have "\<dots> = copied m d s (1 + n)"
    using copied_add [of 1 n d s m] Suc.prems by (simp add: copied_1)
  finally show ?case by simp
qed simp

lemma bit_load32_byte:
  fixes a b c d :: u8
  shows "byte_of (ucast a OR push_bit 8 (ucast b) OR push_bit 16 (ucast c) OR push_bit 24 (ucast d)) 0 = a"
    "byte_of (ucast a OR push_bit 8 (ucast b) OR push_bit 16 (ucast c) OR push_bit 24 (ucast d)) 1 = b"
    "byte_of (ucast a OR push_bit 8 (ucast b) OR push_bit 16 (ucast c) OR push_bit 24 (ucast d)) 2 = c"
    "byte_of (ucast a OR push_bit 8 (ucast b) OR push_bit 16 (ucast c) OR push_bit 24 (ucast d)) 3 = d"
  unfolding byte_of_def
  by (rule bit_word_eqI; auto simp: bit_unsigned_iff bit_drop_bit_eq bit_or_iff bit_push_bit_iff
      dest: bit_imp_le_length)+

lemma unat_less_4: "unat (x :: u32) < 4 \<longleftrightarrow> x = 0 \<or> x = 1 \<or> x = 2 \<or> x = 3"
proof
  assume "unat x < 4"
  then have "unat x = 0 \<or> unat x = 1 \<or> unat x = 2 \<or> unat x = 3" by auto
  then have "of_nat (unat x) = (0 :: u32) \<or> of_nat (unat x) = (1 :: u32) \<or>
      of_nat (unat x) = (2 :: u32) \<or> of_nat (unat x) = (3 :: u32)"
    by (elim disjE) simp_all
  then show "x = 0 \<or> x = 1 \<or> x = 2 \<or> x = 3" by simp
qed auto

lemma store32_load32: "store32 m d (load32 m s) = copied m d s 4"
proof
  fix x
  have "x = d + (x - d)" and "(3 :: u32) \<noteq> 0" by simp_all
  then show "store32 m d (load32 m s) x = copied m d s 4 x"
    unfolding copied_def unat_less_4 store32_def load32_def bit_load32_byte
    by (auto simp: algebra_simps)
qed

lemma rep_movsl_copied:
  "4 * n \<le> 2 ^ 32 \<Longrightarrow> up_safe d s (4 * n) \<Longrightarrow>
     rep_movsl n m d s = (copied m d s (4 * n), d + 4 * of_nat n, s + 4 * of_nat n)"
proof (induction n arbitrary: m d s)
  case (Suc n)
  have "rep_movsl (Suc n) m d s =
      (copied (copied m d s 4) (d + 4) (s + 4) (4 * n), d + 4 + 4 * of_nat n, s + 4 + 4 * of_nat n)"
    using Suc by (simp add: store32_load32 up_safe_mono [of d s "4 * Suc n" "4 * n"])
  also have "copied (copied m d s 4) (d + 4) (s + 4) (4 * n) = copied m d s (4 + 4 * n)"
    using copied_add [of 4 "4 * n" d s m] Suc.prems by simp
  finally show ?case by (simp add: algebra_simps)
qed simp

lemma memcpy_copied:
  assumes "up_safe dest src (unat n)"
  shows "memcpy m dest src n = copied m dest src (unat n)"
proof -
  define q r where "q = unat n div 4" and "r = unat n mod 4"
  have n: "4 * q + r = unat n" by (simp add: q_def r_def)
  have and3: "n AND 3 = n mod 4" 
    using take_bit_eq_mask [of 2 n] take_bit_eq_mod [of 2 n] by (simp add: mask_eq_exp_minus_1)
  have "unat (n AND 3) = r" unfolding and3 r_def by simp
  moreover have "unat (n div 4) = q" by (simp add: q_def)
  moreover have "rep_movsl q m dest src =
      (copied m dest src (4 * q), dest + of_nat (4 * q), src + of_nat (4 * q))"
    using rep_movsl_copied [of q dest src m] assms n unat_bound [of n]
    by (simp add: up_safe_mono [of dest src "unat n"])
  moreover have "rep_movsb r (copied m dest src (4 * q)) (dest + of_nat (4 * q)) (src + of_nat (4 * q)) =
      copied m dest src (4 * q + r)"
    using assms n unat_bound [of n]
    by (subst rep_movsb_copied) (auto simp: copied_add up_safe_mono [of dest src "unat n"] simp del: of_nat_mult)
  ultimately show ?thesis unfolding memcpy_def n [symmetric] by (simp add: Let_def)
qed

text \<open>A copy downwards.\<close>

lemma copy_down_copied:
  "n \<le> 2 ^ 32 \<Longrightarrow> up_safe s d n \<Longrightarrow> copy_down n m d s = copied m d s n"
proof (induction n arbitrary: m)
  case (Suc n)
  let ?m = "m(d + of_nat n := m (s + of_nat n))"
  have un: "unat (of_nat n :: u32) = n" using Suc.prems by (simp add: unat_of_nat_small)
  have "copy_down (Suc n) m d s = copied ?m d s n"
    using Suc by (simp add: up_safe_mono [of s d "Suc n" n])
  moreover have "copied ?m d s n x = copied m d s (Suc n) x" for x
  proof -
    have last: "x = d + of_nat n \<longleftrightarrow> unat (x - d) = n"
      using un by (metis add_diff_cancel_left' diff_add_cancel unsigned_word_eqI)
    have "s + (x - d) \<noteq> d + of_nat n" if "unat (x - d) < n"
    proof
      assume "s + (x - d) = d + of_nat n"
      then have e: "s - d = of_nat n - (x - d)" by (simp add: algebra_simps)
      have "unat (s - d) = n - unat (x - d)" unfolding e unat_minus_if [of "of_nat n"] un using that by simp
      moreover have "s = d \<or> Suc n \<le> unat (s - d)" using Suc.prems(2) by (simp add: up_safe_def)
      ultimately show False using that by auto
    qed
    then show ?thesis using last by (auto simp: copied_def less_Suc_eq)
  qed
  ultimately show ?case by auto
qed simp

section \<open>Fills\<close>

definition filled :: "memory \<Rightarrow> addr \<Rightarrow> nat \<Rightarrow> u8 \<Rightarrow> memory" where
  "filled m d n v = (\<lambda>a. if unat (a - d) < n then v else m a)"

lemma rep_stosb_filled: "n \<le> 2 ^ 32 \<Longrightarrow> rep_stosb n m d v = filled m d n v"
proof (induction n arbitrary: m d)
  case (Suc n)
  have "filled (m(d := v)) (d + 1) n v x = filled m d (Suc n) v x" for x
  proof -
    have "unat (x - (d + 1)) = (if 1 \<le> unat (x - d) then unat (x - d) - 1 else 2 ^ 32 + unat (x - d) - 1)"
      unfolding unat_minus_add by simp
    moreover have "unat (x - d) = 0 \<longleftrightarrow> x = d" by (simp add: unat_eq_0)
    ultimately show ?thesis using Suc.prems by (auto simp: filled_def)
  qed
  then show ?case using Suc by auto
qed (simp add: filled_def)

lemma memset_filled: "memset m d v n = filled m d (unat n) (ucast v)"
  using unat_bound [of n] by (simp add: memset_def rep_stosb_filled)

section \<open>Strings\<close>

text \<open>The terminated string \<open>xs\<close> stands at an address.\<close>

primrec c_string :: "memory \<Rightarrow> addr \<Rightarrow> u8 list \<Rightarrow> bool" where
  "c_string m p [] = (m p = 0)"
| "c_string m p (x # xs) = (m p = x \<and> x \<noteq> 0 \<and> c_string m (p + 1) xs)"

primrec bytes_at :: "memory \<Rightarrow> addr \<Rightarrow> u8 list \<Rightarrow> bool" where
  "bytes_at m p [] = True"
| "bytes_at m p (x # xs) = (m p = x \<and> bytes_at m (p + 1) xs)"

lemma strlen_from_c_string: "c_string m p xs \<Longrightarrow> strlen_from m p len = Some (len + of_nat (length xs))"
proof (induction xs arbitrary: p len)
  case (Cons x xs)
  then show ?case by (subst strlen_from.simps) (auto simp: ac_simps)
qed (subst strlen_from.simps, simp)

lemma strlen_c_string: "c_string m p xs \<Longrightarrow> strlen m p = Some (of_nat (length xs))"
  by (simp add: strlen_def strlen_from_c_string)

lemma bytes_at_append [simp]:
  "bytes_at m p (xs @ ys) \<longleftrightarrow> bytes_at m p xs \<and> bytes_at m (p + of_nat (length xs)) ys"
  by (induction xs arbitrary: p) (auto simp: ac_simps)

section \<open>The value of a number\<close>

definition digit_value :: "u8 \<Rightarrow> nat" where
  "digit_value c = (if digit_class c then unat c - 48 else if upper_class c then unat c - 55 else unat c - 87)"

definition horner :: "nat \<Rightarrow> u8 list \<Rightarrow> nat" where
  "horner b cs = foldl (\<lambda>n c. n * b + digit_value c) 0 cs"

text \<open>A character that continues a number in base \<open>b\<close>.\<close>

definition digit_in :: "u32 \<Rightarrow> u8 \<Rightarrow> bool" where
  "digit_in b c = (alnum_class c \<and> digit_value c < unat b)"

lemma int_of_char_ascii:
  assumes "c < 128"
  shows "int_of_char c = ucast c"
proof -
  have high: "\<not> bit c n" if "7 \<le> n" for n
  proof -
    have "unat c < 2 ^ 7" using assms by (simp add: word_less_nat_alt)
    also have "(2 :: nat) ^ 7 \<le> 2 ^ n" using that by (rule power_increasing) simp
    finally show ?thesis by (simp add: bit_unat_iff)
  qed
  show ?thesis
    unfolding int_of_char_def
    by (rule bit_word_eqI) (auto simp: bit_unsigned_iff bit_signed_iff min_def high)
qed

lemma alnum_ascii: "alnum_class c \<Longrightarrow> c < 128"
  by (auto simp: alnum_class_def upper_class_def lower_class_def digit_class_def word_le_nat_alt word_less_nat_alt)

lemma ctype_at_char: "c < 128 \<Longrightarrow> ctype_at (int_of_char c) = Inr (class_flags c)"
  using low_byte_of_char [of c] unat_bound [of c]
  by (simp add: ctype_at_def ctype_lookup_flags int_of_char_ascii word_less_nat_alt unsigned_ucast_eq
      take_bit_nat_eq_self)

lemma digit_of_value:
  assumes "alnum_class c"
  shows "digit_of c = Inr (of_nat (digit_value c))" and "digit_value c < 36"
proof -
  have c: "c < 128" using alnum_ascii [OF assms] .
  have i: "int_of_char c = of_nat (unat c)"
    unfolding int_of_char_ascii [OF c] by simp
  have "(class_flags c AND CT_LOWER \<noteq> 0) = lower_class c"
    unfolding class_flags_and by (simp add: ct_defs)
  then have up: "toupper (int_of_char c) =
      Inr (if lower_class c then int_of_char c - 32 else int_of_char c)"
    unfolding toupper_def ctype_at_char [OF c] by simp
  have nat: "of_nat (unat c - k) = (int_of_char c - of_nat k :: u32)" if "k \<le> unat c" for k
    unfolding i using that by (rule of_nat_diff)
  show "digit_of c = Inr (of_nat (digit_value c))"
    using assms nat [of 48] nat [of 55] nat [of 87]
    unfolding digit_of_def up isdigit_char digit_value_def
    by (auto simp: alnum_class_def digit_class_def upper_class_def lower_class_def word_le_nat_alt)
  show "digit_value c < 36"
    using assms
    by (auto simp: digit_value_def alnum_class_def digit_class_def upper_class_def lower_class_def word_le_nat_alt)
qed

lemma skip_space_white:
  "bytes_at m p ws \<Longrightarrow> list_all white_class ws \<Longrightarrow> \<not> white_class (m (p + of_nat (length ws))) \<Longrightarrow>
     skip_space m p = Some (p + of_nat (length ws))"
proof (induction ws arbitrary: p)
  case Nil
  then show ?case by (subst skip_space.simps) (simp add: isspace_char)
next
  case (Cons w ws)
  then show ?case by (subst skip_space.simps) (simp add: isspace_char ac_simps)
qed

lemma alnum_not_null: "alnum_class c \<Longrightarrow> c \<noteq> 0"
  by (auto simp: alnum_class_def upper_class_def lower_class_def digit_class_def)

lemma base_le_digit:
  fixes base :: u32
  assumes "alnum_class c" "unat base \<le> 36"
  shows "base \<le>s of_nat (digit_value c) \<longleftrightarrow> \<not> digit_value c < unat base"
proof -
  have "unat (of_nat (digit_value c) :: u32) = digit_value c"
    using digit_of_value(2) [OF assms(1)] by (simp add: unat_of_nat_small)
  then show ?thesis
    using assms(2) digit_of_value(2) [OF assms(1)] sle_unat [of base "of_nat (digit_value c)"]
    by (simp add: not_less)
qed

lemma strtoul_digits_reads:
  assumes "unat base \<le> 36"
  shows "bytes_at m p ds \<Longrightarrow> list_all (digit_in base) ds \<Longrightarrow> \<not> digit_in base (m (p + of_nat (length ds))) \<Longrightarrow>
    strtoul_digits m p base (of_nat n) =
      Some (Inr (of_nat (foldl (\<lambda>n c. n * unat base + digit_value c) n ds), p + of_nat (length ds)))"
proof (induction ds arbitrary: p n)
  case Nil
  then show ?case
    using assms
    by (subst strtoul_digits.simps)
      (auto simp: isalnum_char digit_in_def digit_of_value base_le_digit)
next
  case (Cons d ds)
  have d: "alnum_class d" "\<not> base \<le>s of_nat (digit_value d)"
    using Cons.prems base_le_digit [OF _ assms] by (auto simp: digit_in_def)
  have step: "of_nat (n * unat base + digit_value d) = of_nat n * base + of_nat (digit_value d)"
    by simp
  show ?case
    using Cons.prems Cons.IH [of "p + 1" "n * unat base + digit_value d"] d
    by (subst strtoul_digits.simps)
      (simp add: isalnum_char alnum_not_null digit_of_value step add.assoc add.commute [of 1])
qed

text \<open>
  C38. \<open>strtoul\<close> with a base from 2 to 36 skips white space, reads the digits of that base up to the
  first character that is not one, and returns their value modulo \<open>2 ^ 32\<close> and the address where it
  stopped.
\<close>

theorem strtoul_value:
  assumes "2 \<le> unat base" "unat base \<le> 36" "str \<noteq> 0"
    and "bytes_at m str (ws @ ds)" "list_all white_class ws" "list_all (digit_in base) ds" "ds \<noteq> []"
    and "\<not> digit_in base (m (str + of_nat (length (ws @ ds))))"
  shows "strtoul m str base =
    Some (Inr (of_nat (horner (unat base) ds), Some (str + of_nat (length (ws @ ds)))))"
proof -
  have base: "\<not> (36 <s base \<or> base = 1 \<or> base <s 0)" "base \<noteq> 0"
    using assms(1,2) by (auto simp: sless_unat)
  obtain d ds' where ds: "ds = d # ds'" using assms(7) by (cases ds) auto
  then have "alnum_class (m (str + of_nat (length ws)))" using assms(4,6) by (auto simp: digit_in_def)
  then have "\<not> white_class (m (str + of_nat (length ws)))"
    by (auto simp: alnum_class_def upper_class_def lower_class_def digit_class_def white_class_def
        word_le_nat_alt)
  then have sp: "skip_space m str = Some (str + of_nat (length ws))"
    using assms(4,5) by (auto intro: skip_space_white)
  have "strtoul_digits m (str + of_nat (length ws)) base (of_nat 0) =
      Some (Inr (of_nat (horner (unat base) ds), str + of_nat (length ws) + of_nat (length ds)))"
    unfolding horner_def using assms(2,4,6,8) by (intro strtoul_digits_reads) (auto simp: ac_simps)
  then show ?thesis using assms(3) base sp by (simp add: strtoul_def ac_simps)
qed

theorem strtoul_value_witness:
  "strtoul (\<lambda>a. if a = 16 then 32 else if a = 17 then 50 else if a = 18 then 102 else 59) 16 16 =
     Some (Inr (0x2f, Some 19))"
  using strtoul_value [of 16 16 "\<lambda>a. if a = 16 then 32 else if a = 17 then 50 else if a = 18 then 102 else 59" "[32]" "[50, 102]"]
  by (simp add: white_class_def digit_in_def digit_value_def alnum_class_def upper_class_def lower_class_def
      digit_class_def horner_def)

text \<open>
  C18. \<open>memmove\<close> copies as if through a buffer: whatever the overlap of the two ranges, the
  destination ends up with the bytes the source had, and nothing else changes. The direction test
  of the code, the double-word loop of \<open>memcpy\<close> and its rest loop are all needed.
\<close>

theorem memmove_correct:
  assumes "unat dest + unat n \<le> 2 ^ 32" "unat src + unat n \<le> 2 ^ 32"
  shows "memmove m dest src n a = (if unat (a - dest) < unat n then m (src + (a - dest)) else m a)"
proof -
  have "up_safe src dest (unat n)" if "src < dest"
    using that assms unfolding up_safe_def unat_minus_if word_less_nat_alt by auto
  moreover have "up_safe dest src (unat n)" if "dest < src"
    using that assms unfolding up_safe_def unat_minus_if word_less_nat_alt by auto
  moreover have "copied m dest dest (unat n) = m" by (auto simp: copied_def)
  ultimately have "memmove m dest src n = copied m dest src (unat n)"
    using unat_bound [of n] by (auto simp: memmove_def memcpy_copied copy_down_copied not_less)
  then show ?thesis by (simp add: copied_def)
qed

theorem memmove_correct_witness:
  "memmove (\<lambda>a. ucast a) 18 16 7 20 = 18 \<and> memmove (\<lambda>a. ucast a) 16 18 7 20 = 22"
  using memmove_correct [of 18 7 16 "\<lambda>a. ucast a" 20] memmove_correct [of 16 7 18 "\<lambda>a. ucast a" 20]
  by simp

end
