(* ===== verification/Framebuffer.thy ===== *)
theory Framebuffer
  imports CStringSpec KMath
begin

text \<open>
  The screen: the font of \<open>tty/psf.cpp\<close> and the linear framebuffer of
  \<open>devices/FramebufferDevice.cpp\<close>. Everything is drawn twice, to the visible framebuffer and to an
  off-screen buffer that is mapped twice in a row, so that a window of it can start anywhere.
\<close>

section \<open>The font\<close>

text \<open>
  The font file is a list of bytes that is linked into the kernel. \<open>f_psf1\<close> and \<open>f_psf2\<close> tell which of
  the two header pointers is set. The glyphs of a version 1 font are found at an offset in the file;
  for a version 2 font \<open>m_glyphs\<close> stays null, so that a glyph's address is an absolute one.
\<close>

datatype glyph_address = InFile nat | Absolute nat

record psf_font =
  f_psf1 :: bool
  f_psf2 :: bool
  f_mode :: u8
  f_charsize :: u8
  f2_charsize :: u32
  f2_height :: u32
  f2_width :: u32
  f_glyphs :: "nat option"
  f_mappings :: "int list"

record psf_glyph_t =
  g_bitmap :: "glyph_address option"
  g_stride :: u8
  g_width :: u8
  g_height :: u8

definition file_byte :: "u8 list \<Rightarrow> nat \<Rightarrow> u8 kres" where
  "file_byte file i = (if i < length file then Inr (file ! i) else Inl BadAccess)"

definition file_u16 :: "u8 list \<Rightarrow> nat \<Rightarrow> nat kres" where
  "file_u16 file i = kbind (file_byte file i) (\<lambda>lo. kbind (file_byte file (i + 1)) (\<lambda>hi. Inr (unat lo + 256 * unat hi)))"

definition file_u32 :: "u8 list \<Rightarrow> nat \<Rightarrow> u32 kres" where
  "file_u32 file i = kbind (file_u16 file i) (\<lambda>lo. kbind (file_u16 file (i + 2)) (\<lambda>hi. Inr (of_nat (lo + 65536 * hi))))"

text \<open>
  The unicode table behind the glyphs: for each glyph the code points it shows, then sequences of
  code points, which are skipped, then a separator.
\<close>

fun parse_unicode :: "nat \<Rightarrow> u8 list \<Rightarrow> nat \<Rightarrow> int \<Rightarrow> bool \<Rightarrow> int list \<Rightarrow> int list kres" where
  "parse_unicode 0 file pos glyph in_seq maps = Inr maps"
| "parse_unicode (Suc n) file pos glyph in_seq maps =
     (if pos < length file
      then kbind (file_u16 file pos) (\<lambda>c.
        if c = 0xFFFF then parse_unicode n file (pos + 2) (glyph + 1) False maps
        else if c = 0xFFFE then parse_unicode n file (pos + 2) glyph True maps
        else if \<not> in_seq \<and> c \<le> 255 then parse_unicode n file (pos + 2) glyph in_seq (maps[c := glyph])
        else parse_unicode n file (pos + 2) glyph in_seq maps)
      else Inr maps)"

text \<open>The loop advances by two bytes, so the length of the file is enough fuel.\<close>

definition parse_psf1 :: "u8 list \<Rightarrow> psf_font \<Rightarrow> psf_font kres" where
  "parse_psf1 file f =
     (let maps = (if f_mode f AND 0x02 = 0 then map int [0..<256] else f_mappings f);
          count = (if f_mode f AND 0x01 \<noteq> 0 then 512 else 256 :: nat)
      in kbind (parse_unicode (length file) file (4 + count * unat (f_charsize f)) 0 False maps)
           (\<lambda>maps. Inr (f\<lparr>f_glyphs := Some 4, f_mappings := maps\<rparr>)))"

text \<open>The member initialiser \<open>{ -1 }\<close> sets the first mapping; the others are zero.\<close>

definition psf_load :: "u8 list \<Rightarrow> psf_font kres" where
  "psf_load file =
     (let f = \<lparr>f_psf1 = False, f_psf2 = False, f_mode = 0, f_charsize = 0, f2_charsize = 0, f2_height = 0,
               f2_width = 0, f_glyphs = None, f_mappings = - 1 # replicate 255 0\<rparr>
      in kbind (file_byte file 0) (\<lambda>m0. kbind (file_byte file 1) (\<lambda>m1.
         if m0 = 0x36 \<and> m1 = 0x04
         then kbind (file_byte file 2) (\<lambda>mode. kbind (file_byte file 3) (\<lambda>charsize.
                parse_psf1 file (f\<lparr>f_psf1 := True, f_mode := mode, f_charsize := charsize\<rparr>)))
         else kbind (file_byte file 2) (\<lambda>m2. kbind (file_byte file 3) (\<lambda>m3.
                if m0 = 0x72 \<and> m1 = 0xb5 \<and> m2 = 0x4a \<and> m3 = 0x86
                then kbind (file_u32 file 20) (\<lambda>cs. kbind (file_u32 file 24) (\<lambda>h. kbind (file_u32 file 28) (\<lambda>w.
                       Inr (f\<lparr>f_psf2 := True, f2_charsize := cs, f2_height := h, f2_width := w\<rparr>))))
                else Inr f)))))"

definition glyph_bitmap :: "psf_font \<Rightarrow> int \<Rightarrow> nat \<Rightarrow> glyph_address option" where
  "glyph_bitmap f mapping charsize =
     (if mapping = - 1 then None
      else let offset = nat mapping * charsize
           in case f_glyphs f of None \<Rightarrow> (if offset = 0 then None else Some (Absolute offset)) | Some g \<Rightarrow> Some (InFile (g + offset)))"

definition get_glyph :: "psf_font \<Rightarrow> u8 \<Rightarrow> psf_glyph_t kres" where
  "get_glyph f ch =
     (if f_psf1 f
      then Inr \<lparr>g_bitmap = glyph_bitmap f (f_mappings f ! unat ch) (unat (f_charsize f)),
                g_stride = 8, g_width = 8, g_height = f_charsize f\<rparr>
      else if f_psf2 f
      then Inr \<lparr>g_bitmap = glyph_bitmap f (f_mappings f ! unat ch) (unat (f2_charsize f)),
                g_stride = round_up_to_power_of_two (ucast (f2_width f)) 8,
                g_width = ucast (f2_width f), g_height = ucast (f2_height f)\<rparr>
      else Inl NullDeref)"

definition font_width :: "psf_font \<Rightarrow> u32" where
  "font_width f = (if f_psf1 f then 8 else if f_psf2 f then f2_width f else 0)"

definition font_height :: "psf_font \<Rightarrow> u32" where
  "font_height f = (if f_psf1 f then ucast (f_charsize f) else if f_psf2 f then f2_height f else 0)"

section \<open>The framebuffer\<close>

record framebuffer_device =
  fb_mem :: memory
  fb_offscreen :: addr
  fb_offset :: u32
  fb_framebuffer :: addr
  fb_size :: u32
  fb_width :: u32
  fb_height :: u32

text \<open>
  The second mapping of the off-screen buffer starts where the first one ends; an address in it
  denotes the byte one buffer size below. Memory is total: a store outside of the buffers is a write
  to the byte at that address, since what is mapped next to them is not known here; where it matters
  that drawing stays inside the buffers, that is a hypothesis or the statement of the theorem.
\<close>

definition resolve :: "framebuffer_device \<Rightarrow> addr \<Rightarrow> addr" where
  "resolve d a = (if a - (fb_offscreen d + fb_size d) < fb_size d then a - fb_size d else a)"

definition fb_store32 :: "framebuffer_device \<Rightarrow> memory \<Rightarrow> addr \<Rightarrow> u32 \<Rightarrow> memory" where
  "fb_store32 d m a w = m(resolve d a := byte_of w 0, resolve d (a + 1) := byte_of w 1,
     resolve d (a + 2) := byte_of w 2, resolve d (a + 3) := byte_of w 3)"

definition is_initialized :: "framebuffer_device \<Rightarrow> bool" where
  "is_initialized d = (fb_framebuffer d \<noteq> 0)"

text \<open>
  \<open>configure\<close>: the screen's geometry comes from the boot loader; the arguments \<open>screen\<close> and
  \<open>offscreen\<close> are the addresses at which the memory manager maps the two buffers.
\<close>

record multiboot_fb =
  mb_has_framebuffer :: bool
  mb_width :: u32
  mb_height :: u32
  mb_bpp :: u8

definition configure :: "framebuffer_device \<Rightarrow> multiboot_fb \<Rightarrow> addr \<Rightarrow> addr \<Rightarrow> framebuffer_device" where
  "configure d info screen offscreen =
     (if \<not> mb_has_framebuffer info then d\<lparr>fb_size := 0, fb_framebuffer := 0\<rparr>
      else let w = mb_width info; h = mb_height info;
               sz = ucast (mb_bpp info) * w * h div 8;
               m = memset (fb_mem d) offscreen 0 sz;
               m = memset m screen 0 sz
           in \<lparr>fb_mem = m, fb_offscreen = offscreen, fb_offset = 0, fb_framebuffer = screen,
               fb_size = sz, fb_width = w, fb_height = h\<rparr>)"

text \<open>\<open>read\<close> and \<open>write\<close> of the character device, between the screen and a buffer.\<close>

definition fb_range_bad :: "framebuffer_device \<Rightarrow> u32 \<Rightarrow> u32 \<Rightarrow> bool" where
  "fb_range_bad d offset bytes = (fb_size d \<le> offset \<or> fb_size d < bytes \<or> fb_size d < offset + bytes)"

definition fb_read :: "framebuffer_device \<Rightarrow> u32 \<Rightarrow> u32 \<Rightarrow> addr \<Rightarrow> u32 \<times> framebuffer_device" where
  "fb_read d offset bytes buffer =
     (if \<not> is_initialized d \<or> fb_range_bad d offset bytes then (0, d)
      else (bytes, d\<lparr>fb_mem := memcpy (fb_mem d) buffer (fb_framebuffer d + offset) bytes\<rparr>))"

definition fb_write :: "framebuffer_device \<Rightarrow> u32 \<Rightarrow> u32 \<Rightarrow> addr \<Rightarrow> u32 \<times> framebuffer_device" where
  "fb_write d offset bytes buffer =
     (if \<not> is_initialized d \<or> fb_range_bad d offset bytes then (0, d)
      else (bytes, d\<lparr>fb_mem := memcpy (fb_mem d) (fb_framebuffer d + offset) buffer bytes\<rparr>))"

section \<open>Drawing\<close>

text \<open>
  The rows of a bitmap of colours. The source is an array of colours that is not part of the two
  buffers.
\<close>

definition blit_row :: "framebuffer_device \<Rightarrow> (nat \<Rightarrow> u32) \<Rightarrow> addr \<Rightarrow> u32 \<Rightarrow> memory \<Rightarrow> memory" where
  "blit_row d data buffer width m =
     fold (\<lambda>x m. fb_store32 d m (buffer + 4 * of_nat x) (data x)) [0..<unat width] m"

fun do_blit :: "nat \<Rightarrow> framebuffer_device \<Rightarrow> (nat \<Rightarrow> u32) \<Rightarrow> addr \<Rightarrow> u32 \<Rightarrow> u32 \<Rightarrow> memory \<Rightarrow> memory" where
  "do_blit 0 d data buffer width buffer_width m = m"
| "do_blit (Suc height) d data buffer width buffer_width m =
     do_blit height d (\<lambda>i. data (i + unat width)) (buffer + 4 * buffer_width) width buffer_width
       (blit_row d data buffer width m)"

text \<open>A row of a glyph: one bit per pixel, the highest bit of a byte first.\<close>

definition glyph_pixel :: "(nat \<Rightarrow> u8) \<Rightarrow> u32 \<Rightarrow> u32 \<Rightarrow> nat \<Rightarrow> u32" where
  "glyph_pixel data fg bg x = (if data (x div 8) AND drop_bit (x mod 8) 0x80 \<noteq> 0 then fg else bg)"

fun do_blit_char :: "nat \<Rightarrow> framebuffer_device \<Rightarrow> (nat \<Rightarrow> u8) \<Rightarrow> addr \<Rightarrow> u32 \<Rightarrow> u32 \<Rightarrow> u32 \<Rightarrow> u32 \<Rightarrow> u32 \<Rightarrow> memory \<Rightarrow> memory" where
  "do_blit_char 0 d data buffer width stride fg bg buffer_width m = m"
| "do_blit_char (Suc height) d data buffer width stride fg bg buffer_width m =
     do_blit_char height d (\<lambda>i. data (i + unat (stride div 8))) (buffer + 4 * buffer_width) width stride fg bg buffer_width
       (blit_row d (glyph_pixel data fg bg) buffer width m)"

text \<open>\<open>memcpy\<close> of the window to the screen; the source runs through both mappings.\<close>

fun copy_window :: "nat \<Rightarrow> framebuffer_device \<Rightarrow> addr \<Rightarrow> addr \<Rightarrow> memory \<Rightarrow> memory" where
  "copy_window 0 d dst src m = m"
| "copy_window (Suc n) d dst src m = copy_window n d (dst + 1) (src + 1) (m(resolve d dst := m (resolve d src)))"

definition blit_screen :: "framebuffer_device \<Rightarrow> framebuffer_device" where
  "blit_screen d =
     (if \<not> is_initialized d then d
      else d\<lparr>fb_mem := copy_window (unat (fb_size d)) d (fb_framebuffer d) (fb_offscreen d + fb_offset d) (fb_mem d)\<rparr>)"

definition blit :: "framebuffer_device \<Rightarrow> (nat \<Rightarrow> u32) \<Rightarrow> bool \<Rightarrow> u32 \<Rightarrow> u32 \<Rightarrow> u32 \<Rightarrow> u32 \<Rightarrow> framebuffer_device" where
  "blit d data direct x y width height =
     (if \<not> is_initialized d then d
      else let offset = (y * fb_width d + x) * 4;
               offscreen_position = fb_offscreen d + fb_offset d + offset;
               screen_position = fb_framebuffer d + offset;
               m = (if direct then do_blit (unat height) d data screen_position width (fb_width d) (fb_mem d) else fb_mem d)
           in d\<lparr>fb_mem := do_blit (unat height) d data offscreen_position width (fb_width d) m\<rparr>)"

definition blit_character :: "framebuffer_device \<Rightarrow> (nat \<Rightarrow> u8) \<Rightarrow> bool \<Rightarrow> u32 \<Rightarrow> u32 \<Rightarrow> u32 \<Rightarrow> u32 \<Rightarrow> u32 \<Rightarrow> u32 \<Rightarrow> u32 \<Rightarrow> framebuffer_device" where
  "blit_character d data direct x y width height stride fg bg =
     (if \<not> is_initialized d then d
      else let offset = (y * fb_width d + x) * 4;
               offscreen_position = fb_offscreen d + fb_offset d + offset;
               screen_position = fb_framebuffer d + offset;
               m = (if direct then do_blit_char (unat height) d data screen_position width stride fg bg (fb_width d) (fb_mem d)
                    else fb_mem d)
           in d\<lparr>fb_mem := do_blit_char (unat height) d data offscreen_position width stride fg bg (fb_width d) m\<rparr>)"

text \<open>\<open>memset32\<close> through the mappings.\<close>

fun fb_fill :: "nat \<Rightarrow> framebuffer_device \<Rightarrow> addr \<Rightarrow> u32 \<Rightarrow> memory \<Rightarrow> memory" where
  "fb_fill 0 d a color m = m"
| "fb_fill (Suc n) d a color m = fb_fill n d (a + 4) color (fb_store32 d m a color)"

definition clear_screen :: "framebuffer_device \<Rightarrow> bool \<Rightarrow> u32 \<Rightarrow> u32 \<Rightarrow> u32 \<Rightarrow> u32 \<Rightarrow> u32 \<Rightarrow> framebuffer_device" where
  "clear_screen d direct from_x from_y to_x to_y color =
     (if \<not> is_initialized d then d
      else let start = (from_y * fb_width d + from_x) * 4;
               finish = (to_y * fb_width d + to_x) * 4;
               n = unat ((finish - start) div 4);
               m = (if direct then fb_fill n d (fb_framebuffer d + start) color (fb_mem d) else fb_mem d)
           in d\<lparr>fb_mem := fb_fill n d (fb_offscreen d + fb_offset d + start) color m\<rparr>)"

text \<open>
  Scrolling moves the window; \<open>count\<close> is an \<open>int\<close>, the other operands are unsigned, so that the sums
  are taken modulo \<open>2 ^ 32\<close>. The remainder by the size of a screen without bytes traps.
\<close>

definition scroll_vertical :: "framebuffer_device \<Rightarrow> u32 \<Rightarrow> framebuffer_device kres" where
  "scroll_vertical d amount =
     (if \<not> is_initialized d \<or> amount = 0 then Inr d
      else let count = amount * fb_width d * 4
           in kbind (if count <s 0 \<and> fb_offset d <s - count then Inr (fb_size d + (count + fb_offset d))
                     else if fb_size d = 0 then Inl DivZero
                     else Inr ((fb_offset d + count) mod fb_size d)) (\<lambda>offset.
                Inr (blit_screen (d\<lparr>fb_offset := offset\<rparr>))))"

end
