(* ===== verification/FramebufferSpec.thy ===== *)
theory FramebufferSpec
  imports Framebuffer
begin

text \<open>
  The screen always shows the window of the off-screen buffer: drawing, clearing and scrolling keep
  the two in step as long as they stay inside the screen; and the call with which the console clears
  the screen does not.
\<close>

section \<open>The two buffers\<close>

text \<open>
  The screen and the two mappings of the off-screen buffer are disjoint ranges that do not wrap, and
  the window starts inside the buffer. A pixel has four bytes.
\<close>

definition fb_layout :: "framebuffer_device \<Rightarrow> bool" where
  "fb_layout d = (fb_framebuffer d \<noteq> 0 \<and> fb_size d \<noteq> 0 \<and> fb_offset d < fb_size d \<and>
     unat (fb_framebuffer d) + unat (fb_size d) \<le> 2 ^ 32 \<and>
     unat (fb_offscreen d) + 2 * unat (fb_size d) \<le> 2 ^ 32 \<and>
     (unat (fb_framebuffer d) + unat (fb_size d) \<le> unat (fb_offscreen d) \<or>
      unat (fb_offscreen d) + 2 * unat (fb_size d) \<le> unat (fb_framebuffer d)))"

definition fb_geometry :: "framebuffer_device \<Rightarrow> bool" where
  "fb_geometry d = (unat (fb_size d) = 4 * (unat (fb_width d) * unat (fb_height d)))"

definition screen_at :: "framebuffer_device \<Rightarrow> nat \<Rightarrow> addr" where
  "screen_at d i = fb_framebuffer d + of_nat i"

definition window_at :: "framebuffer_device \<Rightarrow> nat \<Rightarrow> addr" where
  "window_at d i = fb_offscreen d + of_nat ((unat (fb_offset d) + i) mod unat (fb_size d))"

definition shows_window :: "framebuffer_device \<Rightarrow> memory \<Rightarrow> bool" where
  "shows_window d m = (\<forall>i<unat (fb_size d). m (screen_at d i) = m (window_at d i))"

lemma unat_plus_of_nat: "unat a + i < 2 ^ 32 \<Longrightarrow> unat (a + of_nat i :: u32) = unat a + i"
  by (subst unat_add_small) (auto simp: unat_of_nat_small)

lemma layout_pos: "fb_layout d \<Longrightarrow> 0 < unat (fb_size d)"
  by (simp add: fb_layout_def unat_gt_0)

lemma unat_screen_at:
  "fb_layout d \<Longrightarrow> i < unat (fb_size d) \<Longrightarrow> unat (screen_at d i) = unat (fb_framebuffer d) + i"
  unfolding screen_at_def by (rule unat_plus_of_nat) (simp add: fb_layout_def)

lemma unat_window_at:
  assumes "fb_layout d"
  shows "unat (window_at d i) = unat (fb_offscreen d) + (unat (fb_offset d) + i) mod unat (fb_size d)"
proof -
  have "(unat (fb_offset d) + i) mod unat (fb_size d) < unat (fb_size d)" using layout_pos [OF assms] by simp
  moreover have "unat (fb_offscreen d) + 2 * unat (fb_size d) \<le> 2 ^ 32" using assms by (simp add: fb_layout_def)
  ultimately show ?thesis unfolding window_at_def by (intro unat_plus_of_nat) linarith
qed

lemma screen_not_window:
  assumes "fb_layout d" "i < unat (fb_size d)"
  shows "screen_at d i \<noteq> window_at d j"
proof
  assume "screen_at d i = window_at d j"
  then have "unat (fb_framebuffer d) + i = unat (fb_offscreen d) + (unat (fb_offset d) + j) mod unat (fb_size d)"
    using unat_screen_at [OF assms] unat_window_at [OF assms(1), of j] by simp
  moreover have "(unat (fb_offset d) + j) mod unat (fb_size d) < unat (fb_size d)" using layout_pos [OF assms(1)] by simp
  moreover have "unat (fb_framebuffer d) + unat (fb_size d) \<le> unat (fb_offscreen d) \<or>
      unat (fb_offscreen d) + 2 * unat (fb_size d) \<le> unat (fb_framebuffer d)"
    using assms(1) by (simp add: fb_layout_def)
  ultimately show False using assms(2) by linarith
qed

lemma resolve_unat:
  assumes "fb_layout d"
  shows "resolve d a =
    (if unat (fb_offscreen d) + unat (fb_size d) \<le> unat a \<and> unat a < unat (fb_offscreen d) + 2 * unat (fb_size d)
     then a - fb_size d else a)"
proof -
  have s: "unat (fb_offscreen d + fb_size d) = unat (fb_offscreen d) + unat (fb_size d)"
    using assms layout_pos [OF assms] by (intro unat_add_small) (simp add: fb_layout_def)
  have "a - (fb_offscreen d + fb_size d) < fb_size d \<longleftrightarrow>
      unat (fb_offscreen d) + unat (fb_size d) \<le> unat a \<and> unat a < unat (fb_offscreen d) + 2 * unat (fb_size d)"
    using assms unfolding word_less_nat_alt unat_minus_if s by (auto simp: fb_layout_def)
  then show ?thesis by (simp add: resolve_def)
qed

lemma resolve_screen:
  assumes "fb_layout d" "i < unat (fb_size d)"
  shows "resolve d (fb_framebuffer d + of_nat i) = screen_at d i"
  using assms unat_screen_at [OF assms] unfolding resolve_unat [OF assms(1)]
  by (auto simp: fb_layout_def screen_at_def)

lemma resolve_window:
  assumes "fb_layout d" "i < unat (fb_size d)"
  shows "resolve d (fb_offscreen d + fb_offset d + of_nat i) = window_at d i"
proof -
  let ?o = "unat (fb_offset d)" and ?s = "unat (fb_size d)" and ?b = "unat (fb_offscreen d)"
  let ?a = "fb_offscreen d + fb_offset d + of_nat i"
  have o: "?o < ?s" "?b + 2 * ?s \<le> 2 ^ 32"
    using assms(1) by (simp_all add: fb_layout_def word_less_nat_alt)
  have eq: "?a = fb_offscreen d + of_nat (?o + i)" by simp
  have a: "unat ?a = ?b + (?o + i)"
    unfolding eq using o assms(2) by (intro unat_plus_of_nat) linarith
  show ?thesis
  proof (cases "?o + i < ?s")
    case True
    then show ?thesis
      using a o unfolding resolve_unat [OF assms(1)] window_at_def by simp
  next
    case False
    then have "(?o + i) mod ?s = ?o + i - ?s" using o assms(2) by (simp add: mod_if)
    moreover have "?a - fb_size d = fb_offscreen d + of_nat (?o + i - ?s)"
      using False by (simp add: of_nat_diff)
    ultimately show ?thesis
      using a o False assms(2) unfolding resolve_unat [OF assms(1)] window_at_def by simp
  qed
qed

section \<open>Writing pixels\<close>

text \<open>A list of pixels, by their byte offset from a base, and what the writes make of a byte array.\<close>

definition put_pixels :: "framebuffer_device \<Rightarrow> addr \<Rightarrow> (nat \<times> u32) list \<Rightarrow> memory \<Rightarrow> memory" where
  "put_pixels d base ws m = fold (\<lambda>(i, c) m. fb_store32 d m (base + of_nat i) c) ws m"

definition upd_pixel :: "nat \<times> u32 \<Rightarrow> (nat \<Rightarrow> u8) \<Rightarrow> nat \<Rightarrow> u8" where
  "upd_pixel w f = (case w of (i, c) \<Rightarrow>
     f(i := byte_of c 0, i + 1 := byte_of c 1, i + 2 := byte_of c 2, i + 3 := byte_of c 3))"

definition upd_pixels :: "(nat \<times> u32) list \<Rightarrow> (nat \<Rightarrow> u8) \<Rightarrow> nat \<Rightarrow> u8" where
  "upd_pixels ws f = fold upd_pixel ws f"

definition pixels_in :: "nat \<Rightarrow> (nat \<times> u32) list \<Rightarrow> bool" where
  "pixels_in n ws = (\<forall>(i, c)\<in>set ws. i + 4 \<le> n)"

lemma upd_pixels_cong: "(\<forall>i<n. f i = g i) \<Longrightarrow> \<forall>i<n. upd_pixels ws f i = upd_pixels ws g i"
proof (induction ws arbitrary: f g)
  case (Cons w ws)
  have "\<forall>i<n. upd_pixel w f i = upd_pixel w g i"
    using Cons.prems by (cases w) (simp add: upd_pixel_def)
  from Cons.IH [OF this] show ?case by (simp add: upd_pixels_def)
qed (simp add: upd_pixels_def)

text \<open>A base whose offsets below \<open>n\<close> resolve to different places.\<close>

lemma fb_store32_loc:
  assumes loc: "\<And>i. i < n \<Longrightarrow> resolve d (base + of_nat i) = loc i" and k: "k + 4 \<le> n"
  shows "fb_store32 d m (base + of_nat k) c =
    m(loc k := byte_of c 0, loc (k + 1) := byte_of c 1, loc (k + 2) := byte_of c 2, loc (k + 3) := byte_of c 3)"
proof -
  have "base + of_nat k + 1 = base + of_nat (k + 1)" "base + of_nat k + 2 = base + of_nat (k + 2)"
    "base + of_nat k + 3 = base + of_nat (k + 3)" by simp_all
  then show ?thesis
    using k loc [of k] loc [of "k + 1"] loc [of "k + 2"] loc [of "k + 3"]
    unfolding fb_store32_def by (simp only:)
qed

lemma fb_store32_upd:
  assumes "\<And>i. i < n \<Longrightarrow> resolve d (base + of_nat i) = loc i" and "inj_on loc {..<n}" and "k + 4 \<le> n" "i < n"
  shows "fb_store32 d m (base + of_nat k) c (loc i) = upd_pixel (k, c) (\<lambda>i. m (loc i)) i"
proof -
  have "loc i = loc j \<longleftrightarrow> i = j" if "j < n" for j
    using assms(2,4) that by (auto simp: inj_on_def)
  moreover have "fb_store32 d m (base + of_nat k) c =
      m(loc k := byte_of c 0, loc (k + 1) := byte_of c 1, loc (k + 2) := byte_of c 2, loc (k + 3) := byte_of c 3)"
    using assms(1,3) by (rule fb_store32_loc [where n = n])
  ultimately show ?thesis using assms(3) by (simp add: upd_pixel_def)
qed

lemma put_pixels_upd:
  assumes loc: "\<And>i. i < n \<Longrightarrow> resolve d (base + of_nat i) = loc i" and inj: "inj_on loc {..<n}"
    and i: "i < n"
  shows "pixels_in n ws \<Longrightarrow> put_pixels d base ws m (loc i) = upd_pixels ws (\<lambda>i. m (loc i)) i"
proof (induction ws arbitrary: m)
  case (Cons w ws)
  obtain k c where w: "w = (k, c)" by (cases w)
  have k: "k + 4 \<le> n" "pixels_in n ws" using Cons.prems(1) by (auto simp: pixels_in_def w)
  let ?m = "fb_store32 d m (base + of_nat k) c"
  have "\<forall>i<n. ?m (loc i) = upd_pixel w (\<lambda>i. m (loc i)) i"
    using fb_store32_upd [OF loc inj k(1)] by (simp add: w)
  from upd_pixels_cong [OF this, of ws] show ?case
    using Cons.IH [OF k(2), of ?m] i by (simp add: put_pixels_def upd_pixels_def w)
qed (simp add: put_pixels_def upd_pixels_def)

lemma put_pixels_other:
  assumes loc: "\<And>i. i < n \<Longrightarrow> resolve d (base + of_nat i) = loc i" and a: "a \<notin> loc ` {..<n}"
  shows "pixels_in n ws \<Longrightarrow> put_pixels d base ws m a = m a"
proof (induction ws arbitrary: m)
  case (Cons w ws)
  obtain k c where w: "w = (k, c)" by (cases w)
  have k: "k + 4 \<le> n" "pixels_in n ws" using Cons.prems(1) by (auto simp: pixels_in_def w)
  have "fb_store32 d m (base + of_nat k) c =
      m(loc k := byte_of c 0, loc (k + 1) := byte_of c 1, loc (k + 2) := byte_of c 2, loc (k + 3) := byte_of c 3)"
    using loc k(1) by (rule fb_store32_loc [where n = n])
  then have "fb_store32 d m (base + of_nat k) c a = m a" using a k(1) by (auto simp: image_iff)
  then show ?case using Cons.IH [OF k(2)] by (simp add: put_pixels_def w)
qed (simp add: put_pixels_def)

lemma inj_screen: "fb_layout d \<Longrightarrow> inj_on (screen_at d) {..<unat (fb_size d)}"
  by (rule inj_onI) (metis add_left_cancel lessThan_iff unat_screen_at)

lemma inj_window:
  assumes "fb_layout d"
  shows "inj_on (window_at d) {..<unat (fb_size d)}"
proof (rule inj_onI)
  fix i j assume ij: "i \<in> {..<unat (fb_size d)}" "j \<in> {..<unat (fb_size d)}" and "window_at d i = window_at d j"
  then have "(unat (fb_offset d) + i) mod unat (fb_size d) = (unat (fb_offset d) + j) mod unat (fb_size d)"
    using unat_window_at [OF assms, of i] unat_window_at [OF assms, of j] by simp
  then show "i = j" using ij ring_distinct [of i j "unat (fb_size d)"] ring_distinct [of j i "unat (fb_size d)"]
    by (metis lessThan_iff less_imp_diff_less linorder_neqE_nat)
qed

text \<open>Writing the same pixels to the screen and to the window keeps them equal.\<close>

lemma put_both:
  assumes d: "fb_layout d" and "shows_window d m" and ws: "pixels_in (unat (fb_size d)) ws"
  shows "shows_window d (put_pixels d (fb_offscreen d + fb_offset d) ws (put_pixels d (fb_framebuffer d) ws m))"
proof -
  let ?n = "unat (fb_size d)"
  let ?m1 = "put_pixels d (fb_framebuffer d) ws m"
  let ?m2 = "put_pixels d (fb_offscreen d + fb_offset d) ws ?m1"
  note screen = put_pixels_upd [OF resolve_screen [OF d] inj_screen [OF d]]
    put_pixels_other [OF resolve_screen [OF d]]
  note window = put_pixels_upd [OF resolve_window [OF d] inj_window [OF d]]
    put_pixels_other [OF resolve_window [OF d]]
  have "?m2 (screen_at d i) = ?m2 (window_at d i)" if i: "i < ?n" for i
  proof -
    have out: "screen_at d i \<notin> window_at d ` {..<?n}" using screen_not_window [OF d i] by blast
    have out': "window_at d j \<notin> screen_at d ` {..<?n}" for j
      using screen_not_window [OF d] by (metis imageE lessThan_iff)
    have "?m2 (screen_at d i) = upd_pixels ws (\<lambda>i. m (screen_at d i)) i"
      using window(2) [OF _ out ws] screen(1) [OF _ i ws] by simp
    also have "\<dots> = upd_pixels ws (\<lambda>i. m (window_at d i)) i"
      using upd_pixels_cong [of ?n "\<lambda>i. m (screen_at d i)" "\<lambda>i. m (window_at d i)" ws] assms(2) i
      by (simp add: shows_window_def)
    also have "\<dots> = upd_pixels ws (\<lambda>i. ?m1 (window_at d i)) i"
      using screen(2) [OF _ out' ws] by simp
    also have "\<dots> = ?m2 (window_at d i)" using window(1) [OF _ i ws] by simp
    finally show ?thesis .
  qed
  then show ?thesis by (simp add: shows_window_def)
qed

section \<open>The drawing operations as pixel writes\<close>

lemma blit_row_pixels:
  "blit_row d data (base + of_nat k) width m =
     put_pixels d base (map (\<lambda>x. (k + 4 * x, data x)) [0..<unat width]) m"
  unfolding blit_row_def put_pixels_def fold_map
  by (rule fold_cong) (auto simp: fun_eq_iff algebra_simps)

lemma put_pixels_append: "put_pixels d base (ws @ ws') m = put_pixels d base ws' (put_pixels d base ws m)"
  unfolding put_pixels_def fold_append comp_def ..

text \<open>The pixels of a glyph, row by row.\<close>

fun glyph_writes :: "nat \<Rightarrow> (nat \<Rightarrow> u8) \<Rightarrow> nat \<Rightarrow> nat \<Rightarrow> nat \<Rightarrow> u32 \<Rightarrow> u32 \<Rightarrow> nat \<Rightarrow> (nat \<times> u32) list" where
  "glyph_writes 0 data k width stride fg bg bw = []"
| "glyph_writes (Suc h) data k width stride fg bg bw =
     map (\<lambda>x. (k + 4 * x, glyph_pixel data fg bg x)) [0..<width] @
     glyph_writes h (\<lambda>i. data (i + stride)) (k + 4 * bw) width stride fg bg bw"

lemma do_blit_char_pixels:
  "do_blit_char h d data (base + of_nat k) width stride fg bg bw m =
     put_pixels d base (glyph_writes h data k (unat width) (unat (stride div 8)) fg bg (unat bw)) m"
proof (induction h arbitrary: data k m)
  case (Suc h)
  have "base + of_nat k + 4 * bw = base + of_nat (k + 4 * unat bw)" by simp
  then show ?case
    using Suc.IH [of "\<lambda>i. data (i + unat (stride div 8))" "k + 4 * unat bw"]
    by (simp only: do_blit_char.simps glyph_writes.simps blit_row_pixels put_pixels_append)
qed (simp add: put_pixels_def)

lemma glyph_writes_in:
  "k + 4 * (h * bw) \<le> n + 4 * (bw - width) \<Longrightarrow> width \<le> bw \<Longrightarrow> pixels_in n (glyph_writes h data k width stride fg bg bw)"
proof (induction h arbitrary: data k)
  case (Suc h)
  have "k + 4 * x + 4 \<le> n" if "x < width" for x
  proof -
    have "k + 4 * bw \<le> n + 4 * (bw - width)" using Suc.prems(1) by simp
    then show ?thesis using that Suc.prems(2) by simp
  qed
  moreover have "pixels_in n (glyph_writes h (\<lambda>i. data (i + stride)) (k + 4 * bw) width stride fg bg bw)"
    using Suc.prems by (intro Suc.IH) (auto simp: algebra_simps)
  ultimately show ?case by (auto simp: pixels_in_def)
qed (simp add: pixels_in_def)

lemma fb_fill_pixels:
  "fb_fill n d (base + of_nat k) color m = put_pixels d base (map (\<lambda>x. (k + 4 * x, color)) [0..<n]) m"
proof (induction n arbitrary: k m)
  case (Suc n)
  have "base + of_nat k + 4 = base + of_nat (k + 4)" by simp
  moreover have "map (\<lambda>x. (k + 4 * x, color)) [0..<Suc n] =
      (k, color) # map (\<lambda>x. (k + 4 + 4 * x, color)) [0..<n]"
    by (simp add: upt_conv_Cons map_Suc_upt [symmetric] del: upt_Suc)
  ultimately show ?case
    using Suc.IH [of "k + 4"] by (simp add: put_pixels_def add.assoc del: upt_Suc)
qed (simp add: put_pixels_def)

lemma pixel_offset: "(y * w + x) * 4 = (of_nat (4 * (unat y * unat w + unat x)) :: u32)"
  by (simp add: algebra_simps)

text \<open>
  C30. Drawing a character inside the screen keeps the screen and the window of the off-screen buffer
  equal, wherever the window starts and also when it wraps around the end of the buffer.
\<close>

theorem blit_character_mirrors:
  assumes "fb_layout d" "fb_geometry d" "shows_window d (fb_mem d)"
    and "unat x + unat width \<le> unat (fb_width d)" "unat y + unat height \<le> unat (fb_height d)"
  shows "let d' = blit_character d data True x y width height stride fg bg
    in fb_layout d' \<and> fb_geometry d' \<and> shows_window d' (fb_mem d')"
proof -
  let ?d = "blit_character d data True x y width height stride fg bg"
  let ?w = "unat (fb_width d)"
  let ?k = "4 * (unat y * ?w + unat x)"
  let ?ws = "glyph_writes (unat height) data ?k (unat width) (unat (stride div 8)) fg bg ?w"
  have "(unat y + unat height) * ?w \<le> unat (fb_height d) * ?w" using assms(5) by (rule mult_right_mono) simp
  then have "4 * ((unat y + unat height) * ?w) \<le> unat (fb_size d)"
    using assms(2) by (simp add: fb_geometry_def mult.commute)
  then have "pixels_in (unat (fb_size d)) ?ws"
    using assms(4) by (intro glyph_writes_in) (auto simp: algebra_simps)
  then have "shows_window d (put_pixels d (fb_offscreen d + fb_offset d) ?ws (put_pixels d (fb_framebuffer d) ?ws (fb_mem d)))"
    using assms(1,3) by (intro put_both)
  moreover have "is_initialized d" using assms(1) by (simp add: fb_layout_def is_initialized_def)
  then have "?d = d\<lparr>fb_mem := put_pixels d (fb_offscreen d + fb_offset d) ?ws (put_pixels d (fb_framebuffer d) ?ws (fb_mem d))\<rparr>"
    unfolding blit_character_def Let_def pixel_offset do_blit_char_pixels by simp
  ultimately show ?thesis
    using assms(1,2) by (simp add: Let_def fb_layout_def fb_geometry_def shows_window_def screen_at_def window_at_def)
qed

text \<open>A screen of 8 by 2 pixels at the address 0x1000, with the window at the last row.\<close>

definition small_screen :: framebuffer_device where
  "small_screen = \<lparr>fb_mem = (\<lambda>_. 0), fb_offscreen = 0x2000, fb_offset = 32, fb_framebuffer = 0x1000,
     fb_size = 64, fb_width = 8, fb_height = 2\<rparr>"

lemma small_screen_ok:
  "fb_layout small_screen" "fb_geometry small_screen" "shows_window small_screen (fb_mem small_screen)"
  by (simp_all add: small_screen_def fb_layout_def fb_geometry_def shows_window_def)

theorem blit_character_mirrors_witness:
  "let d = blit_character small_screen (\<lambda>_. 0xAA) True 0 1 8 1 8 0xFFFFFF 0
   in fb_layout d \<and> fb_geometry d \<and> shows_window d (fb_mem d)"
  using small_screen_ok by (rule blit_character_mirrors) (simp_all add: small_screen_def)

section \<open>Clearing\<close>

lemma clear_screen_pixels:
  assumes "fb_layout d" "unat start + unat n * 4 < 2 ^ 32" "start = (fy * fb_width d + fx) * 4"
    and "(ty * fb_width d + tx) * 4 = start + n * 4"
  shows "clear_screen d True fx fy tx ty color = d\<lparr>fb_mem :=
    (let ws = map (\<lambda>x. (unat start + 4 * x, color)) [0..<unat n]
     in put_pixels d (fb_offscreen d + fb_offset d) ws (put_pixels d (fb_framebuffer d) ws (fb_mem d)))\<rparr>"
proof -
  have "unat (n * 4) = unat n * 4" using assms(2) by (subst unat_mult_small) auto
  then have n: "unat ((start + n * 4 - start) div 4) = unat n" by simp
  have s: "start = of_nat (unat start)" by simp
  show ?thesis
    unfolding clear_screen_def Let_def assms(4) assms(3) [symmetric] n
    using assms(1) fb_fill_pixels [of "unat n" d "fb_framebuffer d" "unat start" color]
      fb_fill_pixels [of "unat n" d "fb_offscreen d + fb_offset d" "unat start" color]
    by (simp add: is_initialized_def fb_layout_def)
qed

lemma fill_bytes: "i < 4 * n \<Longrightarrow> upd_pixels (map (\<lambda>x. (4 * x, c)) [0..<n]) f i = byte_of c (i mod 4)"
proof (induction n)
  case (Suc n)
  have u: "upd_pixels (map (\<lambda>x. (4 * x, c)) [0..<Suc n]) f i =
      upd_pixel (4 * n, c) (upd_pixels (map (\<lambda>x. (4 * x, c)) [0..<n]) f) i"
    by (simp add: upd_pixels_def)
  show ?case
  proof (cases "i < 4 * n")
    case True
    then show ?thesis using Suc.IH unfolding u by (simp add: upd_pixel_def)
  next
    case False
    then obtain j where "i = 4 * n + j" "j < 4" using Suc.prems by (metis add_less_cancel_left le_add_diff_inverse
          linorder_not_less mult_Suc_right add.commute)
    moreover from this have "j = 0 \<or> j = 1 \<or> j = 2 \<or> j = 3" by auto
    ultimately show ?thesis unfolding u by (auto simp: upd_pixel_def)
  qed
qed simp

text \<open>
  \<open>FramebufferConsole::clear\<close> clears the whole screen with the corner behind the last pixel
  row and the last pixel column. \<open>clear_screen\<close> takes it as the first pixel not to clear, so it
  writes one more row of pixels: the bytes behind the end of the framebuffer get the colour.
\<close>

theorem clear_whole_screen_overruns:
  assumes d: "fb_layout d" and g: "fb_geometry d" and i: "i < 4 * unat (fb_width d)"
    and gap: "unat (fb_framebuffer d) + unat (fb_size d) + 4 * unat (fb_width d) \<le> unat (fb_offscreen d)"
    and top: "unat (fb_offscreen d) + 2 * unat (fb_size d) + 4 * unat (fb_width d) < 2 ^ 32"
  shows "fb_mem (clear_screen d True 0 0 (fb_width d) (fb_height d) color) (fb_framebuffer d + fb_size d + of_nat i) =
    byte_of color (i mod 4)"
proof -
  let ?f = "unat (fb_framebuffer d)" and ?s = "unat (fb_size d)" and ?w = "unat (fb_width d)"
  let ?b = "unat (fb_offscreen d)"
  let ?n = "(unat (fb_height d) + 1) * ?w"
  let ?ws = "map (\<lambda>x. (0 + 4 * x, color)) [0..<?n]"
  have n4: "4 * ?n = ?s + 4 * ?w" using g by (simp add: fb_geometry_def algebra_simps)
  have "(fb_height d * fb_width d + fb_width d) = of_nat ?n" by (simp add: algebra_simps)
  then have e: "(fb_height d * fb_width d + fb_width d) * 4 = 0 + of_nat ?n * 4" by simp
  have un: "unat (of_nat ?n :: u32) = ?n" using n4 top by (intro unat_of_nat_small) simp
  have mem: "fb_mem (clear_screen d True 0 0 (fb_width d) (fb_height d) color) =
      put_pixels d (fb_offscreen d + fb_offset d) ?ws (put_pixels d (fb_framebuffer d) ?ws (fb_mem d))"
    using clear_screen_pixels [of d 0 "of_nat ?n" 0 0 "fb_height d" "fb_width d" color] d e un n4 top
    by (simp add: Let_def)
  have ws: "pixels_in (4 * ?n) ?ws" by (auto simp: pixels_in_def)
  have screen: "resolve d (fb_framebuffer d + of_nat k) = fb_framebuffer d + of_nat k"
    "unat (fb_framebuffer d + of_nat k :: u32) = ?f + k" if "k < 4 * ?n" for k
  proof -
    show u: "unat (fb_framebuffer d + of_nat k :: u32) = ?f + k"
      using that n4 gap top by (intro unat_plus_of_nat) simp
    show "resolve d (fb_framebuffer d + of_nat k) = fb_framebuffer d + of_nat k"
      using u that n4 gap unfolding resolve_unat [OF d] by simp
  qed
  have inj: "inj_on (\<lambda>k. fb_framebuffer d + of_nat k :: addr) {..<4 * ?n}"
    by (rule inj_onI) (metis screen(2) add_left_cancel lessThan_iff)
  let ?a = "fb_framebuffer d + of_nat (?s + i) :: addr"
  have out: "?a \<notin> (\<lambda>k. resolve d (fb_offscreen d + fb_offset d + of_nat k)) ` {..<4 * ?n}"
  proof
    assume "?a \<in> (\<lambda>k. resolve d (fb_offscreen d + fb_offset d + of_nat k)) ` {..<4 * ?n}"
    then obtain k where k: "k < 4 * ?n" "?a = resolve d (fb_offscreen d + fb_offset d + of_nat k)" by blast
    have o: "unat (fb_offset d) < ?s" using d by (simp add: fb_layout_def word_less_nat_alt)
    have "unat (fb_offscreen d + of_nat (unat (fb_offset d) + k) :: u32) = ?b + (unat (fb_offset d) + k)"
      using o k(1) n4 top by (intro unat_plus_of_nat) linarith
    then have u: "unat (fb_offscreen d + fb_offset d + of_nat k) = ?b + (unat (fb_offset d) + k)"
      by (simp add: add.assoc)
    have "?b \<le> unat (resolve d (fb_offscreen d + fb_offset d + of_nat k))"
      using u unfolding resolve_unat [OF d] by (auto simp: unat_sub_small)
    moreover have "unat ?a = ?f + (?s + i)" using screen(2) [of "?s + i"] i n4 by simp
    ultimately show False using k(2) gap i by simp
  qed
  have "put_pixels d (fb_framebuffer d) ?ws (fb_mem d) ?a = upd_pixels ?ws (\<lambda>k. fb_mem d (fb_framebuffer d + of_nat k)) (?s + i)"
    using put_pixels_upd [of "4 * ?n" d "fb_framebuffer d" "\<lambda>k. fb_framebuffer d + of_nat k" "?s + i" ?ws] screen inj ws i n4
    by simp
  also have "\<dots> = byte_of color ((?s + i) mod 4)" using fill_bytes [of "?s + i" ?n color] i n4 by simp
  also have "(?s + i) mod 4 = i mod 4" using g by (simp add: fb_geometry_def)
  finally show ?thesis
    using put_pixels_other [of "4 * ?n" d "fb_offscreen d + fb_offset d" _ ?a ?ws, OF refl out ws] mem
    by (simp add: add.assoc)
qed

theorem clear_whole_screen_overruns_witness:
  "fb_mem (clear_screen small_screen True 0 0 8 2 0x00AA5500) 0x1041 = 0x55"
  using clear_whole_screen_overruns [of small_screen 1 "0x00AA5500"] small_screen_ok
  by (simp add: small_screen_def byte_of_def)

section \<open>Scrolling\<close>

lemma copy_window_from:
  assumes "fb_layout d"
  shows "k + n = unat (fb_size d) \<Longrightarrow>
    (k \<le> i \<longrightarrow> i < unat (fb_size d) \<longrightarrow>
      copy_window n d (fb_framebuffer d + of_nat k) (fb_offscreen d + fb_offset d + of_nat k) m (screen_at d i) =
        m (window_at d i)) \<and>
    (a \<notin> screen_at d ` {k..<unat (fb_size d)} \<longrightarrow>
      copy_window n d (fb_framebuffer d + of_nat k) (fb_offscreen d + fb_offset d + of_nat k) m a = m a)"
proof (induction n arbitrary: k m i a)
  case (Suc n)
  let ?s = "unat (fb_size d)"
  let ?m = "m(screen_at d k := m (window_at d k))"
  let ?c = "copy_window n d (fb_framebuffer d + of_nat (Suc k)) (fb_offscreen d + fb_offset d + of_nat (Suc k)) ?m"
  have k: "k < ?s" using Suc.prems by simp
  have step: "copy_window (Suc n) d (fb_framebuffer d + of_nat k) (fb_offscreen d + fb_offset d + of_nat k) m = ?c"
    using resolve_screen [OF assms k] resolve_window [OF assms k] by (simp add: ac_simps)
  have w: "?m (window_at d j) = m (window_at d j)" for j using screen_not_window [OF assms k, of j] by simp
  have n: "Suc k + n = ?s" using Suc.prems by simp
  have IH1: "?c (screen_at d j) = ?m (window_at d j)" if "Suc k \<le> j" "j < ?s" for j
    using Suc.IH [OF n, of j ?m] that by blast
  have IH2: "?c b = ?m b" if "b \<notin> screen_at d ` {Suc k..<?s}" for b
    using Suc.IH [OF n, of _ ?m b] that by blast
  have fresh: "screen_at d k \<notin> screen_at d ` {Suc k..<?s}"
    using inj_screen [OF assms] k by (auto dest: inj_onD)
  show ?case
  proof (intro conjI impI)
    assume i: "k \<le> i" "i < ?s"
    show "copy_window (Suc n) d (fb_framebuffer d + of_nat k) (fb_offscreen d + fb_offset d + of_nat k) m
        (screen_at d i) = m (window_at d i)"
      unfolding step using i IH1 [of i] IH2 [OF fresh] w by (cases "i = k") auto
  next
    assume "a \<notin> screen_at d ` {k..<?s}"
    then have "a \<noteq> screen_at d k" "a \<notin> screen_at d ` {Suc k..<?s}" using k by auto
    then show "copy_window (Suc n) d (fb_framebuffer d + of_nat k) (fb_offscreen d + fb_offset d + of_nat k) m a = m a"
      unfolding step using IH2 [of a] by simp
  qed
qed simp

lemma blit_screen_copies:
  assumes "fb_layout d"
  shows "i < unat (fb_size d) \<Longrightarrow> fb_mem (blit_screen d) (screen_at d i) = fb_mem d (window_at d i)"
    and "fb_mem (blit_screen d) (window_at d j) = fb_mem d (window_at d j)"
proof -
  have init: "is_initialized d" using assms by (simp add: fb_layout_def is_initialized_def)
  show "i < unat (fb_size d) \<Longrightarrow> fb_mem (blit_screen d) (screen_at d i) = fb_mem d (window_at d i)"
    using init copy_window_from [OF assms, of 0 "unat (fb_size d)" i "fb_mem d"] by (simp add: blit_screen_def)
  have "window_at d j \<notin> screen_at d ` {0..<unat (fb_size d)}"
    using screen_not_window [OF assms] by (metis atLeastLessThan_iff imageE)
  then show "fb_mem (blit_screen d) (window_at d j) = fb_mem d (window_at d j)"
    using init copy_window_from [OF assms, of 0 "unat (fb_size d)" 0 "fb_mem d" "window_at d j"]
    by (simp add: blit_screen_def)
qed

text \<open>The start of the window after scrolling by a signed number of pixel rows.\<close>

definition scroll_offset :: "framebuffer_device \<Rightarrow> u32 \<Rightarrow> u32" where
  "scroll_offset d amount =
     (let count = amount * fb_width d * 4
      in if count <s 0 \<and> fb_offset d <s - count then fb_size d + (count + fb_offset d)
         else (fb_offset d + count) mod fb_size d)"

lemma scroll_offset_up:
  assumes "unat n * unat (fb_width d) * 4 \<le> unat (fb_size d)" "unat (fb_size d) < 2 ^ 31" "fb_offset d < fb_size d"
  shows "unat (scroll_offset d n) = (unat (fb_offset d) + unat n * unat (fb_width d) * 4) mod unat (fb_size d)"
proof -
  let ?c = "n * fb_width d * 4"
  have "unat n * unat (fb_width d) < 2 ^ 32" using assms(1,2) by simp
  then have "unat (n * fb_width d) = unat n * unat (fb_width d)" by (intro unat_mult_small) simp
  then have c: "unat ?c = unat n * unat (fb_width d) * 4"
    using assms(1,2) by (subst unat_mult_small) auto
  have "\<not> ?c <s 0" using assms(1,2) c by (subst sless_unat) auto
  moreover have "unat (fb_offset d + ?c) = unat (fb_offset d) + unat ?c"
    using assms c by (intro unat_add_small) (simp add: word_less_nat_alt)
  ultimately show ?thesis by (simp add: scroll_offset_def Let_def c)
qed

lemma neg_sless_0:
  fixes c :: u32
  assumes "0 < unat c" "unat c < 2 ^ 31"
  shows "- c <s 0"
proof -
  have i: "sint c = int (unat c)" by (rule sint_unat_small [OF assms(2)])
  have "0 < int (unat c)" "int (unat c) < int (2 ^ 31)" using assms by (simp_all only: of_nat_less_iff of_nat_0_less_iff)
  then have c: "0 < sint c" "sint c < 2 ^ 31" unfolding i by simp_all
  then have "signed_take_bit 31 (- sint c) = - sint c" by (intro signed_take_bit_int_eq_self) simp_all
  then have "sint (- c) = - sint c" by (simp add: sint_word_minus)
  then show ?thesis using c by (simp add: word_sless_alt)
qed

lemma scroll_offset_down:
  assumes "unat n * unat (fb_width d) * 4 \<le> unat (fb_size d)" "unat (fb_size d) < 2 ^ 31"
    "fb_offset d < fb_size d"
  shows "unat (scroll_offset d (- n)) =
    (unat (fb_offset d) + (unat (fb_size d) - unat n * unat (fb_width d) * 4)) mod unat (fb_size d)"
proof -
  let ?c = "n * fb_width d * 4" and ?o = "unat (fb_offset d)" and ?s = "unat (fb_size d)"
  have "unat n * unat (fb_width d) < 2 ^ 32" using assms(1,2) by simp
  then have "unat (n * fb_width d) = unat n * unat (fb_width d)" by (intro unat_mult_small) simp
  then have c: "unat ?c = unat n * unat (fb_width d) * 4"
    using assms(1,2) by (subst unat_mult_small) auto
  have o: "?o < ?s" using assms(3) by (simp add: word_less_nat_alt)
  have neg: "- n * fb_width d * 4 = - ?c" by simp
  have test: "fb_offset d <s - (- ?c) \<longleftrightarrow> ?o < unat ?c"
    using c assms o by (subst minus_minus, subst sless_unat) auto
  show ?thesis
  proof (cases "?o < unat ?c")
    case True
    have "unat ?c - ?o \<le> ?s" using c assms(1) by simp
    have eq: "fb_size d + (- ?c + fb_offset d) = fb_size d - (?c - fb_offset d)" by simp
    have "unat (?c - fb_offset d) = unat ?c - ?o" using True by (simp add: unat_sub_small)
    then have u: "unat (fb_size d - (?c - fb_offset d)) = ?s - (unat ?c - ?o)"
      using \<open>unat ?c - ?o \<le> ?s\<close> by (simp add: unat_sub_small)
    have "0 < unat ?c" using True by linarith
    moreover have "unat ?c < 2 ^ 31" unfolding c using assms(1,2) by linarith
    ultimately have "- ?c <s 0 \<and> fb_offset d <s - (- ?c)" using True test neg_sless_0 by blast
    then have "scroll_offset d (- n) = fb_size d + (- ?c + fb_offset d)"
      unfolding scroll_offset_def Let_def neg by (rule if_P)
    then have "unat (scroll_offset d (- n)) = ?s - (unat ?c - ?o)" by (simp only: eq u)
    moreover have "?s - (unat ?c - ?o) = ?o + (?s - unat ?c)" using True c assms(1) by simp
    moreover have "?o + (?s - unat ?c) < ?s" using True c assms(1) by simp
    ultimately show ?thesis unfolding c by simp
  next
    case False
    then have "unat (fb_offset d + - ?c) = ?o - unat ?c" by (simp add: unat_sub_small)
    then have "unat (scroll_offset d (- n)) = (?o - unat ?c) mod ?s"
      using False test unfolding scroll_offset_def Let_def neg by simp
    moreover have "?o + (?s - unat ?c) = (?o - unat ?c) + ?s" using False c assms(1) by simp
    ultimately show ?thesis unfolding c by simp
  qed
qed

text \<open>
  C28. Scrolling by \<open>n\<close> pixel rows, up or down, moves the picture: afterwards every byte of the screen
  is the byte that was \<open>n\<close> rows below or above it, the rows that leave the screen coming back at the
  other end, and the screen shows the window again.
\<close>

theorem scroll_vertical_moves:
  assumes "fb_layout d" "shows_window d (fb_mem d)" "unat (fb_size d) < 2 ^ 31"
    and n: "unat n * unat (fb_width d) * 4 \<le> unat (fb_size d)" "n \<noteq> 0"
    and shift: "amount = n \<and> shift = unat n * unat (fb_width d) * 4 \<or>
      amount = - n \<and> shift = unat (fb_size d) - unat n * unat (fb_width d) * 4"
  shows "\<exists>d'. scroll_vertical d amount = Inr d' \<and> fb_layout d' \<and> shows_window d' (fb_mem d') \<and>
       (\<forall>i<unat (fb_size d). fb_mem d' (screen_at d i) =
          fb_mem d (screen_at d ((i + shift) mod unat (fb_size d))))"
proof -
  let ?s = "unat (fb_size d)"
  let ?e = "d\<lparr>fb_offset := scroll_offset d amount\<rparr>"
  have o: "fb_offset d < fb_size d" "0 < ?s" "is_initialized d"
    using assms(1) layout_pos by (auto simp: fb_layout_def is_initialized_def)
  have off: "unat (scroll_offset d amount) = (unat (fb_offset d) + shift) mod ?s"
    using shift scroll_offset_up [OF n(1) assms(3) o(1)] scroll_offset_down [OF n(1) assms(3) o(1)] by auto
  have "fb_size d \<noteq> 0" using o(2) by auto
  then have sv: "scroll_vertical d amount = Inr (blit_screen ?e)"
    using o(3) n(2) shift by (auto simp: scroll_vertical_def scroll_offset_def Let_def)
  have e: "fb_layout ?e" "unat (fb_size ?e) = ?s" "\<And>i. screen_at ?e i = screen_at d i" "fb_mem ?e = fb_mem d"
    using assms(1) off o(2) by (simp_all add: fb_layout_def word_less_nat_alt screen_at_def)
  have win: "window_at ?e i = window_at d (i + shift)" for i
    by (simp add: window_at_def off mod_add_left_eq add.assoc add.commute [of shift])
  have wrap: "window_at d j = window_at d (j mod ?s)" for j
    by (simp add: window_at_def mod_add_right_eq)
  have lay: "fb_layout (blit_screen ?e)" "fb_size (blit_screen ?e) = fb_size d"
    "\<And>i. screen_at (blit_screen ?e) i = screen_at ?e i" "\<And>i. window_at (blit_screen ?e) i = window_at ?e i"
    using e(1) by (auto simp: blit_screen_def fb_layout_def screen_at_def window_at_def)
  have "fb_mem (blit_screen ?e) (screen_at d i) = fb_mem d (screen_at d ((i + shift) mod ?s))" if "i < ?s" for i
  proof -
    have "fb_mem (blit_screen ?e) (screen_at d i) = fb_mem d (window_at d ((i + shift) mod ?s))"
      using blit_screen_copies(1) [OF e(1), of i] that e win wrap [of "i + shift"] by simp
    then show ?thesis using assms(2) o(2) by (simp add: shows_window_def)
  qed
  moreover have "shows_window (blit_screen ?e) (fb_mem (blit_screen ?e))"
    using blit_screen_copies [OF e(1)] e lay by (simp add: shows_window_def)
  ultimately show ?thesis using lay(1) sv by blast
qed

theorem scroll_vertical_moves_witness:
  "\<exists>d. scroll_vertical (small_screen\<lparr>fb_mem := (\<lambda>a. if a = 0x1025 \<or> a = 0x2005 then 7 else 0)\<rparr>) 1 = Inr d \<and>
    fb_mem d 0x1005 = 7"
proof -
  let ?d = "small_screen\<lparr>fb_mem := (\<lambda>a. if a = 0x1025 \<or> a = 0x2005 then 7 else 0)\<rparr>"
  have "fb_layout ?d" using small_screen_ok(1) by (simp add: fb_layout_def)
  moreover have "list_all (\<lambda>i. fb_mem ?d (screen_at ?d i) = fb_mem ?d (window_at ?d i)) [0..<64]" by code_simp
  then have "shows_window ?d (fb_mem ?d)"
    by (simp add: shows_window_def list_all_iff small_screen_def)
  ultimately have "\<exists>d'. scroll_vertical ?d 1 = Inr d' \<and> fb_layout d' \<and> shows_window d' (fb_mem d') \<and>
        (\<forall>i<unat (fb_size ?d). fb_mem d' (screen_at ?d i) = fb_mem ?d (screen_at ?d ((i + 32) mod unat (fb_size ?d))))"
    by (rule scroll_vertical_moves [where n = 1]) (simp_all add: small_screen_def)
  then obtain d' where "scroll_vertical ?d 1 = Inr d'"
    "fb_mem d' (screen_at ?d 5) = fb_mem ?d (screen_at ?d ((5 + 32) mod unat (fb_size ?d)))"
    by (auto simp: small_screen_def)
  moreover from this(2) have "fb_mem d' 0x1005 = 7" by (simp add: small_screen_def screen_at_def)
  ultimately show ?thesis by blast
qed

end
