(* ===== verification/Console.thy ===== *)
theory Console
  imports FramebufferSpec
begin

text \<open>
  \<open>include/tty/Console.hpp\<close>, \<open>include/tty/ANSIColor.hpp\<close> and \<open>tty/FramebufferConsole.cpp\<close>: a console is
  a grid of cells; the one implementation draws them on the framebuffer. The virtual functions of
  \<open>Console\<close> are a record of operations, which the terminal calls.
\<close>

section \<open>Cells and colours\<close>

text \<open>An \<open>ANSIColor\<close> is its integer; the enumerators end at 15, a cast can give any other value.\<close>

definition Black :: u32 where "Black = 0"
definition BrightBlack :: u32 where "BrightBlack = 8"
definition BrightWhite :: u32 where "BrightWhite = 15"

definition color_lut :: "u32 list" where
  "color_lut = [0x00000000, 0x00AA0000, 0x0000AA00, 0x00AA5500, 0x000000AA, 0x00AA00AA, 0x0000AAAA, 0x00AAAAAA,
     0x00555555, 0x00FF5555, 0x0055FF55, 0x00FFFF55, 0x005555FF, 0x00FF55FF, 0x0055FFFF, 0x00FFFFFF]"

definition ANSIColorToRGBA :: "u32 \<Rightarrow> u32 kres" where
  "ANSIColorToRGBA color = (if unat color < length color_lut then Inr (color_lut ! unat color) else Inl BadAccess)"

record cell_t =
  cl_ch :: u8
  cl_fg :: u32
  cl_bg :: u32

definition default_cell :: cell_t where
  "default_cell = \<lparr>cl_ch = 32, cl_fg = 0x00FFFFFF, cl_bg = 0\<rparr>"

text \<open>The virtual functions that the terminal uses.\<close>

record 'c console_ops =
  co_width :: "'c \<Rightarrow> u32"
  co_height :: "'c \<Rightarrow> u32"
  co_scroll_up :: "'c \<Rightarrow> 'c kres"
  co_scroll_down :: "'c \<Rightarrow> 'c kres"
  co_write_char :: "'c \<Rightarrow> u32 \<Rightarrow> u32 \<Rightarrow> u8 \<Rightarrow> 'c kres"
  co_write_region :: "'c \<Rightarrow> u32 \<Rightarrow> u32 \<Rightarrow> u32 \<Rightarrow> u32 \<Rightarrow> cell_t list \<Rightarrow> 'c kres"
  co_clear :: "'c \<Rightarrow> u32 \<Rightarrow> u32 \<Rightarrow> u32 \<Rightarrow> u32 \<Rightarrow> 'c kres"
  co_set_fg :: "'c \<Rightarrow> u32 \<Rightarrow> 'c kres"
  co_set_bg :: "'c \<Rightarrow> u32 \<Rightarrow> 'c kres"
  co_set_cursor :: "'c \<Rightarrow> u32 \<Rightarrow> u32 \<Rightarrow> 'c kres"

section \<open>The framebuffer console\<close>

text \<open>
  \<open>c_events\<close> counts the calls of \<open>on_cursor_tick\<close> that wait in the event manager.
\<close>

record framebuffer_console =
  c_device :: framebuffer_device
  c_font :: psf_font
  c_file :: "u8 list"
  c_fg :: u32
  c_bg :: u32
  c_cursor_row :: u32
  c_cursor_column :: u32
  c_cursor_on :: bool
  c_tick_scheduled :: bool
  c_cells :: "cell_t list"
  c_show_cursor :: bool
  c_events :: nat

text \<open>The constructor divides by the size of the font first; a font without size traps there.\<close>

definition con_width :: "framebuffer_console \<Rightarrow> u32" where
  "con_width c = fb_width (c_device c) div font_width (c_font c)"

definition con_height :: "framebuffer_console \<Rightarrow> u32" where
  "con_height c = fb_height (c_device c) div font_height (c_font c)"

definition cell_index :: "framebuffer_console \<Rightarrow> u32 \<Rightarrow> u32 \<Rightarrow> nat" where
  "cell_index c row column = unat (row * con_width c + column)"

definition get_cell :: "framebuffer_console \<Rightarrow> nat \<Rightarrow> cell_t kres" where
  "get_cell c i = (if i < length (c_cells c) then Inr (c_cells c ! i) else Inl BadAccess)"

definition put_cell :: "framebuffer_console \<Rightarrow> nat \<Rightarrow> cell_t \<Rightarrow> framebuffer_console kres" where
  "put_cell c i x = (if i < length (c_cells c) then Inr (c\<lparr>c_cells := (c_cells c)[i := x]\<rparr>) else Inl BadAccess)"

text \<open>
  Drawing reads the glyph's rows from the font file; a glyph at an absolute address is outside of it.
\<close>

definition draw_cell :: "framebuffer_console \<Rightarrow> cell_t \<Rightarrow> u32 \<Rightarrow> u32 \<Rightarrow> framebuffer_console kres" where
  "draw_cell c cell row column =
     (let ch = (if cl_ch cell = 0 then 32 else cl_ch cell)
      in kbind (get_glyph (c_font c) ch) (\<lambda>g.
         case g_bitmap g of
           None \<Rightarrow> Inr c
         | Some (Absolute b) \<Rightarrow> Inl BadAccess
         | Some (InFile b) \<Rightarrow>
             if b + unat (g_height g) * (unat (g_stride g) div 8) \<le> length (c_file c)
             then Inr (c\<lparr>c_device := blit_character (c_device c) (\<lambda>i. c_file c ! (b + i)) True
                    (column * ucast (g_width g)) (row * ucast (g_height g))
                    (ucast (g_width g)) (ucast (g_height g)) (ucast (g_stride g)) (cl_fg cell) (cl_bg cell)\<rparr>)
             else Inl BadAccess))"

definition draw_cursor :: "framebuffer_console \<Rightarrow> framebuffer_console kres" where
  "draw_cursor c =
     kbind (get_cell c (cell_index c (c_cursor_row c) (c_cursor_column c))) (\<lambda>cell.
       draw_cell c (if c_show_cursor c then cell\<lparr>cl_fg := cl_bg cell, cl_bg := cl_fg cell\<rparr> else cell)
         (c_cursor_row c) (c_cursor_column c))"

definition on_cursor_tick :: "framebuffer_console \<Rightarrow> framebuffer_console kres" where
  "on_cursor_tick c =
     kbind (draw_cursor (c\<lparr>c_tick_scheduled := False, c_show_cursor := \<not> c_show_cursor c\<rparr>)) (\<lambda>c.
       Inr (if c_cursor_on c then c\<lparr>c_tick_scheduled := True, c_events := c_events c + 1\<rparr> else c))"

definition con_set_fg :: "framebuffer_console \<Rightarrow> u32 \<Rightarrow> framebuffer_console kres" where
  "con_set_fg c color = kbind (ANSIColorToRGBA color) (\<lambda>rgba. Inr (c\<lparr>c_fg := rgba\<rparr>))"

definition con_set_bg :: "framebuffer_console \<Rightarrow> u32 \<Rightarrow> framebuffer_console kres" where
  "con_set_bg c color = kbind (ANSIColorToRGBA color) (\<lambda>rgba. Inr (c\<lparr>c_bg := rgba\<rparr>))"

definition console_new :: "framebuffer_device \<Rightarrow> psf_font \<Rightarrow> u8 list \<Rightarrow> framebuffer_console kres" where
  "console_new d f file =
     (if font_width f = 0 \<or> font_height f = 0 then Inl DivZero
      else let c = \<lparr>c_device = d, c_font = f, c_file = file, c_fg = 0x00FFFFFF, c_bg = 0, c_cursor_row = 0,
                    c_cursor_column = 0, c_cursor_on = True, c_tick_scheduled = False, c_cells = [],
                    c_show_cursor = False, c_events = 0\<rparr>;
               n = unat (12 * con_width c * con_height c) div 12;
               c = c\<lparr>c_cells := replicate n \<lparr>cl_ch = 0, cl_fg = 0, cl_bg = 0\<rparr>\<rparr>
           in kbind (con_set_fg c BrightWhite) (\<lambda>c. kbind (con_set_bg c Black) on_cursor_tick))"

definition toggle_cursor :: "framebuffer_console \<Rightarrow> bool \<Rightarrow> framebuffer_console kres" where
  "toggle_cursor c on =
     kbind (if on \<and> \<not> c_tick_scheduled c then on_cursor_tick c else Inr c) (\<lambda>c.
       let c = c\<lparr>c_cursor_on := on\<rparr>
       in if \<not> on
          then kbind (get_cell c (cell_index c (c_cursor_row c) (c_cursor_column c))) (\<lambda>cell.
                 draw_cell c cell (c_cursor_row c) (c_cursor_column c))
          else Inr c)"

definition con_scroll :: "framebuffer_console \<Rightarrow> u32 \<Rightarrow> framebuffer_console kres" where
  "con_scroll c amount =
     kbind (toggle_cursor c False) (\<lambda>c'.
     kbind (scroll_vertical (c_device c') amount) (\<lambda>d.
       toggle_cursor (c'\<lparr>c_device := d\<rparr>) (c_cursor_on c)))"

definition con_scroll_up :: "framebuffer_console \<Rightarrow> framebuffer_console kres" where
  "con_scroll_up c = con_scroll c (font_height (c_font c))"

definition con_scroll_down :: "framebuffer_console \<Rightarrow> framebuffer_console kres" where
  "con_scroll_down c = con_scroll c (- font_height (c_font c))"

definition con_write_cell :: "framebuffer_console \<Rightarrow> u32 \<Rightarrow> u32 \<Rightarrow> cell_t \<Rightarrow> framebuffer_console kres" where
  "con_write_cell c row column cell =
     kbind (put_cell c (cell_index c row column) cell) (\<lambda>c. draw_cell c cell row column)"

definition con_write_char :: "framebuffer_console \<Rightarrow> u32 \<Rightarrow> u32 \<Rightarrow> u8 \<Rightarrow> framebuffer_console kres" where
  "con_write_char c row column ch =
     con_write_cell c row column \<lparr>cl_ch = ch, cl_fg = c_fg c, cl_bg = c_bg c\<rparr>"

definition con_write_line :: "framebuffer_console \<Rightarrow> u32 \<Rightarrow> (nat \<Rightarrow> u8) \<Rightarrow> framebuffer_console kres" where
  "con_write_line c row buffer =
     kfold (\<lambda>column c. con_write_char c row (of_nat column) (buffer column)) [0..<unat (con_width c)] c"

text \<open>The character version of \<open>write_region\<close> draws every cell where it computes it to be.\<close>

definition con_write_chars :: "framebuffer_console \<Rightarrow> u32 \<Rightarrow> u32 \<Rightarrow> u32 \<Rightarrow> u32 \<Rightarrow> (nat \<Rightarrow> u8) \<Rightarrow> framebuffer_console kres" where
  "con_write_chars c from_row from_column to_row to_column buffer =
     (let w = con_width c;
          from_index = from_row * w + from_column;
          to_index = to_row * w + to_column
      in kfold (\<lambda>i c.
           let cell = \<lparr>cl_ch = buffer i, cl_fg = c_fg c, cl_bg = c_bg c\<rparr>
           in kbind (put_cell c (unat (from_index + of_nat i)) cell) (\<lambda>c.
                draw_cell c cell (from_row + of_nat i div w) ((from_column + of_nat i) mod w)))
           [0..<Suc (unat (to_index - from_index))] c)"

definition invalidate :: "framebuffer_console \<Rightarrow> u32 \<Rightarrow> u32 \<Rightarrow> u32 \<Rightarrow> u32 \<Rightarrow> framebuffer_console kres" where
  "invalidate c from_row from_column to_row to_column =
     (let w = con_width c;
          from_index = from_row * w + from_column;
          to_index = to_row * w + to_column
      in kfold (\<lambda>i c. kbind (get_cell c i) (\<lambda>cell.
           draw_cell c cell (from_row + of_nat i div w) ((from_column + of_nat i) mod w)))
           [unat from_index..<Suc (unat to_index)] c)"

text \<open>\<open>memmove\<close> of cells into the grid; the source array has at least as many cells.\<close>

definition move_cells :: "framebuffer_console \<Rightarrow> nat \<Rightarrow> nat \<Rightarrow> cell_t list \<Rightarrow> framebuffer_console kres" where
  "move_cells c at n buf =
     (if at + n \<le> length (c_cells c) \<and> n \<le> length buf
      then Inr (c\<lparr>c_cells := take at (c_cells c) @ take n buf @ drop (at + n) (c_cells c)\<rparr>)
      else Inl BadAccess)"

definition con_write_line_cells :: "framebuffer_console \<Rightarrow> u32 \<Rightarrow> cell_t list \<Rightarrow> framebuffer_console kres" where
  "con_write_line_cells c row buf =
     kbind (move_cells c (unat (row * con_width c)) (unat (con_width c)) buf) (\<lambda>c.
       invalidate c row 0 row (con_width c - 1))"

definition con_write_region :: "framebuffer_console \<Rightarrow> u32 \<Rightarrow> u32 \<Rightarrow> u32 \<Rightarrow> u32 \<Rightarrow> cell_t list \<Rightarrow> framebuffer_console kres" where
  "con_write_region c from_row from_column to_row to_column buf =
     (let from_index = from_row * con_width c + from_column;
          to_index = to_row * con_width c + to_column
      in kbind (move_cells c (unat from_index) (unat (to_index - from_index + 1)) buf) (\<lambda>c.
           invalidate c from_row from_column to_row to_column))"

definition write_blanks :: "framebuffer_console \<Rightarrow> u32 \<Rightarrow> nat list \<Rightarrow> framebuffer_console kres" where
  "write_blanks c row columns = kfold (\<lambda>col c. con_write_char c row (of_nat col) 32) columns c"

definition con_clear :: "framebuffer_console \<Rightarrow> u32 \<Rightarrow> u32 \<Rightarrow> u32 \<Rightarrow> u32 \<Rightarrow> framebuffer_console kres" where
  "con_clear c from_row from_column to_row to_column =
     (if from_row = to_row then write_blanks c from_row [unat from_column..<Suc (unat to_column)]
      else
        kbind (if from_column \<noteq> 0
               then kbind (write_blanks c from_row [unat from_column..<unat (con_width c)]) (\<lambda>c. Inr (c, from_row + 1))
               else Inr (c, from_row)) (\<lambda>(c, from_row).
        kbind (if to_column \<noteq> con_width c - 1
               then kbind (write_blanks c to_row [0..<Suc (unat to_column)]) (\<lambda>c. Inr (c, to_row - 1))
               else Inr (c, to_row)) (\<lambda>(c, to_row).
        kbind (kfold (\<lambda>i c. put_cell c i \<lparr>cl_ch = 32, cl_fg = c_fg c, cl_bg = c_bg c\<rparr>)
                 [unat (from_row * con_width c + from_column)..<unat (to_row * con_width c + to_column)] c) (\<lambda>c.
          let height = font_height (c_font c)
          in Inr (c\<lparr>c_device := clear_screen (c_device c) True 0 (from_row * height) (fb_width (c_device c))
                                   ((to_row + 1) * height) (c_bg c)\<rparr>)))))"

definition con_clear_all :: "framebuffer_console \<Rightarrow> framebuffer_console kres" where
  "con_clear_all c = con_clear c 0 0 (con_height c - 1) (con_width c - 1)"

definition set_cursor_at :: "framebuffer_console \<Rightarrow> u32 \<Rightarrow> u32 \<Rightarrow> framebuffer_console kres" where
  "set_cursor_at c row column =
     kbind (kassert (row < con_height c \<and> column < con_width c)) (\<lambda>_.
     kbind (get_cell c (cell_index c (c_cursor_row c) (c_cursor_column c))) (\<lambda>cell.
     kbind (draw_cell c cell (c_cursor_row c) (c_cursor_column c)) (\<lambda>c.
       draw_cursor (c\<lparr>c_cursor_column := column, c_cursor_row := row\<rparr>))))"

definition fb_ops :: "framebuffer_console console_ops" where
  "fb_ops = \<lparr>co_width = con_width, co_height = con_height, co_scroll_up = con_scroll_up,
     co_scroll_down = con_scroll_down, co_write_char = con_write_char, co_write_region = con_write_region,
     co_clear = con_clear, co_set_fg = con_set_fg, co_set_bg = con_set_bg, co_set_cursor = set_cursor_at\<rparr>"

end
