(* ===== verification/ConsoleSpec.thy ===== *)
theory ConsoleSpec
  imports Console
begin

text \<open>
  The contract of a console, and that the framebuffer console keeps it: inside the grid no operation
  faults, and every operation keeps the size of the grid. Reference functions say what writing a
  character and a whole screen draw.
\<close>

section \<open>The contract\<close>

locale console =
  fixes ops :: "'c console_ops" and inv :: "'c \<Rightarrow> bool"
  assumes size_law: "inv c \<Longrightarrow> 0 < co_width ops c \<and> 0 < co_height ops c \<and>
      unat (co_width ops c) * unat (co_height ops c) < 2 ^ 32"
    and scroll_up_law: "inv c \<Longrightarrow> \<exists>c'. co_scroll_up ops c = Inr c' \<and> inv c' \<and>
      co_width ops c' = co_width ops c \<and> co_height ops c' = co_height ops c"
    and scroll_down_law: "inv c \<Longrightarrow> \<exists>c'. co_scroll_down ops c = Inr c' \<and> inv c' \<and>
      co_width ops c' = co_width ops c \<and> co_height ops c' = co_height ops c"
    and write_char_law: "inv c \<Longrightarrow> row < co_height ops c \<Longrightarrow> column < co_width ops c \<Longrightarrow>
      \<exists>c'. co_write_char ops c row column ch = Inr c' \<and> inv c' \<and>
        co_width ops c' = co_width ops c \<and> co_height ops c' = co_height ops c"
    and write_screen_law: "inv c \<Longrightarrow> length buf = unat (co_width ops c) * unat (co_height ops c) \<Longrightarrow>
      \<exists>c'. co_write_region ops c 0 0 (co_height ops c - 1) (co_width ops c - 1) buf = Inr c' \<and> inv c' \<and>
        co_width ops c' = co_width ops c \<and> co_height ops c' = co_height ops c"
    and clear_row_law: "inv c \<Longrightarrow> row < co_height ops c \<Longrightarrow> to_column < co_width ops c \<Longrightarrow>
      \<exists>c'. co_clear ops c row from_column row to_column = Inr c' \<and> inv c' \<and>
        co_width ops c' = co_width ops c \<and> co_height ops c' = co_height ops c"
    and clear_screen_law: "inv c \<Longrightarrow>
      \<exists>c'. co_clear ops c 0 0 (co_height ops c - 1) (co_width ops c - 1) = Inr c' \<and> inv c' \<and>
        co_width ops c' = co_width ops c \<and> co_height ops c' = co_height ops c"
    and set_fg_law: "inv c \<Longrightarrow> color < 16 \<Longrightarrow> \<exists>c'. co_set_fg ops c color = Inr c' \<and> inv c' \<and>
      co_width ops c' = co_width ops c \<and> co_height ops c' = co_height ops c"
    and set_bg_law: "inv c \<Longrightarrow> color < 16 \<Longrightarrow> \<exists>c'. co_set_bg ops c color = Inr c' \<and> inv c' \<and>
      co_width ops c' = co_width ops c \<and> co_height ops c' = co_height ops c"
    and set_cursor_law: "inv c \<Longrightarrow> row < co_height ops c \<Longrightarrow> column < co_width ops c \<Longrightarrow>
      \<exists>c'. co_set_cursor ops c row column = Inr c' \<and> inv c' \<and>
        co_width ops c' = co_width ops c \<and> co_height ops c' = co_height ops c"
    and set_cursor_outside_law: "inv c \<Longrightarrow> \<not> (row < co_height ops c \<and> column < co_width ops c) \<Longrightarrow>
      co_set_cursor ops c row column = Inl AssertFail"

section \<open>The framebuffer console\<close>

text \<open>
  Every glyph of the font lies inside the font file; the grid has as many cells as fit on the screen,
  and the cursor is one of them. A screen that was configured has at least one byte.
\<close>

definition font_ok :: "psf_font \<Rightarrow> u8 list \<Rightarrow> bool" where
  "font_ok f file = (\<forall>ch. case get_glyph f ch of Inl e \<Rightarrow> False
     | Inr g \<Rightarrow> (case g_bitmap g of None \<Rightarrow> True
         | Some (Absolute b) \<Rightarrow> False
         | Some (InFile b) \<Rightarrow> b + unat (g_height g) * (unat (g_stride g) div 8) \<le> length file))"

definition fb_inv :: "framebuffer_console \<Rightarrow> bool" where
  "fb_inv c = (font_ok (c_font c) (c_file c) \<and> 0 < con_width c \<and> 0 < con_height c \<and>
     unat (con_width c) * unat (con_height c) < 2 ^ 32 \<and>
     length (c_cells c) = unat (con_width c) * unat (con_height c) \<and>
     c_cursor_row c < con_height c \<and> c_cursor_column c < con_width c \<and>
     (is_initialized (c_device c) \<longrightarrow> fb_size (c_device c) \<noteq> 0))"

text \<open>What no operation but \<open>set_cursor_at\<close> changes.\<close>

definition con_keep :: "framebuffer_console \<Rightarrow> framebuffer_console \<Rightarrow> bool" where
  "con_keep c c' = (c_font c' = c_font c \<and> c_file c' = c_file c \<and>
     fb_width (c_device c') = fb_width (c_device c) \<and> fb_height (c_device c') = fb_height (c_device c) \<and>
     fb_size (c_device c') = fb_size (c_device c) \<and> fb_framebuffer (c_device c') = fb_framebuffer (c_device c) \<and>
     length (c_cells c') = length (c_cells c) \<and>
     c_cursor_row c' = c_cursor_row c \<and> c_cursor_column c' = c_cursor_column c)"

lemma con_keep_refl [simp]: "con_keep c c"
  by (simp add: con_keep_def)

lemma con_keep_trans: "con_keep a b \<Longrightarrow> con_keep b c \<Longrightarrow> con_keep a c"
  by (simp add: con_keep_def)

lemma con_keep_dims: "con_keep c c' \<Longrightarrow> con_width c' = con_width c \<and> con_height c' = con_height c"
  by (simp add: con_keep_def con_width_def con_height_def)

lemma con_keep_inv: "con_keep c c' \<Longrightarrow> fb_inv c \<Longrightarrow> fb_inv c'"
  using con_keep_dims [of c c'] by (simp add: con_keep_def fb_inv_def is_initialized_def)

lemma blit_character_geometry [simp]:
  "fb_width (blit_character d data dir x y w h st fg bg) = fb_width d"
  "fb_height (blit_character d data dir x y w h st fg bg) = fb_height d"
  "fb_size (blit_character d data dir x y w h st fg bg) = fb_size d"
  "fb_framebuffer (blit_character d data dir x y w h st fg bg) = fb_framebuffer d"
  by (simp_all add: blit_character_def Let_def)

lemma clear_screen_geometry [simp]:
  "fb_width (clear_screen d dir fx fy tx ty col) = fb_width d"
  "fb_height (clear_screen d dir fx fy tx ty col) = fb_height d"
  "fb_size (clear_screen d dir fx fy tx ty col) = fb_size d"
  "fb_framebuffer (clear_screen d dir fx fy tx ty col) = fb_framebuffer d"
  by (simp_all add: clear_screen_def Let_def)

lemma scroll_vertical_geometry:
  assumes "is_initialized d \<longrightarrow> fb_size d \<noteq> 0"
  shows "\<exists>d'. scroll_vertical d a = Inr d' \<and> fb_width d' = fb_width d \<and> fb_height d' = fb_height d \<and>
    fb_size d' = fb_size d \<and> fb_framebuffer d' = fb_framebuffer d"
  using assms by (simp add: scroll_vertical_def blit_screen_def Let_def)

lemma draw_cell_keep:
  assumes "fb_inv c"
  shows "\<exists>c'. draw_cell c cell row column = Inr c' \<and> con_keep c c' \<and> c_cells c' = c_cells c \<and>
    c_show_cursor c' = c_show_cursor c \<and> c_cursor_on c' = c_cursor_on c"
proof -
  let ?ch = "if cl_ch cell = 0 then 32 else cl_ch cell"
  have ok: "case get_glyph (c_font c) ?ch of Inl e \<Rightarrow> False
      | Inr g \<Rightarrow> (case g_bitmap g of None \<Rightarrow> True
          | Some (Absolute b) \<Rightarrow> False
          | Some (InFile b) \<Rightarrow> b + unat (g_height g) * (unat (g_stride g) div 8) \<le> length (c_file c))"
    using assms unfolding fb_inv_def font_ok_def by blast
  then obtain g where g: "get_glyph (c_font c) ?ch = Inr g" by (cases "get_glyph (c_font c) ?ch") auto
  show ?thesis
  proof (cases "g_bitmap g")
    case None
    then show ?thesis using g by (simp add: draw_cell_def Let_def)
  next
    case (Some p)
    then obtain b where p: "p = InFile b" using ok g by (cases p) simp_all
    then have "b + unat (g_height g) * (unat (g_stride g) div 8) \<le> length (c_file c)" using ok g Some by simp
    then show ?thesis using g Some p by (simp add: draw_cell_def Let_def con_keep_def)
  qed
qed

text \<open>An index of the grid.\<close>

lemma cell_index_less:
  assumes "fb_inv c" "row < con_height c" "column < con_width c"
  shows "cell_index c row column = unat row * unat (con_width c) + unat column"
    and "cell_index c row column < length (c_cells c)"
  using grid_index [OF assms(2,3)] assms(1) by (simp_all add: fb_inv_def cell_index_def)

lemma draw_cursor_keep:
  assumes "fb_inv c"
  shows "\<exists>c'. draw_cursor c = Inr c' \<and> con_keep c c' \<and> c_cells c' = c_cells c"
proof -
  have "cell_index c (c_cursor_row c) (c_cursor_column c) < length (c_cells c)"
    using assms by (intro cell_index_less(2)) (simp_all add: fb_inv_def)
  then show ?thesis
    using draw_cell_keep [OF assms] by (simp add: draw_cursor_def get_cell_def) blast
qed

lemma con_keep_flags [simp]:
  "con_keep c (c'\<lparr>c_tick_scheduled := t, c_show_cursor := s\<rparr>) = con_keep c c'"
  "con_keep (c\<lparr>c_tick_scheduled := t, c_show_cursor := s\<rparr>) c' = con_keep c c'"
  "con_keep c (c'\<lparr>c_tick_scheduled := t, c_events := n\<rparr>) = con_keep c c'"
  "con_keep c (c'\<lparr>c_cursor_on := b\<rparr>) = con_keep c c'"
  "con_keep (c\<lparr>c_cursor_on := b\<rparr>) c' = con_keep c c'"
  by (simp_all add: con_keep_def)

lemma on_cursor_tick_keep:
  assumes "fb_inv c"
  shows "\<exists>c'. on_cursor_tick c = Inr c' \<and> con_keep c c' \<and> c_cells c' = c_cells c"
proof -
  let ?c = "c\<lparr>c_tick_scheduled := False, c_show_cursor := \<not> c_show_cursor c\<rparr>"
  have "con_keep c ?c" by simp
  from con_keep_inv [OF this assms] have "fb_inv ?c" .
  from draw_cursor_keep [OF this]
  obtain c1 where "draw_cursor ?c = Inr c1" "con_keep c c1" "c_cells c1 = c_cells c" by auto
  then show ?thesis by (simp add: on_cursor_tick_def)
qed

lemma toggle_cursor_keep:
  assumes "fb_inv c"
  shows "\<exists>c'. toggle_cursor c on = Inr c' \<and> con_keep c c' \<and> c_cells c' = c_cells c"
proof -
  obtain c1 where c1: "(if on \<and> \<not> c_tick_scheduled c then on_cursor_tick c else Inr c) = Inr c1"
    "con_keep c c1" "c_cells c1 = c_cells c"
  proof (cases "on \<and> \<not> c_tick_scheduled c")
    case True
    then show thesis using on_cursor_tick_keep [OF assms] that by (metis (no_types, lifting))
  next
    case False
    then have "(if on \<and> \<not> c_tick_scheduled c then on_cursor_tick c else Inr c) = Inr c" by (rule if_not_P)
    from that [OF this con_keep_refl refl] show thesis .
  qed
  let ?c = "c1\<lparr>c_cursor_on := on\<rparr>"
  have "con_keep c ?c" using c1(2) by simp
  from con_keep_inv [OF this assms] have inv: "fb_inv ?c" .
  have idx: "cell_index ?c (c_cursor_row ?c) (c_cursor_column ?c) < length (c_cells ?c)"
    using inv by (intro cell_index_less(2)) (simp_all add: fb_inv_def)
  show ?thesis
  proof (cases on)
    case True
    then show ?thesis using c1 by (simp add: toggle_cursor_def Let_def)
  next
    case False
    obtain c2 where "draw_cell ?c (c_cells ?c ! cell_index ?c (c_cursor_row ?c) (c_cursor_column ?c))
        (c_cursor_row ?c) (c_cursor_column ?c) = Inr c2" "con_keep ?c c2" "c_cells c2 = c_cells ?c"
      using draw_cell_keep [OF inv] by blast
    moreover from this have "con_keep c c2" using con_keep_trans [of c ?c c2] c1(2) by simp
    ultimately have "toggle_cursor c on = Inr c2" "con_keep c c2" "c_cells c2 = c_cells c"
      using False c1(1,3) idx by (simp_all add: toggle_cursor_def Let_def get_cell_def)
    then show ?thesis by blast
  qed
qed

text \<open>Scrolling moves the pixels but not the cells.\<close>

lemma con_scroll_keep:
  assumes "fb_inv c"
  shows "\<exists>c'. con_scroll c amount = Inr c' \<and> con_keep c c' \<and> c_cells c' = c_cells c"
proof -
  obtain c1 where c1: "toggle_cursor c False = Inr c1" "con_keep c c1" "c_cells c1 = c_cells c"
    using toggle_cursor_keep [OF assms] by blast
  have "is_initialized (c_device c1) \<longrightarrow> fb_size (c_device c1) \<noteq> 0"
    using con_keep_inv [OF c1(2) assms] by (simp add: fb_inv_def)
  from scroll_vertical_geometry [OF this, of amount] obtain d where d: "scroll_vertical (c_device c1) amount = Inr d"
    "fb_width d = fb_width (c_device c1)" "fb_height d = fb_height (c_device c1)"
    "fb_size d = fb_size (c_device c1)" "fb_framebuffer d = fb_framebuffer (c_device c1)" by blast
  let ?c = "c1\<lparr>c_device := d\<rparr>"
  have k: "con_keep c ?c" using c1(2) d by (simp add: con_keep_def)
  obtain c2 where "toggle_cursor ?c (c_cursor_on c) = Inr c2" "con_keep ?c c2" "c_cells c2 = c_cells ?c"
    using toggle_cursor_keep [OF con_keep_inv [OF k assms]] by blast
  then show ?thesis using c1 d(1) con_keep_trans [OF k] by (simp add: con_scroll_def)
qed

lemma con_write_cell_keep:
  assumes "fb_inv c" "row < con_height c" "column < con_width c"
  shows "\<exists>c'. con_write_cell c row column cell = Inr c' \<and> con_keep c c' \<and>
    c_cells c' = (c_cells c)[unat row * unat (con_width c) + unat column := cell]"
proof -
  let ?c = "c\<lparr>c_cells := (c_cells c)[cell_index c row column := cell]\<rparr>"
  have k: "con_keep c ?c" by (simp add: con_keep_def)
  obtain c2 where "draw_cell ?c cell row column = Inr c2" "con_keep ?c c2" "c_cells c2 = c_cells ?c"
    using draw_cell_keep [OF con_keep_inv [OF k assms(1)]] by blast
  then show ?thesis
    using cell_index_less [OF assms] con_keep_trans [OF k] by (simp add: con_write_cell_def put_cell_def)
qed

text \<open>A loop of operations that keep the console.\<close>

lemma kfold_keep:
  assumes "fb_inv c" and "\<And>i c'. i \<in> set is \<Longrightarrow> con_keep c c' \<Longrightarrow> fb_inv c' \<Longrightarrow> \<exists>c''. f i c' = Inr c'' \<and> con_keep c' c''"
  shows "\<exists>c'. kfold f is c = Inr c' \<and> con_keep c c' \<and> fb_inv c'"
proof -
  have "\<exists>c'. kfold f is c = Inr c' \<and> (\<lambda>_ c'. con_keep c c' \<and> fb_inv c') (length is) c'"
  proof (rule kfold_inv [where P = "\<lambda>_ c'. con_keep c c' \<and> fb_inv c'"])
    fix k c' assume "k < length is" "con_keep c c' \<and> fb_inv c'"
    then show "\<exists>c''. f (is ! k) c' = Inr c'' \<and> con_keep c c'' \<and> fb_inv c''"
      using assms(2) [of "is ! k" c'] by (metis con_keep_inv con_keep_trans nth_mem)
  qed (use assms(1) in simp)
  then show ?thesis by blast
qed

lemma write_blanks_keep:
  assumes "fb_inv c" "row < con_height c" "\<forall>k\<in>set cols. k < unat (con_width c)"
  shows "\<exists>c'. write_blanks c row cols = Inr c' \<and> con_keep c c' \<and> fb_inv c'"
  unfolding write_blanks_def
proof (rule kfold_keep [OF assms(1)])
  fix k c' assume k: "k \<in> set cols" "con_keep c c'" "fb_inv c'"
  have "k < unat (con_width c)" using assms(3) k(1) by blast
  then have "of_nat k < con_width c'"
    using con_keep_dims [OF k(2)] unat_bound [of "con_width c"]
    by (simp add: word_less_nat_alt unat_of_nat_small)
  then show "\<exists>c''. con_write_char c' row (of_nat k) 32 = Inr c'' \<and> con_keep c' c''"
    using con_write_cell_keep [OF k(3), of row "of_nat k"] con_keep_dims [OF k(2)] assms(2)
    by (auto simp: con_write_char_def)
qed

lemma con_clear_row_keep:
  assumes "fb_inv c" "row < con_height c" "to_column < con_width c"
  shows "\<exists>c'. con_clear c row from_column row to_column = Inr c' \<and> con_keep c c' \<and> fb_inv c'"
proof -
  let ?cols = "[unat from_column..<Suc (unat to_column)]"
  have "\<forall>k\<in>set ?cols. k < unat (con_width c)" using assms(3) by (auto simp: word_less_nat_alt)
  from write_blanks_keep [OF assms(1,2) this] show ?thesis by (simp only: con_clear_def refl if_True)
qed

lemma put_cell_keep: "i < length (c_cells c) \<Longrightarrow> \<exists>c'. put_cell c i x = Inr c' \<and> con_keep c c'"
  by (simp add: put_cell_def con_keep_def)

lemma last_index:
  assumes "fb_inv c"
  shows "unat ((con_height c - 1) * con_width c + (con_width c - 1)) < length (c_cells c)"
    and "unat ((con_height c - 1) * con_width c + (con_width c - 1)) = unat (con_width c) * unat (con_height c) - 1"
proof -
  let ?w = "unat (con_width c)" and ?h = "unat (con_height c)"
  have h: "con_height c - 1 < con_height c" "unat (con_height c - 1) = ?h - 1" "?h \<noteq> 0"
    and w: "con_width c - 1 < con_width c" "unat (con_width c - 1) = ?w - 1" "?w \<noteq> 0"
    using assms by (auto simp: fb_inv_def word_less_nat_alt unat_minus_one unat_gt_0)
  note i = cell_index_less [OF assms h(1) w(1)]
  show "unat ((con_height c - 1) * con_width c + (con_width c - 1)) < length (c_cells c)"
    using i(2) by (simp add: cell_index_def)
  have "(?h - 1) * ?w + (?w - 1) = ?w * ?h - 1"
    using h(3) w(3) by (cases ?h; cases ?w) (auto simp: algebra_simps)
  then show "unat ((con_height c - 1) * con_width c + (con_width c - 1)) = ?w * ?h - 1"
    using i(1) h(2) w(2) by (simp add: cell_index_def)
qed

lemma con_clear_all_keep:
  assumes "fb_inv c"
  shows "\<exists>c'. con_clear c 0 0 (con_height c - 1) (con_width c - 1) = Inr c' \<and> con_keep c c' \<and> fb_inv c'"
proof (cases "con_height c - 1 = 0")
  case True
  have "con_width c - 1 < con_width c" "0 < con_height c"
    using assms by (auto simp: fb_inv_def word_less_nat_alt unat_minus_one unat_gt_0)
  from con_clear_row_keep [OF assms this(2,1), of 0] show ?thesis by (simp add: True)
next
  case False
  let ?n = "unat ((con_height c - 1) * con_width c + (con_width c - 1))"
  have "\<exists>c'. kfold (\<lambda>i c. put_cell c i \<lparr>cl_ch = 32, cl_fg = c_fg c, cl_bg = c_bg c\<rparr>) [0..<?n] c = Inr c' \<and>
      con_keep c c' \<and> fb_inv c'"
  proof (rule kfold_keep [OF assms])
    fix i c' assume i: "i \<in> set [0..<?n]" "con_keep c c'"
    then have "i < length (c_cells c')" using last_index(1) [OF assms] by (simp add: con_keep_def)
    then show "\<exists>c''. put_cell c' i \<lparr>cl_ch = 32, cl_fg = c_fg c', cl_bg = c_bg c'\<rparr> = Inr c'' \<and> con_keep c' c''"
      by (rule put_cell_keep)
  qed
  then obtain c1 where c1: "kfold (\<lambda>i c. put_cell c i \<lparr>cl_ch = 32, cl_fg = c_fg c, cl_bg = c_bg c\<rparr>) [0..<?n] c = Inr c1"
    "con_keep c c1" by blast
  let ?c = "c1\<lparr>c_device := clear_screen (c_device c1) True 0 (0 * font_height (c_font c1)) (fb_width (c_device c1))
      ((con_height c - 1 + 1) * font_height (c_font c1)) (c_bg c1)\<rparr>"
  have k: "con_keep c ?c" using c1(2) by (simp add: con_keep_def)
  have "con_clear c 0 0 (con_height c - 1) (con_width c - 1) = Inr ?c"
    using False c1(1) by (simp add: con_clear_def Let_def)
  then show ?thesis using k con_keep_inv [OF k assms] by blast
qed

lemma con_write_screen_keep:
  assumes "fb_inv c" "length buf = unat (con_width c) * unat (con_height c)"
  shows "\<exists>c'. con_write_region c 0 0 (con_height c - 1) (con_width c - 1) buf = Inr c' \<and> con_keep c c' \<and> fb_inv c'"
proof -
  let ?t = "(con_height c - 1) * con_width c + (con_width c - 1)"
  have len: "length (c_cells c) = length buf" "buf \<noteq> []"
    using assms by (auto simp: fb_inv_def word_less_nat_alt)
  have t: "unat ?t = length buf - 1" "unat ?t < length buf" using last_index [OF assms(1)] assms(2) len by simp_all
  have "unat (?t + 1) = length buf"
  proof -
    have "unat ?t + 1 < 2 ^ 32" using t(2) assms by (simp add: fb_inv_def)
    then show ?thesis using t len(2) by (subst unat_add_small) auto
  qed
  let ?c = "c\<lparr>c_cells := buf\<rparr>"
  have mv: "move_cells c 0 (unat (?t + 1)) buf = Inr ?c"
    using \<open>unat (?t + 1) = length buf\<close> len by (simp add: move_cells_def)
  have k: "con_keep c ?c" using len by (simp add: con_keep_def)
  have inv: "fb_inv ?c" by (rule con_keep_inv [OF k assms(1)])
  have w: "con_width ?c = con_width c" "con_height ?c = con_height c" using con_keep_dims [OF k] by simp_all
  have "\<exists>c'. kfold (\<lambda>i c'. kbind (get_cell c' i) (\<lambda>cell. draw_cell c' cell (0 + of_nat i div con_width c) ((0 + of_nat i) mod con_width c)))
      [0..<Suc (unat ?t)] ?c = Inr c' \<and> con_keep ?c c' \<and> fb_inv c'"
  proof (rule kfold_keep [OF inv])
    fix i c' assume i: "i \<in> set [0..<Suc (unat ?t)]" "con_keep ?c c'" "fb_inv c'"
    then have "i < length (c_cells c')" using t len by (auto simp: con_keep_def)
    then show "\<exists>c''. kbind (get_cell c' i) (\<lambda>cell. draw_cell c' cell (0 + of_nat i div con_width c) ((0 + of_nat i) mod con_width c)) = Inr c'' \<and> con_keep c' c''"
      using draw_cell_keep [OF i(3)] by (simp add: get_cell_def) blast
  qed
  then obtain c2 where c2: "kfold (\<lambda>i c'. kbind (get_cell c' i) (\<lambda>cell. draw_cell c' cell (0 + of_nat i div con_width c) ((0 + of_nat i) mod con_width c)))
      [0..<Suc (unat ?t)] ?c = Inr c2" "con_keep ?c c2" "fb_inv c2" by blast
  have "con_write_region c 0 0 (con_height c - 1) (con_width c - 1) buf = Inr c2"
    using mv c2(1) by (simp add: con_write_region_def invalidate_def Let_def w)
  then show ?thesis using c2 con_keep_trans [OF k] by blast
qed

lemma set_cursor_at_keep:
  assumes "fb_inv c" "row < con_height c" "column < con_width c"
  shows "\<exists>c'. set_cursor_at c row column = Inr c' \<and> fb_inv c' \<and> con_width c' = con_width c \<and> con_height c' = con_height c"
proof -
  have idx: "cell_index c (c_cursor_row c) (c_cursor_column c) < length (c_cells c)"
    using assms(1) by (intro cell_index_less(2)) (simp_all add: fb_inv_def)
  obtain c1 where c1: "draw_cell c (c_cells c ! cell_index c (c_cursor_row c) (c_cursor_column c))
      (c_cursor_row c) (c_cursor_column c) = Inr c1" "con_keep c c1"
    using draw_cell_keep [OF assms(1)] by blast
  let ?c = "c1\<lparr>c_cursor_column := column, c_cursor_row := row\<rparr>"
  have w: "con_width ?c = con_width c" "con_height ?c = con_height c"
    using con_keep_dims [OF c1(2)] by (simp_all add: con_width_def con_height_def)
  have "fb_inv ?c"
    using con_keep_inv [OF c1(2) assms(1)] con_keep_dims [OF c1(2)] assms(2,3) w by (simp add: fb_inv_def)
  from draw_cursor_keep [OF this] obtain c2 where c2: "draw_cursor ?c = Inr c2" "con_keep ?c c2" by blast
  have "set_cursor_at c row column = Inr c2"
    using assms(2,3) idx c1(1) c2(1) by (simp add: set_cursor_at_def get_cell_def)
  then show ?thesis
    using c2(2) con_keep_inv [OF c2(2) \<open>fb_inv ?c\<close>] con_keep_dims [OF c2(2)] w by auto
qed

lemma color_ok: "color < 16 \<Longrightarrow> \<exists>rgba. ANSIColorToRGBA color = Inr rgba"
  by (simp add: ANSIColorToRGBA_def color_lut_def word_less_nat_alt)

lemma con_set_fg_keep: "color < 16 \<Longrightarrow> \<exists>c'. con_set_fg c color = Inr c' \<and> con_keep c c'"
  using color_ok [of color] by (auto simp: con_set_fg_def con_keep_def)

lemma con_set_bg_keep: "color < 16 \<Longrightarrow> \<exists>c'. con_set_bg c color = Inr c' \<and> con_keep c c'"
  using color_ok [of color] by (auto simp: con_set_bg_def con_keep_def)

lemma keep_law: "\<exists>c'. r = Inr c' \<and> con_keep c c' \<Longrightarrow> fb_inv c \<Longrightarrow>
    \<exists>c'. r = Inr c' \<and> fb_inv c' \<and> con_width c' = con_width c \<and> con_height c' = con_height c"
  using con_keep_inv con_keep_dims by blast

interpretation fb_console: console fb_ops fb_inv
proof
  fix c :: framebuffer_console and row column from_column to_column color :: u32 and ch :: u8 and buf :: "cell_t list"
  show "fb_inv c \<Longrightarrow> 0 < co_width fb_ops c \<and> 0 < co_height fb_ops c \<and>
      unat (co_width fb_ops c) * unat (co_height fb_ops c) < 2 ^ 32"
    by (simp add: fb_inv_def fb_ops_def)
  show "\<exists>c'. co_scroll_up fb_ops c = Inr c' \<and> fb_inv c' \<and> co_width fb_ops c' = co_width fb_ops c \<and>
      co_height fb_ops c' = co_height fb_ops c" if "fb_inv c"
    unfolding fb_ops_def con_scroll_up_def console_ops.simps
    using con_scroll_keep [OF that] that by (intro keep_law) auto
  show "\<exists>c'. co_scroll_down fb_ops c = Inr c' \<and> fb_inv c' \<and> co_width fb_ops c' = co_width fb_ops c \<and>
      co_height fb_ops c' = co_height fb_ops c" if "fb_inv c"
    unfolding fb_ops_def con_scroll_down_def console_ops.simps
    using con_scroll_keep [OF that] that by (intro keep_law) auto
  show "\<exists>c'. co_write_char fb_ops c row column ch = Inr c' \<and> fb_inv c' \<and> co_width fb_ops c' = co_width fb_ops c \<and>
      co_height fb_ops c' = co_height fb_ops c"
    if "fb_inv c" "row < co_height fb_ops c" "column < co_width fb_ops c"
    using that con_write_cell_keep [of c row column]
    unfolding fb_ops_def con_write_char_def console_ops.simps by (intro keep_law) auto
  show "\<exists>c'. co_write_region fb_ops c 0 0 (co_height fb_ops c - 1) (co_width fb_ops c - 1) buf = Inr c' \<and> fb_inv c' \<and>
      co_width fb_ops c' = co_width fb_ops c \<and> co_height fb_ops c' = co_height fb_ops c"
    if "fb_inv c" "length buf = unat (co_width fb_ops c) * unat (co_height fb_ops c)"
    using that con_write_screen_keep [of c buf] unfolding fb_ops_def console_ops.simps by (intro keep_law) auto
  show "\<exists>c'. co_clear fb_ops c row from_column row to_column = Inr c' \<and> fb_inv c' \<and>
      co_width fb_ops c' = co_width fb_ops c \<and> co_height fb_ops c' = co_height fb_ops c"
    if "fb_inv c" "row < co_height fb_ops c" "to_column < co_width fb_ops c"
    using that con_clear_row_keep [of c row to_column] unfolding fb_ops_def console_ops.simps by (intro keep_law) auto
  show "\<exists>c'. co_clear fb_ops c 0 0 (co_height fb_ops c - 1) (co_width fb_ops c - 1) = Inr c' \<and> fb_inv c' \<and>
      co_width fb_ops c' = co_width fb_ops c \<and> co_height fb_ops c' = co_height fb_ops c"
    if "fb_inv c"
    using that con_clear_all_keep [of c] unfolding fb_ops_def console_ops.simps by (intro keep_law) auto
  show "\<exists>c'. co_set_fg fb_ops c color = Inr c' \<and> fb_inv c' \<and> co_width fb_ops c' = co_width fb_ops c \<and>
      co_height fb_ops c' = co_height fb_ops c" if "fb_inv c" "color < 16"
    using that con_set_fg_keep [of color c] unfolding fb_ops_def console_ops.simps by (intro keep_law) auto
  show "\<exists>c'. co_set_bg fb_ops c color = Inr c' \<and> fb_inv c' \<and> co_width fb_ops c' = co_width fb_ops c \<and>
      co_height fb_ops c' = co_height fb_ops c" if "fb_inv c" "color < 16"
    using that con_set_bg_keep [of color c] unfolding fb_ops_def console_ops.simps by (intro keep_law) auto
  show "\<exists>c'. co_set_cursor fb_ops c row column = Inr c' \<and> fb_inv c' \<and> co_width fb_ops c' = co_width fb_ops c \<and>
      co_height fb_ops c' = co_height fb_ops c"
    if "fb_inv c" "row < co_height fb_ops c" "column < co_width fb_ops c"
    using that set_cursor_at_keep [of c row column] unfolding fb_ops_def console_ops.simps by blast
  show "co_set_cursor fb_ops c row column = Inl AssertFail"
    if "fb_inv c" "\<not> (row < co_height fb_ops c \<and> column < co_width fb_ops c)"
    using that unfolding fb_ops_def console_ops.simps set_cursor_at_def by (auto simp: kassert_def)
qed

section \<open>What is drawn\<close>

text \<open>
  Two reference functions. \<open>draw_text\<close> draws a text into a row from a column on, in the colours of the
  console, and moves the cursor behind each character; \<open>draw_screen\<close> draws every cell of a screen at its
  row and column and then the cursor.
\<close>

definition drawn :: "framebuffer_console \<Rightarrow> u8 \<Rightarrow> cell_t" where
  "drawn c ch = \<lparr>cl_ch = ch, cl_fg = c_fg c, cl_bg = c_bg c\<rparr>"

fun draw_text :: "u32 \<Rightarrow> u32 \<Rightarrow> u8 list \<Rightarrow> framebuffer_console \<Rightarrow> framebuffer_console kres" where
  "draw_text row column [] c = Inr c"
| "draw_text row column (ch # cs) c =
     kbind (draw_cell (c\<lparr>c_cells := (c_cells c)[unat row * unat (con_width c) + unat column := drawn c ch]\<rparr>)
       (drawn c ch) row column) (\<lambda>c.
     kbind (set_cursor_at c row (column + 1)) (draw_text row (column + 1) cs))"

definition draw_screen :: "cell_t list \<Rightarrow> u32 \<Rightarrow> u32 \<Rightarrow> framebuffer_console \<Rightarrow> framebuffer_console kres" where
  "draw_screen cells row column c =
     kbind (kfold (\<lambda>i c. draw_cell c (cells ! i) (of_nat (i div unat (con_width c))) (of_nat (i mod unat (con_width c))))
       [0..<length cells] (c\<lparr>c_cells := cells\<rparr>)) (\<lambda>c. set_cursor_at c row column)"

text \<open>Drawing changes the pixels only, and moving the cursor also its position.\<close>

lemma draw_cell_frame:
  assumes "draw_cell c cell row column = Inr c'"
  shows "\<exists>d. c' = c\<lparr>c_device := d\<rparr> \<and> fb_width d = fb_width (c_device c)"
proof -
  obtain g where g: "get_glyph (c_font c) (if cl_ch cell = 0 then 32 else cl_ch cell) = Inr g"
    using assms by (cases "get_glyph (c_font c) (if cl_ch cell = 0 then 32 else cl_ch cell)") (auto simp: draw_cell_def Let_def)
  show ?thesis
  proof (cases "g_bitmap g")
    case None
    then show ?thesis using g assms by (intro exI [of _ "c_device c"]) (simp add: draw_cell_def Let_def)
  next
    case (Some p)
    then show ?thesis using g assms by (cases p) (auto simp: draw_cell_def Let_def split: if_splits)
  qed
qed

lemma set_cursor_at_frame:
  assumes "set_cursor_at c row column = Inr c'"
  shows "\<exists>d. c' = c\<lparr>c_device := d, c_cursor_row := row, c_cursor_column := column\<rparr>"
proof -
  obtain cell c1 where c1: "draw_cell c cell (c_cursor_row c) (c_cursor_column c) = Inr c1"
    "draw_cursor (c1\<lparr>c_cursor_column := column, c_cursor_row := row\<rparr>) = Inr c'"
    using assms unfolding set_cursor_at_def kbind_Inr_iff by blast
  let ?c = "c1\<lparr>c_cursor_column := column, c_cursor_row := row\<rparr>"
  obtain cell' where c2: "draw_cell ?c cell' (c_cursor_row ?c) (c_cursor_column ?c) = Inr c'"
    using c1(2) unfolding draw_cursor_def kbind_Inr_iff by blast
  from draw_cell_frame [OF c1(1)] draw_cell_frame [OF c2] obtain d1 d2
    where "c1 = c\<lparr>c_device := d1\<rparr>" "c' = ?c\<lparr>c_device := d2\<rparr>" by blast
  then show ?thesis by (intro exI [of _ d2]) simp
qed

lemma set_cursor_at_cells:
  assumes "set_cursor_at c row column = Inr c'"
  shows "c_cells c' = c_cells c" "c_fg c' = c_fg c" "c_bg c' = c_bg c"
  using set_cursor_at_frame [OF assms] by auto

lemma draw_cell_cells:
  assumes "draw_cell c cell row column = Inr c'"
  shows "c_cells c' = c_cells c" "c_fg c' = c_fg c" "c_bg c' = c_bg c" "con_width c' = con_width c"
  using draw_cell_frame [OF assms] by (auto simp: con_width_def)

text \<open>\<open>write_char\<close> draws the character that it stores.\<close>

lemma con_write_char_draws:
  assumes "fb_inv c" "row < con_height c" "column < con_width c"
  shows "con_write_char c row column ch =
    draw_cell (c\<lparr>c_cells := (c_cells c)[unat row * unat (con_width c) + unat column := drawn c ch]\<rparr>) (drawn c ch) row column"
proof -
  note i = cell_index_less [OF assms]
  show ?thesis
    unfolding con_write_char_def con_write_cell_def put_cell_def if_P [OF i(2)] kbind.simps drawn_def
    unfolding i(1) by (rule refl)
qed

text \<open>\<open>write_region\<close> over the whole screen draws every cell that it stores.\<close>

lemma redraw_cells:
  assumes "c_cells c = buf" "\<forall>i\<in>set is. i < length buf" "con_width c = w"
  shows "kfold (\<lambda>i c. kbind (get_cell c i) (\<lambda>cell. draw_cell c cell (row i) (col i))) is c =
    kfold (\<lambda>i c. draw_cell c (buf ! i) (row i) (col i)) is c"
  using assms
proof (induction "is" arbitrary: c)
  case (Cons i "is")
  then have get: "get_cell c i = Inr (buf ! i)" by (simp add: get_cell_def)
  show ?case
  proof (cases "draw_cell c (buf ! i) (row i) (col i)")
    case (Inr c1)
    from Cons.IH [of c1] show ?thesis
      using get Inr draw_cell_cells [OF Inr] Cons.prems by simp
  qed (simp add: get)
qed simp

lemma draw_fold_width:
  assumes "con_width c = w"
  shows "kfold (\<lambda>i c. draw_cell c (buf ! i) (row w i) (col w i)) is c =
    kfold (\<lambda>i c. draw_cell c (buf ! i) (row (con_width c) i) (col (con_width c) i)) is c"
  using assms
proof (induction "is" arbitrary: c)
  case (Cons i "is")
  then show ?case
    by (cases "draw_cell c (buf ! i) (row w i) (col w i)") (auto dest: draw_cell_cells(4))
qed simp

lemma con_write_screen_draws:
  assumes c: "fb_inv c" "length buf = unat (con_width c) * unat (con_height c)"
  shows "kbind (con_write_region c 0 0 (con_height c - 1) (con_width c - 1) buf) (\<lambda>c. set_cursor_at c row column) =
    draw_screen buf row column c"
proof -
  let ?t = "(con_height c - 1) * con_width c + (con_width c - 1)" and ?w = "con_width c"
  have len: "length (c_cells c) = length buf" "buf \<noteq> []" "length buf < 2 ^ 32"
    using assms by (auto simp: fb_inv_def word_less_nat_alt)
  have t: "Suc (unat ?t) = length buf" using last_index [OF c(1)] c(2) len by simp
  then have "unat (?t + 1) = length buf" using len(3) by (subst unat_add_small) auto
  then have mv: "move_cells c 0 (unat (?t + 1)) buf = Inr (c\<lparr>c_cells := buf\<rparr>)"
    using len by (simp add: move_cells_def)
  have w: "con_width (c\<lparr>c_cells := buf\<rparr>) = ?w" by (simp add: con_width_def)
  have pos: "(of_nat i :: u32) div ?w = of_nat (i div unat ?w) \<and> (of_nat i :: u32) mod ?w = of_nat (i mod unat ?w)"
    if "i < length buf" for i
  proof -
    have i: "unat (of_nat j :: u32) = j" if "j \<le> i" for j
      using that \<open>i < length buf\<close> len(3) by (intro unat_of_nat_small) simp
    show ?thesis by (simp add: word_unat_eq_iff unat_div unat_mod i [OF order_refl] i [OF div_le_dividend] i [OF mod_less_eq_dividend])
  qed
  have "invalidate (c\<lparr>c_cells := buf\<rparr>) 0 0 (con_height c - 1) (?w - 1) =
      kfold (\<lambda>i c. kbind (get_cell c i) (\<lambda>cell. draw_cell c cell (of_nat i div ?w) (of_nat i mod ?w))) [0..<length buf]
        (c\<lparr>c_cells := buf\<rparr>)"
    using t by (simp add: invalidate_def w Let_def del: upt_Suc)
  also have "\<dots> = kfold (\<lambda>i c. draw_cell c (buf ! i) (of_nat i div ?w) (of_nat i mod ?w)) [0..<length buf] (c\<lparr>c_cells := buf\<rparr>)"
    by (rule redraw_cells [OF _ _ w]) simp_all
  also have "\<dots> = kfold (\<lambda>i c. draw_cell c (buf ! i) (of_nat (i div unat ?w)) (of_nat (i mod unat ?w))) [0..<length buf]
      (c\<lparr>c_cells := buf\<rparr>)"
    by (rule kfold_cong) (simp_all add: pos)
  also have "\<dots> = kfold (\<lambda>i c. draw_cell c (buf ! i) (of_nat (i div unat (con_width c))) (of_nat (i mod unat (con_width c))))
      [0..<length buf] (c\<lparr>c_cells := buf\<rparr>)"
    by (rule draw_fold_width [OF w])
  finally show ?thesis using mv by (simp add: con_write_region_def draw_screen_def Let_def)
qed

lemma draw_screen_cells:
  assumes "draw_screen buf row column c = Inr c'"
  shows "c_cells c' = buf"
proof -
  obtain c1 where c1: "kfold (\<lambda>i c. draw_cell c (buf ! i) (of_nat (i div unat (con_width c))) (of_nat (i mod unat (con_width c))))
      [0..<length buf] (c\<lparr>c_cells := buf\<rparr>) = Inr c1" "set_cursor_at c1 row column = Inr c'"
    using assms by (auto simp: draw_screen_def kbind_Inr_iff)
  have "kfold (\<lambda>i c. draw_cell c (buf ! i) (row' c i) (col' c i)) is c = Inr c1 \<Longrightarrow> c_cells c1 = c_cells c"
    for "is" c row' col'
  proof (induction "is" arbitrary: c)
    case (Cons i "is")
    then show ?case by (auto simp: kbind_Inr_iff dest: draw_cell_cells(1))
  qed simp
  from this [OF c1(1)] show ?thesis using set_cursor_at_cells(1) [OF c1(2)] by simp
qed

section \<open>The cells after scrolling\<close>

text \<open>
  The framebuffer console keeps its invariant and never faults when a character is written inside
  the grid and the screen is scrolled up. Scrolling moves the pixels only: the cell buffer still has
  the character at the row it was written to, one row below where the screen shows it.
\<close>

theorem con_scroll_stale:
  assumes "fb_inv c" "row < con_height c" "column < con_width c"
  shows "\<exists>c1 c2. con_write_char c row column ch = Inr c1 \<and> con_scroll_up c1 = Inr c2 \<and> fb_inv c2 \<and>
    get_cell c2 (cell_index c2 row column) = Inr \<lparr>cl_ch = ch, cl_fg = c_fg c, cl_bg = c_bg c\<rparr>"
proof -
  let ?cell = "\<lparr>cl_ch = ch, cl_fg = c_fg c, cl_bg = c_bg c\<rparr>"
  let ?i = "unat row * unat (con_width c) + unat column"
  obtain c1 where c1: "con_write_cell c row column ?cell = Inr c1" "con_keep c c1"
    "c_cells c1 = (c_cells c)[?i := ?cell]"
    using con_write_cell_keep [OF assms] by blast
  note inv1 = con_keep_inv [OF c1(2) assms(1)]
  obtain c2 where c2: "con_scroll_up c1 = Inr c2" "con_keep c1 c2" "c_cells c2 = c_cells c1"
    using con_scroll_keep [OF inv1] unfolding con_scroll_up_def by blast
  note inv2 = con_keep_inv [OF c2(2) inv1]
  have w: "con_width c2 = con_width c" "con_height c2 = con_height c"
    using con_keep_dims [OF c1(2)] con_keep_dims [OF c2(2)] by simp_all
  have "cell_index c2 row column = ?i" "cell_index c2 row column < length (c_cells c2)"
    using cell_index_less [OF inv2, of row column] assms(2,3) w by simp_all
  then have "get_cell c2 (cell_index c2 row column) = Inr ?cell" using c1(3) c2(3) by (simp add: get_cell_def)
  then show ?thesis using c1(1) c2(1) inv2 unfolding con_write_char_def by blast
qed

text \<open>A console of two rows of one character, with a font whose one glyph is a single row of pixels.\<close>

definition small_font :: psf_font where
  "small_font = \<lparr>f_psf1 = True, f_psf2 = False, f_mode = 0, f_charsize = 1, f2_charsize = 0, f2_height = 0,
     f2_width = 0, f_glyphs = Some 4, f_mappings = replicate 256 0\<rparr>"

definition small_console :: framebuffer_console where
  "small_console = \<lparr>c_device = small_screen, c_font = small_font, c_file = [0x36, 4, 0, 1, 0xFF], c_fg = 0xFFFFFF,
     c_bg = 0, c_cursor_row = 0, c_cursor_column = 0, c_cursor_on = True, c_tick_scheduled = True,
     c_cells = [default_cell, default_cell], c_show_cursor = False, c_events = 1\<rparr>"

lemma small_console_dims: "con_width small_console = 1" "con_height small_console = 2"
  by (simp_all add: con_width_def con_height_def small_console_def small_screen_def font_width_def font_height_def small_font_def)

lemma small_console_ok: "fb_inv small_console"
proof -
  have "unat ch < 256" for ch :: u8 using unat_bound [of ch] by simp
  then have "font_ok small_font [0x36, 4, 0, 1, 0xFF]"
    by (simp add: font_ok_def get_glyph_def small_font_def glyph_bitmap_def)
  then show ?thesis
    unfolding fb_inv_def small_console_dims by (simp add: small_console_def small_screen_def)
qed

theorem con_scroll_stale_witness:
  "\<exists>c1 c2. con_write_char small_console 1 0 65 = Inr c1 \<and> con_scroll_up c1 = Inr c2 \<and> fb_inv c2 \<and>
    get_cell c2 (cell_index c2 1 0) = Inr \<lparr>cl_ch = 65, cl_fg = 0xFFFFFF, cl_bg = 0\<rparr>"
  using con_scroll_stale [OF small_console_ok, of 1 0 65] unfolding small_console_dims by (simp add: small_console_def)

end
