(* ===== verification/Queues.thy ===== *)
theory Queues
  imports Prelude
begin

text \<open>
  The queues of the kernel library: the ring buffer of \<open>include/libk/CircularBuffer.hpp\<close>, the
  linked list of \<open>include/libk/klist.hpp\<close> and the queue of \<open>include/libk/srmw_queue.hpp\<close>. All three
  implement the interface \<open>fifo\<close> of a queue that holds a list.
\<close>

section \<open>The interface\<close>

text \<open>Getting \<open>n\<close> elements, one after the other.\<close>

fun get_n :: "('q \<Rightarrow> ('a \<times> 'q) kres) \<Rightarrow> nat \<Rightarrow> 'q \<Rightarrow> ('a list \<times> 'q) kres" where
  "get_n get 0 q = Inr ([], q)"
| "get_n get (Suc n) q = kbind (get q) (\<lambda>(x, q). kbind (get_n get n q) (\<lambda>(xs, q). Inr (x # xs, q)))"

text \<open>
  A queue holds a list; \<open>fits q n\<close> says that \<open>n\<close> more elements can be put without losing one.
\<close>

locale fifo =
  fixes holds :: "'q \<Rightarrow> 'a list \<Rightarrow> bool"
    and fits :: "'q \<Rightarrow> nat \<Rightarrow> bool"
    and is_empty :: "'q \<Rightarrow> bool"
    and put :: "'q \<Rightarrow> 'a \<Rightarrow> 'q kres"
    and get :: "'q \<Rightarrow> ('a \<times> 'q) kres"
  assumes empty_law: "holds q xs \<Longrightarrow> is_empty q = (xs = [])"
    and put_law: "holds q xs \<Longrightarrow> fits q (Suc n) \<Longrightarrow> \<exists>q'. put q x = Inr q' \<and> holds q' (xs @ [x]) \<and> fits q' n"
    and get_law: "holds q (x # xs) \<Longrightarrow> \<exists>q'. get q = Inr (x, q') \<and> holds q' xs"
    and get_empty_law: "holds q [] \<Longrightarrow> get q = Inl AssertFail"
begin

lemma put_all:
  assumes "holds q xs" "fits q (length ys)"
  shows "\<exists>q'. kfold (\<lambda>y q. put q y) ys q = Inr q' \<and> holds q' (xs @ ys)"
  using assms
proof (induction ys arbitrary: q xs)
  case (Cons y ys)
  then obtain q1 where q1: "put q y = Inr q1" "holds q1 (xs @ [y])" "fits q1 (length ys)"
    using put_law [of q xs "length ys" y] by auto
  then show ?case using Cons.IH [OF q1(2,3)] by simp
qed auto

lemma get_all:
  assumes "holds q (xs @ ys)"
  shows "\<exists>q'. get_n get (length xs) q = Inr (xs, q') \<and> holds q' ys"
  using assms
proof (induction xs arbitrary: q)
  case (Cons x xs)
  then obtain q1 where q1: "get q = Inr (x, q1)" "holds q1 (xs @ ys)"
    using get_law [of q x "xs @ ys"] by auto
  then show ?case using Cons.IH [OF q1(2)] by auto
qed auto

text \<open>First in, first out, and one more \<open>get\<close> asserts.\<close>

lemma fifo_order:
  assumes "holds q xs" "fits q (length ys)"
  shows "\<exists>q1 q2. kfold (\<lambda>y q. put q y) ys q = Inr q1 \<and>
    get_n get (length xs + length ys) q1 = Inr (xs @ ys, q2) \<and> is_empty q2 \<and> get q2 = Inl AssertFail"
proof -
  obtain q1 where q1: "kfold (\<lambda>y q. put q y) ys q = Inr q1" "holds q1 (xs @ ys)"
    using put_all [OF assms] by blast
  obtain q2 where "get_n get (length (xs @ ys)) q1 = Inr (xs @ ys, q2)" "holds q2 []"
    using get_all [of q1 "xs @ ys" "[]"] q1(2) by auto
  then show ?thesis using q1(1) empty_law get_empty_law by auto
qed

end

section \<open>The ring buffer\<close>

text \<open>
  The pointers \<open>m_head\<close>, \<open>m_tail\<close> and \<open>m_end\<close> are offsets from \<open>m_begin\<close>; a slot of the array is raw
  memory until an element is written to it.
\<close>

record 'a circular_buffer =
  cb_slots :: "'a option list"
  cb_head :: nat
  cb_tail :: nat
  cb_capacity :: nat
  cb_size :: nat

definition cb_new :: "nat \<Rightarrow> 'a circular_buffer" where
  "cb_new n = \<lparr>cb_slots = replicate n None, cb_head = 0, cb_tail = 0, cb_capacity = n, cb_size = 0\<rparr>"

definition cb_read :: "'a circular_buffer \<Rightarrow> nat \<Rightarrow> 'a kres" where
  "cb_read b i = (if i < length (cb_slots b)
     then (case cb_slots b ! i of None \<Rightarrow> Inl BadAccess | Some x \<Rightarrow> Inr x) else Inl BadAccess)"

definition cb_pop :: "'a circular_buffer \<Rightarrow> ('a \<times> 'a circular_buffer) kres" where
  "cb_pop b =
     kbind (kassert (0 < cb_size b)) (\<lambda>_.
     kbind (cb_read b (cb_tail b)) (\<lambda>val.
       let t = cb_tail b + 1;
           t = (if t = cb_capacity b then 0 else t)
       in Inr (val, b\<lparr>cb_tail := t, cb_size := cb_size b - 1\<rparr>)))"

definition cb_push :: "'a circular_buffer \<Rightarrow> 'a \<Rightarrow> 'a circular_buffer kres" where
  "cb_push b val =
     (if cb_head b < length (cb_slots b)
      then let h = cb_head b + 1;
               h = (if h = cb_capacity b then 0 else h);
               b = b\<lparr>cb_slots := (cb_slots b)[cb_head b := Some val], cb_head := h\<rparr>
           in Inr (if cb_size b = cb_capacity b then b\<lparr>cb_tail := h\<rparr> else b\<lparr>cb_size := cb_size b + 1\<rparr>)
      else Inl BadAccess)"

definition cb_is_empty :: "'a circular_buffer \<Rightarrow> bool" where
  "cb_is_empty b = (cb_size b = 0)"

definition cb_is_full :: "'a circular_buffer \<Rightarrow> bool" where
  "cb_is_full b = (cb_size b = cb_capacity b)"

text \<open>The buffer holds the list that starts at the tail and wraps around.\<close>

definition cb_rel :: "'a circular_buffer \<Rightarrow> 'a list \<Rightarrow> bool" where
  "cb_rel b xs = (0 < cb_capacity b \<and> length (cb_slots b) = cb_capacity b \<and> cb_tail b < cb_capacity b \<and>
     cb_size b = length xs \<and> length xs \<le> cb_capacity b \<and>
     cb_head b = (cb_tail b + length xs) mod cb_capacity b \<and>
     (\<forall>i<length xs. cb_slots b ! ((cb_tail b + i) mod cb_capacity b) = Some (xs ! i)))"

lemma cb_rel_new: "0 < n \<Longrightarrow> cb_rel (cb_new n) []"
  by (simp add: cb_rel_def cb_new_def)

lemma wrap_succ: "t < c \<Longrightarrow> (if t + 1 = c then 0 else t + 1) = Suc t mod c"
  for t c :: nat
  by auto

lemma cb_push_rel:
  assumes "cb_rel b xs"
  shows "\<exists>b'. cb_push b x = Inr b' \<and> cb_capacity b' = cb_capacity b \<and>
    cb_rel b' (if length xs = cb_capacity b then tl xs @ [x] else xs @ [x])"
proof -
  let ?c = "cb_capacity b" and ?h = "cb_head b" and ?t = "cb_tail b"
  have b: "0 < ?c" "length (cb_slots b) = ?c" "?t < ?c" "cb_size b = length xs" "length xs \<le> ?c"
    "?h = (?t + length xs) mod ?c" and el: "\<forall>i<length xs. cb_slots b ! ((?t + i) mod ?c) = Some (xs ! i)"
    using assms by (auto simp: cb_rel_def)
  have h: "?h < ?c" using b(1,6) by simp
  define h' where "h' = Suc ?h mod ?c"
  have h'_eq: "h' = (?t + Suc (length xs)) mod ?c" by (simp add: h'_def b(6) mod_Suc_eq)
  have slots: "(cb_slots b)[?h := Some x] ! ((?t + i) mod ?c) =
      (if (?t + i) mod ?c = ?h then Some x else cb_slots b ! ((?t + i) mod ?c))" for i
    using b(1,2) h by (auto simp: nth_list_update)
  let ?b = "b\<lparr>cb_slots := (cb_slots b)[?h := Some x], cb_head := h'\<rparr>"
  have push: "cb_push b x =
      Inr (if length xs = ?c then ?b\<lparr>cb_tail := h'\<rparr> else ?b\<lparr>cb_size := Suc (length xs)\<rparr>)"
    using h b(2,4) unfolding cb_push_def Let_def wrap_succ [OF h] by (simp add: h'_def)
  show ?thesis
  proof (cases "length xs = ?c")
    case False
    then have len: "length xs < ?c" using b(5) by simp
    have "(cb_slots b)[?h := Some x] ! ((?t + i) mod ?c) = Some ((xs @ [x]) ! i)" if "i < Suc (length xs)" for i
    proof (cases "i = length xs")
      case True
      then show ?thesis using h b(2,6) by simp
    next
      case False
      then have "i < length xs" using that by simp
      then show ?thesis
        using slots [of i] ring_distinct [of i "length xs" ?c ?t] len el b(6) by (simp add: nth_append)
    qed
    then have "cb_rel (?b\<lparr>cb_size := Suc (length xs)\<rparr>) (xs @ [x])"
      unfolding cb_rel_def using b(1-3) len h'_eq by simp
    then show ?thesis using push False by auto
  next
    case True
    then have ht: "?h = ?t" using b(3,6) by simp
    have "(cb_slots b)[?h := Some x] ! ((h' + i) mod ?c) = Some ((tl xs @ [x]) ! i)" if "i < length xs" for i
    proof -
      have pos: "(h' + i) mod ?c = (?t + Suc i) mod ?c" by (simp add: h'_def ht mod_add_left_eq)
      show ?thesis
      proof (cases "Suc i = length xs")
        case True
        then have "(?t + Suc i) mod ?c = ?h" using b(6) by simp
        then show ?thesis using h b(2) pos True by (auto simp: nth_append)
      next
        case False
        then have "Suc i < length xs" using that by simp
        then show ?thesis
          using slots [of "Suc i"] ring_distinct [of 0 "Suc i" ?c ?t] True el [rule_format, of "Suc i"] b(3) pos ht
          by (auto simp: nth_append nth_tl)
      qed
    qed
    moreover have "h' < ?c" using b(1) by (simp add: h'_def)
    moreover have "(h' + length xs) mod ?c = h'" using True \<open>h' < ?c\<close> by simp
    ultimately have "cb_rel (?b\<lparr>cb_tail := h'\<rparr>) (tl xs @ [x])"
      unfolding cb_rel_def using b(1,2,4,5) True by simp
    then show ?thesis using push True by auto
  qed
qed

lemma cb_pop_rel:
  assumes "cb_rel b (x # xs)"
  shows "\<exists>b'. cb_pop b = Inr (x, b') \<and> cb_rel b' xs \<and> cb_capacity b' = cb_capacity b"
proof -
  let ?c = "cb_capacity b" and ?t = "cb_tail b"
  have b: "0 < ?c" "length (cb_slots b) = ?c" "?t < ?c" "cb_size b = Suc (length xs)" "length xs < ?c"
    "cb_head b = (?t + Suc (length xs)) mod ?c"
    and el: "\<forall>i<Suc (length xs). cb_slots b ! ((?t + i) mod ?c) = Some ((x # xs) ! i)"
    using assms by (auto simp: cb_rel_def)
  let ?b = "b\<lparr>cb_tail := Suc ?t mod ?c, cb_size := length xs\<rparr>"
  have "cb_read b ?t = Inr x" using el [rule_format, of 0] b by (simp add: cb_read_def)
  then have pop: "cb_pop b = Inr (x, ?b)"
    using b(4) unfolding cb_pop_def Let_def wrap_succ [OF b(3)] by simp
  have "cb_slots b ! ((Suc ?t mod ?c + i) mod ?c) = Some (xs ! i)" if "i < length xs" for i
    using el [rule_format, of "Suc i"] that by (simp add: mod_add_left_eq)
  moreover have "cb_head b = (Suc ?t mod ?c + length xs) mod ?c"
    unfolding b(6) by (simp add: mod_add_left_eq)
  ultimately have "cb_rel ?b xs" unfolding cb_rel_def using b(1,2,5) by simp
  with pop show ?thesis by (intro exI [of _ ?b]) simp
qed

lemma cb_pop_empty: "cb_rel b [] \<Longrightarrow> cb_pop b = Inl AssertFail"
  by (simp add: cb_rel_def cb_pop_def)

definition cb_fits :: "'a circular_buffer \<Rightarrow> nat \<Rightarrow> bool" where
  "cb_fits b n = (cb_size b + n \<le> cb_capacity b)"

interpretation ring: fifo cb_rel cb_fits cb_is_empty cb_push cb_pop
proof
  fix b :: "'a circular_buffer" and xs :: "'a list" and x n
  show "cb_rel b xs \<Longrightarrow> cb_is_empty b = (xs = [])" by (simp add: cb_rel_def cb_is_empty_def)
  show "\<exists>b'. cb_push b x = Inr b' \<and> cb_rel b' (xs @ [x]) \<and> cb_fits b' n"
    if rel: "cb_rel b xs" and fits: "cb_fits b (Suc n)"
  proof -
    have "length xs + Suc n \<le> cb_capacity b" using rel fits by (simp add: cb_fits_def cb_rel_def)
    then obtain b' where b': "cb_push b x = Inr b'" "cb_capacity b' = cb_capacity b" "cb_rel b' (xs @ [x])"
      using cb_push_rel [OF rel, of x] by auto
    have "cb_size b' = Suc (length xs)" using b'(3) by (simp add: cb_rel_def)
    then show ?thesis using b' \<open>length xs + Suc n \<le> cb_capacity b\<close> by (auto simp: cb_fits_def)
  qed
  show "\<exists>b'. cb_pop b = Inr (x, b') \<and> cb_rel b' xs" if "cb_rel b (x # xs)"
    using cb_pop_rel [OF that] by blast
  show "cb_rel b [] \<Longrightarrow> cb_pop b = Inl AssertFail" by (rule cb_pop_empty)
qed

section \<open>The linked list\<close>

text \<open>
  A list is a ring of nodes closed by the node \<open>head\<close>, which is a member of the list object. The
  address of a node is a number, that of \<open>head\<close> is 0; \<open>new\<close> takes the next number and \<open>delete\<close>
  removes the node, so that a use after \<open>delete\<close> faults.
\<close>

record 'a list_node =
  ln_data :: "'a option"
  ln_next :: nat
  ln_prev :: nat

record 'a klist =
  l_nodes :: "nat \<rightharpoonup> 'a list_node"
  l_fresh :: nat

definition node_at :: "(nat \<rightharpoonup> 'a list_node) \<Rightarrow> nat \<Rightarrow> 'a list_node kres" where
  "node_at h a = (case h a of None \<Rightarrow> Inl BadAccess | Some n \<Rightarrow> Inr n)"

definition node_upd :: "(nat \<rightharpoonup> 'a list_node) \<Rightarrow> nat \<Rightarrow> ('a list_node \<Rightarrow> 'a list_node) \<Rightarrow> (nat \<rightharpoonup> 'a list_node) kres" where
  "node_upd h a f = kbind (node_at h a) (\<lambda>n. Inr (h(a \<mapsto> f n)))"

definition node_data :: "'a list_node \<Rightarrow> 'a kres" where
  "node_data n = (case ln_data n of None \<Rightarrow> Inl BadAccess | Some x \<Rightarrow> Inr x)"

definition klist_new :: "'a klist" where
  "klist_new = \<lparr>l_nodes = [0 \<mapsto> \<lparr>ln_data = None, ln_next = 0, ln_prev = 0\<rparr>], l_fresh = 1\<rparr>"

definition klist_empty :: "'a klist \<Rightarrow> bool" where
  "klist_empty l = (case l_nodes l 0 of None \<Rightarrow> False | Some head \<Rightarrow> ln_next head = 0)"

definition klist_front :: "'a klist \<Rightarrow> 'a kres" where
  "klist_front l = kbind (node_at (l_nodes l) 0) (\<lambda>head. kbind (node_at (l_nodes l) (ln_next head)) node_data)"

definition klist_back :: "'a klist \<Rightarrow> 'a kres" where
  "klist_back l = kbind (node_at (l_nodes l) 0) (\<lambda>head. kbind (node_at (l_nodes l) (ln_prev head)) node_data)"

definition klist_push_back :: "'a klist \<Rightarrow> 'a \<Rightarrow> 'a klist kres" where
  "klist_push_back l x =
     kbind (node_at (l_nodes l) 0) (\<lambda>head.
       let node = l_fresh l;
           h = (l_nodes l)(node \<mapsto> \<lparr>ln_data = Some x, ln_next = 0, ln_prev = ln_prev head\<rparr>)
       in kbind (node_upd h (ln_prev head) (\<lambda>n. n\<lparr>ln_next := node\<rparr>)) (\<lambda>h.
          kbind (node_upd h node (\<lambda>n. n\<lparr>ln_next := 0\<rparr>)) (\<lambda>h.
          kbind (node_upd h 0 (\<lambda>n. n\<lparr>ln_prev := node\<rparr>)) (\<lambda>h.
            Inr \<lparr>l_nodes = h, l_fresh = node + 1\<rparr>))))"

definition klist_push_front :: "'a klist \<Rightarrow> 'a \<Rightarrow> 'a klist kres" where
  "klist_push_front l x =
     kbind (node_at (l_nodes l) 0) (\<lambda>head.
       let node = l_fresh l;
           h = (l_nodes l)(node \<mapsto> \<lparr>ln_data = Some x, ln_next = ln_next head, ln_prev = 0\<rparr>)
       in kbind (node_upd h (ln_next head) (\<lambda>n. n\<lparr>ln_prev := node\<rparr>)) (\<lambda>h.
          kbind (node_upd h node (\<lambda>n. n\<lparr>ln_prev := 0\<rparr>)) (\<lambda>h.
          kbind (node_upd h 0 (\<lambda>n. n\<lparr>ln_next := node\<rparr>)) (\<lambda>h.
            Inr \<lparr>l_nodes = h, l_fresh = node + 1\<rparr>))))"

definition klist_pop_front :: "'a klist \<Rightarrow> ('a \<times> 'a klist) kres" where
  "klist_pop_front l =
     kbind (kassert (\<not> klist_empty l)) (\<lambda>_.
     kbind (node_at (l_nodes l) 0) (\<lambda>head.
       let node = ln_next head
       in kbind (node_at (l_nodes l) node) (\<lambda>n.
          kbind (node_upd (l_nodes l) (ln_next n) (\<lambda>m. m\<lparr>ln_prev := 0\<rparr>)) (\<lambda>h.
          kbind (node_upd h 0 (\<lambda>m. m\<lparr>ln_next := ln_next n\<rparr>)) (\<lambda>h.
          kbind (node_data n) (\<lambda>x.
            Inr (x, l\<lparr>l_nodes := h(node := None)\<rparr>)))))))"

definition klist_pop_back :: "'a klist \<Rightarrow> ('a \<times> 'a klist) kres" where
  "klist_pop_back l =
     kbind (kassert (\<not> klist_empty l)) (\<lambda>_.
     kbind (node_at (l_nodes l) 0) (\<lambda>head.
       let node = ln_prev head
       in kbind (node_at (l_nodes l) node) (\<lambda>n.
          kbind (node_upd (l_nodes l) (ln_prev n) (\<lambda>m. m\<lparr>ln_next := 0\<rparr>)) (\<lambda>h.
          kbind (node_upd h 0 (\<lambda>m. m\<lparr>ln_prev := ln_prev n\<rparr>)) (\<lambda>h.
          kbind (node_data n) (\<lambda>x.
            Inr (x, l\<lparr>l_nodes := h(node := None)\<rparr>)))))))"

section \<open>The single-reader, multiple-writer queue\<close>

text \<open>
  The queue is a list of the same shape; its spin lock is held for the pointer updates only and is
  free before and after every operation.
\<close>

type_synonym 'a srmw_queue = "'a klist"

definition srmw_new :: "'a srmw_queue" where
  "srmw_new = \<lparr>l_nodes = [0 \<mapsto> \<lparr>ln_data = None, ln_next = 0, ln_prev = 0\<rparr>], l_fresh = 1\<rparr>"

definition srmw_empty :: "'a srmw_queue \<Rightarrow> bool" where
  "srmw_empty q = (case l_nodes q 0 of None \<Rightarrow> False | Some head \<Rightarrow> ln_next head = 0)"

definition srmw_get :: "'a srmw_queue \<Rightarrow> ('a \<times> 'a srmw_queue) kres" where
  "srmw_get q =
     kbind (kassert (\<not> srmw_empty q)) (\<lambda>_.
     kbind (node_at (l_nodes q) 0) (\<lambda>head.
       let node = ln_next head
       in kbind (node_at (l_nodes q) node) (\<lambda>n.
          kbind (node_upd (l_nodes q) (ln_next n) (\<lambda>m. m\<lparr>ln_prev := 0\<rparr>)) (\<lambda>h.
          kbind (node_upd h 0 (\<lambda>m. m\<lparr>ln_next := ln_next n\<rparr>)) (\<lambda>h.
          kbind (node_data n) (\<lambda>x.
            Inr (x, q\<lparr>l_nodes := h(node := None)\<rparr>)))))))"

definition srmw_put :: "'a srmw_queue \<Rightarrow> 'a \<Rightarrow> 'a srmw_queue kres" where
  "srmw_put q x =
     kbind (node_at (l_nodes q) 0) (\<lambda>head.
       let node = l_fresh q;
           h = (l_nodes q)(node \<mapsto> \<lparr>ln_data = Some x, ln_next = 0, ln_prev = ln_prev head\<rparr>)
       in kbind (node_upd h (ln_prev head) (\<lambda>n. n\<lparr>ln_next := node\<rparr>)) (\<lambda>h.
          kbind (node_upd h node (\<lambda>n. n\<lparr>ln_next := 0\<rparr>)) (\<lambda>h.
          kbind (node_upd h 0 (\<lambda>n. n\<lparr>ln_prev := node\<rparr>)) (\<lambda>h.
            Inr \<lparr>l_nodes = h, l_fresh = node + 1\<rparr>))))"

lemma srmw_is_klist:
  "srmw_new = klist_new" "srmw_empty = klist_empty" "srmw_get = klist_pop_front" "srmw_put = klist_push_back"
  unfolding srmw_new_def klist_new_def srmw_empty_def klist_empty_def srmw_get_def klist_pop_front_def
    srmw_put_def klist_push_back_def by (simp_all add: fun_eq_iff klist_empty_def srmw_empty_def)

section \<open>The ring of nodes\<close>

text \<open>
  \<open>seg h p as xs e\<close>: from the node behind \<open>p\<close> on, the nodes at the addresses \<open>as\<close> carry the elements
  \<open>xs\<close> and are linked both ways, the last one to \<open>e\<close>.
\<close>

fun seg :: "(nat \<rightharpoonup> 'a list_node) \<Rightarrow> nat \<Rightarrow> nat list \<Rightarrow> 'a list \<Rightarrow> nat \<Rightarrow> bool" where
  "seg h p [] xs e = (xs = [])"
| "seg h p (a # as) xs e = (case xs of [] \<Rightarrow> False
     | x # ys \<Rightarrow> h a = Some \<lparr>ln_data = Some x, ln_next = hd (as @ [e]), ln_prev = p\<rparr> \<and> seg h a as ys e)"

definition ring_of :: "(nat \<rightharpoonup> 'a list_node) \<Rightarrow> nat list \<Rightarrow> 'a list \<Rightarrow> bool" where
  "ring_of h as xs = (distinct (0 # as) \<and> seg h 0 as xs 0 \<and>
     (\<exists>d. h 0 = Some \<lparr>ln_data = d, ln_next = hd (as @ [0]), ln_prev = last (0 # as)\<rparr>))"

definition klist_rel :: "'a klist \<Rightarrow> 'a list \<Rightarrow> bool" where
  "klist_rel l xs = (\<exists>as. ring_of (l_nodes l) as xs \<and> (\<forall>a\<in>set (0 # as). a < l_fresh l))"

lemma seg_length: "seg h p as xs e \<Longrightarrow> length as = length xs"
  by (induction as arbitrary: p xs) (auto split: list.splits)

lemma seg_frame [simp]: "c \<notin> set as \<Longrightarrow> seg (h(c := v)) p as xs e = seg h p as xs e"
  by (induction as arbitrary: p xs) (auto split: list.splits)

lemma seg_snoc:
  "seg h p (as @ [a]) (ys @ [y]) e \<longleftrightarrow>
     seg h p as ys a \<and> h a = Some \<lparr>ln_data = Some y, ln_next = e, ln_prev = last (p # as)\<rparr>"
proof (induction as arbitrary: p ys)
  case Nil
  show ?case by (cases ys) auto
next
  case (Cons b as)
  have "hd ((as @ [a]) @ [e]) = hd (as @ [a])" by (cases as) auto
  moreover have "\<not> seg h b (as @ [a]) [] e" by (cases as) auto
  ultimately show ?case using Cons.IH [of b "tl ys"] by (cases ys) auto
qed

lemma seg_snocE:
  assumes "seg h p (as @ [a]) xs e"
  obtains ys y where "xs = ys @ [y]" "seg h p as ys a"
    "h a = Some \<lparr>ln_data = Some y, ln_next = e, ln_prev = last (p # as)\<rparr>"
proof (cases xs rule: rev_cases)
  case Nil
  then show thesis using seg_length [OF assms] by simp
next
  case (snoc ys y)
  then show thesis using assms that by (simp add: seg_snoc)
qed

lemma klist_rel_new: "klist_rel klist_new []"
  by (auto simp: klist_rel_def klist_new_def ring_of_def intro!: exI [of _ "[]"])

lemma klist_rel_empty: "klist_rel l xs \<Longrightarrow> klist_empty l = (xs = [])"
  unfolding klist_rel_def ring_of_def klist_empty_def
proof (elim exE conjE)
  fix as d
  assume "seg (l_nodes l) 0 as xs 0" "distinct (0 # as)"
    "l_nodes l 0 = Some \<lparr>ln_data = d, ln_next = hd (as @ [0]), ln_prev = last (0 # as)\<rparr>"
  then show "(case l_nodes l 0 of None \<Rightarrow> False | Some head \<Rightarrow> ln_next head = 0) = (xs = [])"
    using seg_length [of "l_nodes l" 0 as xs 0] by (cases as) auto
qed

lemma klist_push_back_rel:
  assumes "klist_rel l xs"
  shows "\<exists>l'. klist_push_back l x = Inr l' \<and> klist_rel l' (xs @ [x])"
proof -
  obtain as d where as: "distinct (0 # as)" "seg (l_nodes l) 0 as xs 0" "\<forall>a\<in>set (0 # as). a < l_fresh l"
    "l_nodes l 0 = Some \<lparr>ln_data = d, ln_next = hd (as @ [0]), ln_prev = last (0 # as)\<rparr>"
    using assms by (auto simp: klist_rel_def ring_of_def)
  let ?c = "l_fresh l"
  have c: "?c \<notin> set as" "?c \<noteq> 0" using as(3) by auto
  show ?thesis
  proof (cases as rule: rev_cases)
    case Nil
    then show ?thesis
      using as c by (auto simp: klist_push_back_def node_at_def node_upd_def Let_def klist_rel_def ring_of_def
          intro!: exI [of _ "[?c]"])
  next
    case (snoc bs b)
    obtain ys y where y: "xs = ys @ [y]" "seg (l_nodes l) 0 bs ys b"
      "l_nodes l b = Some \<lparr>ln_data = Some y, ln_next = 0, ln_prev = last (0 # bs)\<rparr>"
      using as(2) unfolding snoc by (rule seg_snocE)
    have b: "b \<noteq> 0" "b \<noteq> ?c" "b \<notin> set bs" "?c \<notin> set bs" "0 \<notin> set bs"
      using as(1) c unfolding snoc by auto
    let ?h = "(l_nodes l)(?c \<mapsto> \<lparr>ln_data = Some x, ln_next = 0, ln_prev = b\<rparr>,
      b \<mapsto> \<lparr>ln_data = Some y, ln_next = ?c, ln_prev = last (0 # bs)\<rparr>,
      0 \<mapsto> \<lparr>ln_data = d, ln_next = hd (as @ [0]), ln_prev = ?c\<rparr>)"
    have "klist_push_back l x = Inr \<lparr>l_nodes = ?h, l_fresh = ?c + 1\<rparr>"
      using as(4) snoc y(3) b c
      by (simp add: klist_push_back_def node_at_def node_upd_def Let_def fun_upd_twist fun_upd_idem)
    moreover have "seg ?h 0 (as @ [?c]) (xs @ [x]) 0"
      unfolding seg_snoc snoc y(1) using y b c by simp
    moreover have "ring_of ?h (as @ [?c]) (xs @ [x])"
      using calculation(2) as(1) c snoc by (cases bs) (simp_all add: ring_of_def)
    then have "klist_rel \<lparr>l_nodes = ?h, l_fresh = ?c + 1\<rparr> (xs @ [x])"
      unfolding klist_rel_def using as(3) by (intro exI [of _ "as @ [?c]"]) auto
    ultimately show ?thesis by blast
  qed
qed

lemma klist_pop_front_rel:
  assumes "klist_rel l (x # xs)"
  shows "\<exists>l'. klist_pop_front l = Inr (x, l') \<and> klist_rel l' xs"
proof -
  obtain as d where as: "distinct (0 # as)" "seg (l_nodes l) 0 as (x # xs) 0" "\<forall>a\<in>set (0 # as). a < l_fresh l"
    "l_nodes l 0 = Some \<lparr>ln_data = d, ln_next = hd (as @ [0]), ln_prev = last (0 # as)\<rparr>"
    using assms by (auto simp: klist_rel_def ring_of_def)
  obtain a bs where a: "as = a # bs" using as(2) by (cases as) auto
  have na: "l_nodes l a = Some \<lparr>ln_data = Some x, ln_next = hd (bs @ [0]), ln_prev = 0\<rparr>"
    "seg (l_nodes l) a bs xs 0" "a \<noteq> 0" "a \<notin> set bs" "0 \<notin> set bs"
    using as(1,2) a by auto
  show ?thesis
  proof (cases bs)
    case Nil
    let ?h = "(l_nodes l)(0 \<mapsto> \<lparr>ln_data = d, ln_next = 0, ln_prev = 0\<rparr>, a := None)"
    have "klist_pop_front l = Inr (x, l\<lparr>l_nodes := ?h\<rparr>)"
      using as(4) a na Nil
      by (simp add: klist_pop_front_def klist_empty_def node_at_def node_upd_def node_data_def Let_def)
    moreover have "ring_of ?h [] xs" using na Nil by (simp add: ring_of_def)
    ultimately show ?thesis using as(3) by (auto simp: klist_rel_def intro!: exI [of _ "[]"])
  next
    case (Cons b cs)
    obtain y ys where y: "xs = y # ys" using na(2) Cons by (cases xs) auto
    have nb: "l_nodes l b = Some \<lparr>ln_data = Some y, ln_next = hd (cs @ [0]), ln_prev = a\<rparr>"
      "seg (l_nodes l) b cs ys 0"
      using na(2) Cons y by auto
    have d: "b \<noteq> 0" "b \<noteq> a" "b \<notin> set cs" "a \<notin> set cs" "0 \<notin> set cs" "distinct cs"
      using as(1) a Cons by auto
    let ?h = "(l_nodes l)(b \<mapsto> \<lparr>ln_data = Some y, ln_next = hd (cs @ [0]), ln_prev = 0\<rparr>,
      0 \<mapsto> \<lparr>ln_data = d, ln_next = b, ln_prev = last (0 # as)\<rparr>, a := None)"
    have "klist_pop_front l = Inr (x, l\<lparr>l_nodes := ?h\<rparr>)"
      using as(4) a na Cons nb d
      by (simp add: klist_pop_front_def klist_empty_def node_at_def node_upd_def node_data_def Let_def)
    moreover have "ring_of ?h (b # cs) xs"
      using nb d y a Cons na(3) by (simp add: ring_of_def)
    then have "klist_rel (l\<lparr>l_nodes := ?h\<rparr>) xs"
      unfolding klist_rel_def using as(3) a Cons by (intro exI [of _ "b # cs"]) auto
    ultimately show ?thesis by blast
  qed
qed

lemma klist_pop_front_empty: "klist_rel l [] \<Longrightarrow> klist_pop_front l = Inl AssertFail"
  by (simp add: klist_pop_front_def klist_rel_empty)

text \<open>\<open>delete\<close> and \<open>new\<close> never run out of addresses: any number of elements fits.\<close>

definition klist_fits :: "'a klist \<Rightarrow> nat \<Rightarrow> bool" where
  "klist_fits l n = True"

interpretation srmw: fifo klist_rel klist_fits srmw_empty srmw_put srmw_get
  unfolding srmw_is_klist
proof
  fix l :: "'a klist" and xs :: "'a list" and x n
  show "klist_rel l xs \<Longrightarrow> klist_empty l = (xs = [])" by (rule klist_rel_empty)
  show "\<exists>l'. klist_push_back l x = Inr l' \<and> klist_rel l' (xs @ [x]) \<and> klist_fits l' n"
    if "klist_rel l xs"
    using klist_push_back_rel [OF that, of x] by (auto simp: klist_fits_def)
  show "\<exists>l'. klist_pop_front l = Inr (x, l') \<and> klist_rel l' xs" if "klist_rel l (x # xs)"
    using klist_pop_front_rel [OF that] by blast
  show "klist_rel l [] \<Longrightarrow> klist_pop_front l = Inl AssertFail" by (rule klist_pop_front_empty)
qed

text \<open>
  C31. \<open>CircularBuffer\<close> is a queue that forgets its oldest elements: \<open>push\<close> on a buffer that holds
  \<open>xs\<close> appends, and when the buffer is full it drops the first element; popping then returns the
  elements in the order in which they came, and one more \<open>pop\<close> asserts.
\<close>

theorem circular_buffer_fifo:
  assumes "cb_rel b xs"
  shows "\<exists>b1 b2. cb_push b x = Inr b1 \<and>
    (let ys = (if length xs = cb_capacity b then tl xs @ [x] else xs @ [x])
     in cb_rel b1 ys \<and> get_n cb_pop (length ys) b1 = Inr (ys, b2) \<and> cb_is_empty b2 \<and> cb_pop b2 = Inl AssertFail)"
proof -
  define ys where "ys = (if length xs = cb_capacity b then tl xs @ [x] else xs @ [x])"
  obtain b1 where b1: "cb_push b x = Inr b1" "cb_rel b1 ys"
    using cb_push_rel [OF assms, of x] unfolding ys_def by blast
  have "cb_fits b1 (length [])" using b1(2) by (simp add: cb_fits_def cb_rel_def)
  from ring.fifo_order [OF b1(2) this]
  obtain b2 where "get_n cb_pop (length ys) b1 = Inr (ys, b2)" "cb_is_empty b2" "cb_pop b2 = Inl AssertFail"
    by auto
  with b1 show ?thesis unfolding Let_def ys_def [symmetric] by blast
qed

definition full_buffer :: "nat circular_buffer" where
  "full_buffer = \<lparr>cb_slots = [Some 3, Some 1, Some 2], cb_head = 1, cb_tail = 1, cb_capacity = 3, cb_size = 3\<rparr>"

theorem circular_buffer_fifo_witness:
  "\<exists>b1 b2. cb_push full_buffer 4 = Inr b1 \<and> get_n cb_pop (length [2, 3, 4 :: nat]) b1 = Inr ([2, 3, 4], b2)"
proof -
  have "cb_rel full_buffer [1, 2, 3]" by (auto simp: full_buffer_def cb_rel_def less_Suc_eq)
  from circular_buffer_fifo [OF this, of 4] show ?thesis
    by (auto simp: Let_def full_buffer_def)
qed

text \<open>
  C22. The queue of the terminal input, with its nodes, pointers, \<open>new\<close> and \<open>delete\<close>, is a queue:
  after any number of \<open>put\<close>s, the \<open>get\<close>s return what was there and what was put, in order, and
  touch no deleted node; a \<open>get\<close> of the empty queue asserts.
\<close>

theorem srmw_queue_fifo:
  assumes "klist_rel q xs"
  shows "\<exists>q1 q2. kfold (\<lambda>y q. srmw_put q y) ys q = Inr q1 \<and>
    get_n srmw_get (length xs + length ys) q1 = Inr (xs @ ys, q2) \<and> srmw_empty q2 \<and> srmw_get q2 = Inl AssertFail"
  using srmw.fifo_order [OF assms, of ys] by (simp add: klist_fits_def)

theorem srmw_queue_fifo_witness:
  "\<exists>q1 q2. kfold (\<lambda>y q. srmw_put q y) [5, 6 :: nat] srmw_new = Inr q1 \<and>
    get_n srmw_get (length [5, 6 :: nat]) q1 = Inr ([5, 6], q2)"
  using srmw_queue_fifo [of srmw_new "[]" "[5, 6]"] klist_rel_new by (auto simp: srmw_is_klist(1))

end
