(* ===== verification/Keyboard.thy ===== *)
theory Keyboard
  imports Queues
begin

text \<open>
  The keyboard: the key codes of \<open>include/devices/KeyCode.hpp\<close>, the event buffer of
  \<open>devices/KeyboardDevice.cpp\<close> and the scan code decoder of \<open>devices/PS2KeyboardDevice.cpp\<close>. A scan
  code is what the interrupt handler reads from the input port.
\<close>

section \<open>Key codes\<close>

text \<open>
  An enumerator is its position in \<open>__ENUMERATE_KEYCODES\<close>, and the code uses it as an array index. The
  names of the enumerators are abbreviations for these numbers; \<open>Key_Max\<close> is their count.
\<close>

type_synonym KeyCode = nat

abbreviation (input) Key_None :: KeyCode where "Key_None \<equiv> 0"
abbreviation (input) Key_Escape :: KeyCode where "Key_Escape \<equiv> 1"
abbreviation (input) Key_1 :: KeyCode where "Key_1 \<equiv> 2"
abbreviation (input) Key_2 :: KeyCode where "Key_2 \<equiv> 3"
abbreviation (input) Key_3 :: KeyCode where "Key_3 \<equiv> 4"
abbreviation (input) Key_4 :: KeyCode where "Key_4 \<equiv> 5"
abbreviation (input) Key_5 :: KeyCode where "Key_5 \<equiv> 6"
abbreviation (input) Key_6 :: KeyCode where "Key_6 \<equiv> 7"
abbreviation (input) Key_7 :: KeyCode where "Key_7 \<equiv> 8"
abbreviation (input) Key_8 :: KeyCode where "Key_8 \<equiv> 9"
abbreviation (input) Key_9 :: KeyCode where "Key_9 \<equiv> 10"
abbreviation (input) Key_0 :: KeyCode where "Key_0 \<equiv> 11"
abbreviation (input) Key_Minus :: KeyCode where "Key_Minus \<equiv> 12"
abbreviation (input) Key_Equals :: KeyCode where "Key_Equals \<equiv> 13"
abbreviation (input) Key_Backspace :: KeyCode where "Key_Backspace \<equiv> 14"
abbreviation (input) Key_Tab :: KeyCode where "Key_Tab \<equiv> 15"
abbreviation (input) Key_Q :: KeyCode where "Key_Q \<equiv> 16"
abbreviation (input) Key_W :: KeyCode where "Key_W \<equiv> 17"
abbreviation (input) Key_E :: KeyCode where "Key_E \<equiv> 18"
abbreviation (input) Key_R :: KeyCode where "Key_R \<equiv> 19"
abbreviation (input) Key_T :: KeyCode where "Key_T \<equiv> 20"
abbreviation (input) Key_Y :: KeyCode where "Key_Y \<equiv> 21"
abbreviation (input) Key_U :: KeyCode where "Key_U \<equiv> 22"
abbreviation (input) Key_I :: KeyCode where "Key_I \<equiv> 23"
abbreviation (input) Key_O :: KeyCode where "Key_O \<equiv> 24"
abbreviation (input) Key_P :: KeyCode where "Key_P \<equiv> 25"
abbreviation (input) Key_LeftBracket :: KeyCode where "Key_LeftBracket \<equiv> 26"
abbreviation (input) Key_RightBracket :: KeyCode where "Key_RightBracket \<equiv> 27"
abbreviation (input) Key_Return :: KeyCode where "Key_Return \<equiv> 28"
abbreviation (input) Key_LeftControl :: KeyCode where "Key_LeftControl \<equiv> 29"
abbreviation (input) Key_A :: KeyCode where "Key_A \<equiv> 30"
abbreviation (input) Key_S :: KeyCode where "Key_S \<equiv> 31"
abbreviation (input) Key_D :: KeyCode where "Key_D \<equiv> 32"
abbreviation (input) Key_F :: KeyCode where "Key_F \<equiv> 33"
abbreviation (input) Key_G :: KeyCode where "Key_G \<equiv> 34"
abbreviation (input) Key_H :: KeyCode where "Key_H \<equiv> 35"
abbreviation (input) Key_J :: KeyCode where "Key_J \<equiv> 36"
abbreviation (input) Key_K :: KeyCode where "Key_K \<equiv> 37"
abbreviation (input) Key_L :: KeyCode where "Key_L \<equiv> 38"
abbreviation (input) Key_Semicolon :: KeyCode where "Key_Semicolon \<equiv> 39"
abbreviation (input) Key_Apostrophe :: KeyCode where "Key_Apostrophe \<equiv> 40"
abbreviation (input) Key_BackTick :: KeyCode where "Key_BackTick \<equiv> 41"
abbreviation (input) Key_LeftShift :: KeyCode where "Key_LeftShift \<equiv> 42"
abbreviation (input) Key_Backslash :: KeyCode where "Key_Backslash \<equiv> 43"
abbreviation (input) Key_Z :: KeyCode where "Key_Z \<equiv> 44"
abbreviation (input) Key_X :: KeyCode where "Key_X \<equiv> 45"
abbreviation (input) Key_C :: KeyCode where "Key_C \<equiv> 46"
abbreviation (input) Key_V :: KeyCode where "Key_V \<equiv> 47"
abbreviation (input) Key_B :: KeyCode where "Key_B \<equiv> 48"
abbreviation (input) Key_N :: KeyCode where "Key_N \<equiv> 49"
abbreviation (input) Key_M :: KeyCode where "Key_M \<equiv> 50"
abbreviation (input) Key_Comma :: KeyCode where "Key_Comma \<equiv> 51"
abbreviation (input) Key_Period :: KeyCode where "Key_Period \<equiv> 52"
abbreviation (input) Key_Slash :: KeyCode where "Key_Slash \<equiv> 53"
abbreviation (input) Key_RightShift :: KeyCode where "Key_RightShift \<equiv> 54"
abbreviation (input) Key_Asterisk :: KeyCode where "Key_Asterisk \<equiv> 55"
abbreviation (input) Key_LeftAlt :: KeyCode where "Key_LeftAlt \<equiv> 56"
abbreviation (input) Key_Space :: KeyCode where "Key_Space \<equiv> 57"
abbreviation (input) Key_CapsLock :: KeyCode where "Key_CapsLock \<equiv> 58"
abbreviation (input) Key_F1 :: KeyCode where "Key_F1 \<equiv> 59"
abbreviation (input) Key_F2 :: KeyCode where "Key_F2 \<equiv> 60"
abbreviation (input) Key_F3 :: KeyCode where "Key_F3 \<equiv> 61"
abbreviation (input) Key_F4 :: KeyCode where "Key_F4 \<equiv> 62"
abbreviation (input) Key_F5 :: KeyCode where "Key_F5 \<equiv> 63"
abbreviation (input) Key_F6 :: KeyCode where "Key_F6 \<equiv> 64"
abbreviation (input) Key_F7 :: KeyCode where "Key_F7 \<equiv> 65"
abbreviation (input) Key_F8 :: KeyCode where "Key_F8 \<equiv> 66"
abbreviation (input) Key_F9 :: KeyCode where "Key_F9 \<equiv> 67"
abbreviation (input) Key_F10 :: KeyCode where "Key_F10 \<equiv> 68"
abbreviation (input) Key_NumLock :: KeyCode where "Key_NumLock \<equiv> 69"
abbreviation (input) Key_ScrollLock :: KeyCode where "Key_ScrollLock \<equiv> 70"
abbreviation (input) Key_Home :: KeyCode where "Key_Home \<equiv> 71"
abbreviation (input) Key_Up :: KeyCode where "Key_Up \<equiv> 72"
abbreviation (input) Key_PageUp :: KeyCode where "Key_PageUp \<equiv> 73"
abbreviation (input) Key_Left :: KeyCode where "Key_Left \<equiv> 74"
abbreviation (input) Key_Right :: KeyCode where "Key_Right \<equiv> 75"
abbreviation (input) Key_Plus :: KeyCode where "Key_Plus \<equiv> 76"
abbreviation (input) Key_End :: KeyCode where "Key_End \<equiv> 77"
abbreviation (input) Key_Down :: KeyCode where "Key_Down \<equiv> 78"
abbreviation (input) Key_PageDown :: KeyCode where "Key_PageDown \<equiv> 79"
abbreviation (input) Key_Insert :: KeyCode where "Key_Insert \<equiv> 80"
abbreviation (input) Key_Delete :: KeyCode where "Key_Delete \<equiv> 81"
abbreviation (input) Key_F11 :: KeyCode where "Key_F11 \<equiv> 82"
abbreviation (input) Key_F12 :: KeyCode where "Key_F12 \<equiv> 83"
abbreviation (input) Key_RightControl :: KeyCode where "Key_RightControl \<equiv> 84"
abbreviation (input) Key_Super :: KeyCode where "Key_Super \<equiv> 85"
abbreviation (input) Key_Menu :: KeyCode where "Key_Menu \<equiv> 86"
abbreviation (input) Key_RightAlt :: KeyCode where "Key_RightAlt \<equiv> 87"
abbreviation (input) Key_ExclamationPoint :: KeyCode where "Key_ExclamationPoint \<equiv> 88"
abbreviation (input) Key_AtSign :: KeyCode where "Key_AtSign \<equiv> 89"
abbreviation (input) Key_Hashtag :: KeyCode where "Key_Hashtag \<equiv> 90"
abbreviation (input) Key_Dollar :: KeyCode where "Key_Dollar \<equiv> 91"
abbreviation (input) Key_Percent :: KeyCode where "Key_Percent \<equiv> 92"
abbreviation (input) Key_Circumflex :: KeyCode where "Key_Circumflex \<equiv> 93"
abbreviation (input) Key_Ampersand :: KeyCode where "Key_Ampersand \<equiv> 94"
abbreviation (input) Key_Underscore :: KeyCode where "Key_Underscore \<equiv> 95"
abbreviation (input) Key_LeftParenthesis :: KeyCode where "Key_LeftParenthesis \<equiv> 96"
abbreviation (input) Key_RightParenthesis :: KeyCode where "Key_RightParenthesis \<equiv> 97"
abbreviation (input) Key_LeftBrace :: KeyCode where "Key_LeftBrace \<equiv> 98"
abbreviation (input) Key_RightBrace :: KeyCode where "Key_RightBrace \<equiv> 99"
abbreviation (input) Key_LessThan :: KeyCode where "Key_LessThan \<equiv> 100"
abbreviation (input) Key_GreaterThan :: KeyCode where "Key_GreaterThan \<equiv> 101"
abbreviation (input) Key_QuestionMark :: KeyCode where "Key_QuestionMark \<equiv> 102"
abbreviation (input) Key_Pipe :: KeyCode where "Key_Pipe \<equiv> 103"
abbreviation (input) Key_Tilde :: KeyCode where "Key_Tilde \<equiv> 104"
abbreviation (input) Key_Colon :: KeyCode where "Key_Colon \<equiv> 105"
abbreviation (input) Key_DoubleQuote :: KeyCode where "Key_DoubleQuote \<equiv> 106"
abbreviation (input) Key_Max :: KeyCode where "Key_Max \<equiv> 107"

section \<open>The tables\<close>

text \<open>
  The characters of the keys, indexed by key code. The arrays have \<open>Key_Max\<close> entries and shorter
  initialisers; the rest is zero.
\<close>

definition default_keycode_map :: "u8 list" where
  "default_keycode_map =
    [0, 27, 49, 50, 51, 52, 53, 54, 55, 56, 57, 48, 45, 61, 127, 0, 113, 119, 101, 114, 116, 121,
     117, 105, 111, 112, 91, 93, 10, 0, 97, 115, 100, 102, 103, 104, 106, 107, 108, 59, 39, 96,
     0, 92, 122, 120, 99, 118, 98, 110, 109, 44, 46, 47, 0, 0, 0, 32, 0]"

definition default_keycode_map_shifted :: "u8 list" where
  "default_keycode_map_shifted =
    [0, 27, 33, 64, 35, 36, 37, 94, 38, 42, 40, 41, 95, 43, 127, 0, 81, 87, 69, 82, 84, 89, 85,
     73, 79, 80, 123, 125, 10, 0, 65, 83, 68, 70, 71, 72, 74, 75, 76, 58, 34, 126, 0, 124, 90,
     88, 67, 86, 66, 78, 77, 60, 62, 63, 0, 0, 0, 32, 0]"

text \<open>The key codes of the scan codes, without and with the prefix \<open>0xe0\<close>.\<close>

definition default_scancode_map :: "KeyCode list" where
  "default_scancode_map =
    [Key_None, Key_Escape, Key_1, Key_2, Key_3, Key_4, Key_5, Key_6, Key_7, Key_8, Key_9, Key_0,
     Key_Minus, Key_Equals, Key_Backspace, Key_Tab, Key_Q, Key_W, Key_E, Key_R, Key_T, Key_Y,
     Key_U, Key_I, Key_O, Key_P, Key_LeftBracket, Key_RightBracket, Key_Return, Key_LeftControl,
     Key_A, Key_S, Key_D, Key_F, Key_G, Key_H, Key_J, Key_K, Key_L, Key_Semicolon,
     Key_Apostrophe, Key_BackTick, Key_LeftShift, Key_Backslash, Key_Z, Key_X, Key_C, Key_V,
     Key_B, Key_N, Key_M, Key_Comma, Key_Period, Key_Slash, Key_RightShift, Key_Asterisk,
     Key_LeftAlt, Key_Space, Key_CapsLock, Key_F1, Key_F2, Key_F3, Key_F4, Key_F5, Key_F6,
     Key_F7, Key_F8, Key_F9, Key_F10, Key_NumLock, Key_ScrollLock, Key_Home, Key_Up, Key_PageUp,
     Key_Left, Key_None, Key_Right, Key_Plus, Key_End, Key_Down, Key_PageDown, Key_Insert,
     Key_Delete, Key_None, Key_None, Key_None, Key_F11, Key_F12, Key_None, Key_None, Key_Super,
     Key_None, Key_Menu, Key_None, Key_None, Key_None, Key_None, Key_None, Key_None, Key_None,
     Key_None, Key_None, Key_None, Key_None, Key_None, Key_None, Key_None, Key_None, Key_None,
     Key_None, Key_None, Key_None, Key_None, Key_None, Key_None, Key_None, Key_None, Key_None,
     Key_None, Key_None, Key_None, Key_None, Key_None, Key_None, Key_None, Key_None, Key_None,
     Key_None]"

definition default_e0_scancode_map :: "KeyCode list" where
  "default_e0_scancode_map =
    [Key_None, Key_None, Key_None, Key_None, Key_None, Key_None, Key_None, Key_None, Key_None,
     Key_None, Key_None, Key_None, Key_None, Key_None, Key_None, Key_None, Key_None, Key_None,
     Key_None, Key_None, Key_None, Key_None, Key_None, Key_None, Key_None, Key_None, Key_None,
     Key_None, Key_None, Key_None, Key_None, Key_None, Key_None, Key_None, Key_None, Key_None,
     Key_None, Key_None, Key_None, Key_None, Key_None, Key_None, Key_None, Key_None, Key_None,
     Key_None, Key_None, Key_None, Key_None, Key_None, Key_None, Key_None, Key_None, Key_None,
     Key_None, Key_None, Key_None, Key_None, Key_None, Key_None, Key_None, Key_None, Key_None,
     Key_None, Key_None, Key_None, Key_None, Key_None, Key_None, Key_None, Key_None, Key_None,
     Key_Up, Key_None, Key_None, Key_Left, Key_None, Key_Right, Key_None, Key_None, Key_Down,
     Key_None, Key_None, Key_None, Key_None, Key_None, Key_None, Key_None, Key_None, Key_None,
     Key_None, Key_None, Key_None, Key_None, Key_None, Key_None, Key_None, Key_None, Key_None,
     Key_None, Key_None, Key_None, Key_None, Key_None, Key_None, Key_None, Key_None, Key_None,
     Key_None, Key_None, Key_None, Key_None, Key_None, Key_None, Key_None, Key_None, Key_None,
     Key_None, Key_None, Key_None, Key_None, Key_None, Key_None, Key_None, Key_None, Key_None,
     Key_None, Key_None]"

definition keycode_char :: "u8 list \<Rightarrow> KeyCode \<Rightarrow> u8 kres" where
  "keycode_char tab k =
     (if k < Key_Max
      then Inr (if k < length tab then tab ! k else 0) else Inl BadAccess)"

definition scancode_key :: "KeyCode list \<Rightarrow> u8 \<Rightarrow> KeyCode kres" where
  "scancode_key tab s = (if unat s < length tab then Inr (tab ! unat s) else Inl BadAccess)"

section \<open>Events\<close>

definition Shift :: u8 where "Shift = 0x01"
definition Control :: u8 where "Control = 0x02"
definition Alt :: u8 where "Alt = 0x04"
definition AltGr :: u8 where "AltGr = 0x08"
definition Super :: u8 where "Super = 0x10"
definition CapsLock :: u8 where "CapsLock = 0x20"
definition NumLock :: u8 where "NumLock = 0x40"
definition Pressed :: u8 where "Pressed = 0x80"

lemmas modifier_defs = Shift_def Control_def Alt_def AltGr_def Super_def CapsLock_def NumLock_def Pressed_def

record key_event_t =
  ev_key :: KeyCode
  ev_scancode :: u32
  ev_modifiers :: u8
  ev_code_point :: u8

text \<open>An enumerator and a \<open>uint32_t\<close> of four bytes each, two bytes, and padding to a multiple of four.\<close>

definition sizeof_key_event_t :: nat where
  "sizeof_key_event_t = 12"

text \<open>
  A keyboard: the event buffer, the number of registered listeners, the calls of the listeners that
  were deferred to the end of the interrupt, and the decoder's state.
\<close>

record ps2_keyboard =
  kb_buffer :: "key_event_t circular_buffer"
  kb_listeners :: nat
  kb_deferred :: "key_event_t list"
  kb_e0_prefix :: bool
  kb_modifiers :: u8

definition ps2_new :: ps2_keyboard where
  "ps2_new = \<lparr>kb_buffer = cb_new 16, kb_listeners = 0, kb_deferred = [], kb_e0_prefix = False, kb_modifiers = 0\<rparr>"

definition register_listener :: "ps2_keyboard \<Rightarrow> ps2_keyboard" where
  "register_listener k = k\<lparr>kb_listeners := kb_listeners k + 1\<rparr>"

definition unregister_listener :: "ps2_keyboard \<Rightarrow> ps2_keyboard kres" where
  "unregister_listener k = kbind (kassert False) (\<lambda>_. Inr k)"

definition kb_push :: "ps2_keyboard \<Rightarrow> key_event_t \<Rightarrow> ps2_keyboard kres" where
  "kb_push k event =
     kbind (cb_push (kb_buffer k) event) (\<lambda>b.
       let k = k\<lparr>kb_buffer := b\<rparr>
       in Inr (if kb_listeners k \<noteq> 0 then k\<lparr>kb_deferred := kb_deferred k @ [event]\<rparr> else k))"

text \<open>
  Reading: the number of bytes reported and what the caller's buffer starts with afterwards; every
  event is copied to the same place.
\<close>

function kb_read_loop :: "ps2_keyboard \<Rightarrow> nat \<Rightarrow> nat \<Rightarrow> key_event_t option \<Rightarrow> (nat \<times> key_event_t option \<times> ps2_keyboard) kres" where
  "kb_read_loop k bytes read out =
     (if read < bytes \<and> \<not> cb_is_empty (kb_buffer k) \<and> \<not> bytes - read < sizeof_key_event_t
      then (case cb_pop (kb_buffer k) of
              Inl e \<Rightarrow> Inl e
            | Inr (event, b) \<Rightarrow>
                kb_read_loop (k\<lparr>kb_buffer := b\<rparr>) bytes (read + sizeof_key_event_t) (Some event))
      else Inr (read, out, k))"
  by pat_completeness auto
termination
  by (relation "measure (\<lambda>(k, bytes, read, out). bytes - read)") (auto simp: sizeof_key_event_t_def)

declare kb_read_loop.simps [simp del]

definition kb_read :: "ps2_keyboard \<Rightarrow> nat \<Rightarrow> (nat \<times> key_event_t option \<times> ps2_keyboard) kres" where
  "kb_read k bytes = kb_read_loop k bytes 0 None"

definition kb_size :: "ps2_keyboard \<Rightarrow> nat" where
  "kb_size k = cb_size (kb_buffer k) * sizeof_key_event_t"

section \<open>The decoder\<close>

definition parse_modifiers :: "u8 \<Rightarrow> bool \<Rightarrow> KeyCode \<Rightarrow> u8" where
  "parse_modifiers m released key =
     (if key = Key_CapsLock then (if released then m XOR CapsLock else m)
      else let bit = (if key = Key_LeftShift \<or> key = Key_RightShift then Shift
                      else if key = Key_LeftControl \<or> key = Key_RightControl then Control
                      else if key = Key_LeftAlt then Alt
                      else if key = Key_RightAlt then AltGr
                      else if key = Key_Super then Super
                      else 0)
           in if released then m AND NOT bit else m OR bit)"

definition handle_interrupt :: "u8 \<Rightarrow> ps2_keyboard \<Rightarrow> ps2_keyboard kres" where
  "handle_interrupt scancode k =
     (if scancode = 0xe0 then Inr (k\<lparr>kb_e0_prefix := True\<rparr>)
      else
        let released = (scancode AND 0x80 \<noteq> 0);
            scancode = scancode AND 0x7f
        in kbind (scancode_key (if kb_e0_prefix k then default_e0_scancode_map else default_scancode_map) scancode) (\<lambda>key.
           if key = Key_None then Inr k
           else
             let m = parse_modifiers (kb_modifiers k) released key;
                 k = k\<lparr>kb_modifiers := m, kb_e0_prefix := False\<rparr>;
                 modifiers = (if \<not> released then m OR Pressed else m);
                 shifted = (modifiers AND Shift \<noteq> 0 \<or> modifiers AND CapsLock \<noteq> 0)
             in kbind (keycode_char (if shifted then default_keycode_map_shifted else default_keycode_map) key) (\<lambda>code_point.
                let event = \<lparr>ev_key = key, ev_scancode = ucast scancode, ev_modifiers = modifiers, ev_code_point = code_point\<rparr>;
                    event = (if ev_code_point event = 92 then event\<lparr>ev_code_point := 21\<rparr> else event)
                in kb_push k event)))"

end
