(* ===== verification/KeyboardSpec.thy ===== *)
theory KeyboardSpec
  imports Keyboard
begin

text \<open>
  The decoder never reads outside its tables and keeps its state well-formed; and what happens
  after a prefix that is not followed by a known key.
\<close>

section \<open>The tables\<close>

lemma scancode_map_length: "length default_scancode_map = 128" "length default_e0_scancode_map = 128"
  by (simp_all add: default_scancode_map_def default_e0_scancode_map_def)

lemma scancode_maps_real:
  "list_all (\<lambda>k. k < Key_Max) default_scancode_map" "list_all (\<lambda>k. k < Key_Max) default_e0_scancode_map"
  by (simp_all add: default_scancode_map_def default_e0_scancode_map_def)

lemma low_7_bits: "unat (s AND 0x7f :: u8) < 128"
proof -
  have "s AND 0x7f \<le> (0x7f :: u8)" by (rule word_and_le1)
  then show ?thesis by (simp add: word_le_nat_alt)
qed

lemma scancode_key_ok:
  "\<exists>key. scancode_key (if p then default_e0_scancode_map else default_scancode_map) (s AND 0x7f) = Inr key \<and> key < Key_Max"
  using scancode_maps_real low_7_bits [of s] by (simp add: scancode_key_def scancode_map_length list_all_length)

lemma keycode_char_ok: "key < Key_Max \<Longrightarrow> \<exists>c. keycode_char tab key = Inr c"
  by (simp add: keycode_char_def)

section \<open>The state of the decoder\<close>

text \<open>
  The event buffer is well-formed and has its 16 places; the stored modifiers never contain the
  bits \<open>Pressed\<close> and \<open>NumLock\<close>.
\<close>

definition kb_ok :: "ps2_keyboard \<Rightarrow> bool" where
  "kb_ok k = ((\<exists>evs. cb_rel (kb_buffer k) evs) \<and> cb_capacity (kb_buffer k) = 16 \<and> kb_modifiers k AND 0xC0 = 0)"

lemma kb_ok_new: "kb_ok ps2_new"
proof -
  have "cb_rel (cb_new 16 :: key_event_t circular_buffer) []" by (rule cb_rel_new) simp
  then show ?thesis by (auto simp: kb_ok_def ps2_new_def cb_new_def)
qed

lemma kb_push_ok:
  assumes "\<exists>evs. cb_rel (kb_buffer k) evs"
  shows "\<exists>b. kb_push k e = Inr (k\<lparr>kb_buffer := b, kb_deferred := kb_deferred k @ (if kb_listeners k \<noteq> 0 then [e] else [])\<rparr>) \<and>
    (\<exists>evs. cb_rel b evs) \<and> cb_capacity b = cb_capacity (kb_buffer k)"
proof -
  obtain evs where "cb_rel (kb_buffer k) evs" using assms by blast
  from cb_push_rel [OF this, of e] obtain b where
    "cb_push (kb_buffer k) e = Inr b" "cb_capacity b = cb_capacity (kb_buffer k)" "\<exists>evs. cb_rel b evs"
    by blast
  then show ?thesis by (auto simp: kb_push_def Let_def)
qed

lemma and_C0_or: "m AND 0xC0 = 0 \<Longrightarrow> b AND 0xC0 = 0 \<Longrightarrow> (m OR b) AND 0xC0 = (0 :: u8)"
  by (simp add: bit.conj_disj_distrib2)

lemma and_C0_and: "m AND 0xC0 = 0 \<Longrightarrow> (m AND b) AND 0xC0 = (0 :: u8)"
  by (metis and.assoc and.commute and_zero_eq)

lemma parse_modifiers_ok:
  assumes "m AND 0xC0 = 0"
  shows "parse_modifiers m released key AND 0xC0 = 0"
proof -
  define b where "b = (if key = Key_LeftShift \<or> key = Key_RightShift then Shift
    else if key = Key_LeftControl \<or> key = Key_RightControl then Control
    else if key = Key_LeftAlt then Alt else if key = Key_RightAlt then AltGr
    else if key = Key_Super then Super else 0)"
  have "parse_modifiers m released key =
      (if key = Key_CapsLock then (if released then m XOR CapsLock else m)
       else if released then m AND NOT b else m OR b)"
    unfolding parse_modifiers_def Let_def b_def ..
  moreover have "b AND 0xC0 = 0" unfolding b_def modifier_defs by simp
  then have "(m OR b) AND 0xC0 = 0" using assms by (intro and_C0_or)
  moreover have "(m XOR CapsLock) AND 0xC0 = 0"
    using assms by (simp add: CapsLock_def bit.conj_xor_distrib2)
  ultimately show ?thesis using assms and_C0_and [OF assms] by simp
qed

text \<open>
  C23. The interrupt handler is total: for every scan code and every reachable state it reads inside
  its tables, pushes into a well-formed buffer, and leaves a well-formed state; the stored modifiers
  never get the bit \<open>Pressed\<close>, which only events carry.
\<close>

theorem handle_interrupt_safe:
  assumes "kb_ok k"
  shows "\<exists>k'. handle_interrupt scancode k = Inr k' \<and> kb_ok k'"
proof (cases "scancode = 0xe0")
  case True
  then show ?thesis using assms by (auto simp: handle_interrupt_def kb_ok_def)
next
  case False
  obtain key where key: "scancode_key (if kb_e0_prefix k then default_e0_scancode_map else default_scancode_map)
      (scancode AND 0x7f) = Inr key" "key < Key_Max"
    using scancode_key_ok by blast
  show ?thesis
  proof (cases "key = Key_None")
    case True
    then show ?thesis using False key(1) assms by (auto simp: handle_interrupt_def Let_def)
  next
    case nn: False
    let ?rel = "scancode AND 0x80 \<noteq> 0"
    let ?m = "parse_modifiers (kb_modifiers k) ?rel key"
    let ?m' = "if \<not> ?rel then ?m OR Pressed else ?m"
    let ?k = "k\<lparr>kb_modifiers := ?m, kb_e0_prefix := False\<rparr>"
    obtain c where c: "keycode_char (if ?m' AND Shift \<noteq> 0 \<or> ?m' AND CapsLock \<noteq> 0
        then default_keycode_map_shifted else default_keycode_map) key = Inr c"
      using keycode_char_ok [OF key(2)] by blast
    have "\<exists>ev. handle_interrupt scancode k = kb_push ?k ev"
      unfolding handle_interrupt_def Let_def if_not_P [OF False] key(1) kbind.simps if_not_P [OF nn] c by blast
    then obtain ev where eq: "handle_interrupt scancode k = kb_push ?k ev" by blast
    have "\<exists>evs. cb_rel (kb_buffer ?k) evs" "cb_capacity (kb_buffer ?k) = 16" "kb_modifiers ?k AND 0xC0 = 0"
      using assms parse_modifiers_ok by (auto simp: kb_ok_def)
    then show ?thesis using kb_push_ok [of ?k ev] unfolding eq by (auto simp: kb_ok_def)
  qed
qed

theorem handle_interrupt_safe_witness: "\<exists>k'. handle_interrupt 0x1e ps2_new = Inr k' \<and> kb_ok k'"
  using handle_interrupt_safe [OF kb_ok_new] .

text \<open>
  The prefix \<open>0xe0\<close> is forgotten only by a key that the table of prefixed keys knows. After a
  prefix, every scan code that is unknown there is swallowed and the prefix stays: no event is
  pushed and the state does not change, however many keys are pressed.
\<close>

theorem e0_prefix_sticks:
  assumes "kb_e0_prefix k"
    and "\<forall>s\<in>set codes. default_e0_scancode_map ! unat (s AND 0x7f) = Key_None"
  shows "kfold handle_interrupt codes k = Inr k"
  using assms(2)
proof (induction codes)
  case (Cons s codes)
  have "scancode_key default_e0_scancode_map (s AND 0x7f) = Inr Key_None"
    using Cons.prems low_7_bits [of s] by (simp add: scancode_key_def scancode_map_length)
  then have "handle_interrupt s k = Inr k"
    using assms(1) by (simp add: handle_interrupt_def Let_def)
  then show ?case using Cons by simp
qed simp

text \<open>Pressing the right control key and then typing on the letter keys.\<close>

theorem e0_prefix_sticks_witness:
  "kfold handle_interrupt [0x1d, 0x9d, 0x1e, 0x9e, 0x30, 0xb0] (ps2_new\<lparr>kb_e0_prefix := True\<rparr>) =
     Inr (ps2_new\<lparr>kb_e0_prefix := True\<rparr>)"
  by (rule e0_prefix_sticks) (simp_all add: default_e0_scancode_map_def)

end
