(* ===== verification/Vector.thy ===== *)
theory Vector
  imports KMath
begin

text \<open>
  \<open>include/libk/kvector.hpp\<close>: the dynamic array of the kernel. The array is a list of slots; a
  slot holds a constructed element or is raw memory (\<open>None\<close>), and a vector that has never
  allocated has no array. \<open>kmalloc\<close> asserts that it got memory, so an allocation either succeeds
  or stops the kernel; the model has the first case.
\<close>

section \<open>State and element access\<close>

record 'a vector =
  v_capacity :: u32
  v_size :: u32
  v_array :: "'a option list option"

definition vector_empty :: "'a vector" where
  "vector_empty = \<lparr>v_capacity = 0, v_size = 0, v_array = None\<rparr>"

definition slot_get :: "'a option list option \<Rightarrow> nat \<Rightarrow> 'a kres" where
  "slot_get arr i = (case arr of None \<Rightarrow> Inl NullDeref
     | Some slots \<Rightarrow> if i < length slots
         then (case slots ! i of None \<Rightarrow> Inl BadAccess | Some x \<Rightarrow> Inr x) else Inl BadAccess)"

definition slot_set :: "nat \<Rightarrow> 'a option \<Rightarrow> 'a option list option \<Rightarrow> 'a option list option kres" where
  "slot_set i x arr = (case arr of None \<Rightarrow> Inl NullDeref
     | Some slots \<Rightarrow> if i < length slots then Inr (Some (slots[i := x])) else Inl BadAccess)"

text \<open>\<open>to[i] = from[i]\<close>, as a move or a copy.\<close>

definition slot_move :: "nat \<Rightarrow> nat \<Rightarrow> 'a option list option \<Rightarrow> 'a option list option kres" where
  "slot_move to from arr = kbind (slot_get arr from) (\<lambda>x. slot_set to (Some x) arr)"

definition vector_at :: "'a vector \<Rightarrow> u32 \<Rightarrow> 'a kres" where
  "vector_at v pos = kbind (kassert (pos < v_size v)) (\<lambda>_. slot_get (v_array v) (unat pos))"

definition vector_put :: "'a vector \<Rightarrow> u32 \<Rightarrow> 'a \<Rightarrow> 'a vector kres" where
  "vector_put v pos x = kbind (kassert (pos < v_size v)) (\<lambda>_.
     kbind (slot_set (unat pos) (Some x) (v_array v)) (\<lambda>arr. Inr (v\<lparr>v_array := arr\<rparr>)))"

definition vector_front :: "'a vector \<Rightarrow> 'a kres" where
  "vector_front v = vector_at v 0"

definition vector_back :: "'a vector \<Rightarrow> 'a kres" where
  "vector_back v = vector_at v (v_size v - 1)"

section \<open>Construction and capacity\<close>

definition vector_fill :: "u32 \<Rightarrow> 'a \<Rightarrow> 'a vector kres" where
  "vector_fill count x =
     (let v = \<lparr>v_capacity = next_power_of_two count, v_size = count, v_array = None\<rparr>
      in if v_capacity v = 0 then Inr v
         else kbind (kfold (\<lambda>i. slot_set i (Some x)) [0..<unat count] (Some (replicate (unat (v_capacity v)) None)))
                (\<lambda>arr. Inr (v\<lparr>v_array := arr\<rparr>)))"

definition vector_copy :: "'a vector \<Rightarrow> 'a vector kres" where
  "vector_copy other =
     (let v = \<lparr>v_capacity = v_capacity other, v_size = v_size other, v_array = None\<rparr>
      in if v_capacity v = 0 then Inr v
         else kbind (kfold (\<lambda>i arr. kbind (vector_at other (of_nat i)) (\<lambda>x. slot_set i (Some x) arr))
                [0..<unat (v_size v)] (Some (replicate (unat (v_capacity v)) None)))
                (\<lambda>arr. Inr (v\<lparr>v_array := arr\<rparr>)))"

text \<open>
  Inside the move constructor \<open>other\<close> is an lvalue, so that it delegates to the copy constructor and
  leaves the other vector as it is.
\<close>

definition vector_move :: "'a vector \<Rightarrow> ('a vector \<times> 'a vector) kres" where
  "vector_move other = kbind (vector_copy other) (\<lambda>v. Inr (v, other))"

definition vector_reserve :: "'a vector \<Rightarrow> u32 \<Rightarrow> 'a vector kres" where
  "vector_reserve v new_cap =
     (if new_cap \<le> v_capacity v then Inr v
      else let cap = kmax 4 (next_power_of_two new_cap)
           in kbind (kfold (\<lambda>i arr. kbind (slot_get (v_array v) i) (\<lambda>x. slot_set i (Some x) arr))
                [0..<unat (v_size v)] (Some (replicate (unat cap) None)))
                (\<lambda>arr. Inr (v\<lparr>v_capacity := cap, v_array := arr\<rparr>)))"

text \<open>\<open>shrink\<close> destroys the elements from \<open>count\<close> on; the flag says whether that was all there is to do.\<close>

definition vector_shrink :: "'a vector \<Rightarrow> u32 \<Rightarrow> ('a vector \<times> bool) kres" where
  "vector_shrink v count =
     (if count < v_size v
      then kbind (kfold (\<lambda>i. slot_set i None) [unat count..<unat (v_size v)] (v_array v))
             (\<lambda>arr. Inr (v\<lparr>v_array := arr, v_size := count\<rparr>, True))
      else Inr (v, count \<le> v_size v))"

definition vector_resize :: "'a vector \<Rightarrow> u32 \<Rightarrow> 'a \<Rightarrow> 'a vector kres" where
  "vector_resize v count x =
     kbind (vector_shrink v count) (\<lambda>(v, done).
       if done then Inr v
       else kbind (vector_reserve v count) (\<lambda>v.
         kbind (kfold (\<lambda>i. slot_set i (Some x)) [unat (v_size v)..<unat count] (v_array v)) (\<lambda>arr.
           Inr (v\<lparr>v_array := arr, v_size := count\<rparr>))))"

definition vector_clear :: "'a vector \<Rightarrow> 'a \<Rightarrow> 'a vector kres" where
  "vector_clear v dflt = vector_resize v 0 dflt"

definition vector_assign :: "'a vector \<Rightarrow> u32 \<Rightarrow> 'a \<Rightarrow> 'a vector kres" where
  "vector_assign v count x = kbind (vector_resize v 0 x) (\<lambda>v. vector_resize v count x)"

section \<open>Changing elements\<close>

text \<open>\<open>push_back(const T\<close>\<open>&)\<close> resizes; \<open>push_back(T\<close>\<open>&&)\<close> constructs in place.\<close>

definition vector_push_back_copy :: "'a vector \<Rightarrow> 'a \<Rightarrow> 'a vector kres" where
  "vector_push_back_copy v x = vector_resize v (v_size v + 1) x"

definition vector_push_back :: "'a vector \<Rightarrow> 'a \<Rightarrow> 'a vector kres" where
  "vector_push_back v x =
     kbind (vector_reserve v (v_size v + 1)) (\<lambda>v.
       kbind (slot_set (unat (v_size v)) (Some x) (v_array v)) (\<lambda>arr.
         Inr (v\<lparr>v_array := arr, v_size := v_size v + 1\<rparr>)))"

definition vector_pop_back :: "'a vector \<Rightarrow> 'a vector kres" where
  "vector_pop_back v = kbind (vector_shrink v (v_size v - 1)) (\<lambda>(v, _). Inr v)"

text \<open>
  The generator of \<open>insert\<close> is called \<open>count\<close> times; the model has the list of its results. The
  elements behind the position are moved from the last to the first.
\<close>

definition vector_insert :: "'a vector \<Rightarrow> u32 \<Rightarrow> 'a list \<Rightarrow> 'a vector kres" where
  "vector_insert v pos xs =
     (let count = of_nat (length xs)
      in kbind (kassert (pos \<le> v_size v)) (\<lambda>_.
         kbind (vector_reserve v (v_size v + count)) (\<lambda>v.
         kbind (kfold (\<lambda>current. slot_move (unat pos + current + length xs) (unat pos + current))
                  (rev [0..<unat (v_size v - pos)]) (v_array v)) (\<lambda>arr.
         kbind (kfold (\<lambda>i. slot_set (unat pos + i) (Some (xs ! i))) [0..<length xs] arr) (\<lambda>arr.
           Inr (v\<lparr>v_array := arr, v_size := v_size v + count\<rparr>))))))"

definition vector_erase :: "'a vector \<Rightarrow> u32 \<Rightarrow> 'a vector kres" where
  "vector_erase v pos =
     kbind (kassert (pos < v_size v)) (\<lambda>_.
     kbind (slot_set (unat pos) None (v_array v)) (\<lambda>arr.
     kbind (kfold (\<lambda>i. slot_move (unat pos + i - 1) (unat pos + i)) [1..<unat (v_size v - pos)] arr) (\<lambda>arr.
       Inr (v\<lparr>v_array := arr, v_size := v_size v - 1\<rparr>))))"

definition vector_erase_range :: "'a vector \<Rightarrow> u32 \<Rightarrow> u32 \<Rightarrow> 'a vector kres" where
  "vector_erase_range v first lst =
     kbind (kassert (lst < v_size v \<and> first \<le> lst)) (\<lambda>_.
       if first = lst then Inr v
       else kbind (kfold (\<lambda>i. slot_set i None) [unat first..<unat lst] (v_array v)) (\<lambda>arr.
            kbind (kfold (\<lambda>i. slot_move (unat first + i) (unat lst + i)) [0..<unat (v_size v - lst)] arr) (\<lambda>arr.
              Inr (v\<lparr>v_array := arr, v_size := v_size v - (lst - first)\<rparr>))))"

text \<open>\<open>any_of\<close> and \<open>all_of\<close> stop at the first element that decides.\<close>

fun any_of_from :: "nat \<Rightarrow> 'a vector \<Rightarrow> nat \<Rightarrow> ('a \<Rightarrow> bool) \<Rightarrow> bool kres" where
  "any_of_from 0 v i callback = Inr False"
| "any_of_from (Suc n) v i callback =
     kbind (vector_at v (of_nat i)) (\<lambda>x. if callback x then Inr True else any_of_from n v (Suc i) callback)"

definition vector_any_of :: "'a vector \<Rightarrow> ('a \<Rightarrow> bool) \<Rightarrow> bool kres" where
  "vector_any_of v callback = any_of_from (unat (v_size v)) v 0 callback"

fun all_of_from :: "nat \<Rightarrow> 'a vector \<Rightarrow> nat \<Rightarrow> ('a \<Rightarrow> bool) \<Rightarrow> bool kres" where
  "all_of_from 0 v i callback = Inr True"
| "all_of_from (Suc n) v i callback =
     kbind (vector_at v (of_nat i)) (\<lambda>x. if \<not> callback x then Inr False else all_of_from n v (Suc i) callback)"

definition vector_all_of :: "'a vector \<Rightarrow> ('a \<Rightarrow> bool) \<Rightarrow> bool kres" where
  "vector_all_of v callback = all_of_from (unat (v_size v)) v 0 callback"

end
