(* ===== verification/VectorSpec.thy ===== *)
theory VectorSpec
  imports Vector
begin

text \<open>
  The vector of \<open>kvector.hpp\<close> implements a list: every operation on slots and capacities computes
  the operation on the list of elements, and never touches raw or foreign memory.
\<close>

section \<open>The elements\<close>

text \<open>
  A vector holds a list: the first \<open>size\<close> slots hold its elements in order, the array has as many
  slots as the capacity says, and there is an array unless the capacity is zero.
\<close>

definition vec_rel :: "'a vector \<Rightarrow> 'a list \<Rightarrow> bool" where
  "vec_rel v xs = (unat (v_size v) = length xs \<and>
     (case v_array v of None \<Rightarrow> v_capacity v = 0 \<and> xs = []
      | Some slots \<Rightarrow> v_capacity v \<noteq> 0 \<and> length slots = unat (v_capacity v) \<and>
          length xs \<le> length slots \<and> take (length xs) slots = map Some xs))"

definition vec_null :: "'a vector \<Rightarrow> bool" where
  "vec_null v = (v_array v = None)"

lemma vec_rel_empty: "vec_rel vector_empty []"
  by (simp add: vec_rel_def vector_empty_def)

lemma slot_get_some [simp]: "i < length slots \<Longrightarrow> slots ! i = Some x \<Longrightarrow> slot_get (Some slots) i = Inr x"
  by (simp add: slot_get_def)

lemma slot_set_some [simp]: "i < length slots \<Longrightarrow> slot_set i x (Some slots) = Inr (Some (slots[i := x]))"
  by (simp add: slot_set_def)

lemma take_map_nth: "take n slots = map Some xs \<Longrightarrow> i < length xs \<Longrightarrow> n = length xs \<Longrightarrow> slots ! i = Some (xs ! i)"
  by (metis nth_map nth_take)

lemma map_nth_Some: "map (\<lambda>i. Some (xs ! i)) [0..<length xs] = map Some xs"
  by (rule nth_equalityI) auto

text \<open>The loop that writes a range of slots.\<close>

lemma fill_loop:
  assumes "b \<le> length slots" "a \<le> b"
  shows "kfold (\<lambda>i. slot_set i (f i)) [a..<b] (Some slots) =
    Inr (Some (take a slots @ map f [a..<b] @ drop b slots))"
  using assms
proof (induction "b - a" arbitrary: a slots)
  case (Suc n)
  have "[a..<b] = a # [Suc a..<b]" using Suc by (simp add: upt_conv_Cons)
  moreover have "kfold (\<lambda>i. slot_set i (f i)) [Suc a..<b] (Some (slots[a := f a])) =
      Inr (Some (take (Suc a) (slots[a := f a]) @ map f [Suc a..<b] @ drop b (slots[a := f a])))"
    using Suc by (intro Suc.hyps(1)) auto
  ultimately show ?case using Suc by (simp add: take_Suc_conv_app_nth)
qed simp

lemma next_power_of_two_ge:
  assumes "unat (n :: u32) \<le> 2 ^ 31" "n \<noteq> 0"
  shows "unat n \<le> unat (next_power_of_two n)"
proof -
  obtain j where "unat (next_power_of_two n) = 2 ^ j" "unat n \<le> 2 ^ j"
    using next_power_least [of n] assms by (auto simp: unat_gt_0)
  then show ?thesis by simp
qed

lemma vector_reserve_rel:
  assumes "vec_rel v xs" "unat c \<le> 2 ^ 31"
  shows "\<exists>v'. vector_reserve v c = Inr v' \<and> vec_rel v' xs \<and> c \<le> v_capacity v' \<and>
    (vec_null v' \<longleftrightarrow> vec_null v \<and> c = 0) \<and> v_size v' = v_size v"
proof (cases "c \<le> v_capacity v")
  case True
  have "vec_null v \<Longrightarrow> c = 0"
    using True assms(1) by (simp add: vec_rel_def vec_null_def)
  then show ?thesis using True assms by (auto simp: vector_reserve_def)
next
  case False
  define cap where "cap = kmax 4 (next_power_of_two c)"
  have c0: "c \<noteq> 0" using False by auto
  have cap: "unat c \<le> unat cap" "cap \<noteq> 0"
    using next_power_of_two_ge [OF assms(2) c0] by (auto simp: cap_def kmax_def word_less_nat_alt)
  have "length xs \<le> unat (v_capacity v)"
    using assms(1) by (auto simp: vec_rel_def split: option.splits)
  then have len: "length xs \<le> unat cap"
    using False cap(1) by (simp add: word_le_nat_alt)
  have get: "slot_get (v_array v) i = Inr (xs ! i)" if "i < length xs" for i
    using assms(1) that by (auto simp: vec_rel_def take_map_nth split: option.splits)
  have "kfold (\<lambda>i arr. kbind (slot_get (v_array v) i) (\<lambda>x. slot_set i (Some x) arr))
      [0..<length xs] (Some (replicate (unat cap) None)) =
    kfold (\<lambda>i. slot_set i (Some (xs ! i))) [0..<length xs] (Some (replicate (unat cap) None))"
    by (rule kfold_cong) (auto simp: get)
  also have "\<dots> = Inr (Some (map Some xs @ replicate (unat cap - length xs) None))"
    using len by (simp add: fill_loop map_nth_Some)
  finally have "vector_reserve v c =
      Inr (v\<lparr>v_capacity := cap, v_array := Some (map Some xs @ replicate (unat cap - length xs) None)\<rparr>)"
    using False assms(1) by (simp add: vector_reserve_def vec_rel_def flip: cap_def)
  then show ?thesis
    using assms(1) cap len c0 by (auto simp: vec_rel_def vec_null_def word_le_nat_alt)
qed

text \<open>Shrinking.\<close>

lemma vector_shrink_rel:
  assumes "vec_rel v xs"
  shows "\<exists>v'. vector_shrink v c = Inr (v', unat c \<le> length xs) \<and> vec_rel v' (take (unat c) xs) \<and>
    vec_null v' = vec_null v"
proof (cases "unat c < length xs")
  case False
  then show ?thesis
    using assms by (auto simp: vector_shrink_def vec_rel_def word_less_nat_alt word_le_nat_alt)
next
  case True
  then obtain slots where s: "v_array v = Some slots" "length xs \<le> length slots"
    "take (length xs) slots = map Some xs" "v_capacity v \<noteq> 0" "length slots = unat (v_capacity v)"
    using assms by (auto simp: vec_rel_def split: option.splits)
  have "take (unat c) slots = take (unat c) (map Some xs)"
    using True unfolding s(3) [symmetric] by (simp add: min_def)
  then show ?thesis
    using True assms s fill_loop [of "length xs" slots "unat c" "\<lambda>_. None"]
    by (auto simp: vector_shrink_def vec_rel_def vec_null_def word_less_nat_alt take_map)
qed

text \<open>Resizing truncates or pads.\<close>

lemma vector_resize_rel:
  assumes "vec_rel v xs" "unat c \<le> 2 ^ 31"
  shows "\<exists>v'. vector_resize v c x = Inr v' \<and>
    vec_rel v' (take (unat c) xs @ replicate (unat c - length xs) x) \<and>
    (vec_null v' \<longleftrightarrow> vec_null v \<and> c = 0)"
proof -
  obtain v1 where v1: "vector_shrink v c = Inr (v1, unat c \<le> length xs)"
    "vec_rel v1 (take (unat c) xs)" "vec_null v1 = vec_null v"
    using vector_shrink_rel [OF assms(1), of c] by auto
  show ?thesis
  proof (cases "unat c \<le> length xs")
    case True
    have "vec_null v \<Longrightarrow> c = 0"
      using True assms(1) by (simp add: vec_rel_def vec_null_def unat_eq_0)
    then show ?thesis using v1 True by (auto simp: vector_resize_def)
  next
    case False
    obtain v2 where v2: "vector_reserve v1 c = Inr v2" "vec_rel v2 xs" "c \<le> v_capacity v2"
      "vec_null v2 \<longleftrightarrow> vec_null v1 \<and> c = 0"
      using vector_reserve_rel [OF v1(2) assms(2)] False by auto
    have "c \<noteq> 0" using False by auto
    then obtain slots where s: "v_array v2 = Some slots" "length slots = unat (v_capacity v2)"
      "take (length xs) slots = map Some xs" "length xs \<le> length slots" "v_capacity v2 \<noteq> 0"
      using v2(2,4) by (auto simp: vec_rel_def vec_null_def split: option.splits)
    have "kfold (\<lambda>i. slot_set i (Some x)) [length xs..<unat c] (Some slots) =
        Inr (Some (map Some xs @ replicate (unat c - length xs) (Some x) @ drop (unat c) slots))"
      using fill_loop [of "unat c" slots "length xs" "\<lambda>_. Some x"] False v2(3) s
      by (simp add: word_le_nat_alt map_replicate_const)
    then have "vector_resize v c x = Inr (v2\<lparr>v_array :=
        Some (map Some xs @ replicate (unat c - length xs) (Some x) @ drop (unat c) slots), v_size := c\<rparr>)"
      using v1 v2 s False by (simp add: vector_resize_def vec_rel_def)
    then show ?thesis
      using False v2(3) s \<open>c \<noteq> 0\<close> by (auto simp: vec_rel_def vec_null_def word_le_nat_alt)
  qed
qed

text \<open>Moving a block of slots to the right and to the left.\<close>

lemma slot_move_some:
  "i < length slots \<Longrightarrow> j < length slots \<Longrightarrow> slots ! j = Some x \<Longrightarrow>
     slot_move i j (Some slots) = Inr (Some (slots[i := slots ! j]))"
  by (simp add: slot_move_def)

lemma shift_right_loop:
  assumes "p + n + k \<le> length slots" "\<forall>i<n. slots ! (p + i) \<noteq> None"
  shows "kfold (\<lambda>c. slot_move (p + c + k) (p + c)) (rev [0..<n]) (Some slots) =
    Inr (Some (take (p + k) slots @ take n (drop p slots) @ drop (p + n + k) slots))"
  using assms
proof (induction n arbitrary: slots)
  case (Suc n)
  define t where "t = slots[p + n + k := slots ! (p + n)]"
  have get: "t ! (p + i) = slots ! (p + i)" if "i \<le> n" for i
    using that Suc.prems(1) by (cases "k = 0") (auto simp: t_def nth_list_update)
  have step: "slot_move (p + n + k) (p + n) (Some slots) = Inr (Some t)"
    using Suc.prems by (auto simp: t_def slot_move_some)
  have "kfold (\<lambda>c. slot_move (p + c + k) (p + c)) (rev [0..<n]) (Some t) =
      Inr (Some (take (p + k) t @ take n (drop p t) @ drop (p + n + k) t))"
  proof (rule Suc.IH)
    show "p + n + k \<le> length t" using Suc.prems(1) by (simp add: t_def)
    show "\<forall>i<n. t ! (p + i) \<noteq> None" using Suc.prems(2) get by simp
  qed
  also have "take (p + k) t = take (p + k) slots" by (simp add: t_def)
  also have "take n (drop p t) = take n (drop p slots)"
    using Suc.prems(1) get by (intro nth_equalityI) (auto simp: t_def)
  also have "drop (p + n + k) t = slots ! (p + n) # drop (p + Suc n + k) slots"
    using Suc.prems(1) by (simp add: t_def flip: Cons_nth_drop_Suc)
  also have "take (p + k) slots @ take n (drop p slots) @ slots ! (p + n) # drop (p + Suc n + k) slots =
      take (p + k) slots @ take (Suc n) (drop p slots) @ drop (p + Suc n + k) slots"
    using Suc.prems(1) by (simp add: take_Suc_conv_app_nth)
  finally show ?case using step by simp
qed simp

lemma shift_left_loop:
  assumes "p + n \<le> length slots" "0 < n" "\<forall>i<n. 0 < i \<longrightarrow> slots ! (p + i) \<noteq> None"
  shows "kfold (\<lambda>i. slot_move (p + i - 1) (p + i)) [1..<n] (Some slots) =
    Inr (Some (take p slots @ take (n - 1) (drop (Suc p) slots) @ drop (p + n - 1) slots))"
  using assms
proof (induction n)
  case (Suc n)
  show ?case
  proof (cases "n = 0")
    case False
    define t where "t = take p slots @ take (n - 1) (drop (Suc p) slots) @ drop (p + n - 1) slots"
    have len: "length t = length slots" using Suc.prems(1) False by (simp add: t_def)
    have pre: "length (take p slots @ take (n - 1) (drop (Suc p) slots)) = p + n - 1"
      using Suc.prems(1) False by simp
    have last: "t ! (p + n) = slots ! (p + n)"
      using pre Suc.prems(1) False unfolding t_def append_assoc [symmetric] by (auto simp: nth_append)
    have "kfold (\<lambda>i. slot_move (p + i - 1) (p + i)) [1..<n] (Some slots) = Inr (Some t)"
      using Suc False by (simp add: t_def)
    moreover have "slot_move (p + n - 1) (p + n) (Some t) = Inr (Some (t[p + n - 1 := slots ! (p + n)]))"
      using Suc.prems len last by (auto simp: slot_move_some False)
    moreover have "t[p + n - 1 := slots ! (p + n)] =
        take p slots @ take n (drop (Suc p) slots) @ drop (p + n) slots"
    proof -
      have "drop (p + n - 1) slots = slots ! (p + n - 1) # drop (p + n) slots"
        using Cons_nth_drop_Suc [of "p + n - 1" slots] Suc.prems(1) False by simp
      then have "t = (take p slots @ take (n - 1) (drop (Suc p) slots)) @ slots ! (p + n - 1) # drop (p + n) slots"
        by (simp add: t_def)
      then have "t[p + n - 1 := slots ! (p + n)] =
          (take p slots @ take (n - 1) (drop (Suc p) slots)) @ slots ! (p + n) # drop (p + n) slots"
        unfolding pre [symmetric] by (simp only: list_update_length)
      moreover have "take n (drop (Suc p) slots) = take (n - 1) (drop (Suc p) slots) @ [slots ! (p + n)]"
        using take_Suc_conv_app_nth [of "n - 1" "drop (Suc p) slots"] Suc.prems(1) False by simp
      ultimately show ?thesis by simp
    qed
    moreover have "[1..<Suc n] = [1..<n] @ [n]" using False by simp
    ultimately show ?thesis by (simp add: kfold_append del: upt_Suc)
  qed simp
qed simp

lemma fill_at_loop:
  assumes "p + k \<le> length slots"
  shows "kfold (\<lambda>i. slot_set (p + i) (f i)) [0..<k] (Some slots) =
    Inr (Some (take p slots @ map f [0..<k] @ drop (p + k) slots))"
  using assms
proof (induction k)
  case (Suc k)
  have "(take p slots @ map f [0..<k] @ drop (p + k) slots)[p + k := f k] =
      take p slots @ map f [0..<k] @ f k # drop (p + Suc k) slots"
    using Suc.prems Cons_nth_drop_Suc [of "p + k" slots, symmetric] by (simp add: list_update_append)
  then show ?case using Suc by (simp add: kfold_append)
qed simp

section \<open>The operations on the list\<close>

lemma vec_relD:
  assumes "vec_rel v xs" "\<not> vec_null v"
  obtains slots where "v_array v = Some slots" "length slots = unat (v_capacity v)"
    "take (length xs) slots = map Some xs" "length xs \<le> length slots" "v_capacity v \<noteq> 0"
    "unat (v_size v) = length xs"
  using assms by (auto simp: vec_rel_def vec_null_def split: option.splits)

lemma vec_rel_not_null: "vec_rel v xs \<Longrightarrow> xs \<noteq> [] \<Longrightarrow> \<not> vec_null v"
  by (auto simp: vec_rel_def vec_null_def split: option.splits)

lemma vec_rel_slots:
  assumes "vec_rel v xs" "i < length xs"
  obtains slots where "v_array v = Some slots" "length slots = unat (v_capacity v)"
    "take (length xs) slots = map Some xs" "length xs \<le> length slots" "v_capacity v \<noteq> 0"
    "unat (v_size v) = length xs"
proof -
  have "\<not> vec_null v" using assms by (intro vec_rel_not_null) auto
  from vec_relD [OF assms(1) this] that show thesis by blast
qed

lemma vector_at_rel:
  assumes "vec_rel v xs"
  shows "vector_at v i = (if unat i < length xs then Inr (xs ! unat i) else Inl AssertFail)"
proof (cases "unat i < length xs")
  case True
  then obtain slots where "v_array v = Some slots" "take (length xs) slots = map Some xs"
    "length xs \<le> length slots" "unat (v_size v) = length xs"
    by (rule vec_rel_slots [OF assms])
  then show ?thesis using True by (simp add: vector_at_def word_less_nat_alt take_map_nth)
next
  case False
  then show ?thesis using assms by (simp add: vector_at_def vec_rel_def word_less_nat_alt)
qed

lemma vector_put_rel:
  assumes "vec_rel v xs" "unat i < length xs"
  shows "\<exists>v'. vector_put v i x = Inr v' \<and> vec_rel v' (xs[unat i := x]) \<and> vec_null v' = vec_null v"
proof -
  obtain slots where s: "v_array v = Some slots" "take (length xs) slots = map Some xs"
    "length xs \<le> length slots" "unat (v_size v) = length xs" "length slots = unat (v_capacity v)" "v_capacity v \<noteq> 0"
    by (rule vec_rel_slots [OF assms])
  have "take (length xs) (slots[unat i := Some x]) = map Some (xs[unat i := x])"
    using s(2) assms(2) by (simp add: take_update_swap map_update)
  then show ?thesis using s assms(2) by (auto simp: vector_put_def word_less_nat_alt vec_rel_def vec_null_def)
qed

text \<open>\<open>insert\<close> puts the new elements in front of the position.\<close>

lemma vector_insert_rel:
  assumes "vec_rel v ys" "unat pos \<le> length ys" "length ys + length xs \<le> 2 ^ 31"
  shows "\<exists>v'. vector_insert v pos xs = Inr v' \<and>
    vec_rel v' (take (unat pos) ys @ xs @ drop (unat pos) ys) \<and> (vec_null v' \<longleftrightarrow> vec_null v \<and> xs = [])"
proof -
  define p where "p = unat pos"
  let ?c = "v_size v + of_nat (length xs)"
  have size: "unat (v_size v) = length ys" using assms(1) by (simp add: vec_rel_def)
  have c: "unat ?c = length ys + length xs"
    using assms(3) size by (subst unat_add_small) (auto simp: unat_of_nat_small)
  obtain v1 where v1: "vector_reserve v ?c = Inr v1" "vec_rel v1 ys" "?c \<le> v_capacity v1"
    "vec_null v1 \<longleftrightarrow> vec_null v \<and> ?c = 0" "v_size v1 = v_size v"
    using vector_reserve_rel [OF assms(1), of ?c] c assms(3) by auto
  have n: "unat (v_size v - pos) = length ys - p"
    using assms(2) size by (simp add: unat_sub_small p_def)
  show ?thesis
  proof (cases "vec_null v1")
    case True
    then have "xs = []" "ys = []" "p = 0"
      using v1(2,4) c assms(2) by (auto simp: vec_rel_def vec_null_def p_def)
    then show ?thesis
      using v1 assms(2) size n True
      by (auto simp: vector_insert_def Let_def p_def word_le_nat_alt intro!: exI [of _ v1])
  next
    case False
    then obtain slots where s: "v_array v1 = Some slots" "length slots = unat (v_capacity v1)"
      "take (length ys) slots = map Some ys" "v_capacity v1 \<noteq> 0"
      using vec_relD [OF v1(2) False] by metis
    have room: "length ys + length xs \<le> length slots"
      using v1(3) s(2) c by (simp add: word_le_nat_alt)
    have elem: "slots ! i = Some (ys ! i)" if "i < length ys" for i
      using take_map_nth [OF s(3) that] by simp
    have mid: "take (length ys - p) (drop p slots) = map Some (drop p ys)"
      using s(3) assms(2) by (metis drop_map drop_take p_def)
    have pre: "take p slots = map Some (take p ys)"
      using s(3) assms(2) by (metis min.absorb1 take_map take_take p_def)
    have "kfold (\<lambda>c. slot_move (p + c + length xs) (p + c)) (rev [0..<length ys - p]) (Some slots) =
        Inr (Some (take (p + length xs) slots @ map Some (drop p ys) @ drop (length ys + length xs) slots))"
      using shift_right_loop [of p "length ys - p" "length xs" slots] room assms(2) elem
      by (simp add: p_def mid [unfolded p_def])
    moreover have "kfold (\<lambda>i. slot_set (p + i) (Some (xs ! i))) [0..<length xs]
        (Some (take (p + length xs) slots @ map Some (drop p ys) @ drop (length ys + length xs) slots)) =
        Inr (Some (map Some (take p ys @ xs @ drop p ys) @ drop (length ys + length xs) slots))"
      using room assms(2) by (subst fill_at_loop) (auto simp: p_def [symmetric] pre min_def map_nth_Some)
    ultimately have "vector_insert v pos xs = Inr (v1\<lparr>v_array :=
        Some (map Some (take p ys @ xs @ drop p ys) @ drop (length ys + length xs) slots), v_size := ?c\<rparr>)"
      using v1 s n size assms(2)
      by (simp add: vector_insert_def Let_def word_le_nat_alt p_def)
    moreover have "vec_null v \<longrightarrow> xs \<noteq> []"
      using False v1(4) assms(1) by (auto simp: vec_rel_def vec_null_def unat_eq_0)
    ultimately show ?thesis
      using room s c assms(2) by (auto simp: vec_rel_def vec_null_def p_def)
  qed
qed

text \<open>\<open>erase\<close> removes the element at the position.\<close>

lemma vector_erase_rel:
  assumes "vec_rel v ys" "unat pos < length ys"
  shows "\<exists>v'. vector_erase v pos = Inr v' \<and>
    vec_rel v' (take (unat pos) ys @ drop (Suc (unat pos)) ys) \<and> \<not> vec_null v'"
proof -
  define p n where "p = unat pos" and "n = length ys - unat pos"
  obtain slots where s: "v_array v = Some slots" "length slots = unat (v_capacity v)"
      "take (length ys) slots = map Some ys" "length ys \<le> length slots" "v_capacity v \<noteq> 0"
      "unat (v_size v) = length ys"
    by (rule vec_rel_slots [OF assms])
  let ?t = "slots[p := None]"
  have n: "unat (v_size v - pos) = n" "0 < n" "p + n = length ys"
    using assms(2) s(6) by (simp_all add: unat_sub_small p_def n_def)
  have elem: "slots ! i = Some (ys ! i)" if "i < length ys" for i
    using take_map_nth [OF s(3) that] by simp
  have "kfold (\<lambda>i. slot_move (p + i - 1) (p + i)) [1..<n] (Some ?t) =
      Inr (Some (take p slots @ take (n - 1) (drop (Suc p) slots) @ drop (p + n - 1) ?t))"
    using shift_left_loop [of p n ?t] n s(4) elem by simp
  also have "take p slots = map Some (take p ys)"
    using s(3) n by (metis le_add1 min.absorb1 take_map take_take)
  also have "take (n - 1) (drop (Suc p) slots) = map Some (drop (Suc p) ys)"
  proof -
    have "drop (Suc p) (take (length ys) slots) = take (n - 1) (drop (Suc p) slots)"
      using n by (simp add: drop_take flip: n(3))
    then show ?thesis by (simp add: s(3) drop_map)
  qed
  finally have "vector_erase v pos = Inr (v\<lparr>v_array :=
      Some (map Some (take p ys) @ map Some (drop (Suc p) ys) @ drop (p + n - 1) ?t), v_size := v_size v - 1\<rparr>)"
    using assms s n by (simp add: vector_erase_def word_less_nat_alt p_def)
  moreover have "unat (v_size v - 1) = length ys - 1"
    using s(6) assms(2) by (subst unat_minus_one) auto
  ultimately show ?thesis
    using s n assms(2) by (auto simp: vec_rel_def vec_null_def p_def)
qed

lemma vector_push_back_rel:
  assumes "vec_rel v xs" "length xs < 2 ^ 31"
  shows "\<exists>v'. vector_push_back v x = Inr v' \<and> vec_rel v' (xs @ [x]) \<and> \<not> vec_null v'"
proof -
  have size: "unat (v_size v) = length xs" using assms(1) by (simp add: vec_rel_def)
  then have c: "unat (v_size v + 1) = Suc (length xs)"
    using assms(2) by (subst unat_add_small) auto
  obtain v1 where v1: "vector_reserve v (v_size v + 1) = Inr v1" "vec_rel v1 xs" "v_size v + 1 \<le> v_capacity v1"
    "vec_null v1 \<longleftrightarrow> vec_null v \<and> v_size v + 1 = 0" "v_size v1 = v_size v"
    using vector_reserve_rel [OF assms(1), of "v_size v + 1"] c assms(2) by auto
  have "v_size v + 1 \<noteq> 0" using c by (metis nat.distinct(1) unat_0)
  then obtain slots where s: "v_array v1 = Some slots" "length slots = unat (v_capacity v1)"
      "take (length xs) slots = map Some xs" "v_capacity v1 \<noteq> 0"
    using vec_relD [OF v1(2)] v1(4) by blast
  have room: "length xs < length slots" using v1(3) s(2) c by (simp add: word_le_nat_alt)
  then have "take (Suc (length xs)) (slots[length xs := Some x]) = map Some (xs @ [x])"
    using s(3) by (simp add: take_Suc_conv_app_nth)
  then show ?thesis
    using v1 s room size c by (auto simp: vector_push_back_def vec_rel_def vec_null_def)
qed

lemma vector_pop_back_rel:
  assumes "vec_rel v xs"
  shows "\<exists>v'. vector_pop_back v = Inr v' \<and> vec_rel v' (butlast xs) \<and> vec_null v' = vec_null v"
proof -
  have size: "unat (v_size v) = length xs" using assms by (simp add: vec_rel_def)
  obtain v1 where "vector_shrink v (v_size v - 1) = Inr (v1, unat (v_size v - 1) \<le> length xs)"
    "vec_rel v1 (take (unat (v_size v - 1)) xs)" "vec_null v1 = vec_null v"
    using vector_shrink_rel [OF assms] by blast
  moreover have "take (unat (v_size v - 1)) xs = butlast xs"
  proof (cases "v_size v = 0")
    case True
    then show ?thesis using size by simp
  next
    case False
    then show ?thesis using size by (simp add: unat_minus_one butlast_conv_take)
  qed
  ultimately show ?thesis by (auto simp: vector_pop_back_def)
qed

lemma vector_resize_shape:
  assumes "vec_rel v xs" "unat c \<le> 2 ^ 31"
  shows "\<exists>v'. vector_resize v c x = Inr v' \<and> vec_rel v' (take (unat c) xs @ replicate (unat c - length xs) x)"
  using vector_resize_rel [OF assms, of x] by blast

section \<open>The interface of a sequence\<close>

text \<open>
  What the users of a vector rely on: the container holds a list, and its operations compute on
  that list.
\<close>

locale sequence =
  fixes holds :: "'v \<Rightarrow> 'a list \<Rightarrow> bool"
    and count :: "'v \<Rightarrow> u32"
    and elem_at :: "'v \<Rightarrow> u32 \<Rightarrow> 'a kres"
    and push :: "'v \<Rightarrow> 'a \<Rightarrow> 'v kres"
    and pop :: "'v \<Rightarrow> 'v kres"
    and insert_at :: "'v \<Rightarrow> u32 \<Rightarrow> 'a list \<Rightarrow> 'v kres"
    and erase_at :: "'v \<Rightarrow> u32 \<Rightarrow> 'v kres"
  assumes count_law: "holds v xs \<Longrightarrow> unat (count v) = length xs"
    and at_law: "holds v xs \<Longrightarrow>
      elem_at v i = (if unat i < length xs then Inr (xs ! unat i) else Inl AssertFail)"
    and push_law: "holds v xs \<Longrightarrow> length xs < 2 ^ 31 \<Longrightarrow> \<exists>v'. push v x = Inr v' \<and> holds v' (xs @ [x])"
    and pop_law: "holds v xs \<Longrightarrow> \<exists>v'. pop v = Inr v' \<and> holds v' (butlast xs)"
    and insert_law: "holds v ys \<Longrightarrow> unat pos \<le> length ys \<Longrightarrow> length ys + length xs \<le> 2 ^ 31 \<Longrightarrow>
      \<exists>v'. insert_at v pos xs = Inr v' \<and> holds v' (take (unat pos) ys @ xs @ drop (unat pos) ys)"
    and erase_law: "holds v ys \<Longrightarrow> unat pos < length ys \<Longrightarrow>
      \<exists>v'. erase_at v pos = Inr v' \<and> holds v' (take (unat pos) ys @ drop (Suc (unat pos)) ys)"
begin

text \<open>The last element is the one pushed last, and popping it gives back the rest.\<close>

lemma push_top_pop:
  assumes "holds v xs" "length xs < 2 ^ 31"
  shows "\<exists>v1 v2. push v x = Inr v1 \<and> elem_at v1 (count v1 - 1) = Inr x \<and> pop v1 = Inr v2 \<and> holds v2 xs"
proof -
  obtain v1 where v1: "push v x = Inr v1" "holds v1 (xs @ [x])" using push_law [OF assms] by blast
  then obtain v2 where v2: "pop v1 = Inr v2" "holds v2 xs" using pop_law [OF v1(2)] by auto
  have u: "unat (count v1) = Suc (length xs)" using count_law [OF v1(2)] by simp
  then have "count v1 \<noteq> 0" by (metis nat.distinct(1) unat_0)
  then have "unat (count v1 - 1) = length xs" using u by (simp add: unat_minus_one)
  then have "elem_at v1 (count v1 - 1) = Inr x" using at_law [OF v1(2)] by simp
  then show ?thesis using v1 v2 by blast
qed

text \<open>Erasing at the position of an insertion of one element undoes it.\<close>

lemma insert_erase:
  assumes "holds v ys" "unat pos \<le> length ys" "length ys < 2 ^ 31"
  shows "\<exists>v1 v2. insert_at v pos [x] = Inr v1 \<and> erase_at v1 pos = Inr v2 \<and> holds v2 ys"
proof -
  obtain v1 where v1: "insert_at v pos [x] = Inr v1"
    "holds v1 (take (unat pos) ys @ [x] @ drop (unat pos) ys)"
    using insert_law [OF assms(1,2), of "[x]"] assms(3) by auto
  let ?zs = "take (unat pos) ys @ [x] @ drop (unat pos) ys"
  have "take (unat pos) ?zs = take (unat pos) ys" "drop (Suc (unat pos)) ?zs = drop (unat pos) ys"
    using assms(2) by simp_all
  then obtain v2 where "erase_at v1 pos = Inr v2" "holds v2 ys"
    using erase_law [OF v1(2), of pos] assms(2) by (auto simp del: append_assoc)
  then show ?thesis using v1 by blast
qed

end

interpretation vec_seq: sequence vec_rel v_size vector_at vector_push_back vector_pop_back vector_insert
  vector_erase
proof
  fix v :: "'a vector" and xs ys :: "'a list" and x and i pos :: u32
  show "vec_rel v xs \<Longrightarrow> unat (v_size v) = length xs" by (simp add: vec_rel_def)
  show "vec_rel v xs \<Longrightarrow> vector_at v i = (if unat i < length xs then Inr (xs ! unat i) else Inl AssertFail)"
    by (rule vector_at_rel)
  show "\<exists>v'. vector_push_back v x = Inr v' \<and> vec_rel v' (xs @ [x])" if "vec_rel v xs" "length xs < 2 ^ 31"
    using vector_push_back_rel [OF that, of x] by blast
  show "\<exists>v'. vector_pop_back v = Inr v' \<and> vec_rel v' (butlast xs)" if "vec_rel v xs"
    using vector_pop_back_rel [OF that] by blast
  show "\<exists>v'. vector_insert v pos xs = Inr v' \<and> vec_rel v' (take (unat pos) ys @ xs @ drop (unat pos) ys)"
    if "vec_rel v ys" "unat pos \<le> length ys" "length ys + length xs \<le> 2 ^ 31"
    using vector_insert_rel [OF that] by blast
  show "\<exists>v'. vector_erase v pos = Inr v' \<and> vec_rel v' (take (unat pos) ys @ drop (Suc (unat pos)) ys)"
    if "vec_rel v ys" "unat pos < length ys"
    using vector_erase_rel [OF that] by blast
qed

section \<open>The stack\<close>

text \<open>\<open>include/libk/kstack.hpp\<close>: a stack is a vector used at its end.\<close>

definition stack_push :: "'a vector \<Rightarrow> 'a \<Rightarrow> 'a vector kres" where
  "stack_push s x = vector_push_back s x"

definition stack_pop :: "'a vector \<Rightarrow> 'a vector kres" where
  "stack_pop s = vector_pop_back s"

definition stack_top :: "'a vector \<Rightarrow> 'a kres" where
  "stack_top s = vector_at s (v_size s - 1)"

definition stack_empty :: "'a vector \<Rightarrow> bool" where
  "stack_empty s = (v_size s = 0)"

lemma stack_lifo:
  assumes "vec_rel s xs" "length xs < 2 ^ 31"
  shows "\<exists>s1 s2. stack_push s x = Inr s1 \<and> stack_top s1 = Inr x \<and> stack_pop s1 = Inr s2 \<and> vec_rel s2 xs"
  unfolding stack_push_def stack_top_def stack_pop_def by (rule vec_seq.push_top_pop [OF assms])

text \<open>
  C17. \<open>vector::insert\<close> implements insertion into a list: on a vector that holds \<open>ys\<close>, for a position
  in range, it neither faults nor asserts, and every later element access reads the list with the
  new elements before the position, elements beyond it being rejected by the assertion of \<open>at\<close>.
\<close>

theorem vector_insert_refines:
  assumes "vec_rel v ys" "unat pos \<le> length ys" "length ys + length xs \<le> 2 ^ 31"
  defines "zs \<equiv> take (unat pos) ys @ xs @ drop (unat pos) ys"
  shows "\<exists>v'. vector_insert v pos xs = Inr v' \<and> vec_rel v' zs \<and>
    (\<forall>i. vector_at v' i = (if unat i < length zs then Inr (zs ! unat i) else Inl AssertFail))"
proof -
  obtain v' where "vector_insert v pos xs = Inr v'" "vec_rel v' zs"
    using vec_seq.insert_law [OF assms(1-3)] unfolding zs_def by blast
  then show ?thesis using vec_seq.at_law [of v' zs] by (intro exI [of _ v']) simp
qed

definition sample_vector :: "nat vector" where
  "sample_vector = \<lparr>v_capacity = 4, v_size = 2, v_array = Some [Some 7, Some 8, None, None]\<rparr>"

theorem vector_insert_refines_witness:
  "\<exists>v'. vector_insert sample_vector 1 [5, 6, 4] = Inr v' \<and> vec_rel v' [7, 5, 6, 4, 8] \<and>
    (\<forall>i. vector_at v' i = (if unat i < length [7, 5, 6, 4, 8 :: nat] then Inr ([7, 5, 6, 4, 8] ! unat i) else Inl AssertFail))"
proof -
  have "vec_rel sample_vector [7, 8]" by (simp add: sample_vector_def vec_rel_def)
  moreover have zs: "take (unat 1) [7, 8] @ [5, 6, 4] @ drop (unat 1) [7, 8 :: nat] = [7, 5, 6, 4, 8]"
    by simp
  ultimately show ?thesis
    using vector_insert_refines [of sample_vector "[7, 8]" 1 "[5, 6, 4]", unfolded zs] by simp
qed

end
