(* ===== verification/KString.thy ===== *)
theory KString
  imports VectorSpec
begin

text \<open>
  \<open>include/libk/kstring.hpp\<close>: the string class, a vector of characters that keeps a terminating
  zero as its last element. A string that was never written has no array at all, so \<open>c_str\<close> of it
  is the null pointer. Functions that take a C string get the list of its characters.
\<close>

section \<open>The operations\<close>

type_synonym kstring = "u8 vector"

definition string_empty :: kstring where
  "string_empty = vector_empty"

definition string_size :: "kstring \<Rightarrow> u32" where
  "string_size s = kmax 1 (v_size s) - 1"

definition string_is_empty :: "kstring \<Rightarrow> bool" where
  "string_is_empty s = (v_size s \<le> 1)"

definition ensure_not_null :: "kstring \<Rightarrow> kstring kres" where
  "ensure_not_null s = (if v_array s = None then vector_resize s 1 0 else Inr s)"

definition ensure_terminated :: "kstring \<Rightarrow> kstring kres" where
  "ensure_terminated s = vector_put s (v_size s - 1) 0"

definition string_insert_chars :: "kstring \<Rightarrow> u32 \<Rightarrow> u32 \<Rightarrow> u8 \<Rightarrow> kstring kres" where
  "string_insert_chars s index count ch =
     kbind (ensure_not_null s) (\<lambda>s. vector_insert s index (replicate (unat count) ch))"

definition string_append_chars :: "kstring \<Rightarrow> u32 \<Rightarrow> u8 \<Rightarrow> kstring kres" where
  "string_append_chars s count ch = string_insert_chars s (string_size s) count ch"

definition string_push_back :: "kstring \<Rightarrow> u8 \<Rightarrow> kstring kres" where
  "string_push_back s c = string_append_chars s 1 c"

definition string_terminate :: "kstring \<Rightarrow> kstring kres" where
  "string_terminate s = string_push_back s 0"

definition string_fill :: "u32 \<Rightarrow> u8 \<Rightarrow> kstring kres" where
  "string_fill count ch = kbind (vector_fill count ch) string_terminate"

text \<open>\<open>memcpy\<close> and \<open>strncpy\<close> into the array, from an index on.\<close>

definition write_chars :: "kstring \<Rightarrow> nat \<Rightarrow> u8 list \<Rightarrow> kstring kres" where
  "write_chars s at cs =
     kbind (kfold (\<lambda>i. slot_set (at + i) (Some (cs ! i))) [0..<length cs] (v_array s))
       (\<lambda>arr. Inr (s\<lparr>v_array := arr\<rparr>))"

text \<open>
  The constructor from a C string: a string of zeros of its length, into which \<open>strncpy\<close> writes
  \<open>size()\<close> characters, padding with zeros.
\<close>

definition string_make :: "u8 list \<Rightarrow> kstring kres" where
  "string_make cs =
     kbind (string_fill (of_nat (length cs)) 0) (\<lambda>s.
       let n = unat (string_size s)
       in write_chars s 0 (take n cs @ replicate (n - length cs) 0))"

text \<open>Assignment of a C string.\<close>

definition string_assign :: "kstring \<Rightarrow> u8 list \<Rightarrow> kstring kres" where
  "string_assign s cs =
     kbind (vector_resize s 0 0) (\<lambda>s.
     kbind (vector_resize s (of_nat (length cs) + 1) 0) (\<lambda>s. write_chars s 0 cs))"

text \<open>Appending a C string: room for it is made in front of the terminator and then filled.\<close>

definition string_append :: "kstring \<Rightarrow> u8 list \<Rightarrow> kstring kres" where
  "string_append s cs =
     (let index = string_size s
      in kbind (ensure_not_null s) (\<lambda>s.
         kbind (vector_insert s index (replicate (length cs) 0)) (\<lambda>s. write_chars s (unat index) cs)))"

definition string_at :: "kstring \<Rightarrow> u32 \<Rightarrow> u8 kres" where
  "string_at s n = kbind (kassert (n < v_size s - 1)) (\<lambda>_. vector_at s n)"

definition string_front :: "kstring \<Rightarrow> u8 kres" where
  "string_front s = string_at s 0"

definition string_back :: "kstring \<Rightarrow> u8 kres" where
  "string_back s = string_at s (string_size s - 1)"

definition string_erase :: "kstring \<Rightarrow> u32 \<Rightarrow> kstring kres" where
  "string_erase s pos = vector_erase s pos"

definition string_pop_back :: "kstring \<Rightarrow> kstring kres" where
  "string_pop_back s = kbind (vector_pop_back s) ensure_terminated"

definition string_clear :: "kstring \<Rightarrow> kstring kres" where
  "string_clear s = vector_clear s 0"

text \<open>What a C function reads through \<open>c_str()\<close>: the characters up to the first zero.\<close>

fun chars_to_zero :: "u8 option list \<Rightarrow> u8 list kres" where
  "chars_to_zero [] = Inl BadAccess"
| "chars_to_zero (None # slots) = Inl BadAccess"
| "chars_to_zero (Some c # slots) = (if c = 0 then Inr [] else kbind (chars_to_zero slots) (\<lambda>cs. Inr (c # cs)))"

definition string_c_str :: "kstring \<Rightarrow> u8 list kres" where
  "string_c_str s = (case v_array s of None \<Rightarrow> Inl NullDeref | Some slots \<Rightarrow> chars_to_zero slots)"

text \<open>The range-based \<open>for\<close> over a string.\<close>

definition string_chars :: "kstring \<Rightarrow> u8 list kres" where
  "string_chars s =
     kfold (\<lambda>i cs. kbind (vector_at s (of_nat i)) (\<lambda>c. Inr (cs @ [c]))) [0..<unat (string_size s)] []"

section \<open>The characters of a string\<close>

text \<open>
  A string stands for a list of characters: its vector holds them and the terminator, or it has no
  array and stands for the empty list.
\<close>

definition str_rel :: "kstring \<Rightarrow> u8 list \<Rightarrow> bool" where
  "str_rel s cs = (vec_rel s (cs @ [0]) \<or> vec_null s \<and> vec_rel s [] \<and> cs = [])"

lemma str_rel_empty: "str_rel string_empty []"
  by (simp add: str_rel_def string_empty_def vec_rel_def vec_null_def vector_empty_def)

lemma str_rel_size:
  assumes "str_rel s cs"
  shows "unat (string_size s) = length cs" "string_is_empty s = (cs = [])"
proof -
  have "unat (v_size s) = Suc (length cs) \<or> unat (v_size s) = 0 \<and> cs = []"
    using assms by (auto simp: str_rel_def vec_rel_def)
  then show "unat (string_size s) = length cs"
    by (auto simp: string_size_def kmax_def unat_sub_small word_less_nat_alt)
  show "string_is_empty s = (cs = [])"
    using \<open>unat (v_size s) = Suc (length cs) \<or> unat (v_size s) = 0 \<and> cs = []\<close>
    by (auto simp: string_is_empty_def word_le_nat_alt)
qed

lemma ensure_not_null_rel:
  assumes "str_rel s cs"
  shows "\<exists>s'. ensure_not_null s = Inr s' \<and> vec_rel s' (cs @ [0]) \<and> \<not> vec_null s'"
proof (cases "vec_null s")
  case True
  then have s: "vec_rel s []" "cs = []" using assms by (auto simp: str_rel_def dest: vec_rel_not_null)
  from vector_resize_rel [OF s(1), of 1 0] show ?thesis
    using True s(2) by (auto simp: ensure_not_null_def vec_null_def)
next
  case False
  then show ?thesis using assms by (auto simp: ensure_not_null_def str_rel_def vec_null_def)
qed

lemma string_insert_rel:
  assumes "str_rel s cs" "length cs + length ds < 2 ^ 31"
  shows "\<exists>s1 s2. ensure_not_null s = Inr s1 \<and> vector_insert s1 (string_size s) ds = Inr s2 \<and>
    vec_rel s2 (cs @ ds @ [0]) \<and> \<not> vec_null s2"
proof -
  obtain s1 where s1: "ensure_not_null s = Inr s1" "vec_rel s1 (cs @ [0])" "\<not> vec_null s1"
    using ensure_not_null_rel [OF assms(1)] by blast
  then show ?thesis
    using vector_insert_rel [OF s1(2), of "string_size s" ds] str_rel_size [OF assms(1)] assms(2) by auto
qed

lemma string_push_back_rel:
  assumes "str_rel s cs" "length cs < 2 ^ 31 - 1"
  shows "\<exists>s'. string_push_back s c = Inr s' \<and> str_rel s' (cs @ [c]) \<and> \<not> vec_null s'"
  using string_insert_rel [OF assms(1), of "[c]"] assms(2)
  by (auto simp: string_push_back_def string_append_chars_def string_insert_chars_def str_rel_def)

lemma write_chars_rel:
  assumes "vec_rel s xs" "at + length cs \<le> length xs" "\<not> vec_null s"
  shows "\<exists>s'. write_chars s at cs = Inr s' \<and> vec_rel s' (take at xs @ cs @ drop (at + length cs) xs) \<and> \<not> vec_null s'"
proof -
  obtain slots where s: "v_array s = Some slots" "length slots = unat (v_capacity s)"
    "take (length xs) slots = map Some xs" "length xs \<le> length slots" "v_capacity s \<noteq> 0"
    "unat (v_size s) = length xs"
    using vec_relD [OF assms(1,3)] by blast
  have split: "slots = map Some xs @ drop (length xs) slots"
    using s(3) append_take_drop_id [of "length xs" slots] by simp
  have "kfold (\<lambda>i. slot_set (at + i) (Some (cs ! i))) [0..<length cs] (Some slots) =
      Inr (Some (take at slots @ map Some cs @ drop (at + length cs) slots))"
    using fill_at_loop [of at "length cs" slots "\<lambda>i. Some (cs ! i)"] assms(2) s(4) by (simp add: map_nth_Some)
  moreover have "take at slots @ map Some cs @ drop (at + length cs) slots =
      map Some (take at xs @ cs @ drop (at + length cs) xs) @ drop (length xs) slots"
    using assms(2) by (subst (1 2) split) (simp add: take_map drop_map)
  ultimately show ?thesis
    using s assms(2) by (auto simp: write_chars_def vec_rel_def vec_null_def)
qed

lemma string_append_rel:
  assumes "str_rel s cs" "length cs + length ds < 2 ^ 31"
  shows "\<exists>s'. string_append s ds = Inr s' \<and> str_rel s' (cs @ ds) \<and> \<not> vec_null s'"
proof -
  obtain s1 s2 where s: "ensure_not_null s = Inr s1"
    "vector_insert s1 (string_size s) (replicate (length ds) 0) = Inr s2"
    "vec_rel s2 (cs @ replicate (length ds) 0 @ [0])" "\<not> vec_null s2"
    using string_insert_rel [OF assms(1), of "replicate (length ds) 0"] assms(2) by auto
  show ?thesis
    using s write_chars_rel [OF s(3) _ s(4), of "length cs" ds] str_rel_size [OF assms(1)]
    by (auto simp: string_append_def Let_def str_rel_def)
qed

lemma string_assign_rel:
  assumes "str_rel s cs" "length ds < 2 ^ 31"
  shows "\<exists>s'. string_assign s ds = Inr s' \<and> str_rel s' ds \<and> \<not> vec_null s'"
proof -
  obtain xs where xs: "vec_rel s xs" using assms(1) by (auto simp: str_rel_def)
  obtain s1 where s1: "vector_resize s 0 0 = Inr s1" "vec_rel s1 []"
    using vector_resize_rel [OF xs, of 0 0] by auto
  have n: "unat (of_nat (length ds) + 1 :: u32) = Suc (length ds)"
    using assms(2) by (subst unat_add_small) (auto simp: unat_of_nat_small)
  obtain s2 where s2: "vector_resize s1 (of_nat (length ds) + 1) 0 = Inr s2" "vec_rel s2 (replicate (length ds) 0 @ [0])"
    using vector_resize_rel [OF s1(2), of "of_nat (length ds) + 1" 0] n assms(2)
    by (auto simp: replicate_append_same)
  have "\<not> vec_null s2" using s2(2) by (intro vec_rel_not_null) auto
  then show ?thesis
    using write_chars_rel [OF s2(2), of 0 ds] s1 s2 by (auto simp: string_assign_def str_rel_def)
qed

lemma vector_read_all:
  assumes "vec_rel v xs" "n \<le> length xs"
  shows "kfold (\<lambda>i cs. kbind (vector_at v (of_nat i)) (\<lambda>c. Inr (cs @ [c]))) [0..<n] [] = Inr (take n xs)"
  using assms(2)
proof (induction n)
  case (Suc n)
  have "length xs < 2 ^ 32" using assms(1) unat_bound [of "v_size v"] by (simp add: vec_rel_def)
  then have "unat (of_nat n :: u32) = n" using Suc.prems by (intro unat_of_nat_small) simp
  then have "vector_at v (of_nat n) = Inr (xs ! n)" using vector_at_rel [OF assms(1)] Suc.prems by simp
  then show ?case using Suc by (simp add: kfold_append kfold_single take_Suc_conv_app_nth)
qed simp

lemma string_chars_rel:
  assumes "str_rel s cs"
  shows "string_chars s = Inr cs"
proof -
  obtain xs where "vec_rel s xs" "length cs \<le> length xs" "take (length cs) xs = cs"
    using assms by (auto simp: str_rel_def)
  then show ?thesis
    using vector_read_all [of s xs "length cs"] str_rel_size(1) [OF assms] by (simp add: string_chars_def)
qed

lemma string_at_rel:
  assumes "str_rel s cs" "unat i < length cs"
  shows "string_at s i = Inr (cs ! unat i)"
proof -
  have r: "vec_rel s (cs @ [0])" using assms by (auto simp: str_rel_def)
  then have "unat (v_size s - 1) = length cs" by (simp add: vec_rel_def unat_sub_small)
  then show ?thesis using vector_at_rel [OF r, of i] assms(2) by (simp add: string_at_def word_less_nat_alt nth_append)
qed

lemma string_front_rel:
  assumes "str_rel s (c # cs)"
  shows "string_front s = Inr c"
  using string_at_rel [OF assms, of 0] by (simp add: string_front_def)

lemma string_erase_front_rel:
  assumes "str_rel s (c # cs)"
  shows "\<exists>s'. string_erase s 0 = Inr s' \<and> str_rel s' cs \<and> \<not> vec_null s'"
proof -
  have "vec_rel s (c # cs @ [0])" using assms by (simp add: str_rel_def)
  from vector_erase_rel [OF this, of 0] show ?thesis by (auto simp: string_erase_def str_rel_def)
qed

lemma string_pop_back_rel:
  assumes "str_rel s cs" "cs \<noteq> []"
  shows "\<exists>s'. string_pop_back s = Inr s' \<and> str_rel s' (butlast cs) \<and> \<not> vec_null s'"
proof -
  have r: "vec_rel s (cs @ [0])" "\<not> vec_null s"
    using assms vec_rel_not_null [of s "cs @ [0]"] by (auto simp: str_rel_def)
  obtain s1 where s1: "vector_pop_back s = Inr s1" "vec_rel s1 cs" "\<not> vec_null s1"
    using vector_pop_back_rel [OF r(1)] r(2) by auto
  have i: "unat (v_size s1 - 1) = length cs - 1"
    using s1(2) assms(2) by (subst unat_minus_one) (auto simp: vec_rel_def)
  obtain s2 where "vector_put s1 (v_size s1 - 1) 0 = Inr s2" "vec_rel s2 (cs[length cs - 1 := 0])" "\<not> vec_null s2"
    using vector_put_rel [OF s1(2), of "v_size s1 - 1" 0] i assms(2) s1(3) by auto
  moreover have "cs[length cs - 1 := 0] = butlast cs @ [0]"
    using assms(2) by (cases cs rule: rev_cases) auto
  ultimately show ?thesis using s1 by (auto simp: string_pop_back_def ensure_terminated_def str_rel_def)
qed

lemma chars_to_zero_take:
  "chars_to_zero (map Some (cs @ [0]) @ slots) = Inr (takeWhile (\<lambda>c. c \<noteq> 0) cs)"
  by (induction cs) auto

lemma string_c_str_rel:
  assumes "str_rel s cs"
  shows "string_c_str s = (if vec_null s then Inl NullDeref else Inr (takeWhile (\<lambda>c. c \<noteq> 0) cs))"
proof (cases "vec_null s")
  case False
  then have r: "vec_rel s (cs @ [0])" using assms by (auto simp: str_rel_def)
  obtain slots where s: "v_array s = Some slots" "take (length (cs @ [0])) slots = map Some (cs @ [0])"
    using vec_relD [OF r False] by blast
  have "slots = map Some (cs @ [0]) @ drop (length (cs @ [0])) slots"
    using s(2) append_take_drop_id [of "length (cs @ [0])" slots] by (simp only:)
  then have "chars_to_zero slots = Inr (takeWhile (\<lambda>c. c \<noteq> 0) cs)"
    using chars_to_zero_take [of cs "drop (length (cs @ [0])) slots"] by (simp only:)
  then show ?thesis using False s(1) by (simp add: string_c_str_def)
qed (simp add: string_c_str_def vec_null_def)

section \<open>The constructors\<close>

lemma vector_fill_rel:
  assumes "n \<noteq> 0" "unat n \<le> 2 ^ 31"
  shows "\<exists>v. vector_fill n x = Inr v \<and> vec_rel v (replicate (unat n) x) \<and> \<not> vec_null v"
proof -
  define cap where "cap = next_power_of_two n"
  have cap: "unat n \<le> unat cap" using next_power_of_two_ge [OF assms(2,1)] by (simp add: cap_def)
  then have "cap \<noteq> 0" using assms(1) by (auto simp: unat_eq_0)
  moreover have "kfold (\<lambda>i. slot_set i (Some x)) [0..<unat n] (Some (replicate (unat cap) None)) =
      Inr (Some (replicate (unat n) (Some x) @ replicate (unat cap - unat n) None))"
    using fill_loop [of "unat n" "replicate (unat cap) None" 0 "\<lambda>_. Some x"] cap
    by (simp add: map_replicate_const)
  ultimately show ?thesis
    using cap by (auto simp: vector_fill_def Let_def vec_rel_def vec_null_def simp flip: cap_def)
qed

lemma vector_fill_0: "vector_fill 0 x = Inr vector_empty"
  by (simp add: vector_fill_def vector_empty_def)

text \<open>\<open>terminate\<close> on a vector without terminator writes the zero in front of the last element.\<close>

lemma string_terminate_raw:
  assumes "vec_rel s xs" "xs \<noteq> []" "length xs < 2 ^ 31 - 1"
  shows "\<exists>s'. string_terminate s = Inr s' \<and> vec_rel s' (butlast xs @ [0, last xs]) \<and> \<not> vec_null s'"
proof -
  have nn: "\<not> vec_null s" using vec_rel_not_null [OF assms(1,2)] .
  have "unat (v_size s) = length xs" using assms(1) by (simp add: vec_rel_def)
  moreover have "length xs \<noteq> 0" using assms(2) by simp
  ultimately have n: "unat (string_size s) = length xs - 1"
    by (auto simp: string_size_def kmax_def unat_sub_small word_less_nat_alt)
  have "drop (length xs - 1) xs = [last xs]"
    using assms(2) by (cases xs rule: rev_cases) auto
  then show ?thesis
    using vector_insert_rel [OF assms(1), of "string_size s" "[0]"] n nn assms(3)
    by (auto simp: string_terminate_def string_push_back_def string_append_chars_def
        string_insert_chars_def ensure_not_null_def vec_null_def butlast_conv_take)
qed

lemma string_fill_raw:
  assumes "n \<noteq> 0" "unat n < 2 ^ 31 - 1"
  shows "\<exists>s. string_fill n c = Inr s \<and> vec_rel s (replicate (unat n - 1) c @ [0, c]) \<and> \<not> vec_null s"
proof -
  obtain v where v: "vector_fill n c = Inr v" "vec_rel v (replicate (unat n) c)"
    using vector_fill_rel [OF assms(1), of c] assms(2) by auto
  have n0: "unat n \<noteq> 0" using assms(1) by (simp add: unat_eq_0)
  then have "butlast (replicate (unat n) c) = replicate (unat n - 1) c" "last (replicate (unat n) c) = c"
    by (auto simp: butlast_conv_take min_def)
  then show ?thesis
    using string_terminate_raw [OF v(2)] v(1) n0 assms(2) by (auto simp: string_fill_def)
qed

lemma string_make_rel:
  assumes "cs \<noteq> []" "length cs < 2 ^ 31 - 1"
  shows "\<exists>s. string_make cs = Inr s \<and> str_rel s cs \<and> \<not> vec_null s"
proof -
  let ?n = "of_nat (length cs) :: u32"
  have n: "unat ?n = length cs" using assms(2) by (simp add: unat_of_nat_small)
  then have "?n \<noteq> 0" using assms(1) by (metis length_0_conv unat_0)
  then obtain s where s: "string_fill ?n 0 = Inr s" "vec_rel s (replicate (length cs - 1) 0 @ [0, 0])" "\<not> vec_null s"
    using string_fill_raw [of ?n 0] n assms(2) by auto
  have z: "replicate (length cs - 1) 0 @ [0, 0] = replicate (length cs) (0 :: u8) @ [0]"
    using assms(1) by (cases cs) (auto simp: replicate_app_Cons_same replicate_append_same)
  have r: "vec_rel s (replicate (length cs) 0 @ [0])" using s(2) unfolding z .
  then have "unat (string_size s) = length cs"
    using str_rel_size(1) [of s "replicate (length cs) 0"] by (simp add: str_rel_def)
  then show ?thesis
    using s write_chars_rel [OF r _ s(3), of 0 cs] by (auto simp: string_make_def Let_def str_rel_def)
qed

text \<open>The empty literal becomes a string with one character, the zero.\<close>

lemma string_make_nil: "\<exists>s. string_make [] = Inr s \<and> str_rel s [0] \<and> \<not> vec_null s"
proof -
  obtain s where s: "string_push_back string_empty 0 = Inr s" "str_rel s [0]" "\<not> vec_null s"
    using string_push_back_rel [OF str_rel_empty, of 0] by auto
  have f: "string_fill 0 0 = Inr s"
    using s(1) by (simp add: string_fill_def vector_fill_0 string_terminate_def string_empty_def)
  have "vec_rel s [0, 0]" using s(2,3) by (auto simp: str_rel_def)
  from write_chars_rel [OF this _ s(3), of 0 "[0]"] show ?thesis
    using f str_rel_size(1) [OF s(2)] by (auto simp: string_make_def Let_def str_rel_def)
qed

text \<open>
  A string made from a non-empty C string has its length and gives back the same characters
  through \<open>c_str\<close>.
\<close>

theorem string_make_roundtrip:
  assumes "cs \<noteq> []" "0 \<notin> set cs" "length cs < 2 ^ 31 - 1"
  shows "\<exists>s. string_make cs = Inr s \<and> unat (string_size s) = length cs \<and> string_c_str s = Inr cs"
proof -
  obtain s where s: "string_make cs = Inr s" "str_rel s cs" "\<not> vec_null s"
    using string_make_rel [OF assms(1,3)] by blast
  moreover have "takeWhile (\<lambda>c. c \<noteq> 0) cs = cs" using assms(2) by auto
  ultimately show ?thesis using str_rel_size(1) [OF s(2)] string_c_str_rel [OF s(2)] by auto
qed

theorem string_make_roundtrip_witness:
  "\<exists>s. string_make [104, 105] = Inr s \<and> unat (string_size s) = length [104, 105 :: u8] \<and> string_c_str s = Inr [104, 105]"
  using string_make_roundtrip [of "[104, 105]"] by simp

text \<open>
  The constructors that count on \<open>terminate\<close> to add the terminator behind the characters do not
  get it there. A string of \<open>n\<close> characters \<open>c\<close> has \<open>size()\<close> \<open>n\<close>, but its terminator stands in front
  of the last character, so that its C string has one character less; and the string made from the
  empty literal has size 1 and is not \<open>empty()\<close>.
\<close>

theorem string_terminate_misplaced:
  "(n \<noteq> 0 \<and> unat n < 2 ^ 31 - 1 \<and> c \<noteq> 0 \<longrightarrow>
      (\<exists>s. string_fill n c = Inr s \<and> string_size s = n \<and> string_c_str s = Inr (replicate (unat n - 1) c))) \<and>
   (\<exists>s. string_make [] = Inr s \<and> string_size s = 1 \<and> \<not> string_is_empty s)"
proof
  show "n \<noteq> 0 \<and> unat n < 2 ^ 31 - 1 \<and> c \<noteq> 0 \<longrightarrow>
      (\<exists>s. string_fill n c = Inr s \<and> string_size s = n \<and> string_c_str s = Inr (replicate (unat n - 1) c))"
  proof
    assume a: "n \<noteq> 0 \<and> unat n < 2 ^ 31 - 1 \<and> c \<noteq> 0"
    then obtain s where s: "string_fill n c = Inr s" "vec_rel s (replicate (unat n - 1) c @ [0, c])" "\<not> vec_null s"
      using string_fill_raw [of n c] by auto
    have n0: "unat n \<noteq> 0" using a by (simp add: unat_eq_0)
    have "unat (v_size s) = Suc (unat n)" using s(2) n0 by (simp add: vec_rel_def)
    then have "unat (string_size s) = unat n"
      using n0 by (auto simp: string_size_def kmax_def unat_sub_small word_less_nat_alt)
    then have size: "string_size s = n" by (rule unsigned_word_eqI)
    obtain slots where sl: "v_array s = Some slots"
      "take (length (replicate (unat n - 1) c @ [0, c])) slots = map Some (replicate (unat n - 1) c @ [0, c])"
      using vec_relD [OF s(2,3)] by blast
    have "slots = map Some (replicate (unat n - 1) c @ [0]) @ Some c # drop (unat n + 1) slots"
      using sl(2) n0 append_take_drop_id [of "unat n + 1" slots] by simp
    then have "chars_to_zero slots = Inr (takeWhile (\<lambda>c. c \<noteq> 0) (replicate (unat n - 1) c))"
      by (metis chars_to_zero_take)
    moreover have "takeWhile (\<lambda>c. c \<noteq> 0) (replicate (unat n - 1) c) = replicate (unat n - 1) c"
      using a by auto
    ultimately show "\<exists>s. string_fill n c = Inr s \<and> string_size s = n \<and> string_c_str s = Inr (replicate (unat n - 1) c)"
      using s(1) size sl(1) by (auto simp: string_c_str_def)
  qed
  obtain s where s: "string_make [] = Inr s" "str_rel s [0]" using string_make_nil by blast
  have "unat (string_size s) = unat (1 :: u32)" using str_rel_size(1) [OF s(2)] by simp
  then have "string_size s = 1" by (rule unsigned_word_eqI)
  then show "\<exists>s. string_make [] = Inr s \<and> string_size s = 1 \<and> \<not> string_is_empty s"
    using s str_rel_size(2) [OF s(2)] by auto
qed

theorem string_terminate_misplaced_witness:
  "\<exists>s. string_fill 3 97 = Inr s \<and> string_size s = 3 \<and> string_c_str s = Inr [97, 97]"
proof -
  have r: "replicate (unat (3 :: u32) - 1) (97 :: u8) = [97, 97]" by code_simp
  have "(3 :: u32) \<noteq> 0 \<and> unat (3 :: u32) < 2 ^ 31 - 1 \<and> (97 :: u8) \<noteq> 0" by simp
  then show ?thesis using string_terminate_misplaced [of 3 97, unfolded r] by blast
qed

end
