(* ===== verification/Terminal.thy ===== *)
theory Terminal
  imports ConsoleSpec KeyboardSpec KString
begin

text \<open>
  \<open>tty/Terminal.cpp\<close>: the terminal emulator between a TTY and a console. It keeps a copy of the cells
  of the main and of the alternate screen, the cursor, and the escape sequence that is being read.
  The console is abstract: its state has type \<open>'c\<close> and its virtual functions come as a record.
  \<open>NOT_IMPLEMENTED\<close> only writes a log line; the operations that consist of it do nothing here.
\<close>

section \<open>State\<close>

datatype SequenceState = SeqNone | FeSequence | CSISequence | OSCSequence

datatype CSIState = CSISequenceParams | CSISequenceIntermediate | CSISequenceFinal

record cursor_t =
  cur_row :: u32
  cur_column :: u32
  cur_fg :: u32
  cur_bg :: u32

record 'c terminal =
  t_main :: "cell_t list"
  t_saved :: cursor_t
  t_alt :: "cell_t list"
  t_alt_saved :: cursor_t
  t_use_alt :: bool
  t_console :: 'c
  t_cursor :: cursor_t
  t_sequence :: kstring
  t_last_char :: u8
  t_state :: SequenceState
  t_csi :: CSIState

definition sizeof_cell_t :: u32 where
  "sizeof_cell_t = 12"

definition zero_cursor :: cursor_t where
  "zero_cursor = \<lparr>cur_row = 0, cur_column = 0, cur_fg = 0, cur_bg = 0\<rparr>"

text \<open>The constructor allocates both buffers and fills them with zero bytes.\<close>

definition terminal_new :: "'c console_ops \<Rightarrow> 'c \<Rightarrow> 'c terminal" where
  "terminal_new ops c =
     (let n = unat (sizeof_cell_t * co_height ops c * co_width ops c) div unat sizeof_cell_t;
          blank = replicate n \<lparr>cl_ch = 0, cl_fg = 0, cl_bg = 0\<rparr>
      in \<lparr>t_main = blank, t_saved = zero_cursor, t_alt = blank, t_alt_saved = zero_cursor, t_use_alt = False,
          t_console = c, t_cursor = zero_cursor, t_sequence = string_empty, t_last_char = 32,
          t_state = SeqNone, t_csi = CSISequenceParams\<rparr>)"

section \<open>The buffers and the console\<close>

definition t_width :: "'c console_ops \<Rightarrow> 'c terminal \<Rightarrow> u32" where
  "t_width ops t = co_width ops (t_console t)"

definition t_height :: "'c console_ops \<Rightarrow> 'c terminal \<Rightarrow> u32" where
  "t_height ops t = co_height ops (t_console t)"

definition get_buffer :: "'c terminal \<Rightarrow> cell_t list" where
  "get_buffer t = (if t_use_alt t then t_alt t else t_main t)"

definition set_buffer :: "cell_t list \<Rightarrow> 'c terminal \<Rightarrow> 'c terminal" where
  "set_buffer b t = (if t_use_alt t then t\<lparr>t_alt := b\<rparr> else t\<lparr>t_main := b\<rparr>)"

definition buffer_put :: "nat \<Rightarrow> cell_t \<Rightarrow> 'c terminal \<Rightarrow> 'c terminal kres" where
  "buffer_put i x t = (if i < length (get_buffer t) then Inr (set_buffer ((get_buffer t)[i := x]) t) else Inl BadAccess)"

definition buffer_fill :: "nat list \<Rightarrow> 'c terminal \<Rightarrow> 'c terminal kres" where
  "buffer_fill is t = kfold (\<lambda>i. buffer_put i default_cell) is t"

text \<open>\<open>memmove\<close> of cells inside the current buffer.\<close>

definition buffer_move :: "nat \<Rightarrow> nat \<Rightarrow> u32 \<Rightarrow> 'c terminal \<Rightarrow> 'c terminal kres" where
  "buffer_move to from bytes t =
     (let n = unat bytes div unat sizeof_cell_t; b = get_buffer t
      in if to + n \<le> length b \<and> from + n \<le> length b
         then Inr (set_buffer (take to b @ take n (drop from b) @ drop (to + n) b) t) else Inl BadAccess)"

definition on_console :: "('c \<Rightarrow> 'c kres) \<Rightarrow> 'c terminal \<Rightarrow> 'c terminal kres" where
  "on_console f t = kbind (f (t_console t)) (\<lambda>c. Inr (t\<lparr>t_console := c\<rparr>))"

definition set_cursor :: "'c console_ops \<Rightarrow> u32 \<Rightarrow> u32 \<Rightarrow> 'c terminal \<Rightarrow> 'c terminal kres" where
  "set_cursor ops row column t =
     on_console (\<lambda>c. co_set_cursor ops c row column)
       (t\<lparr>t_cursor := (t_cursor t)\<lparr>cur_row := row, cur_column := column\<rparr>\<rparr>)"

definition set_cursor_row :: "'c console_ops \<Rightarrow> u32 \<Rightarrow> 'c terminal \<Rightarrow> 'c terminal kres" where
  "set_cursor_row ops row t = set_cursor ops row (cur_column (t_cursor t)) t"

definition set_cursor_column :: "'c console_ops \<Rightarrow> u32 \<Rightarrow> 'c terminal \<Rightarrow> 'c terminal kres" where
  "set_cursor_column ops column t = set_cursor ops (cur_row (t_cursor t)) column t"

definition term_clear :: "'c console_ops \<Rightarrow> u32 \<Rightarrow> u32 \<Rightarrow> u32 \<Rightarrow> u32 \<Rightarrow> 'c terminal \<Rightarrow> 'c terminal kres" where
  "term_clear ops from_row from_column to_row to_column t =
     (let from_index = from_row * t_width ops t + from_column;
          to_index = to_row * t_width ops t + to_column
      in kbind (buffer_fill [unat from_index..<Suc (unat to_index)] t)
           (on_console (\<lambda>c. co_clear ops c from_row from_column to_row to_column)))"

definition scroll_up :: "'c console_ops \<Rightarrow> 'c terminal \<Rightarrow> 'c terminal kres" where
  "scroll_up ops t =
     kbind (on_console (co_scroll_up ops) t) (\<lambda>t.
     kbind (on_console (\<lambda>c. co_clear ops c (co_height ops c - 1) 0 (co_height ops c - 1) (co_width ops c - 1)) t) (\<lambda>t.
     let w = t_width ops t; h = t_height ops t
     in kbind (buffer_move 0 (unat w) (w * (h - 1) * sizeof_cell_t) t)
          (buffer_fill [unat (w * (h - 1))..<unat (w * h)])))"

definition scroll_down :: "'c console_ops \<Rightarrow> 'c terminal \<Rightarrow> 'c terminal kres" where
  "scroll_down ops t =
     kbind (on_console (co_scroll_down ops) t) (\<lambda>t.
     kbind (on_console (\<lambda>c. co_clear ops c 0 0 0 (co_width ops c - 1)) t) (\<lambda>t.
     let w = t_width ops t; h = t_height ops t
     in kbind (buffer_move (unat w) 0 (w * (h - 1) * sizeof_cell_t) t)
          (buffer_fill [0..<unat w])))"

definition switch_buffer :: "'c console_ops \<Rightarrow> bool \<Rightarrow> bool \<Rightarrow> 'c terminal \<Rightarrow> 'c terminal kres" where
  "switch_buffer ops alternate clear t =
     (if t_use_alt t = alternate then Inr t
      else let t = t\<lparr>t_use_alt := alternate\<rparr>
           in if \<not> clear
              then on_console (\<lambda>c. co_write_region ops c 0 0 (co_height ops c - 1) (co_width ops c - 1) (get_buffer t)) t
              else term_clear ops 0 0 (t_height ops t - 1) (t_width ops t - 1) t)"

section \<open>C0 and C1 control codes\<close>

definition BS :: "'c console_ops \<Rightarrow> 'c terminal \<Rightarrow> 'c terminal kres" where
  "BS ops t = (if 0 < cur_column (t_cursor t) then set_cursor_column ops (cur_column (t_cursor t) - 1) t else Inr t)"

definition CR :: "'c console_ops \<Rightarrow> 'c terminal \<Rightarrow> 'c terminal kres" where
  "CR ops t = set_cursor_column ops 0 t"

definition LF :: "'c console_ops \<Rightarrow> 'c terminal \<Rightarrow> 'c terminal kres" where
  "LF ops t =
     (if cur_row (t_cursor t) < t_height ops t - 1 then set_cursor_row ops (cur_row (t_cursor t) + 1) t
      else scroll_up ops t)"

definition ESC :: "'c terminal \<Rightarrow> 'c terminal" where
  "ESC t = t\<lparr>t_state := FeSequence, t_csi := CSISequenceParams\<rparr>"

definition RI :: "'c console_ops \<Rightarrow> 'c terminal \<Rightarrow> 'c terminal kres" where
  "RI ops t =
     (if cur_row (t_cursor t) = 0 then scroll_down ops t else set_cursor_row ops (cur_row (t_cursor t) - 1) t)"

definition CSI :: "'c terminal \<Rightarrow> 'c terminal" where
  "CSI t = t\<lparr>t_state := CSISequence\<rparr>"

definition DECSC :: "'c terminal \<Rightarrow> 'c terminal" where
  "DECSC t = (if t_use_alt t then t\<lparr>t_alt_saved := t_cursor t\<rparr> else t\<lparr>t_saved := t_cursor t\<rparr>)"

definition DECRC :: "'c console_ops \<Rightarrow> 'c terminal \<Rightarrow> 'c terminal kres" where
  "DECRC ops t =
     (let cursor = (if t_use_alt t then t_alt_saved t else t_saved t)
      in set_cursor ops (cur_row cursor) (cur_column cursor) t)"

definition advance :: "'c console_ops \<Rightarrow> 'c terminal \<Rightarrow> 'c terminal kres" where
  "advance ops t =
     (if cur_column (t_cursor t) < t_width ops t - 1 then set_cursor_column ops (cur_column (t_cursor t) + 1) t
      else kbind (CR ops t) (LF ops))"

definition term_write_char :: "'c console_ops \<Rightarrow> u8 \<Rightarrow> u32 \<Rightarrow> u32 \<Rightarrow> 'c terminal \<Rightarrow> 'c terminal kres" where
  "term_write_char ops ch row column t =
     kbind (on_console (\<lambda>c. co_write_char ops c row column ch) t) (\<lambda>t.
     kbind (buffer_put (unat (row * t_width ops t + column))
              \<lparr>cl_ch = ch, cl_fg = cur_fg (t_cursor t), cl_bg = cur_bg (t_cursor t)\<rparr> t) (\<lambda>t.
       advance ops (t\<lparr>t_last_char := ch\<rparr>)))"

definition write_at_cursor :: "'c console_ops \<Rightarrow> u8 \<Rightarrow> 'c terminal \<Rightarrow> 'c terminal kres" where
  "write_at_cursor ops ch t = term_write_char ops ch (cur_row (t_cursor t)) (cur_column (t_cursor t)) t"

section \<open>CSI sequences\<close>

text \<open>Arguments are \<open>int\<close>s; \<open>while (n--)\<close> counts them down to 0, a negative one through the wrap-around.\<close>

definition CUU :: "'c console_ops \<Rightarrow> u32 \<Rightarrow> 'c terminal \<Rightarrow> 'c terminal kres" where
  "CUU ops n t = set_cursor ops (kmin (cur_row (t_cursor t)) n) (cur_column (t_cursor t)) t"

definition CHA :: "'c console_ops \<Rightarrow> u32 \<Rightarrow> 'c terminal \<Rightarrow> 'c terminal kres" where
  "CHA ops n t =
     (let new_column = kmin (if n - 1 <s 0 then 0 else n - 1) (t_width ops t - 1)
      in set_cursor ops (cur_row (t_cursor t)) new_column t)"

definition CUP :: "'c console_ops \<Rightarrow> u32 \<Rightarrow> u32 \<Rightarrow> 'c terminal \<Rightarrow> 'c terminal kres" where
  "CUP ops row column t =
     set_cursor ops (if 0 <s row then row - 1 else row) (if 0 <s column then column - 1 else column) t"

definition ED :: "'c console_ops \<Rightarrow> u32 \<Rightarrow> 'c terminal \<Rightarrow> 'c terminal kres" where
  "ED ops type t =
     (if type \<noteq> 2 then Inr t else term_clear ops 0 0 (t_height ops t - 1) (t_width ops t - 1) t)"

definition EL :: "'c console_ops \<Rightarrow> u32 \<Rightarrow> 'c terminal \<Rightarrow> 'c terminal kres" where
  "EL ops type t =
     (if type <s 0 \<or> 2 <s type then Inr t
      else
        let row = cur_row (t_cursor t);
            from_column = (if type = 0 then cur_column (t_cursor t) else 0);
            to_column = (if type = 1 then cur_column (t_cursor t) else t_width ops t - 1)
        in kbind (on_console (\<lambda>c. co_clear ops c row from_column row to_column) t) (\<lambda>t.
             buffer_fill [unat (t_width ops t * row + from_column)..<Suc (unat (t_width ops t * row + to_column))] t))"

definition SU :: "'c console_ops \<Rightarrow> u32 \<Rightarrow> 'c terminal \<Rightarrow> 'c terminal kres" where
  "SU ops n t = kfold (\<lambda>_. scroll_up ops) [0..<unat n] t"

definition SD :: "'c console_ops \<Rightarrow> u32 \<Rightarrow> 'c terminal \<Rightarrow> 'c terminal kres" where
  "SD ops n t = kfold (\<lambda>_. scroll_down ops) [0..<unat n] t"

definition REP :: "'c console_ops \<Rightarrow> u32 \<Rightarrow> 'c terminal \<Rightarrow> 'c terminal kres" where
  "REP ops n t =
     kfold (\<lambda>_ t. write_at_cursor ops (t_last_char t) t) [0..<unat (if n = 0 then 1 else n)] t"

definition VPA :: "'c console_ops \<Rightarrow> u32 \<Rightarrow> 'c terminal \<Rightarrow> 'c terminal kres" where
  "VPA ops row t = set_cursor_row ops (if 0 <s row then row - 1 else row) t"

definition DECSET :: "'c console_ops \<Rightarrow> u32 \<Rightarrow> 'c terminal \<Rightarrow> 'c terminal kres" where
  "DECSET ops mode t =
     (if mode = 1049 then switch_buffer ops True True (t\<lparr>t_saved := t_cursor t\<rparr>) else Inr t)"

definition DECRST :: "'c console_ops \<Rightarrow> u32 \<Rightarrow> 'c terminal \<Rightarrow> 'c terminal kres" where
  "DECRST ops mode t =
     (if mode = 1049
      then kbind (switch_buffer ops False False t) (\<lambda>t. set_cursor ops (cur_row (t_saved t)) (cur_column (t_saved t)) t)
      else Inr t)"

definition sgr_fg :: "'c console_ops \<Rightarrow> u32 \<Rightarrow> 'c terminal \<Rightarrow> 'c terminal kres" where
  "sgr_fg ops color t =
     kbind (ANSIColorToRGBA color) (\<lambda>rgba.
       on_console (\<lambda>c. co_set_fg ops c color) (t\<lparr>t_cursor := (t_cursor t)\<lparr>cur_fg := rgba\<rparr>\<rparr>))"

definition sgr_bg :: "'c console_ops \<Rightarrow> u32 \<Rightarrow> 'c terminal \<Rightarrow> 'c terminal kres" where
  "sgr_bg ops color t =
     kbind (ANSIColorToRGBA color) (\<lambda>rgba.
       on_console (\<lambda>c. co_set_bg ops c color) (t\<lparr>t_cursor := (t_cursor t)\<lparr>cur_bg := rgba\<rparr>\<rparr>))"

definition SGR :: "'c console_ops \<Rightarrow> u32 \<Rightarrow> 'c terminal \<Rightarrow> 'c terminal kres" where
  "SGR ops type t =
     (if type = 0 then kbind (sgr_fg ops BrightWhite t) (sgr_bg ops Black)
      else if 30 \<le>s type \<and> type <s 38 then sgr_fg ops (type - 30) t
      else if 40 \<le>s type \<and> type <s 48 then sgr_bg ops (type - 40) t
      else if type = 39 then sgr_fg ops BrightWhite t
      else if type = 49 then sgr_bg ops Black t
      else if 90 \<le>s type \<and> type <s 98 then sgr_fg ops (BrightBlack + type - 90) t
      else if 100 \<le>s type \<and> type <s 108 then sgr_bg ops (BrightBlack + type - 90) t
      else Inr t)"

section \<open>Escape sequences\<close>

definition reset_sequence :: "'c terminal \<Rightarrow> 'c terminal kres" where
  "reset_sequence t =
     kbind (string_assign (t_sequence t) []) (\<lambda>s. Inr (t\<lparr>t_sequence := s, t_state := SeqNone\<rparr>))"

definition read_fe_sequence :: "'c console_ops \<Rightarrow> u8 \<Rightarrow> 'c terminal \<Rightarrow> 'c terminal kres" where
  "read_fe_sequence ops ch t =
     (if ch = 91 then Inr (CSI t)
      else kbind (if ch = 77 then RI ops t
                  else if ch = 55 then Inr (DECSC t)
                  else if ch = 56 then DECRC ops t
                  else Inr t) reset_sequence)"

text \<open>
  The arguments. \<open>strtol_at\<close> is \<open>strtol\<close> in base 10 on the bytes of an array: the value, and the bytes
  from the first character that is not a digit. The bytes end with the terminator of the string.
\<close>

fun strtol_at :: "u8 list \<Rightarrow> u32 \<Rightarrow> u32 \<times> u8 list" where
  "strtol_at [] num = (num, [])"
| "strtol_at (c # cs) num =
     (if int_of_char c <s 48 \<or> 48 + 10 \<le>s int_of_char c then (num, c # cs)
      else strtol_at cs (num * 10 + ucast (c - 48)))"

lemma strtol_at_length: "length (snd (strtol_at cs num)) \<le> length cs"
  by (induction cs num rule: strtol_at.induct) auto

lemma sint_of_char: "sint (int_of_char c) = (if uint c < 128 then uint c else uint c - 256)"
proof -
  have "sint (int_of_char c) = sint c"
    unfolding int_of_char_def by (rule sint_up_scast) (simp add: is_up_def source_size_def target_size_def word_size)
  also have "\<dots> = signed_take_bit 7 (uint c)" by (simp add: sint_uint)
  also have "\<dots> = (if uint c < 128 then uint c else uint c - 256)"
  proof (cases "uint c < 128")
    case True
    moreover have "- (2 ^ 7) \<le> uint c" by (rule order_trans [of _ 0]) simp_all
    ultimately show ?thesis by (simp add: signed_take_bit_int_eq_self)
  next
    case False
    have "uint c < 256" using uint_bounded [of c] by simp
    then have "signed_take_bit 7 (uint c - 2 ^ 8) = uint c - 2 ^ 8"
      using False by (intro signed_take_bit_int_eq_self) simp_all
    moreover have "signed_take_bit 7 (uint c - 2 ^ 8) = signed_take_bit 7 (uint c)"
      by (simp add: signed_take_bit_eq_iff_take_bit_eq take_bit_eq_mod mod_diff_right_eq [symmetric])
    ultimately show ?thesis using False by simp
  qed
  finally show ?thesis .
qed

lemma digit_char: "isdigit (int_of_char c) \<noteq> 0 \<longleftrightarrow> \<not> (int_of_char c <s 48 \<or> 48 + 10 \<le>s int_of_char c)"
  using uint_bounded [of c]
  by (auto simp: isdigit_char digit_class_def word_sless_alt word_sle_eq sint_of_char word_le_def split: if_splits)

function parse_args :: "u8 list \<Rightarrow> u32 list \<Rightarrow> u32 list kres" where
  "parse_args [] args = Inl BadAccess"
| "parse_args (c # cs) args =
     (if isdigit (int_of_char c) \<noteq> 0 \<or> c = 59
      then let (arg, rest) = strtol_at (c # cs) 0
           in case rest of
                [] \<Rightarrow> Inl BadAccess
              | r # rs \<Rightarrow> parse_args (if r = 59 then rs else r # rs) (args @ [arg])
      else Inr args)"
  by pat_completeness auto
termination
proof (relation "measure (\<lambda>(cs, args). length cs)", simp)
  fix c :: u8 and cs args x arg rest r rs
  assume c: "isdigit (int_of_char c) \<noteq> 0 \<or> c = 59" "x = strtol_at (c # cs) 0" "(arg, rest) = x" "rest = r # rs"
  have "length rest \<le> length cs \<or> r = 59 \<and> length rest = Suc (length cs)"
  proof (cases "isdigit (int_of_char c) \<noteq> 0")
    case True
    then have "x = strtol_at cs (0 * 10 + ucast (c - 48))"
      using c(2) by (simp add: digit_char)
    then show ?thesis using strtol_at_length [of cs "0 * 10 + ucast (c - 48)"] c(3) by (metis snd_conv)
  next
    case False
    then have "x = (0, c # cs)" using c(2) digit_char [of c] by simp
    with c(3,4) have "r = c" "rest = c # cs" by simp_all
    moreover have "c = 59" using c(1) False by simp
    ultimately show ?thesis by simp
  qed
  then show "((if r = 59 then rs else r # rs, args @ [arg]), c # cs, args) \<in> measure (\<lambda>(cs, args). length cs)"
    using c(4) by auto
qed

text \<open>The bytes of a string, with the terminator.\<close>

definition string_bytes :: "kstring \<Rightarrow> u8 list kres" where
  "string_bytes s = kfold (\<lambda>i cs. kbind (vector_at s (of_nat i)) (\<lambda>c. Inr (cs @ [c]))) [0..<unat (v_size s)] []"

definition parse_csi_arguments :: "'c terminal \<Rightarrow> u32 list kres" where
  "parse_csi_arguments t =
     kbind (string_bytes (t_sequence t)) (\<lambda>bytes.
       case drop 2 bytes of
         [] \<Rightarrow> Inl BadAccess
       | c # cs \<Rightarrow> parse_args (if c = 63 then cs else c # cs) [])"

text \<open>\<open>ENSURE_ARG_COUNT(n)\<close>: missing arguments are 0.\<close>

definition ensure_args :: "nat \<Rightarrow> u32 list \<Rightarrow> u32 list" where
  "ensure_args n args = take n args @ replicate (n - length args) 0"

definition csi_dispatch :: "'c console_ops \<Rightarrow> u8 \<Rightarrow> bool \<Rightarrow> u32 list \<Rightarrow> 'c terminal \<Rightarrow> 'c terminal kres" where
  "csi_dispatch ops ch is_private_mode args t =
     (let arg = ensure_args 1 args ! 0; args2 = ensure_args 2 args
      in if ch = 65 then CUU ops arg t
         else if ch = 71 then CHA ops arg t
         else if ch = 72 then CUP ops (args2 ! 0) (args2 ! 1) t
         else if ch = 74 then ED ops arg t
         else if ch = 75 then EL ops arg t
         else if ch = 83 then SU ops arg t
         else if ch = 84 then SD ops arg t
         else if ch = 98 then REP ops arg t
         else if ch = 100 then VPA ops arg t
         else if ch = 109 then SGR ops arg t
         else if ch = 104 then (if is_private_mode then DECSET ops arg t else Inr t)
         else if ch = 108 then (if is_private_mode then DECRST ops arg t else Inr t)
         else Inr t)"

definition read_csi_sequence :: "'c console_ops \<Rightarrow> u8 \<Rightarrow> 'c terminal \<Rightarrow> 'c terminal kres" where
  "read_csi_sequence ops ch t =
     (if t_csi t = CSISequenceParams \<and> 0x30 \<le> ch \<and> ch < 0x40 then Inr t
      else
        let t = (if t_csi t = CSISequenceParams then t\<lparr>t_csi := CSISequenceIntermediate\<rparr> else t)
        in if t_csi t = CSISequenceIntermediate \<and> 0x20 \<le> ch \<and> ch < 0x30 then Inr t
           else
             let t = (if t_csi t = CSISequenceIntermediate then t\<lparr>t_csi := CSISequenceFinal\<rparr> else t)
             in kbind (parse_csi_arguments t) (\<lambda>args.
                kbind (string_at (t_sequence t) 2) (\<lambda>c2.
                kbind (csi_dispatch ops ch (c2 = 63) args t) reset_sequence)))"

section \<open>The interface of the TTY\<close>

definition push_sequence :: "u8 \<Rightarrow> 'c terminal \<Rightarrow> 'c terminal kres" where
  "push_sequence ch t = kbind (string_push_back (t_sequence t) ch) (\<lambda>s. Inr (t\<lparr>t_sequence := s\<rparr>))"

definition echo :: "'c console_ops \<Rightarrow> u8 \<Rightarrow> 'c terminal \<Rightarrow> 'c terminal kres" where
  "echo ops ch t =
     (if ch = 7 then Inr t
      else if ch = 8 then BS ops t
      else if ch = 9 then Inr t
      else if ch = 12 then Inr t
      else if ch = 10 then LF ops t
      else if ch = 13 then CR ops t
      else if ch = 27 then push_sequence ch (ESC t)
      else
        kbind (if t_state t \<noteq> SeqNone then push_sequence ch t else Inr t) (\<lambda>t.
          if t_state t = CSISequence then read_csi_sequence ops ch t
          else if t_state t = FeSequence then read_fe_sequence ops ch t
          else if isascii (int_of_char ch) then write_at_cursor ops ch t
          else Inr t))"

definition unecho :: "'c console_ops \<Rightarrow> 'c terminal \<Rightarrow> 'c terminal kres" where
  "unecho ops t =
     kbind (on_console (\<lambda>c. co_write_char ops c (cur_row (t_cursor t)) (cur_column (t_cursor t)) 32) t) (\<lambda>t.
     let cursor = t_cursor t;
         finish = (\<lambda>cursor.
           kbind (on_console (\<lambda>c. co_set_cursor ops c (cur_row cursor) (cur_column cursor)) (t\<lparr>t_cursor := cursor\<rparr>))
             (on_console (\<lambda>c. co_write_char ops c (cur_row cursor) (cur_column cursor) 32)))
     in if cur_column cursor = 0
        then if cur_row cursor = 0 then Inr t
             else finish (cursor\<lparr>cur_column := t_width ops t - 1, cur_row := cur_row cursor - 1\<rparr>)
        else finish (cursor\<lparr>cur_column := cur_column cursor - 1\<rparr>))"

definition parse_key_event :: "key_event_t \<Rightarrow> kstring kres" where
  "parse_key_event event =
     (if ev_modifiers event AND Pressed = 0 then Inr string_empty
      else if ev_key event = Key_Up then string_append string_empty [27, 91, 65]
      else if ev_key event = Key_Down then string_append string_empty [27, 91, 66]
      else if ev_key event = Key_Right then string_append string_empty [27, 91, 67]
      else if ev_key event = Key_Left then string_append string_empty [27, 91, 68]
      else if ev_code_point event = 0 then Inr string_empty
      else string_push_back string_empty (ev_code_point event))"

end
