(* ===== verification/TerminalSpec.thy ===== *)
theory TerminalSpec
  imports Terminal
begin

text \<open>
  The terminal over any console that keeps the contract: which characters it takes without a fault,
  what it shows, and how it switches between its two screens.
\<close>

section \<open>The invariant\<close>

definition cursor_ok :: "'c console_ops \<Rightarrow> 'c terminal \<Rightarrow> cursor_t \<Rightarrow> bool" where
  "cursor_ok ops t cur = (cur_row cur < t_height ops t \<and> cur_column cur < t_width ops t)"

definition term_ok :: "'c console_ops \<Rightarrow> ('c \<Rightarrow> bool) \<Rightarrow> 'c terminal \<Rightarrow> bool" where
  "term_ok ops ci t = (ci (t_console t) \<and> cursor_ok ops t (t_cursor t) \<and> cursor_ok ops t (t_saved t) \<and>
     cursor_ok ops t (t_alt_saved t) \<and> 12 * (unat (t_width ops t) * unat (t_height ops t)) < 2 ^ 32 \<and>
     length (t_main t) = unat (t_width ops t) * unat (t_height ops t) \<and>
     length (t_alt t) = unat (t_width ops t) * unat (t_height ops t))"

text \<open>
  The escape sequence: it is empty between sequences, has the escape character after it, and the
  opening bracket too while the arguments are read. \<open>n\<close> bounds its length.
\<close>

definition seq_ok :: "nat \<Rightarrow> 'c terminal \<Rightarrow> bool" where
  "seq_ok n t = (\<exists>cs. str_rel (t_sequence t) cs \<and> length cs \<le> n \<and> (t_state t = SeqNone \<longrightarrow> cs = []) \<and>
     (t_state t = FeSequence \<longrightarrow> cs \<noteq> []) \<and> (t_state t = CSISequence \<longrightarrow> 2 \<le> length cs) \<and> t_state t \<noteq> OSCSequence)"

definition term_inv :: "'c console_ops \<Rightarrow> ('c \<Rightarrow> bool) \<Rightarrow> nat \<Rightarrow> 'c terminal \<Rightarrow> bool" where
  "term_inv ops ci n t = (term_ok ops ci t \<and> seq_ok n t)"

text \<open>
  What an operation on the current screen leaves alone: the size, the escape sequence, the saved
  cursors and the other screen.
\<close>

definition same_rest :: "'c console_ops \<Rightarrow> 'c terminal \<Rightarrow> 'c terminal \<Rightarrow> bool" where
  "same_rest ops t t' = (t_width ops t' = t_width ops t \<and> t_height ops t' = t_height ops t \<and>
     t_sequence t' = t_sequence t \<and> t_state t' = t_state t \<and> t_use_alt t' = t_use_alt t \<and>
     t_saved t' = t_saved t \<and> t_alt_saved t' = t_alt_saved t \<and>
     (if t_use_alt t then t_main t' = t_main t else t_alt t' = t_alt t))"

definition safe :: "'c console_ops \<Rightarrow> ('c \<Rightarrow> bool) \<Rightarrow> 'c terminal kres \<Rightarrow> 'c terminal \<Rightarrow> bool" where
  "safe ops ci r t = (\<exists>t'. r = Inr t' \<and> term_ok ops ci t' \<and> same_rest ops t t')"

lemma same_rest_refl [simp]: "same_rest ops t t"
  by (simp add: same_rest_def)

lemma same_rest_trans: "same_rest ops t u \<Longrightarrow> same_rest ops u v \<Longrightarrow> same_rest ops t v"
  by (simp add: same_rest_def)

lemma safe_Inr [simp]: "safe ops ci (Inr t') t \<longleftrightarrow> term_ok ops ci t' \<and> same_rest ops t t'"
  by (simp add: safe_def)

lemma safe_bind:
  assumes "safe ops ci r t" and "\<And>t'. term_ok ops ci t' \<Longrightarrow> same_rest ops t t' \<Longrightarrow> safe ops ci (f t') t'"
  shows "safe ops ci (kbind r f) t"
proof -
  obtain t1 where t1: "r = Inr t1" "term_ok ops ci t1" "same_rest ops t t1" using assms(1) by (auto simp: safe_def)
  obtain t2 where "f t1 = Inr t2" "term_ok ops ci t2" "same_rest ops t1 t2"
    using assms(2) [OF t1(2,3)] by (auto simp: safe_def)
  then show ?thesis using t1 same_rest_trans [of ops t t1 t2] by (simp add: safe_def)
qed

lemma safe_fold:
  assumes "term_ok ops ci t"
    and "\<And>i t'. i \<in> set is \<Longrightarrow> term_ok ops ci t' \<Longrightarrow> same_rest ops t t' \<Longrightarrow> safe ops ci (f i t') t'"
  shows "safe ops ci (kfold f is t) t"
  using assms
proof (induction "is" arbitrary: t)
  case (Cons i "is")
  show ?case unfolding kfold.simps
  proof (rule safe_bind)
    show "safe ops ci (f i t) t" using Cons.prems by simp
    fix t' assume t': "term_ok ops ci t'" "same_rest ops t t'"
    show "safe ops ci (kfold f is t') t'"
      using Cons.prems(2) same_rest_trans [OF t'(2)] t'(1) by (intro Cons.IH) auto
  qed
qed simp

lemma safe_cong: "safe ops ci r u \<Longrightarrow> same_rest ops t u \<Longrightarrow> safe ops ci r t"
  using same_rest_trans by (auto simp: safe_def)

section \<open>The buffers\<close>

lemma set_buffer_simps [simp]:
  "t_console (set_buffer b t) = t_console t" "t_cursor (set_buffer b t) = t_cursor t"
  "t_saved (set_buffer b t) = t_saved t" "t_alt_saved (set_buffer b t) = t_alt_saved t"
  "t_use_alt (set_buffer b t) = t_use_alt t" "t_sequence (set_buffer b t) = t_sequence t"
  "t_state (set_buffer b t) = t_state t" "t_width ops (set_buffer b t) = t_width ops t"
  "t_height ops (set_buffer b t) = t_height ops t" "get_buffer (set_buffer b t) = b"
  "t_last_char (set_buffer b t) = t_last_char t"
  by (simp_all add: set_buffer_def get_buffer_def t_width_def t_height_def)

lemma set_buffer_idem [simp]: "set_buffer b (set_buffer b' t) = set_buffer b t"
  by (simp add: set_buffer_def)

lemma term_ok_buffer: "term_ok ops ci t \<Longrightarrow> length (get_buffer t) = unat (t_width ops t) * unat (t_height ops t)"
  by (simp add: term_ok_def get_buffer_def)

lemma set_buffer_safe:
  assumes "term_ok ops ci t" "length b = length (get_buffer t)"
  shows "safe ops ci (Inr (set_buffer b t)) t"
  using assms by (auto simp: term_ok_def same_rest_def get_buffer_def set_buffer_def cursor_ok_def t_width_def t_height_def)

lemma buffer_put_safe: "term_ok ops ci t \<Longrightarrow> i < length (get_buffer t) \<Longrightarrow> safe ops ci (buffer_put i x t) t"
  unfolding buffer_put_def by (simp only: if_True) (rule set_buffer_safe, simp_all)

lemma buffer_fill_safe:
  assumes "term_ok ops ci t" "\<forall>i\<in>set is. i < unat (t_width ops t) * unat (t_height ops t)"
  shows "safe ops ci (buffer_fill is t) t"
  unfolding buffer_fill_def using assms
  by (intro safe_fold buffer_put_safe) (auto simp: term_ok_buffer same_rest_def)

text \<open>Filling a range.\<close>

lemma buffer_fill_range:
  assumes "j \<le> length (get_buffer t)" "i \<le> j"
  shows "buffer_fill [i..<j] t = Inr (set_buffer (take i (get_buffer t) @ replicate (j - i) default_cell @ drop j (get_buffer t)) t)"
  using assms(2,1)
proof (induction j rule: dec_induct)
  case base
  then show ?case by (simp add: buffer_fill_def set_buffer_def get_buffer_def)
next
  case (step j)
  let ?b = "get_buffer t"
  have "buffer_fill [i..<Suc j] t = kbind (buffer_fill [i..<j] t) (buffer_put j default_cell)"
    using step.hyps by (simp add: buffer_fill_def kfold_append kfold_single)
  moreover have "(take i ?b @ replicate (j - i) default_cell @ drop j ?b)[j := default_cell] =
      take i ?b @ replicate (Suc j - i) default_cell @ drop (Suc j) ?b"
    using step.prems step.hyps
    by (simp add: list_update_append Suc_diff_le replicate_append_same [symmetric] Cons_nth_drop_Suc [symmetric])
  ultimately show ?case using step by (simp add: buffer_put_def)
qed

lemma buffer_move_safe:
  assumes "term_ok ops ci t" "to + unat bytes div 12 \<le> length (get_buffer t)" "from + unat bytes div 12 \<le> length (get_buffer t)"
  shows "safe ops ci (buffer_move to from bytes t) t"
  using assms(2,3) set_buffer_safe [OF assms(1)] by (simp add: buffer_move_def sizeof_cell_t_def Let_def)

lemma last_char_safe: "term_ok ops ci t \<Longrightarrow> safe ops ci (Inr (t\<lparr>t_last_char := ch\<rparr>)) t"
  by (simp add: term_ok_def same_rest_def cursor_ok_def t_width_def t_height_def)

text \<open>The sizes that the code computes do not wrap around.\<close>

lemma screen_sizes:
  assumes "12 * (unat w * unat h) < 2 ^ 32" "0 < w" "0 < (h :: u32)"
  shows "unat (w * h) = unat w * unat h" "unat (w * (h - 1)) = unat w * (unat h - 1)"
    and "unat (w * (h - 1) * sizeof_cell_t) div 12 = unat w * (unat h - 1)"
    and "unat w + unat w * (unat h - 1) = unat w * unat h"
proof -
  have h: "unat (h - 1) = unat h - 1" "0 < unat h" using assms(3) by (simp add: unat_pred, simp add: word_less_nat_alt)
  show sum: "unat w + unat w * (unat h - 1) = unat w * unat h"
    using h(2) by (cases "unat h") simp_all
  have lt: "unat w * unat h < 2 ^ 32" using assms(1) by linarith
  then show "unat (w * h) = unat w * unat h" by (intro unat_mult_small) simp
  show p: "unat (w * (h - 1)) = unat w * (unat h - 1)"
    using lt sum h(1) by (subst unat_mult_small) simp_all
  have "unat (w * (h - 1)) * 12 < 2 ^ 32" unfolding p using sum assms(1) by linarith
  then have "unat (w * (h - 1) * 12) = unat (w * (h - 1)) * 12" by (subst unat_mult_small) simp_all
  then show "unat (w * (h - 1) * sizeof_cell_t) div 12 = unat w * (unat h - 1)" using p by (simp add: sizeof_cell_t_def)
qed

section \<open>Operations on the screen\<close>

text \<open>An operation of the console, as the terminal sees it.\<close>

definition console_step :: "'c console_ops \<Rightarrow> ('c \<Rightarrow> bool) \<Rightarrow> 'c \<Rightarrow> 'c kres \<Rightarrow> bool" where
  "console_step ops ci c r = (\<exists>c'. r = Inr c' \<and> ci c' \<and> co_width ops c' = co_width ops c \<and> co_height ops c' = co_height ops c)"

lemma on_console_safe:
  assumes "term_ok ops ci t" "console_step ops ci (t_console t) (f (t_console t))"
  shows "safe ops ci (on_console f t) t"
  using assms by (auto simp: console_step_def on_console_def safe_def term_ok_def same_rest_def cursor_ok_def t_width_def t_height_def)

context console
begin

lemma size_pos: "term_ok ops inv t \<Longrightarrow> 0 < t_width ops t \<and> 0 < t_height ops t"
  using size_law by (simp add: term_ok_def t_width_def t_height_def)

lemma sizes:
  assumes "term_ok ops inv t"
  defines "W \<equiv> unat (t_width ops t)" and "H \<equiv> unat (t_height ops t)"
  shows "unat (t_width ops t * t_height ops t) = W * H" "unat (t_width ops t * (t_height ops t - 1)) = W * (H - 1)"
    and "unat (t_width ops t * (t_height ops t - 1) * sizeof_cell_t) div 12 = W * (H - 1)" "W + W * (H - 1) = W * H"
  using assms(1) size_pos [OF assms(1)] screen_sizes [of "t_width ops t" "t_height ops t"]
  unfolding W_def H_def term_ok_def by blast+

lemma set_cursor_safe:
  assumes "term_ok ops inv t" "row < t_height ops t" "column < t_width ops t"
  shows "safe ops inv (set_cursor ops row column t) t"
proof -
  let ?t = "t\<lparr>t_cursor := (t_cursor t)\<lparr>cur_row := row, cur_column := column\<rparr>\<rparr>"
  have ok: "term_ok ops inv ?t" "same_rest ops t ?t"
    using assms by (simp_all add: term_ok_def same_rest_def cursor_ok_def t_width_def t_height_def)
  have "console_step ops inv (t_console ?t) (co_set_cursor ops (t_console ?t) row column)"
    using assms set_cursor_law [of "t_console t" row column]
    by (simp add: console_step_def term_ok_def t_width_def t_height_def)
  from on_console_safe [where f = "\<lambda>c. co_set_cursor ops c row column", OF ok(1) this]
  show ?thesis using safe_cong [OF _ ok(2)] by (simp add: set_cursor_def)
qed

lemma cursor_in: "term_ok ops inv t \<Longrightarrow> cur_row (t_cursor t) < t_height ops t \<and> cur_column (t_cursor t) < t_width ops t"
  by (simp add: term_ok_def cursor_ok_def)

lemma scroll_up_safe:
  assumes "term_ok ops inv t"
  shows "safe ops inv (scroll_up ops t) t"
  unfolding scroll_up_def
proof (intro safe_bind)
  show "safe ops inv (on_console (co_scroll_up ops) t) t"
    using assms scroll_up_law by (intro on_console_safe) (simp_all add: console_step_def term_ok_def)
next
  fix t1 assume t1: "term_ok ops inv t1"
  show "safe ops inv (on_console (\<lambda>c. co_clear ops c (co_height ops c - 1) 0 (co_height ops c - 1) (co_width ops c - 1)) t1) t1"
    using t1 clear_row_law size_law by (intro on_console_safe) (simp_all add: console_step_def term_ok_def word_pred_less)
next
  fix t1 t2 assume t2: "term_ok ops inv t2"
  note s = sizes [OF t2] term_ok_buffer [OF t2]
  show "safe ops inv (let w = t_width ops t2; h = t_height ops t2
      in kbind (buffer_move 0 (unat w) (w * (h - 1) * sizeof_cell_t) t2) (buffer_fill [unat (w * (h - 1))..<unat (w * h)])) t2"
    unfolding Let_def
  proof (rule safe_bind)
    show "safe ops inv (buffer_move 0 (unat (t_width ops t2)) (t_width ops t2 * (t_height ops t2 - 1) * sizeof_cell_t) t2) t2"
      using s by (intro buffer_move_safe [OF t2]) simp_all
  qed (use s in \<open>auto intro!: buffer_fill_safe simp: same_rest_def\<close>)
qed

lemma scroll_down_safe:
  assumes "term_ok ops inv t"
  shows "safe ops inv (scroll_down ops t) t"
  unfolding scroll_down_def
proof (intro safe_bind)
  show "safe ops inv (on_console (co_scroll_down ops) t) t"
    using assms scroll_down_law by (intro on_console_safe) (simp_all add: console_step_def term_ok_def)
next
  fix t1 assume t1: "term_ok ops inv t1"
  show "safe ops inv (on_console (\<lambda>c. co_clear ops c 0 0 0 (co_width ops c - 1)) t1) t1"
    using t1 clear_row_law size_law by (intro on_console_safe) (simp_all add: console_step_def term_ok_def word_pred_less)
next
  fix t1 t2 assume t2: "term_ok ops inv t2"
  note s = sizes [OF t2] term_ok_buffer [OF t2]
  show "safe ops inv (let w = t_width ops t2; h = t_height ops t2
      in kbind (buffer_move (unat w) 0 (w * (h - 1) * sizeof_cell_t) t2) (buffer_fill [0..<unat w])) t2"
    unfolding Let_def
  proof (rule safe_bind)
    show "safe ops inv (buffer_move (unat (t_width ops t2)) 0 (t_width ops t2 * (t_height ops t2 - 1) * sizeof_cell_t) t2) t2"
      using s by (intro buffer_move_safe [OF t2]) simp_all
  qed (use s in \<open>auto intro!: buffer_fill_safe simp: same_rest_def\<close>)
qed

lemma CR_safe: "term_ok ops inv t \<Longrightarrow> safe ops inv (CR ops t) t"
  unfolding CR_def set_cursor_column_def using cursor_in size_pos by (intro set_cursor_safe) auto

lemma LF_safe: "term_ok ops inv t \<Longrightarrow> safe ops inv (LF ops t) t"
  unfolding LF_def set_cursor_row_def using cursor_in scroll_up_safe size_pos
  by (auto intro!: set_cursor_safe word_succ_less)

lemma BS_safe: "term_ok ops inv t \<Longrightarrow> safe ops inv (BS ops t) t"
  unfolding BS_def set_cursor_column_def using cursor_in [of t] word_pred_less [of "cur_column (t_cursor t)"]
  by (auto intro!: set_cursor_safe intro: order_less_trans)

lemma RI_safe: "term_ok ops inv t \<Longrightarrow> safe ops inv (RI ops t) t"
  unfolding RI_def set_cursor_row_def
  using cursor_in [of t] word_pred_less [of "cur_row (t_cursor t)"] scroll_down_safe
  by (auto intro!: set_cursor_safe intro: order_less_trans simp: word_neq_0_conv)

lemma advance_safe: "term_ok ops inv t \<Longrightarrow> safe ops inv (advance ops t) t"
  unfolding advance_def set_cursor_column_def using cursor_in [of t] size_pos [of t]
  by (auto intro!: set_cursor_safe word_succ_less safe_bind CR_safe LF_safe)

lemma screen_index:
  assumes "term_ok ops inv t" "row < t_height ops t" "column < t_width ops t"
  shows "unat (row * t_width ops t + column) = unat row * unat (t_width ops t) + unat column"
    and "unat (row * t_width ops t + column) < unat (t_width ops t) * unat (t_height ops t)"
proof -
  have "unat (t_width ops t) * unat (t_height ops t) < 2 ^ 32" using assms(1) unfolding term_ok_def by linarith
  note g = grid_index [OF assms(2,3) this]
  show "unat (row * t_width ops t + column) = unat row * unat (t_width ops t) + unat column" by (rule g(1))
  then show "unat (row * t_width ops t + column) < unat (t_width ops t) * unat (t_height ops t)" using g(2) by simp
qed

lemma write_at_cursor_safe:
  assumes "term_ok ops inv t"
  shows "safe ops inv (write_at_cursor ops ch t) t"
  unfolding write_at_cursor_def term_write_char_def
proof (intro safe_bind)
  let ?r = "cur_row (t_cursor t)" and ?k = "cur_column (t_cursor t)"
  show "safe ops inv (on_console (\<lambda>c. co_write_char ops c ?r ?k ch) t) t"
    using assms write_char_law cursor_in [OF assms]
    by (intro on_console_safe) (simp_all add: console_step_def term_ok_def t_width_def t_height_def)
  fix t1 assume t1: "term_ok ops inv t1" "same_rest ops t t1"
  show "safe ops inv (buffer_put (unat (?r * t_width ops t1 + ?k))
      \<lparr>cl_ch = ch, cl_fg = cur_fg (t_cursor t1), cl_bg = cur_bg (t_cursor t1)\<rparr> t1) t1"
    using cursor_in [OF assms] screen_index(2) [OF t1(1), of ?r ?k] t1 term_ok_buffer [OF t1(1)]
    by (intro buffer_put_safe) (simp_all add: same_rest_def)
next
  fix t1 t2 assume t2: "term_ok ops inv t2"
  then have "safe ops inv (Inr (t2\<lparr>t_last_char := ch\<rparr>)) t2" by (rule last_char_safe)
  then show "safe ops inv (advance ops (t2\<lparr>t_last_char := ch\<rparr>)) t2"
    using advance_safe [of "t2\<lparr>t_last_char := ch\<rparr>"] safe_cong by auto
qed

lemma DECRC_safe: "term_ok ops inv t \<Longrightarrow> safe ops inv (DECRC ops t) t"
  unfolding DECRC_def Let_def by (intro set_cursor_safe) (auto simp: term_ok_def cursor_ok_def)

lemma CUU_safe: "term_ok ops inv t \<Longrightarrow> safe ops inv (CUU ops n t) t"
  unfolding CUU_def using cursor_in [of t] by (intro set_cursor_safe) (auto simp: kmin_def intro: order_le_less_trans)

lemma CHA_safe: "term_ok ops inv t \<Longrightarrow> safe ops inv (CHA ops n t) t"
  unfolding CHA_def Let_def using cursor_in [of t] size_pos [of t] word_pred_less [of "t_width ops t"]
  by (intro set_cursor_safe) (auto simp: kmin_def intro: order_le_less_trans)

lemma clear_all_safe:
  assumes "term_ok ops inv t"
  shows "safe ops inv (term_clear ops 0 0 (t_height ops t - 1) (t_width ops t - 1) t) t"
  unfolding term_clear_def Let_def
proof (rule safe_bind)
  have "unat ((t_height ops t - 1) * t_width ops t + (t_width ops t - 1)) < unat (t_width ops t) * unat (t_height ops t)"
    using size_pos [OF assms] by (intro screen_index(2) [OF assms]) (simp_all add: word_pred_less)
  then show "safe ops inv (buffer_fill [unat (0 * t_width ops t + 0)..<Suc (unat ((t_height ops t - 1) * t_width ops t + (t_width ops t - 1)))] t) t"
    using assms by (intro buffer_fill_safe) auto
  fix t1 assume t1: "term_ok ops inv t1" "same_rest ops t t1"
  then show "safe ops inv (on_console (\<lambda>c. co_clear ops c 0 0 (t_height ops t - 1) (t_width ops t - 1)) t1) t1"
    using clear_screen_law [of "t_console t1"]
    by (intro on_console_safe) (simp_all add: console_step_def term_ok_def same_rest_def t_width_def t_height_def)
qed

lemma ED_safe: "term_ok ops inv t \<Longrightarrow> safe ops inv (ED ops n t) t"
  unfolding ED_def using clear_all_safe by simp

lemma EL_safe:
  assumes "term_ok ops inv t"
  shows "safe ops inv (EL ops n t) t"
proof -
  let ?r = "cur_row (t_cursor t)" and ?w = "t_width ops t"
  have "safe ops inv (kbind (on_console (\<lambda>c. co_clear ops c ?r from ?r to) t) (\<lambda>t.
      buffer_fill [unat (t_width ops t * ?r + from)..<Suc (unat (t_width ops t * ?r + to))] t)) t"
    if "to < ?w" for "from" to
  proof (rule safe_bind)
    show "safe ops inv (on_console (\<lambda>c. co_clear ops c ?r from ?r to) t) t"
      using assms clear_row_law cursor_in [OF assms] that
      by (intro on_console_safe) (simp_all add: console_step_def term_ok_def t_width_def t_height_def)
    fix t1 assume t1: "term_ok ops inv t1" "same_rest ops t t1"
    have "unat (?r * ?w + to) < unat ?w * unat (t_height ops t)"
      using cursor_in [OF assms] that by (intro screen_index(2) [OF assms]) simp_all
    then show "safe ops inv (buffer_fill [unat (t_width ops t1 * ?r + from)..<Suc (unat (t_width ops t1 * ?r + to))] t1) t1"
      using t1 by (intro buffer_fill_safe) (auto simp: same_rest_def mult.commute)
  qed
  then show ?thesis
    unfolding EL_def Let_def using cursor_in [OF assms] size_pos [OF assms] assms by (simp add: word_pred_less)
qed

lemma SU_safe: "term_ok ops inv t \<Longrightarrow> safe ops inv (SU ops n t) t"
  unfolding SU_def by (intro safe_fold scroll_up_safe)

lemma SD_safe: "term_ok ops inv t \<Longrightarrow> safe ops inv (SD ops n t) t"
  unfolding SD_def by (intro safe_fold scroll_down_safe)

lemma REP_safe: "term_ok ops inv t \<Longrightarrow> safe ops inv (REP ops n t) t"
  unfolding REP_def by (intro safe_fold write_at_cursor_safe)

lemma sgr_fg_safe:
  assumes "term_ok ops inv t" "color < 16"
  shows "safe ops inv (sgr_fg ops color t) t"
proof -
  obtain rgba where rgba: "ANSIColorToRGBA color = Inr rgba" using color_ok [OF assms(2)] by blast
  let ?t = "t\<lparr>t_cursor := (t_cursor t)\<lparr>cur_fg := rgba\<rparr>\<rparr>"
  have ok: "term_ok ops inv ?t" "same_rest ops t ?t"
    using assms(1) by (simp_all add: term_ok_def same_rest_def cursor_ok_def t_width_def t_height_def)
  have "safe ops inv (on_console (\<lambda>c. co_set_fg ops c color) ?t) ?t"
    using ok(1) set_fg_law [OF _ assms(2)] by (intro on_console_safe) (simp_all add: console_step_def term_ok_def)
  then show ?thesis using safe_cong [OF _ ok(2)] rgba by (simp add: sgr_fg_def)
qed

lemma sgr_bg_safe:
  assumes "term_ok ops inv t" "color < 16"
  shows "safe ops inv (sgr_bg ops color t) t"
proof -
  obtain rgba where rgba: "ANSIColorToRGBA color = Inr rgba" using color_ok [OF assms(2)] by blast
  let ?t = "t\<lparr>t_cursor := (t_cursor t)\<lparr>cur_bg := rgba\<rparr>\<rparr>"
  have ok: "term_ok ops inv ?t" "same_rest ops t ?t"
    using assms(1) by (simp_all add: term_ok_def same_rest_def cursor_ok_def t_width_def t_height_def)
  have "safe ops inv (on_console (\<lambda>c. co_set_bg ops c color) ?t) ?t"
    using ok(1) set_bg_law [OF _ assms(2)] by (intro on_console_safe) (simp_all add: console_step_def term_ok_def)
  then show ?thesis using safe_cong [OF _ ok(2)] rgba by (simp add: sgr_bg_def)
qed

end

section \<open>Escape sequences\<close>

text \<open>An operation that may switch the screen.\<close>

definition okay :: "'c console_ops \<Rightarrow> ('c \<Rightarrow> bool) \<Rightarrow> 'c terminal kres \<Rightarrow> 'c terminal \<Rightarrow> bool" where
  "okay ops ci r t = (\<exists>t'. r = Inr t' \<and> term_ok ops ci t' \<and> t_sequence t' = t_sequence t \<and> t_state t' = t_state t)"

lemma safe_okay: "safe ops ci r t \<Longrightarrow> okay ops ci r t"
  by (auto simp: safe_def okay_def same_rest_def)

lemma okay_cong: "okay ops ci r u \<Longrightarrow> t_sequence u = t_sequence t \<Longrightarrow> t_state u = t_state t \<Longrightarrow> okay ops ci r t"
  by (simp add: okay_def)

lemma okay_bind:
  assumes "okay ops ci r t" and "\<And>t'. term_ok ops ci t' \<Longrightarrow> okay ops ci (f t') t'"
  shows "okay ops ci (kbind r f) t"
  using assms unfolding okay_def by force

lemma string_bytes_rel:
  assumes "str_rel s cs" "cs \<noteq> []"
  shows "string_bytes s = Inr (cs @ [0])"
proof -
  have "vec_rel s (cs @ [0])" using assms by (auto simp: str_rel_def)
  then show ?thesis using vector_read_all [of s "cs @ [0]" "Suc (length cs)"] by (simp add: string_bytes_def vec_rel_def)
qed

lemma zero_no_digit: "int_of_char 0 <s 48"
  by code_simp

text \<open>On a terminated array \<open>strtol_at\<close> is the \<open>strtol\<close> of the C library on the memory that holds it.\<close>

lemma strtol_at_memory:
  assumes "bytes_at m str cs" "cs \<noteq> []" "last cs = 0"
  shows "strtol_digits m str 10 num =
    Some (fst (strtol_at cs num), str + of_nat (length cs - length (snd (strtol_at cs num))))"
  using assms
proof (induction cs num arbitrary: str rule: strtol_at.induct)
  case (2 c cs num)
  show ?case
  proof (cases "int_of_char c <s 48 \<or> 48 + 10 \<le>s int_of_char c")
    case True
    then show ?thesis using 2(2) by (subst strtol_digits.simps) auto
  next
    case False
    then have ne: "cs \<noteq> []" "last cs = 0" using 2(4) zero_no_digit by (auto split: if_splits)
    have "strtol_digits m str 10 num = strtol_digits m (str + 1) 10 (num * 10 + ucast (c - 48))"
      using False 2(2) by (subst strtol_digits.simps) auto
    then show ?thesis
      using 2(1) [OF False, of "str + 1"] 2(2) ne False strtol_at_length [of cs "num * 10 + ucast (c - 48)"]
      by (simp add: Suc_diff_le add.assoc)
  qed
qed simp

text \<open>The loop over the arguments stops at the terminator at the latest.\<close>

lemma strtol_at_last: "cs \<noteq> [] \<Longrightarrow> last cs = 0 \<Longrightarrow>
    (let rest = snd (strtol_at cs num) in rest \<noteq> [] \<and> last rest = 0)"
  by (induction cs num rule: strtol_at.induct) (auto simp: Let_def zero_no_digit split: if_splits)

lemma parse_args_total: "cs \<noteq> [] \<Longrightarrow> last cs = 0 \<Longrightarrow> \<exists>args'. parse_args cs args = Inr args'"
proof (induction cs args rule: parse_args.induct)
  case (2 c cs args)
  show ?case
  proof (cases "isdigit (int_of_char c) \<noteq> 0 \<or> c = 59")
    case True
    obtain arg rest where st: "strtol_at (c # cs) 0 = (arg, rest)" by (cases "strtol_at (c # cs) 0")
    then have r: "rest \<noteq> []" "last rest = 0" using strtol_at_last [of "c # cs" 0] 2(2,3) by auto
    then obtain r rs where rr: "rest = r # rs" by (cases rest) auto
    then have "(if r = 59 then rs else r # rs) \<noteq> []" "last (if r = 59 then rs else r # rs) = 0"
      using r by (auto split: if_splits)
    from 2(1) [OF True st [symmetric] refl rr this] show ?thesis using True st rr by simp
  qed simp
qed simp

lemma parse_csi_total:
  assumes "str_rel (t_sequence t) cs" "3 \<le> length cs"
  shows "\<exists>args. parse_csi_arguments t = Inr args"
proof -
  obtain c0 c1 c2 cs' where cs: "cs = c0 # c1 # c2 # cs'" using assms(2) by (auto simp: numeral_3_eq_3 Suc_le_length_iff)
  have "string_bytes (t_sequence t) = Inr (cs @ [0])" using string_bytes_rel [OF assms(1)] cs by simp
  moreover have "\<exists>args. parse_args (if c2 = 63 then cs' @ [0] else c2 # cs' @ [0]) [] = Inr args"
    by (rule parse_args_total) auto
  ultimately show ?thesis using cs by (simp add: parse_csi_arguments_def)
qed

lemma reset_sequence_inv:
  assumes "term_ok ops ci t" "str_rel (t_sequence t) cs"
  shows "\<exists>t'. reset_sequence t = Inr t' \<and> term_inv ops ci 0 t' \<and>
    (\<exists>s. t' = t\<lparr>t_sequence := s, t_state := SeqNone\<rparr> \<and> str_rel s [])"
proof -
  obtain s where "string_assign (t_sequence t) [] = Inr s" "str_rel s []"
    using string_assign_rel [OF assms(2), of "[]"] by auto
  then show ?thesis
    using assms(1) by (auto simp: reset_sequence_def term_inv_def term_ok_def seq_ok_def cursor_ok_def t_width_def t_height_def)
qed

lemma push_sequence_rel:
  assumes "str_rel (t_sequence t) cs" "length cs < 2 ^ 31 - 1"
  shows "\<exists>s. push_sequence ch t = Inr (t\<lparr>t_sequence := s\<rparr>) \<and> str_rel s (cs @ [ch])"
  using string_push_back_rel [OF assms, of ch] by (auto simp: push_sequence_def)

lemma seq_update_ok [simp]:
  "term_ok ops ci (t\<lparr>t_sequence := s\<rparr>) = term_ok ops ci t" "term_ok ops ci (t\<lparr>t_state := st\<rparr>) = term_ok ops ci t"
  "term_ok ops ci (t\<lparr>t_csi := cst\<rparr>) = term_ok ops ci t" "t_width ops (t\<lparr>t_csi := cst\<rparr>) = t_width ops t"
  by (simp_all add: term_ok_def cursor_ok_def t_width_def t_height_def)

lemma term_inv_mono: "term_inv ops ci n t \<Longrightarrow> n \<le> m \<Longrightarrow> term_inv ops ci m t"
  unfolding term_inv_def seq_ok_def using order_trans by blast

lemma okay_inv: "okay ops ci r t \<Longrightarrow> seq_ok n t \<Longrightarrow> \<exists>t'. r = Inr t' \<and> term_inv ops ci n t'"
  by (fastforce simp: okay_def term_inv_def seq_ok_def)

lemma okay_reset:
  assumes "okay ops ci r t" "str_rel (t_sequence t) cs"
  shows "\<exists>t'. kbind r reset_sequence = Inr t' \<and> term_inv ops ci 0 t'"
proof -
  obtain t1 where t1: "r = Inr t1" "term_ok ops ci t1" "t_sequence t1 = t_sequence t" using assms(1) by (auto simp: okay_def)
  then show ?thesis using reset_sequence_inv [OF t1(2), of cs] assms(2) by auto
qed

context console
begin

lemma switch_buffer_okay:
  assumes "term_ok ops inv t"
  shows "okay ops inv (switch_buffer ops alternate clear t) t"
proof (cases "t_use_alt t = alternate")
  case False
  let ?t = "t\<lparr>t_use_alt := alternate\<rparr>"
  have ok: "term_ok ops inv ?t" using assms by (simp add: term_ok_def cursor_ok_def t_width_def t_height_def)
  have "safe ops inv (on_console (\<lambda>c. co_write_region ops c 0 0 (co_height ops c - 1) (co_width ops c - 1) (get_buffer ?t)) ?t) ?t"
    using ok write_screen_law [of "t_console ?t" "get_buffer ?t"] term_ok_buffer [OF ok]
    by (intro on_console_safe) (simp_all add: console_step_def term_ok_def t_width_def t_height_def)
  moreover have "safe ops inv (term_clear ops 0 0 (t_height ops ?t - 1) (t_width ops ?t - 1) ?t) ?t"
    by (rule clear_all_safe [OF ok])
  ultimately have "okay ops inv (switch_buffer ops alternate clear t) ?t"
    using False by (auto simp: switch_buffer_def Let_def intro: safe_okay)
  then show ?thesis by (rule okay_cong) simp_all
qed (use assms in \<open>simp add: switch_buffer_def okay_def\<close>)

lemma DECSET_okay:
  assumes "term_ok ops inv t"
  shows "okay ops inv (DECSET ops mode t) t"
proof (cases "mode = 1049")
  case True
  have "term_ok ops inv (t\<lparr>t_saved := t_cursor t\<rparr>)"
    using assms by (simp add: term_ok_def cursor_ok_def t_width_def t_height_def)
  from okay_cong [OF switch_buffer_okay [OF this]] show ?thesis using True by (simp add: DECSET_def)
qed (use assms in \<open>simp add: DECSET_def okay_def\<close>)

lemma DECRST_okay:
  assumes "term_ok ops inv t"
  shows "okay ops inv (DECRST ops mode t) t"
proof (cases "mode = 1049")
  case True
  have "okay ops inv (set_cursor ops (cur_row (t_saved t')) (cur_column (t_saved t')) t') t'" if "term_ok ops inv t'" for t'
    using that by (intro safe_okay set_cursor_safe) (simp_all add: term_ok_def cursor_ok_def)
  then show ?thesis
    using True okay_bind [OF switch_buffer_okay [OF assms]] by (simp add: DECRST_def)
qed (use assms in \<open>simp add: DECRST_def okay_def\<close>)

lemma csi_dispatch_okay:
  assumes "term_ok ops inv t" "ch \<noteq> 72" "ch \<noteq> 100" "ch \<noteq> 109"
  shows "okay ops inv (csi_dispatch ops ch private args t) t"
  unfolding csi_dispatch_def Let_def
  using assms CUU_safe CHA_safe ED_safe EL_safe SU_safe SD_safe REP_safe DECSET_okay DECRST_okay
  by (simp add: safe_okay)

lemma read_csi_inv:
  assumes "term_ok ops inv t" "str_rel (t_sequence t) cs" "3 \<le> length cs" "t_state t = CSISequence"
    and "ch \<noteq> 72" "ch \<noteq> 100" "ch \<noteq> 109"
  shows "\<exists>t'. read_csi_sequence ops ch t = Inr t' \<and> term_inv ops inv (length cs) t'"
proof -
  have keep: "term_inv ops inv (length cs) (t\<lparr>t_csi := cst\<rparr>)" for cst
    using assms by (auto simp: term_inv_def seq_ok_def)
  have keep': "term_inv ops inv (length cs) t" using assms by (auto simp: term_inv_def seq_ok_def)
  have fin: "\<exists>t'. kbind (parse_csi_arguments u) (\<lambda>args. kbind (string_at (t_sequence u) 2) (\<lambda>c2.
      kbind (csi_dispatch ops ch (c2 = 63) args u) reset_sequence)) = Inr t' \<and> term_inv ops inv (length cs) t'"
    if u: "term_ok ops inv u" "t_sequence u = t_sequence t" for u
  proof -
    obtain args where "parse_csi_arguments u = Inr args" using parse_csi_total [of u cs] u(2) assms(2,3) by auto
    moreover have "string_at (t_sequence u) 2 = Inr (cs ! 2)" using string_at_rel [OF assms(2), of 2] u(2) assms(3) by simp
    moreover obtain t' where "kbind (csi_dispatch ops ch (cs ! 2 = 63) args u) reset_sequence = Inr t'" "term_inv ops inv 0 t'"
      using okay_reset [OF csi_dispatch_okay [OF u(1) assms(5-7)], of cs] u(2) assms(2) by auto
    ultimately show ?thesis using term_inv_mono [of ops inv 0 t'] by auto
  qed
  show ?thesis
    unfolding read_csi_sequence_def Let_def
    using keep keep' fin [of t] fin [of "t\<lparr>t_csi := CSISequenceFinal\<rparr>"] assms(1) by simp
qed

lemma read_fe_inv:
  assumes "term_ok ops inv t" "str_rel (t_sequence t) cs" "2 \<le> length cs" "t_state t = FeSequence"
  shows "\<exists>t'. read_fe_sequence ops ch t = Inr t' \<and> term_inv ops inv (length cs) t'"
proof (cases "ch = 91")
  case True
  have "term_inv ops inv (length cs) (CSI t)" using assms by (auto simp: CSI_def term_inv_def seq_ok_def)
  then show ?thesis using True by (simp add: read_fe_sequence_def)
next
  case False
  have "term_ok ops inv (DECSC t)" using assms(1) by (simp add: DECSC_def term_ok_def cursor_ok_def t_width_def t_height_def)
  then have "okay ops inv (Inr (DECSC t)) t" by (simp add: okay_def DECSC_def)
  moreover have "okay ops inv (Inr t) t" using assms(1) by (simp add: okay_def)
  ultimately have "okay ops inv (if ch = 77 then RI ops t else if ch = 55 then Inr (DECSC t)
      else if ch = 56 then DECRC ops t else Inr t) t"
    using safe_okay [OF RI_safe [OF assms(1)]] safe_okay [OF DECRC_safe [OF assms(1)]] by simp
  from okay_reset [OF this assms(2)] obtain t' where
    "kbind (if ch = 77 then RI ops t else if ch = 55 then Inr (DECSC t)
      else if ch = 56 then DECRC ops t else Inr t) reset_sequence = Inr t'" "term_inv ops inv 0 t'" by blast
  then show ?thesis using False term_inv_mono [of ops inv 0 t' "length cs"] by (auto simp: read_fe_sequence_def)
qed

text \<open>Characters that neither start nor continue a sequence.\<close>

lemma echo_text_safe:
  assumes "term_ok ops inv t" "t_state t = SeqNone" "ch \<noteq> 27"
  shows "safe ops inv (echo ops ch t) t"
  using assms BS_safe LF_safe CR_safe write_at_cursor_safe by (simp add: echo_def)

lemma echo_esc_inv:
  assumes "term_inv ops inv n t" "n < 2 ^ 31 - 1"
  shows "\<exists>t'. echo ops 27 t = Inr t' \<and> term_inv ops inv (Suc n) t'"
proof -
  obtain cs where cs: "str_rel (t_sequence t) cs" "length cs \<le> n" "term_ok ops inv t"
    using assms(1) by (auto simp: term_inv_def seq_ok_def)
  have "str_rel (t_sequence (ESC t)) cs" using cs(1) by (simp add: ESC_def)
  then obtain s where "push_sequence 27 (ESC t) = Inr (ESC t\<lparr>t_sequence := s\<rparr>)" "str_rel s (cs @ [27])"
    using push_sequence_rel [of "ESC t" cs 27] cs(2) assms(2) by auto
  moreover have "term_inv ops inv (Suc n) (ESC t\<lparr>t_sequence := s\<rparr>)"
    using calculation(2) cs(2,3) by (auto simp: term_inv_def seq_ok_def ESC_def)
  ultimately show ?thesis by (simp add: echo_def)
qed

text \<open>The control characters are executed also in the middle of a sequence.\<close>

lemma echo_control_inv:
  assumes "term_inv ops inv n t" "ch \<in> {7, 8, 9, 10, 12, 13}"
  shows "\<exists>t'. echo ops ch t = Inr t' \<and> term_inv ops inv n t'"
proof -
  have t: "term_ok ops inv t" "seq_ok n t" using assms(1) by (simp_all add: term_inv_def)
  have "safe ops inv (echo ops ch t) t" using assms(2) t(1) BS_safe LF_safe CR_safe by (auto simp: echo_def)
  from okay_inv [OF safe_okay [OF this] t(2)] show ?thesis .
qed

lemma echo_inv:
  assumes "term_inv ops inv n t" "n < 2 ^ 31 - 1" and ch: "t_state t = CSISequence \<longrightarrow> ch \<notin> {72, 100, 109}"
  shows "\<exists>t'. echo ops ch t = Inr t' \<and> term_inv ops inv (Suc n) t'"
proof -
  have mono: "\<exists>t'. r = Inr t' \<and> term_inv ops inv (Suc n) t'" if "\<exists>t'. r = Inr t' \<and> term_inv ops inv m t'" "m \<le> Suc n" for r :: "'c terminal kres" and m
    using that term_inv_mono by blast
  consider "ch = 27" | "ch \<in> {7, 8, 9, 10, 12, 13}" | "ch \<noteq> 27" "ch \<notin> {7, 8, 9, 10, 12, 13}" "t_state t = SeqNone"
    | "ch \<noteq> 27" "ch \<notin> {7, 8, 9, 10, 12, 13}" "t_state t \<noteq> SeqNone" by blast
  then show ?thesis
  proof cases
    case 1
    then show ?thesis using echo_esc_inv [OF assms(1,2)] by simp
  next
    case 2
    then show ?thesis using mono [OF echo_control_inv [OF assms(1)]] by simp
  next
    case 3
    have t: "term_ok ops inv t" "seq_ok n t" using assms(1) by (simp_all add: term_inv_def)
    from okay_inv [OF safe_okay [OF echo_text_safe [OF t(1) 3(3,1)]] t(2)] show ?thesis by (rule mono) simp
  next
    case 4
    obtain cs where cs: "str_rel (t_sequence t) cs" "length cs \<le> n" "term_ok ops inv t"
      "t_state t = FeSequence \<longrightarrow> cs \<noteq> []" "t_state t = CSISequence \<longrightarrow> 2 \<le> length cs" "t_state t \<noteq> OSCSequence"
      using assms(1) by (auto simp: term_inv_def seq_ok_def)
    obtain s where s: "push_sequence ch t = Inr (t\<lparr>t_sequence := s\<rparr>)" "str_rel s (cs @ [ch])"
      using push_sequence_rel [OF cs(1), of ch] cs(2) assms(2) by auto
    let ?t = "t\<lparr>t_sequence := s\<rparr>"
    have st: "t_state t = FeSequence \<or> t_state t = CSISequence" using 4(3) cs(6) by (cases "t_state t") simp_all
    have eq: "echo ops ch t = (if t_state t = CSISequence then read_csi_sequence ops ch ?t else read_fe_sequence ops ch ?t)"
      using 4 s(1) st by (auto simp: echo_def)
    have rel: "str_rel (t_sequence ?t) (cs @ [ch])" "term_ok ops inv ?t" using s(2) cs(3) by simp_all
    have len: "length (cs @ [ch]) \<le> Suc n" using cs(2) by simp
    show ?thesis
    proof (cases "t_state t = CSISequence")
      case True
      then show ?thesis unfolding eq using read_csi_inv [OF rel(2,1), of ch] cs(5) ch mono [OF _ len] by simp
    next
      case False
      then have fe: "t_state ?t = FeSequence" "cs \<noteq> []" using st cs(4) by simp_all
      then have "2 \<le> length (cs @ [ch])" by (cases cs) simp_all
      from mono [OF read_fe_inv [OF rel(2,1) this fe(1)] len] show ?thesis unfolding eq using False by simp
    qed
  qed
qed

end

section \<open>What the screen shows\<close>

text \<open>Printable characters and the cells they become.\<close>

definition printable :: "u8 \<Rightarrow> bool" where
  "printable ch = (32 \<le> ch \<and> ch < 127)"

definition shown :: "'c terminal \<Rightarrow> u8 \<Rightarrow> cell_t" where
  "shown t ch = \<lparr>cl_ch = ch, cl_fg = cur_fg (t_cursor t), cl_bg = cur_bg (t_cursor t)\<rparr>"

definition cursor_index :: "'c console_ops \<Rightarrow> 'c terminal \<Rightarrow> nat" where
  "cursor_index ops t = unat (cur_row (t_cursor t)) * unat (t_width ops t) + unat (cur_column (t_cursor t))"

text \<open>
  The terminal after a text of the current row: the cells from the cursor on are the characters in the
  cursor's colours, the cursor is behind the text, and nothing else is changed but the console. The
  console gets the characters one by one, each followed by the new position of the cursor.
\<close>

definition written :: "'c console_ops \<Rightarrow> 'c terminal \<Rightarrow> u8 list \<Rightarrow> 'c \<Rightarrow> 'c terminal" where
  "written ops t cs c =
     (set_buffer (take (cursor_index ops t) (get_buffer t) @ map (shown t) cs @ drop (cursor_index ops t + length cs) (get_buffer t)) t)
       \<lparr>t_console := c, t_last_char := last (t_last_char t # cs),
        t_cursor := (t_cursor t)\<lparr>cur_column := cur_column (t_cursor t) + of_nat (length cs)\<rparr>\<rparr>"

fun put_text :: "'c console_ops \<Rightarrow> u32 \<Rightarrow> u32 \<Rightarrow> u8 list \<Rightarrow> 'c \<Rightarrow> 'c kres" where
  "put_text ops row column [] c = Inr c"
| "put_text ops row column (ch # cs) c =
     kbind (co_write_char ops c row column ch) (\<lambda>c. kbind (co_set_cursor ops c row (column + 1)) (put_text ops row (column + 1) cs))"

lemma uint_of_char:
  assumes "uint ch < 128"
  shows "uint (int_of_char ch) = uint ch"
proof -
  have "sint (int_of_char ch) = uint ch" using assms by (simp add: sint_of_char)
  then have "uint (int_of_char ch) = take_bit 32 (uint ch)" by (simp add: uint_sint)
  also have "\<dots> = uint ch" using assms by (simp add: take_bit_int_eq_self)
  finally show ?thesis .
qed

lemma printable_uint: "printable ch \<Longrightarrow> 32 \<le> uint ch \<and> uint ch < 127"
  by (simp add: printable_def word_less_def word_le_def)

lemma printable_echo:
  assumes "printable ch" "t_state t = SeqNone"
  shows "echo ops ch t = write_at_cursor ops ch t"
proof -
  note ch = printable_uint [OF assms(1)]
  have "isascii (int_of_char ch)" using ch uint_of_char [of ch] by (simp add: isascii_def word_le_def)
  moreover have "ch \<notin> {7, 8, 9, 12, 10, 13, 27}" using ch by auto
  ultimately show ?thesis using assms(2) by (simp add: echo_def)
qed

context console
begin

lemma write_at_cursor_shows:
  assumes t: "term_ok ops inv t" and col: "cur_column (t_cursor t) < t_width ops t - 1"
  shows "\<exists>t'. write_at_cursor ops ch t = Inr t' \<and> term_ok ops inv t' \<and> same_rest ops t t' \<and>
    t' = written ops t [ch] (t_console t') \<and>
    put_text ops (cur_row (t_cursor t)) (cur_column (t_cursor t)) [ch] (t_console t) = Inr (t_console t')"
proof -
  let ?r = "cur_row (t_cursor t)" and ?k = "cur_column (t_cursor t)"
  have in_grid: "?r < t_height ops t" "?k < t_width ops t" "?k + 1 < t_width ops t"
    using cursor_in [OF t] size_pos [OF t] word_succ_less [OF _ col] by simp_all
  obtain c1 where c1: "co_write_char ops (t_console t) ?r ?k ch = Inr c1" "inv c1"
    "co_width ops c1 = t_width ops t" "co_height ops c1 = t_height ops t"
    using t write_char_law [of "t_console t" ?r ?k ch] in_grid by (auto simp: term_ok_def t_width_def t_height_def)
  obtain c2 where c2: "co_set_cursor ops c1 ?r (?k + 1) = Inr c2"
    "co_width ops c2 = t_width ops t" "co_height ops c2 = t_height ops t"
    using set_cursor_law [OF c1(2), of ?r "?k + 1"] in_grid c1 by auto
  have i: "unat (?r * t_width ops t + ?k) = cursor_index ops t" "cursor_index ops t < length (get_buffer t)"
    using screen_index [OF t in_grid(1,2)] term_ok_buffer [OF t] by (simp_all add: cursor_index_def)
  have "get_buffer (t\<lparr>t_console := c1\<rparr>) = get_buffer t" by (simp add: get_buffer_def)
  then have "write_at_cursor ops ch t = Inr ((set_buffer ((get_buffer t)[cursor_index ops t := shown t ch]) (t\<lparr>t_console := c1\<rparr>))
      \<lparr>t_last_char := ch, t_cursor := (t_cursor t)\<lparr>cur_column := ?k + 1\<rparr>, t_console := c2\<rparr>)"
    using c1 c2 i col
    by (simp add: write_at_cursor_def term_write_char_def on_console_def buffer_put_def advance_def set_cursor_column_def
        set_cursor_def t_width_def shown_def)
  also have "\<dots> = Inr (written ops t [ch] c2)"
    using i(2) by (simp add: written_def set_buffer_def upd_conv_take_nth_drop)
  finally have eq: "write_at_cursor ops ch t = Inr (written ops t [ch] c2)" .
  have con: "t_console (written ops t [ch] c2) = c2" by (simp add: written_def)
  have "safe ops inv (write_at_cursor ops ch t) t" by (rule write_at_cursor_safe [OF t])
  then show ?thesis using eq con c1(1) c2(1) by simp
qed

lemma written_Cons:
  assumes "cursor_index ops t < length (get_buffer t)" "unat (cur_column (t_cursor t) + 1) = unat (cur_column (t_cursor t)) + 1"
    and "t1 = written ops t [c] d" "t_width ops t1 = t_width ops t"
  shows "written ops t1 cs e = written ops t (c # cs) e"
proof -
  let ?i = "cursor_index ops t" and ?b = "get_buffer t"
  have t1: "t_cursor t1 = (t_cursor t)\<lparr>cur_column := cur_column (t_cursor t) + 1\<rparr>" "t_last_char t1 = c" "t_use_alt t1 = t_use_alt t"
    "get_buffer t1 = take ?i ?b @ [shown t c] @ drop (Suc ?i) ?b"
    by (simp_all add: assms(3) written_def set_buffer_def get_buffer_def)
  have i: "cursor_index ops t1 = Suc ?i" "shown t1 = shown t"
    using t1(1) assms(2,4) by (simp_all add: cursor_index_def shown_def fun_eq_iff)
  have "take (Suc ?i) (get_buffer t1) @ map (shown t) cs @ drop (Suc ?i + length cs) (get_buffer t1) =
      take ?i ?b @ map (shown t) (c # cs) @ drop (?i + length (c # cs)) ?b"
    unfolding t1(4) using assms(1) by (simp add: add.commute)
  then show ?thesis
    unfolding written_def i t1(1-3) by (simp add: assms(3) written_def set_buffer_def algebra_simps)
qed

lemma text_shows:
  assumes "term_ok ops inv t" "t_state t = SeqNone" "list_all printable cs"
    and "unat (cur_column (t_cursor t)) + length cs < unat (t_width ops t)"
  shows "\<exists>t'. kfold (echo ops) cs t = Inr t' \<and> term_ok ops inv t' \<and> t' = written ops t cs (t_console t') \<and>
    put_text ops (cur_row (t_cursor t)) (cur_column (t_cursor t)) cs (t_console t) = Inr (t_console t')"
  using assms
proof (induction cs arbitrary: t)
  case Nil
  then show ?case by (simp add: written_def set_buffer_def get_buffer_def)
next
  case (Cons c cs)
  let ?k = "cur_column (t_cursor t)" and ?r = "cur_row (t_cursor t)"
  have "unat (t_width ops t - 1) = unat (t_width ops t) - 1" using size_pos [OF Cons.prems(1)] by (simp add: unat_pred)
  then have col: "?k < t_width ops t - 1" using Cons.prems(4) by (simp add: word_less_nat_alt)
  obtain t1 where t1: "echo ops c t = Inr t1" "term_ok ops inv t1" "same_rest ops t t1"
    "t1 = written ops t [c] (t_console t1)" "put_text ops ?r ?k [c] (t_console t) = Inr (t_console t1)"
    using write_at_cursor_shows [OF Cons.prems(1) col, of c] printable_echo [of c t ops] Cons.prems(2,3) by auto
  have k1: "unat (?k + 1) = unat ?k + 1" using unat_Suc_less [OF col] by simp
  have w: "t_width ops t1 = t_width ops t" "t_state t1 = SeqNone" using t1(3) Cons.prems(2) by (simp_all add: same_rest_def)
  have cur: "t_cursor t1 = (t_cursor t)\<lparr>cur_column := ?k + 1\<rparr>" by (subst t1(4)) (simp add: written_def)
  have i: "cursor_index ops t < length (get_buffer t)"
    using screen_index [OF Cons.prems(1), of ?r ?k] cursor_in [OF Cons.prems(1)] term_ok_buffer [OF Cons.prems(1)]
    by (auto simp: cursor_index_def)
  obtain t2 where t2: "kfold (echo ops) cs t1 = Inr t2" "term_ok ops inv t2" "t2 = written ops t1 cs (t_console t2)"
    "put_text ops ?r (?k + 1) cs (t_console t1) = Inr (t_console t2)"
    using Cons.IH [OF t1(2) w(2)] Cons.prems(3,4) cur w(1) k1 by auto
  have "t2 = written ops t (c # cs) (t_console t2)"
    using t2(3) written_Cons [OF i k1 t1(4) w(1)] by simp
  moreover have "put_text ops ?r ?k (c # cs) (t_console t) = Inr (t_console t2)"
    using t1(5) t2(4) by (auto simp: kbind_Inr_iff)
  ultimately show ?case using t1(1) t2(1,2) by auto
qed

text \<open>Plain text on the current screen.\<close>

lemma plain_text_safe:
  assumes "term_ok ops inv t" "t_state t = SeqNone" "27 \<notin> set cs"
  shows "safe ops inv (kfold (echo ops) cs t) t"
  using assms by (intro safe_fold echo_text_safe) (auto simp: same_rest_def)

end

section \<open>A whole sequence\<close>

definition csi_param :: "u8 \<Rightarrow> bool" where
  "csi_param c = (0x30 \<le> c \<and> c < 0x40)"

lemma csi_param_char: "csi_param c \<Longrightarrow> c \<notin> {7, 8, 9, 12, 10, 13, 27}"
  by (auto simp: csi_param_def)

lemma csi_open:
  assumes "t_state t = SeqNone" "str_rel (t_sequence t) []"
  shows "\<exists>s. kfold (echo ops) [27, 91] t = Inr (t\<lparr>t_sequence := s, t_state := CSISequence, t_csi := CSISequenceParams\<rparr>) \<and>
    str_rel s [27, 91]"
proof -
  obtain s1 where s1: "string_push_back (t_sequence t) 27 = Inr s1" "str_rel s1 [27]"
    using string_push_back_rel [OF assms(2), of 27] by auto
  obtain s2 where s2: "string_push_back s1 91 = Inr s2" "str_rel s2 [27, 91]"
    using string_push_back_rel [OF s1(2), of 91] by auto
  show ?thesis
    using s1 s2 by (intro exI [of _ s2], cases t) (simp add: echo_def push_sequence_def ESC_def read_fe_sequence_def CSI_def)
qed

lemma csi_params:
  assumes "t_state t = CSISequence" "t_csi t = CSISequenceParams" "str_rel (t_sequence t) cs"
    and "list_all csi_param ps" "length cs + length ps < 2 ^ 31 - 1"
  shows "\<exists>s. kfold (echo ops) ps t = Inr (t\<lparr>t_sequence := s\<rparr>) \<and> str_rel s (cs @ ps)"
  using assms
proof (induction ps arbitrary: t cs)
  case Nil
  then show ?case by (intro exI [of _ "t_sequence t"]) simp
next
  case (Cons p ps)
  obtain s1 where s1: "push_sequence p t = Inr (t\<lparr>t_sequence := s1\<rparr>)" "str_rel s1 (cs @ [p])"
    using push_sequence_rel [OF Cons.prems(3), of p] Cons.prems(5) by auto
  let ?t = "t\<lparr>t_sequence := s1\<rparr>"
  have "echo ops p t = Inr ?t"
    using s1(1) Cons.prems csi_param_char [of p] by (simp add: echo_def read_csi_sequence_def csi_param_def)
  moreover obtain s2 where "kfold (echo ops) ps ?t = Inr (?t\<lparr>t_sequence := s2\<rparr>)" "str_rel s2 ((cs @ [p]) @ ps)"
    using Cons.IH [of ?t "cs @ [p]"] s1(2) Cons.prems by auto
  ultimately show ?case by (intro exI [of _ s2]) simp
qed

definition csi_args :: "u8 list \<Rightarrow> u32 list kres" where
  "csi_args ps = (if hd ps = 63 then parse_args (tl ps @ [0]) [] else parse_args (ps @ [0]) [])"

lemma csi_sequence:
  assumes "t_state t = SeqNone" "str_rel (t_sequence t) []"
    and "list_all csi_param ps" "length ps < 2 ^ 30" "0x40 \<le> ch" "csi_args (ps @ [ch]) = Inr args"
  shows "\<exists>s. kfold (echo ops) (27 # 91 # ps @ [ch]) t =
      kbind (csi_dispatch ops ch (hd (ps @ [ch]) = 63) args
        (t\<lparr>t_state := CSISequence, t_sequence := s, t_csi := CSISequenceFinal\<rparr>)) reset_sequence \<and>
    str_rel s (27 # 91 # ps @ [ch])"
proof -
  obtain s1 where s1: "kfold (echo ops) [27, 91] t = Inr (t\<lparr>t_sequence := s1, t_state := CSISequence, t_csi := CSISequenceParams\<rparr>)"
    "str_rel s1 [27, 91]" using csi_open [OF assms(1,2)] by blast
  let ?t1 = "t\<lparr>t_sequence := s1, t_state := CSISequence, t_csi := CSISequenceParams\<rparr>"
  obtain s2 where s2: "kfold (echo ops) ps ?t1 = Inr (?t1\<lparr>t_sequence := s2\<rparr>)" "str_rel s2 ([27, 91] @ ps)"
    using csi_params [of ?t1 "[27, 91]" ps ops] s1(2) assms(3,4) by auto
  let ?t2 = "?t1\<lparr>t_sequence := s2\<rparr>"
  obtain s3 where s3: "push_sequence ch ?t2 = Inr (?t2\<lparr>t_sequence := s3\<rparr>)" "str_rel s3 (([27, 91] @ ps) @ [ch])"
    using push_sequence_rel [of ?t2 "[27, 91] @ ps" ch] s2(2) assms(4) by auto
  let ?t3 = "t\<lparr>t_state := CSISequence, t_sequence := s3, t_csi := CSISequenceFinal\<rparr>"
  have bytes: "string_bytes s3 = Inr (27 # 91 # ps @ [ch, 0])" using string_bytes_rel [OF s3(2)] by simp
  have "parse_csi_arguments ?t3 = csi_args (ps @ [ch])"
    using bytes by (cases ps) (simp_all add: parse_csi_arguments_def csi_args_def)
  moreover have "string_at s3 2 = Inr (hd (ps @ [ch]))"
    using string_at_rel [OF s3(2), of 2] by (cases ps) simp_all
  moreover have "ch \<notin> {7, 8, 9, 12, 10, 13, 27}" "\<not> ch < 0x40" "\<not> ch < 0x30"
    using assms(5) by (auto simp: word_less_nat_alt word_le_nat_alt)
  ultimately have "echo ops ch ?t2 = kbind (csi_dispatch ops ch (hd (ps @ [ch]) = 63) args ?t3) reset_sequence"
    using s3(1) assms(6) by (simp add: echo_def read_csi_sequence_def Let_def)
  moreover have "kfold (echo ops) (27 # 91 # ps @ [ch]) t = kbind (kfold (echo ops) [27, 91] t) (\<lambda>t. kbind (kfold (echo ops) ps t) (echo ops ch))"
  proof -
    have "kfold (echo ops) (ps @ [ch]) = (\<lambda>t. kbind (kfold (echo ops) ps t) (echo ops ch))"
      by (rule ext) (simp only: kfold_append kfold_single)
    then show ?thesis using kfold_append [of "echo ops" "[27, 91]" "ps @ [ch]" t] by simp
  qed
  ultimately show ?thesis using s1(1) s2(1) s3(2) by auto
qed

section \<open>The two screens\<close>

lemma reset_sequence_fields:
  assumes "str_rel (t_sequence t) cs"
  shows "\<exists>s. reset_sequence t = Inr (t\<lparr>t_sequence := s, t_state := SeqNone\<rparr>) \<and> str_rel s []"
  using string_assign_rel [OF assms, of "[]"] by (auto simp: reset_sequence_def)

definition enter_alternate :: "u8 list" where
  "enter_alternate = [27, 91, 63, 49, 48, 52, 57, 104]"

definition leave_alternate :: "u8 list" where
  "leave_alternate = [27, 91, 63, 49, 48, 52, 57, 108]"

lemma csi_args_1049: "csi_args ([63, 49, 48, 52, 57] @ [104]) = Inr [1049]" "csi_args ([63, 49, 48, 52, 57] @ [108]) = Inr [1049]"
  by code_simp+

lemma csi_params_1049: "list_all csi_param [63, 49, 48, 52, 57]"
  by (simp add: csi_param_def)

context console
begin

lemma enter_alternate_ok:
  assumes t: "term_ok ops inv t" "t_state t = SeqNone" "str_rel (t_sequence t) []" "\<not> t_use_alt t"
  shows "\<exists>t'. kfold (echo ops) enter_alternate t = Inr t' \<and> term_ok ops inv t' \<and> t_state t' = SeqNone \<and>
    str_rel (t_sequence t') [] \<and> t_use_alt t' \<and> t_main t' = t_main t \<and> t_saved t' = t_cursor t"
proof -
  obtain s where s: "kfold (echo ops) enter_alternate t =
      kbind (csi_dispatch ops 104 True [1049] (t\<lparr>t_state := CSISequence, t_sequence := s, t_csi := CSISequenceFinal\<rparr>)) reset_sequence"
    "str_rel s enter_alternate"
    using csi_sequence [OF t(2,3) csi_params_1049 _ _ csi_args_1049(1), of ops] by (auto simp: enter_alternate_def)
  let ?u = "t\<lparr>t_state := CSISequence, t_sequence := s, t_csi := CSISequenceFinal, t_saved := t_cursor t, t_use_alt := True\<rparr>"
  have ok: "term_ok ops inv ?u" using t(1) by (simp add: term_ok_def cursor_ok_def t_width_def t_height_def)
  obtain t1 where t1: "term_clear ops 0 0 (t_height ops ?u - 1) (t_width ops ?u - 1) ?u = Inr t1"
    "term_ok ops inv t1" "same_rest ops ?u t1" using clear_all_safe [OF ok] unfolding safe_def by blast
  have "csi_dispatch ops 104 True [1049] (t\<lparr>t_state := CSISequence, t_sequence := s, t_csi := CSISequenceFinal\<rparr>) =
      term_clear ops 0 0 (t_height ops ?u - 1) (t_width ops ?u - 1) ?u"
    using t(4) by (simp add: csi_dispatch_def ensure_args_def DECSET_def switch_buffer_def Let_def t_width_def t_height_def)
  then have "kfold (echo ops) enter_alternate t = reset_sequence t1" using s(1) t1(1) by simp
  moreover have seq: "str_rel (t_sequence t1) enter_alternate" using t1(3) s(2) by (simp add: same_rest_def)
  moreover have "t_main t1 = t_main t" "t_use_alt t1" "t_saved t1 = t_cursor t" using t1(3) by (simp_all add: same_rest_def)
  ultimately show ?thesis
    using reset_sequence_fields [OF seq] t1(2) by (auto simp: term_ok_def cursor_ok_def t_width_def t_height_def)
qed

lemma leave_alternate_ok:
  assumes t: "term_ok ops inv t" "t_state t = SeqNone" "str_rel (t_sequence t) []" "t_use_alt t"
  shows "\<exists>t'. kfold (echo ops) leave_alternate t = Inr t' \<and> term_ok ops inv t' \<and> t_state t' = SeqNone \<and>
    \<not> t_use_alt t' \<and> t_main t' = t_main t \<and> cur_row (t_cursor t') = cur_row (t_saved t) \<and>
    cur_column (t_cursor t') = cur_column (t_saved t) \<and>
    kbind (co_write_region ops (t_console t) 0 0 (t_height ops t - 1) (t_width ops t - 1) (t_main t))
      (\<lambda>c. co_set_cursor ops c (cur_row (t_saved t)) (cur_column (t_saved t))) = Inr (t_console t')"
proof -
  obtain s where s: "kfold (echo ops) leave_alternate t =
      kbind (csi_dispatch ops 108 True [1049] (t\<lparr>t_state := CSISequence, t_sequence := s, t_csi := CSISequenceFinal\<rparr>)) reset_sequence"
    "str_rel s leave_alternate"
    using csi_sequence [OF t(2,3) csi_params_1049 _ _ csi_args_1049(2), of ops] by (auto simp: leave_alternate_def)
  let ?u = "t\<lparr>t_state := CSISequence, t_sequence := s, t_csi := CSISequenceFinal, t_use_alt := False\<rparr>"
  have ok: "term_ok ops inv ?u" using t(1) by (simp add: term_ok_def cursor_ok_def t_width_def t_height_def)
  obtain c1 where c1: "co_write_region ops (t_console t) 0 0 (co_height ops (t_console t) - 1) (co_width ops (t_console t) - 1)
      (t_main t) = Inr c1" "inv c1" "co_width ops c1 = t_width ops t" "co_height ops c1 = t_height ops t"
    using t(1) write_screen_law [of "t_console t" "t_main t"] by (auto simp: term_ok_def t_width_def t_height_def)
  let ?r = "cur_row (t_saved t)" and ?k = "cur_column (t_saved t)"
  obtain c2 where c2: "co_set_cursor ops c1 ?r ?k = Inr c2" "inv c2"
    "co_width ops c2 = t_width ops t" "co_height ops c2 = t_height ops t"
    using t(1) set_cursor_law [OF c1(2), of ?r ?k] c1 by (auto simp: term_ok_def cursor_ok_def)
  let ?v = "?u\<lparr>t_console := c2, t_cursor := (t_cursor t)\<lparr>cur_row := ?r, cur_column := ?k\<rparr>\<rparr>"
  have "csi_dispatch ops 108 True [1049] (t\<lparr>t_state := CSISequence, t_sequence := s, t_csi := CSISequenceFinal\<rparr>) = Inr ?v"
    using t(4) c1(1) c2(1)
    by (simp add: csi_dispatch_def ensure_args_def DECRST_def switch_buffer_def Let_def on_console_def set_cursor_def get_buffer_def)
  then have "kfold (echo ops) leave_alternate t = reset_sequence ?v" using s(1) by simp
  moreover have "term_ok ops inv ?v" using t(1) c2 by (simp add: term_ok_def cursor_ok_def t_width_def t_height_def)
  ultimately show ?thesis
    using reset_sequence_fields [of ?v leave_alternate] s(2) c1(1) c2(1)
    by (auto simp: term_ok_def cursor_ok_def t_width_def t_height_def)
qed

text \<open>Positioning the cursor outside the screen.\<close>

lemma cup_outside:
  assumes "term_ok ops inv t" "t_state t = SeqNone" "str_rel (t_sequence t) []" "unat (t_height ops t) < 999"
  shows "kfold (echo ops) [27, 91, 57, 57, 57, 72] t = Inl AssertFail"
proof -
  have args: "csi_args ([57, 57, 57] @ [72]) = Inr [999]" by code_simp
  obtain s where s: "kfold (echo ops) [27, 91, 57, 57, 57, 72] t =
      kbind (csi_dispatch ops 72 False [999] (t\<lparr>t_state := CSISequence, t_sequence := s, t_csi := CSISequenceFinal\<rparr>)) reset_sequence"
    using csi_sequence [OF assms(2,3) _ _ _ args, of ops] by (auto simp: csi_param_def)
  have "\<not> (998 < co_height ops (t_console t) \<and> 0 < co_width ops (t_console t))"
    using assms(4) by (simp add: word_less_nat_alt t_height_def)
  then have "co_set_cursor ops (t_console t) 998 0 = Inl AssertFail"
    using set_cursor_outside_law assms(1) by (simp add: term_ok_def)
  moreover have "(0 :: u32) <s 999" by code_simp
  ultimately show ?thesis
    unfolding s by (simp add: csi_dispatch_def ensure_args_def CUP_def set_cursor_def on_console_def Let_def)
qed

end

section \<open>Properties of the terminal on the framebuffer console\<close>

text \<open>A console of two rows of four characters, and the terminal on it.\<close>

definition wide_console :: framebuffer_console where
  "wide_console = small_console\<lparr>c_device := small_screen\<lparr>fb_width := 32, fb_size := 256\<rparr>, c_cells := replicate 8 default_cell\<rparr>"

definition wide_terminal :: "framebuffer_console terminal" where
  "wide_terminal = terminal_new fb_ops wide_console"

lemma wide_console_dims: "con_width wide_console = 4" "con_height wide_console = 2"
  by (simp_all add: con_width_def con_height_def wide_console_def small_console_def small_screen_def
      font_width_def font_height_def small_font_def)

lemma wide_console_ok: "fb_inv wide_console"
  using small_console_ok unfolding fb_inv_def wide_console_dims by (simp add: wide_console_def small_console_def small_screen_def)

lemma wide_terminal_fields:
  "t_console wide_terminal = wide_console" "t_state wide_terminal = SeqNone" "t_sequence wide_terminal = string_empty"
  "t_cursor wide_terminal = zero_cursor" "t_use_alt wide_terminal = False"
  "t_width fb_ops wide_terminal = 4" "t_height fb_ops wide_terminal = 2"
  by (simp_all add: wide_terminal_def terminal_new_def Let_def t_width_def t_height_def fb_ops_def wide_console_dims)

lemma wide_terminal_ok: "term_ok fb_ops fb_inv wide_terminal"
  unfolding term_ok_def cursor_ok_def wide_terminal_fields
  using wide_console_ok
  by (simp add: wide_terminal_def terminal_new_def Let_def sizeof_cell_t_def fb_ops_def wide_console_dims zero_cursor_def)

lemma wide_terminal_inv: "term_inv fb_ops fb_inv 0 wide_terminal"
  using wide_terminal_ok str_rel_empty by (auto simp: term_inv_def seq_ok_def wide_terminal_fields)

text \<open>
  C5. The terminal takes any character in any reachable state without a fault, whatever sequences came
  before it, and keeps its invariant: the cursor and the saved cursors stay on the screen, the two
  buffers keep their size, and the escape sequence is well formed. The exceptions are the three final
  characters of sequences that can place the cursor or choose a colour out of range.
\<close>

theorem echo_keeps_invariant:
  assumes "term_inv fb_ops fb_inv n t" "n < 2 ^ 31 - 1" "t_state t = CSISequence \<longrightarrow> ch \<notin> {72, 100, 109}"
  shows "\<exists>t'. echo fb_ops ch t = Inr t' \<and> term_inv fb_ops fb_inv (Suc n) t'"
  using fb_console.echo_inv [OF assms] .

theorem echo_keeps_invariant_witness:
  "\<exists>t'. echo fb_ops 65 wide_terminal = Inr t' \<and> term_inv fb_ops fb_inv (Suc 0) t'"
  using echo_keeps_invariant [OF wide_terminal_inv, of 65] by (simp add: wide_terminal_fields)

text \<open>
  On the framebuffer console the characters that \<open>put_text\<close> sends are drawn, and they become the cells
  of the console from the cursor on.
\<close>

lemma put_text_draws:
  assumes "fb_inv c" "row < con_height c" "unat column + length cs < unat (con_width c)"
    and "put_text fb_ops row column cs c = Inr c'" "i = unat row * unat (con_width c) + unat column"
  shows "draw_text row column cs c = Inr c' \<and>
    c_cells c' = take i (c_cells c) @ map (drawn c) cs @ drop (i + length cs) (c_cells c)"
  using assms
proof (induction cs arbitrary: column c i)
  case (Cons ch cs)
  let ?x = "drawn c ch" and ?w = "con_width c"
  have col: "column < ?w" "column + 1 < ?w" "unat (column + 1) = Suc (unat column)"
  proof -
    show "unat (column + 1) = Suc (unat column)"
      using Cons.prems(3) unat_bound [of ?w] by (subst unat_add_small) auto
    then show "column < ?w" "column + 1 < ?w" using Cons.prems(3) by (simp_all add: word_less_nat_alt)
  qed
  obtain c1 c2 where c1: "con_write_char c row column ch = Inr c1"
    and c2: "set_cursor_at c1 row (column + 1) = Inr c2" and rest: "put_text fb_ops row (column + 1) cs c2 = Inr c'"
    using Cons.prems(4) by (auto simp: fb_ops_def kbind_Inr_iff)
  note draw = con_write_char_draws [OF Cons.prems(1,2) col(1), of ch]
  obtain c1' where c1': "con_write_cell c row column ?x = Inr c1'" "con_keep c c1'" "c_cells c1' = (c_cells c)[i := ?x]"
    using con_write_cell_keep [OF Cons.prems(1,2) col(1), of ?x] Cons.prems(5) by auto
  then have k1: "con_keep c c1" "c_cells c1 = (c_cells c)[i := ?x]" using c1 by (simp_all add: con_write_char_def drawn_def)
  note inv1 = con_keep_inv [OF k1(1) Cons.prems(1)]
  have d1: "con_width c1 = ?w" "con_height c1 = con_height c" using con_keep_dims [OF k1(1)] by simp_all
  have inv2: "fb_inv c2" "con_width c2 = ?w" "con_height c2 = con_height c"
    using set_cursor_at_keep [OF inv1, of row "column + 1"] c2 d1 Cons.prems(2) col(2) by auto
  have f: "c_cells c2 = (c_cells c)[i := ?x]" "drawn c2 = drawn c"
    using set_cursor_at_cells [OF c2] k1(2) draw_cell_cells(2,3) [OF c1 [unfolded draw]] by (simp_all add: drawn_def fun_eq_iff)
  have i: "i < length (c_cells c)"
    using cell_index_less [OF Cons.prems(1,2) col(1)] Cons.prems(5) by simp
  have "draw_text row (column + 1) cs c2 = Inr c' \<and>
      c_cells c' = take (Suc i) (c_cells c2) @ map (drawn c2) cs @ drop (Suc i + length cs) (c_cells c2)"
    using Cons.prems(2,3,5) col(3) rest inv2 by (intro Cons.IH) simp_all
  moreover have "draw_text row column (ch # cs) c = draw_text row (column + 1) cs c2"
    using c1 c2 draw by simp
  ultimately show ?case using f i by (simp add: take_Suc_conv_app_nth)
qed simp

text \<open>
  C13. Printable text that fits into the current row, outside an escape sequence, is shown. In the
  terminal, the cells from the cursor on become the characters in the cursor's colours, the cursor
  stands behind the text, the last character is noted, and nothing else changes: not the other cells,
  the other screen, the saved cursors or the state of the escape sequences. On the framebuffer console every character is drawn at
  its place in the console's colours, followed by the cursor behind it, and the console's own cells
  from the cursor on become these characters.
\<close>

theorem echo_shows_text:
  assumes "term_ok fb_ops fb_inv t" "t_state t = SeqNone" "list_all printable cs"
    and "unat (cur_column (t_cursor t)) + length cs < unat (t_width fb_ops t)"
    and i: "i = unat (cur_row (t_cursor t)) * unat (t_width fb_ops t) + unat (cur_column (t_cursor t))"
  shows "\<exists>t' c'. kfold (echo fb_ops) cs t = Inr t' \<and> term_ok fb_ops fb_inv t' \<and>
    t' = (set_buffer (take i (get_buffer t) @ map (shown t) cs @ drop (i + length cs) (get_buffer t)) t)
      \<lparr>t_console := c', t_last_char := last (t_last_char t # cs),
       t_cursor := (t_cursor t)\<lparr>cur_column := cur_column (t_cursor t) + of_nat (length cs)\<rparr>\<rparr> \<and>
    draw_text (cur_row (t_cursor t)) (cur_column (t_cursor t)) cs (t_console t) = Inr c' \<and>
    c_cells c' = take i (c_cells (t_console t)) @ map (drawn (t_console t)) cs @ drop (i + length cs) (c_cells (t_console t))"
proof -
  obtain t' where t': "kfold (echo fb_ops) cs t = Inr t'" "term_ok fb_ops fb_inv t'" "t' = written fb_ops t cs (t_console t')"
    "put_text fb_ops (cur_row (t_cursor t)) (cur_column (t_cursor t)) cs (t_console t) = Inr (t_console t')"
    using fb_console.text_shows [OF assms(1-4)] by blast
  have "fb_inv (t_console t)" "cur_row (t_cursor t) < con_height (t_console t)" "con_width (t_console t) = t_width fb_ops t"
    using assms(1) by (simp_all add: term_ok_def cursor_ok_def t_height_def t_width_def fb_ops_def)
  then show ?thesis
    using put_text_draws [OF _ _ _ t'(4), of i] assms(4) i t'(1,2) t'(3) [unfolded written_def cursor_index_def, folded i]
    by auto
qed

theorem echo_shows_text_witness:
  "\<exists>t'. kfold (echo fb_ops) [79, 119, 79] wide_terminal = Inr t' \<and> term_ok fb_ops fb_inv t' \<and>
    cur_column (t_cursor t') = 3 \<and> map cl_ch (take 3 (get_buffer t')) = [79, 119, 79] \<and>
    map cl_ch (take 3 (c_cells (t_console t'))) = [79, 119, 79] \<and> t_alt t' = t_alt wide_terminal"
proof -
  have len: "unat (cur_column (t_cursor wide_terminal)) + length [79, 119, 79 :: u8] < unat (t_width fb_ops wide_terminal)"
    by (simp add: wide_terminal_fields zero_cursor_def)
  have "list_all printable [79, 119, 79]" by (simp add: printable_def)
  from echo_shows_text [OF wide_terminal_ok wide_terminal_fields(2) this len refl] show ?thesis
    by (auto simp: wide_terminal_fields zero_cursor_def shown_def drawn_def set_buffer_def get_buffer_def)
qed

text \<open>
  C15. A full-screen program leaves no trace: after switching from the main to the alternate screen
  between two escape sequences, writing any text without escape sequences there, and switching back,
  the cells of the main screen are what they were and the cursor is where it was. The main screen is
  drawn again: starting from what the alternate
  screen left on the console, every cell of the main screen is drawn at its place, and then the cursor,
  so that the console's own cells are those of the main screen.
\<close>

theorem alternate_screen_restores:
  assumes "term_ok fb_ops fb_inv t" "t_state t = SeqNone" "str_rel (t_sequence t) []" "\<not> t_use_alt t" "27 \<notin> set cs"
  shows "\<exists>t1 t'. kfold (echo fb_ops) (enter_alternate @ cs) t = Inr t1 \<and>
    kfold (echo fb_ops) (enter_alternate @ cs @ leave_alternate) t = Inr t' \<and> term_ok fb_ops fb_inv t' \<and>
    \<not> t_use_alt t' \<and> t_main t' = t_main t \<and>
    cur_row (t_cursor t') = cur_row (t_cursor t) \<and> cur_column (t_cursor t') = cur_column (t_cursor t) \<and>
    draw_screen (t_main t) (cur_row (t_cursor t)) (cur_column (t_cursor t)) (t_console t1) = Inr (t_console t') \<and>
    c_cells (t_console t') = t_main t"
proof -
  obtain t1 where t1: "kfold (echo fb_ops) enter_alternate t = Inr t1" "term_ok fb_ops fb_inv t1" "t_state t1 = SeqNone"
    "str_rel (t_sequence t1) []" "t_use_alt t1" "t_main t1 = t_main t" "t_saved t1 = t_cursor t"
    using fb_console.enter_alternate_ok [OF assms(1-4)] by blast
  obtain t2 where t2: "kfold (echo fb_ops) cs t1 = Inr t2" "term_ok fb_ops fb_inv t2" "same_rest fb_ops t1 t2"
    using fb_console.plain_text_safe [OF t1(2,3) assms(5)] by (auto simp: safe_def)
  have r: "t_state t2 = SeqNone" "str_rel (t_sequence t2) []" "t_use_alt t2" "t_main t2 = t_main t" "t_saved t2 = t_cursor t"
    using t1 t2(3) by (simp_all add: same_rest_def)
  obtain t' where t': "kfold (echo fb_ops) leave_alternate t2 = Inr t'" "term_ok fb_ops fb_inv t'" "\<not> t_use_alt t'"
    "t_main t' = t_main t" "cur_row (t_cursor t') = cur_row (t_cursor t)" "cur_column (t_cursor t') = cur_column (t_cursor t)"
    "kbind (co_write_region fb_ops (t_console t2) 0 0 (t_height fb_ops t2 - 1) (t_width fb_ops t2 - 1) (t_main t))
      (\<lambda>c. co_set_cursor fb_ops c (cur_row (t_cursor t)) (cur_column (t_cursor t))) = Inr (t_console t')"
    using fb_console.leave_alternate_ok [OF t2(2) r(1-3)] unfolding r(4,5) by blast
  have "fb_inv (t_console t2)" "length (t_main t) = unat (con_width (t_console t2)) * unat (con_height (t_console t2))"
    using t2(2) r(4) by (simp_all add: term_ok_def t_width_def t_height_def fb_ops_def)
  from con_write_screen_draws [OF this] have
    "draw_screen (t_main t) (cur_row (t_cursor t)) (cur_column (t_cursor t)) (t_console t2) = Inr (t_console t')"
    using t'(7) by (simp add: t_width_def t_height_def fb_ops_def)
  with draw_screen_cells [OF this] show ?thesis
    using t1(1) t2(1) t' by (simp add: kfold_append)
qed

theorem alternate_screen_restores_witness:
  "\<exists>t'. kfold (echo fb_ops) (enter_alternate @ [72, 10, 105] @ leave_alternate) wide_terminal = Inr t' \<and>
    t_main t' = t_main wide_terminal \<and> cur_row (t_cursor t') = 0 \<and> c_cells (t_console t') = t_main wide_terminal"
  using alternate_screen_restores [of wide_terminal "[72, 10, 105]"] wide_terminal_ok str_rel_empty
  by (auto simp: wide_terminal_fields zero_cursor_def)

text \<open>
  C40. The cursor position of the sequence \<open>CUP\<close> is not limited to the screen: on every console with
  less than 999 rows the output of a program can stop the kernel in the assertion of \<open>set_cursor_at\<close>.
\<close>

theorem cursor_position_asserts:
  assumes "term_ok fb_ops fb_inv t" "t_state t = SeqNone" "str_rel (t_sequence t) []" "unat (t_height fb_ops t) < 999"
  shows "kfold (echo fb_ops) [27, 91, 57, 57, 57, 72] t = Inl AssertFail"
  using fb_console.cup_outside [OF assms] .

theorem cursor_position_asserts_witness: "kfold (echo fb_ops) [27, 91, 57, 57, 57, 72] wide_terminal = Inl AssertFail"
  using cursor_position_asserts [of wide_terminal] wide_terminal_ok str_rel_empty by (simp add: wide_terminal_fields)

end
