(* ===== verification/TTY.thy ===== *)
theory TTY
  imports TerminalSpec
begin

text \<open>
  \<open>tty/TTY.cpp\<close>: the line discipline. In canonical mode the characters of the keyboard are collected
  to lines, which can be edited; in non-canonical mode they go to a ring buffer. What is typed is
  echoed through two virtual functions of the derived class, which act on its own state \<open>'d\<close>.
\<close>

section \<open>Settings\<close>

definition VEOF :: nat where "VEOF = 0"
definition VEOL :: nat where "VEOL = 1"
definition VERASE :: nat where "VERASE = 2"
definition VKILL :: nat where "VKILL = 4"
definition VMIN :: nat where "VMIN = 5"

definition ECHO :: u32 where "ECHO = 0x001"
definition ECHOE :: u32 where "ECHOE = 0x002"
definition ECHOK :: u32 where "ECHOK = 0x004"
definition ECHONL :: u32 where "ECHONL = 0x008"
definition ICANON :: u32 where "ICANON = 0x010"
definition ISIG :: u32 where "ISIG = 0x040"
definition OPOST :: u32 where "OPOST = 0x0001"
definition ONLCR :: u32 where "ONLCR = 0x0002"

lemmas termios_defs = VEOF_def VEOL_def VERASE_def VKILL_def VMIN_def ECHO_def ECHOE_def ECHOK_def ECHONL_def
  ICANON_def ISIG_def OPOST_def ONLCR_def

record termios =
  c_iflag :: u32
  c_oflag :: u32
  c_cflag :: u32
  c_lflag :: u32
  c_cc :: "u8 list"
  c_ispeed :: u32
  c_ospeed :: u32

text \<open>The control characters are stored in the order of their indices.\<close>

definition reset_termios :: termios where
  "reset_termios = \<lparr>c_iflag = 0x002, c_oflag = OPOST OR ONLCR, c_cflag = 0x03,
     c_lflag = ISIG OR ICANON OR ECHO OR ECHOE OR ECHOK OR ECHONL,
     c_cc = [4, 0, 127, 3, 21, 1, 28, 17, 19, 26, 0], c_ispeed = 15, c_ospeed = 15\<rparr>"

definition lflag :: "termios \<Rightarrow> u32 \<Rightarrow> bool" where
  "lflag tm f = (c_lflag tm AND f \<noteq> 0)"

definition oflag :: "termios \<Rightarrow> u32 \<Rightarrow> bool" where
  "oflag tm f = (c_oflag tm AND f \<noteq> 0)"

text \<open>A \<open>char\<close> is compared with a \<open>cc_t\<close>, an unsigned byte: both are promoted to \<open>int\<close>.\<close>

definition is_cc :: "termios \<Rightarrow> nat \<Rightarrow> u8 \<Rightarrow> bool" where
  "is_cc tm i ch = (int_of_char ch = ucast (c_cc tm ! i))"

section \<open>State\<close>

record tty =
  tty_input_line :: kstring
  tty_read_line :: kstring
  tty_lines :: "kstring srmw_queue"
  tty_chars :: "u8 circular_buffer"
  tty_termios :: termios

record 'd tty_ops =
  to_echo :: "u8 \<Rightarrow> 'd \<Rightarrow> 'd kres"
  to_unecho :: "'d \<Rightarrow> 'd kres"

definition tty_new :: tty where
  "tty_new = \<lparr>tty_input_line = string_empty, tty_read_line = string_empty, tty_lines = srmw_new,
     tty_chars = cb_new 4096, tty_termios = reset_termios\<rparr>"

section \<open>Output\<close>

definition process_echo :: "'d tty_ops \<Rightarrow> termios \<Rightarrow> u8 \<Rightarrow> 'd \<Rightarrow> 'd kres" where
  "process_echo ops tm ch d =
     (if \<not> oflag tm OPOST then to_echo ops ch d
      else kbind (if ch = 10 \<and> oflag tm ONLCR then to_echo ops 13 d else Inr d) (to_echo ops ch))"

definition tty_write :: "'d tty_ops \<Rightarrow> u8 list \<Rightarrow> tty \<times> 'd \<Rightarrow> (nat \<times> tty \<times> 'd) kres" where
  "tty_write ops buffer sd =
     (let (s, d) = sd
      in kbind (kfold (process_echo ops (tty_termios s)) buffer d) (\<lambda>d. Inr (length buffer, s, d)))"

section \<open>Input\<close>

text \<open>A line is put into the queue as a copy of its C string.\<close>

definition put_line :: "tty \<Rightarrow> tty kres" where
  "put_line s =
     kbind (string_c_str (tty_input_line s)) (\<lambda>cs.
     kbind (string_make cs) (\<lambda>line.
     kbind (srmw_put (tty_lines s) line) (\<lambda>q.
       Inr (s\<lparr>tty_lines := q, tty_input_line := string_empty\<rparr>))))"

definition pop_line_char :: "'d tty_ops \<Rightarrow> tty \<times> 'd \<Rightarrow> (tty \<times> 'd) kres" where
  "pop_line_char ops sd =
     (let (s, d) = sd
      in kbind (string_pop_back (tty_input_line s)) (\<lambda>line.
         kbind (if lflag (tty_termios s) ECHO then to_unecho ops d else Inr d) (\<lambda>d.
           Inr (s\<lparr>tty_input_line := line\<rparr>, d))))"

text \<open>The loop of \<open>VKILL\<close> takes one character off the line in every round.\<close>

definition canonical_input :: "'d tty_ops \<Rightarrow> u8 \<Rightarrow> tty \<times> 'd \<Rightarrow> (tty \<times> 'd) kres" where
  "canonical_input ops ch sd =
     (let (s, d) = sd; tm = tty_termios s
      in if lflag tm ICANON \<and> (ch = 10 \<or> is_cc tm VEOL ch \<or> is_cc tm VEOF ch)
         then kbind (if \<not> is_cc tm VEOF ch then string_push_back (tty_input_line s) ch else Inr (tty_input_line s)) (\<lambda>line.
              kbind (put_line (s\<lparr>tty_input_line := line\<rparr>)) (\<lambda>s.
              kbind (if lflag tm ECHO \<or> lflag tm ECHONL then process_echo ops tm 10 d else Inr d) (\<lambda>d.
                Inr (s, d))))
         else if is_cc tm VERASE ch \<and> lflag tm ECHOE \<and> lflag tm ICANON
         then if string_is_empty (tty_input_line s) then Inr (s, d) else pop_line_char ops (s, d)
         else if is_cc tm VKILL ch \<and> lflag tm ECHOK \<and> lflag tm ICANON
         then kfold (\<lambda>_. pop_line_char ops) [0..<unat (string_size (tty_input_line s))] (s, d)
         else kbind (string_push_back (tty_input_line s) ch) (\<lambda>line.
              kbind (if lflag tm ECHO then process_echo ops tm ch d else Inr d) (\<lambda>d.
                Inr (s\<lparr>tty_input_line := line\<rparr>, d))))"

definition non_canonical_input :: "'d tty_ops \<Rightarrow> u8 \<Rightarrow> tty \<times> 'd \<Rightarrow> (tty \<times> 'd) kres" where
  "non_canonical_input ops ch sd =
     (let (s, d) = sd
      in kbind (cb_push (tty_chars s) ch) (\<lambda>b.
         kbind (if lflag (tty_termios s) ECHO then process_echo ops (tty_termios s) ch d else Inr d) (\<lambda>d.
           Inr (s\<lparr>tty_chars := b\<rparr>, d))))"

definition emit :: "'d tty_ops \<Rightarrow> u8 \<Rightarrow> tty \<times> 'd \<Rightarrow> (tty \<times> 'd) kres" where
  "emit ops ch sd = (if lflag (tty_termios (fst sd)) ICANON then canonical_input ops ch sd else non_canonical_input ops ch sd)"

section \<open>Reading\<close>

text \<open>A read that has to wait for input gives \<open>None\<close>.\<close>

fun read_line_loop :: "nat \<Rightarrow> kstring \<Rightarrow> u8 list \<Rightarrow> (u8 list \<times> kstring) kres" where
  "read_line_loop 0 line buffer = Inr (buffer, line)"
| "read_line_loop (Suc bytes) line buffer =
     (if string_is_empty line then Inr (buffer, line)
      else kbind (string_front line) (\<lambda>c. kbind (string_erase line 0) (\<lambda>line. read_line_loop bytes line (buffer @ [c]))))"

definition canonical_read :: "nat \<Rightarrow> tty \<Rightarrow> (u8 list \<times> tty) kres option" where
  "canonical_read bytes s =
     (if string_is_empty (tty_read_line s) \<and> srmw_empty (tty_lines s) then None
      else Some (
        kbind (if string_is_empty (tty_read_line s)
               then kbind (srmw_get (tty_lines s)) (\<lambda>(line, q). Inr (s\<lparr>tty_read_line := line, tty_lines := q\<rparr>))
               else Inr s) (\<lambda>s.
        kbind (read_line_loop bytes (tty_read_line s) []) (\<lambda>(buffer, line).
          Inr (buffer, s\<lparr>tty_read_line := line\<rparr>)))))"

definition non_canonical_read :: "nat \<Rightarrow> tty \<Rightarrow> (u8 list \<times> tty) kres option" where
  "non_canonical_read bytes s =
     (if cb_size (tty_chars s) < unat (c_cc (tty_termios s) ! VMIN) then None
      else Some (kbind (get_n cb_pop (min (cb_size (tty_chars s)) bytes) (tty_chars s)) (\<lambda>(buffer, b).
             Inr (buffer, s\<lparr>tty_chars := b\<rparr>))))"

definition tty_read :: "nat \<Rightarrow> tty \<Rightarrow> (u8 list \<times> tty) kres option" where
  "tty_read bytes s =
     (if lflag (tty_termios s) ICANON then canonical_read bytes s else non_canonical_read bytes s)"

section \<open>Changing the settings\<close>

partial_function (option) empty_line_queue :: "kstring srmw_queue \<Rightarrow> kstring srmw_queue kres option" where
  "empty_line_queue q =
     (if srmw_empty q then Some (Inr q)
      else case srmw_get q of Inl e \<Rightarrow> Some (Inl e) | Inr (line, q') \<Rightarrow> empty_line_queue q')"

definition empty_line_buffer :: "tty \<Rightarrow> tty kres option" where
  "empty_line_buffer s =
     map_option (\<lambda>r. kbind r (\<lambda>q. Inr (s\<lparr>tty_input_line := string_empty, tty_lines := q\<rparr>))) (empty_line_queue (tty_lines s))"

definition empty_char_buffer :: "tty \<Rightarrow> tty kres" where
  "empty_char_buffer s =
     kbind (get_n cb_pop (cb_size (tty_chars s)) (tty_chars s)) (\<lambda>(cs, b). Inr (s\<lparr>tty_chars := b\<rparr>))"

text \<open>One round of the loop that moves the characters of the ring buffer to lines.\<close>

definition char_to_line :: "tty \<Rightarrow> tty kres" where
  "char_to_line s =
     kbind (cb_pop (tty_chars s)) (\<lambda>(c, b).
     kbind (string_push_back (tty_input_line s) c) (\<lambda>line.
     kbind (string_back line) (\<lambda>last.
       let s = s\<lparr>tty_chars := b, tty_input_line := line\<rparr>
       in if last = 10 then put_line s else Inr s)))"

text \<open>The lines go to a stack, whose top is the last element of the list here.\<close>

partial_function (option) drain_lines :: "kstring srmw_queue \<Rightarrow> kstring list \<Rightarrow> (kstring list \<times> kstring srmw_queue) kres option" where
  "drain_lines q lines =
     (if srmw_empty q then Some (Inr (lines, q))
      else case srmw_get q of
             Inl e \<Rightarrow> Some (Inl e)
           | Inr (line, q') \<Rightarrow>
               (case kbind (string_c_str line) string_make of
                  Inl e \<Rightarrow> Some (Inl e)
                | Inr line' \<Rightarrow> drain_lines q' (lines @ [line'])))"

definition push_line_chars :: "kstring \<Rightarrow> u8 circular_buffer \<Rightarrow> u8 circular_buffer kres" where
  "push_line_chars line b = kbind (string_chars line) (\<lambda>cs. kfold (\<lambda>c b. cb_push b c) cs b)"

definition lines_to_chars :: "tty \<Rightarrow> tty kres option" where
  "lines_to_chars s =
     map_option (\<lambda>r. kbind r (\<lambda>(lines, q).
       kbind (if string_is_empty (tty_input_line s) then Inr lines
              else kbind (string_c_str (tty_input_line s)) (\<lambda>cs. kbind (string_make cs) (\<lambda>line. Inr (lines @ [line])))) (\<lambda>lines.
       let s = s\<lparr>tty_lines := q, tty_input_line := (if string_is_empty (tty_input_line s) then tty_input_line s else string_empty)\<rparr>
       in kbind (empty_char_buffer s) (\<lambda>s.
          kbind (kfold push_line_chars (rev lines) (tty_chars s)) (\<lambda>b. Inr (s\<lparr>tty_chars := b\<rparr>))))))
       (drain_lines (tty_lines s) [])"

definition switch_buffers :: "termios \<Rightarrow> tty \<Rightarrow> tty kres option" where
  "switch_buffers old_termios s =
     (if c_lflag old_termios AND ICANON = c_lflag (tty_termios s) AND ICANON then Some (Inr s)
      else if lflag (tty_termios s) ICANON
      then map_option (\<lambda>r. kbind r (\<lambda>s. kfold (\<lambda>_. char_to_line) [0..<cb_size (tty_chars s)] s)) (empty_line_buffer s)
      else lines_to_chars s)"

definition set_termios :: "termios \<Rightarrow> tty \<Rightarrow> tty kres option" where
  "set_termios new_termios s = switch_buffers (tty_termios s) (s\<lparr>tty_termios := new_termios\<rparr>)"

text \<open>\<open>ioctl\<close>: the requests are numbered in order; \<open>arg\<close> is the structure the pointer leads to.\<close>

definition TCGETS :: u32 where "TCGETS = 0"
definition TCSETS :: u32 where "TCSETS = 1"

datatype ioctl_status = ESUCCESS | EINVAL

definition ioctl :: "u32 \<Rightarrow> termios \<Rightarrow> tty \<Rightarrow> (ioctl_status \<times> termios \<times> tty) kres option" where
  "ioctl request arg s =
     (if request = TCGETS then Some (Inr (ESUCCESS, tty_termios s, s))
      else if request = TCSETS
      then map_option (\<lambda>r. kbind r (\<lambda>s. Inr (ESUCCESS, arg, s))) (set_termios arg s)
      else Some (Inr (EINVAL, arg, s)))"

end
