(* ===== verification/TTYSpec.thy ===== *)
theory TTYSpec
  imports TTY
begin

text \<open>
  The line discipline implements an abstract one on lists of characters, over any display that takes
  plain characters.
\<close>

section \<open>The display\<close>

locale tty_display =
  fixes ops :: "'d tty_ops" and disp :: "'d \<Rightarrow> bool"
  assumes echo_law: "disp d \<Longrightarrow> ch \<noteq> 27 \<Longrightarrow> \<exists>d'. to_echo ops ch d = Inr d' \<and> disp d'"
    and unecho_law: "disp d \<Longrightarrow> \<exists>d'. to_unecho ops d = Inr d' \<and> disp d'"
begin

lemma process_echo_law:
  assumes "disp d" "ch \<noteq> 27"
  shows "\<exists>d'. process_echo ops tm ch d = Inr d' \<and> disp d'"
proof -
  obtain d1 where d1: "(if ch = 10 \<and> oflag tm ONLCR then to_echo ops 13 d else Inr d) = Inr d1" "disp d1"
    using echo_law [OF assms(1), of 13] assms(1) by (cases "ch = 10 \<and> oflag tm ONLCR") auto
  show ?thesis
    unfolding process_echo_def d1(1) using echo_law [OF d1(2) assms(2)] echo_law [OF assms] by simp
qed

lemma echo_if_law: "disp d \<Longrightarrow> ch \<noteq> 27 \<Longrightarrow> \<exists>d'. (if b then process_echo ops tm ch d else Inr d) = Inr d' \<and> disp d'"
  using process_echo_law by simp

lemma write_law: "disp d \<Longrightarrow> 27 \<notin> set cs \<Longrightarrow> \<exists>d'. kfold (process_echo ops tm) cs d = Inr d' \<and> disp d'"
proof (induction cs arbitrary: d)
  case (Cons c cs)
  then obtain d1 where "process_echo ops tm c d = Inr d1" "disp d1" using process_echo_law [of d c tm] by auto
  then show ?case using Cons.IH [of d1] Cons.prems by simp
qed simp

end

section \<open>The abstract line discipline\<close>

definition ld_input :: "termios \<Rightarrow> u8 \<Rightarrow> u8 list \<times> u8 list list \<Rightarrow> u8 list \<times> u8 list list" where
  "ld_input tm ch st =
     (let (line, lines) = st
      in if ch = 10 \<or> is_cc tm VEOL ch \<or> is_cc tm VEOF ch
         then ([], lines @ [if is_cc tm VEOF ch then line else line @ [ch]])
         else if is_cc tm VERASE ch \<and> lflag tm ECHOE then (butlast line, lines)
         else if is_cc tm VKILL ch \<and> lflag tm ECHOK then ([], lines)
         else (line @ [ch], lines))"

definition tty_rel :: "tty \<Rightarrow> u8 list \<times> u8 list list \<Rightarrow> bool" where
  "tty_rel s st = (str_rel (tty_input_line s) (fst st) \<and>
     (\<exists>ls. klist_rel (tty_lines s) ls \<and> list_all2 str_rel ls (snd st)))"

lemma tty_rel_new: "tty_rel tty_new ([], [])"
  using str_rel_empty klist_rel_new by (auto simp: tty_rel_def tty_new_def srmw_is_klist)

lemma put_line_rel:
  assumes "str_rel (tty_input_line s) line" "klist_rel (tty_lines s) ls" "list_all2 str_rel ls lines"
    and "line \<noteq> []" "0 \<notin> set line" "length line < 2 ^ 31 - 1"
  shows "\<exists>s'. put_line s = Inr s' \<and> tty_rel s' ([], lines @ [line]) \<and> tty_termios s' = tty_termios s \<and>
    tty_read_line s' = tty_read_line s \<and> tty_chars s' = tty_chars s"
proof -
  have "\<not> vec_null (tty_input_line s)" using assms(1,4) by (auto simp: str_rel_def vec_rel_not_null)
  moreover have "takeWhile (\<lambda>c. c \<noteq> 0) line = line" using assms(5) by auto
  ultimately have c: "string_c_str (tty_input_line s) = Inr line" using string_c_str_rel [OF assms(1)] by simp
  obtain l where l: "string_make line = Inr l" "str_rel l line" using string_make_rel [OF assms(4,6)] by blast
  obtain q where q: "srmw_put (tty_lines s) l = Inr q" "klist_rel q (ls @ [l])"
    using srmw.put_law [OF assms(2), of 0 l] by (auto simp: klist_fits_def)
  have "list_all2 str_rel (ls @ [l]) (lines @ [line])" using assms(3) l(2) by (simp add: list_all2_appendI)
  then show ?thesis
    using c l(1) q str_rel_empty by (auto simp: put_line_def tty_rel_def)
qed

context tty_display
begin

lemma pop_line_char_rel:
  assumes "str_rel (tty_input_line s) line" "line \<noteq> []" "disp d"
  shows "\<exists>l d'. pop_line_char ops (s, d) = Inr (s\<lparr>tty_input_line := l\<rparr>, d') \<and> str_rel l (butlast line) \<and> disp d'"
proof -
  obtain l where l: "string_pop_back (tty_input_line s) = Inr l" "str_rel l (butlast line)"
    using string_pop_back_rel [OF assms(1,2)] by blast
  obtain d' where "(if lflag (tty_termios s) ECHO then to_unecho ops d else Inr d) = Inr d'" "disp d'"
    using unecho_law [OF assms(3)] assms(3) by (cases "lflag (tty_termios s) ECHO") auto
  then show ?thesis using l by (intro exI [of _ l] exI [of _ d']) (simp add: pop_line_char_def)
qed

lemma kill_line_rel:
  assumes "str_rel (tty_input_line s) line" "disp d"
  shows "\<exists>l d'. kfold (\<lambda>_. pop_line_char ops) [0..<length line] (s, d) = Inr (s\<lparr>tty_input_line := l\<rparr>, d') \<and> str_rel l [] \<and> disp d'"
proof -
  have "\<exists>l d'. kfold (\<lambda>_. pop_line_char ops) [0..<n] (s, d) = Inr (s\<lparr>tty_input_line := l\<rparr>, d') \<and>
      str_rel l (take (length line - n) line) \<and> disp d'" if "n \<le> length line" for n
    using that
  proof (induction n)
    case 0
    then show ?case using assms by (intro exI [of _ "tty_input_line s"] exI [of _ d]) simp
  next
    case (Suc n)
    then obtain l d1 where l: "kfold (\<lambda>_. pop_line_char ops) [0..<n] (s, d) = Inr (s\<lparr>tty_input_line := l\<rparr>, d1)"
      "str_rel l (take (length line - n) line)" "disp d1" by auto
    let ?s = "s\<lparr>tty_input_line := l\<rparr>"
    have "str_rel (tty_input_line ?s) (take (length line - n) line)" "take (length line - n) line \<noteq> []"
      using l(2) Suc.prems by auto
    from pop_line_char_rel [OF this l(3)] obtain l2 d2 where
      "pop_line_char ops (?s, d1) = Inr (?s\<lparr>tty_input_line := l2\<rparr>, d2)"
      "str_rel l2 (butlast (take (length line - n) line))" "disp d2" by blast
    moreover have "butlast (take (length line - n) line) = take (length line - Suc n) line"
      by (simp add: butlast_take)
    ultimately show ?case using l(1) by (auto simp: kfold_append)
  qed
  from this [of "length line"] show ?thesis by simp
qed

lemma canonical_input_refines:
  assumes r: "tty_rel s (line, lines)" and d: "disp d" and canon: "lflag (tty_termios s) ICANON"
    and ch: "ch \<noteq> 0" "ch \<noteq> 27" "0 \<notin> set line" "length line < 2 ^ 31 - 2" "is_cc (tty_termios s) VEOF ch \<longrightarrow> line \<noteq> []"
  shows "\<exists>s' d'. emit ops ch (s, d) = Inr (s', d') \<and> tty_rel s' (ld_input (tty_termios s) ch (line, lines)) \<and> disp d' \<and>
    tty_termios s' = tty_termios s \<and> tty_read_line s' = tty_read_line s \<and> tty_chars s' = tty_chars s"
proof -
  let ?tm = "tty_termios s"
  obtain ls where ls: "str_rel (tty_input_line s) line" "klist_rel (tty_lines s) ls" "list_all2 str_rel ls lines"
    using r by (auto simp: tty_rel_def)
  have emit: "emit ops ch (s, d) = canonical_input ops ch (s, d)" using canon by (simp add: emit_def)
  consider "ch = 10 \<or> is_cc ?tm VEOL ch \<or> is_cc ?tm VEOF ch"
    | "\<not> (ch = 10 \<or> is_cc ?tm VEOL ch \<or> is_cc ?tm VEOF ch)" "is_cc ?tm VERASE ch \<and> lflag ?tm ECHOE"
    | "\<not> (ch = 10 \<or> is_cc ?tm VEOL ch \<or> is_cc ?tm VEOF ch)" "\<not> (is_cc ?tm VERASE ch \<and> lflag ?tm ECHOE)"
      "is_cc ?tm VKILL ch \<and> lflag ?tm ECHOK"
    | "\<not> (ch = 10 \<or> is_cc ?tm VEOL ch \<or> is_cc ?tm VEOF ch)" "\<not> (is_cc ?tm VERASE ch \<and> lflag ?tm ECHOE)"
      "\<not> (is_cc ?tm VKILL ch \<and> lflag ?tm ECHOK)" by blast
  then show ?thesis
  proof cases
    case 1
    let ?line = "if is_cc ?tm VEOF ch then line else line @ [ch]"
    obtain l where l: "(if \<not> is_cc ?tm VEOF ch then string_push_back (tty_input_line s) ch else Inr (tty_input_line s)) = Inr l"
      "str_rel l ?line"
      using string_push_back_rel [OF ls(1), of ch] ls(1) ch(4) by (cases "is_cc ?tm VEOF ch") auto
    have "?line \<noteq> []" "0 \<notin> set ?line" "length ?line < 2 ^ 31 - 1" using ch by auto
    with put_line_rel [of "s\<lparr>tty_input_line := l\<rparr>" ?line ls lines] l(2) ls obtain s' where
      s': "put_line (s\<lparr>tty_input_line := l\<rparr>) = Inr s'" "tty_rel s' ([], lines @ [?line])" "tty_termios s' = ?tm"
        "tty_read_line s' = tty_read_line s" "tty_chars s' = tty_chars s" by auto
    obtain d' where "(if lflag ?tm ECHO \<or> lflag ?tm ECHONL then process_echo ops ?tm 10 d else Inr d) = Inr d'" "disp d'"
      using echo_if_law [OF d, of 10] by auto
    then show ?thesis
      unfolding emit canonical_input_def using 1 canon l(1) s' by (simp add: ld_input_def)
  next
    case 2
    then show ?thesis
      unfolding emit canonical_input_def ld_input_def
      using ls d canon pop_line_char_rel [OF ls(1) _ d] str_rel_size(2) [OF ls(1)]
      by (cases "line = []") (auto simp: tty_rel_def)
  next
    case 3
    then show ?thesis
      unfolding emit canonical_input_def ld_input_def
      using ls canon kill_line_rel [OF ls(1) d] str_rel_size(1) [OF ls(1)] by (auto simp: tty_rel_def)
  next
    case 4
    obtain l where l: "string_push_back (tty_input_line s) ch = Inr l" "str_rel l (line @ [ch])"
      using string_push_back_rel [OF ls(1), of ch] ch(4) by auto
    obtain d' where "(if lflag ?tm ECHO then process_echo ops ?tm ch d else Inr d) = Inr d'" "disp d'"
      using echo_if_law [OF d ch(2)] by blast
    then show ?thesis
      unfolding emit canonical_input_def using 4 canon l ls by (auto simp: ld_input_def tty_rel_def)
  qed
qed

text \<open>Typing ordinary characters appends them to the line.\<close>

lemma type_ordinary:
  assumes "tty_rel s (line, lines)" "disp d" "lflag (tty_termios s) ICANON"
    and "\<forall>ch\<in>set cs. ch \<noteq> 0 \<and> ch \<noteq> 27 \<and> ld_input (tty_termios s) ch = (\<lambda>(line, lines). (line @ [ch], lines))"
    and "0 \<notin> set line" "length line + length cs < 2 ^ 31 - 2" "\<forall>ch\<in>set cs. \<not> is_cc (tty_termios s) VEOF ch"
  shows "\<exists>s' d'. kfold (emit ops) cs (s, d) = Inr (s', d') \<and> tty_rel s' (line @ cs, lines) \<and> disp d' \<and>
    tty_termios s' = tty_termios s \<and> tty_read_line s' = tty_read_line s \<and> tty_chars s' = tty_chars s"
  using assms
proof (induction cs arbitrary: s d line)
  case (Cons c cs)
  obtain s1 d1 where s1: "emit ops c (s, d) = Inr (s1, d1)" "tty_rel s1 (line @ [c], lines)" "disp d1"
    "tty_termios s1 = tty_termios s" "tty_read_line s1 = tty_read_line s" "tty_chars s1 = tty_chars s"
    using canonical_input_refines [OF Cons.prems(1-3), of c] Cons.prems(4-7) by auto
  from Cons.IH [OF s1(2,3)] Cons.prems s1(4) obtain s2 d2 where
    "kfold (emit ops) cs (s1, d1) = Inr (s2, d2)" "tty_rel s2 ((line @ [c]) @ cs, lines)" "disp d2"
    "tty_termios s2 = tty_termios s1" "tty_read_line s2 = tty_read_line s1" "tty_chars s2 = tty_chars s1" by auto
  then show ?case using s1 by simp
qed auto

end

section \<open>Reading a line\<close>

lemma read_line_loop_rel:
  "str_rel l cs \<Longrightarrow> \<exists>l'. read_line_loop n l buffer = Inr (buffer @ take n cs, l') \<and> str_rel l' (drop n cs)"
proof (induction n arbitrary: l cs buffer)
  case (Suc n)
  show ?case
  proof (cases cs)
    case Nil
    then show ?thesis using Suc.prems str_rel_size(2) [OF Suc.prems] by simp
  next
    case (Cons c cs')
    then obtain l1 where l1: "string_erase l 0 = Inr l1" "str_rel l1 cs'"
      using string_erase_front_rel Suc.prems by blast
    have "string_front l = Inr c" "\<not> string_is_empty l"
      using string_front_rel Suc.prems str_rel_size(2) [OF Suc.prems] Cons by auto
    then show ?thesis using Suc.IH [OF l1(2), of "buffer @ [c]"] l1(1) Cons by simp
  qed
qed simp

lemma tty_read_rel:
  assumes "tty_rel s (line, l # lines)" "lflag (tty_termios s) ICANON" "str_rel (tty_read_line s) []"
  shows "\<exists>s'. tty_read n s = Some (Inr (take n l, s')) \<and> tty_rel s' (line, lines) \<and>
    str_rel (tty_read_line s') (drop n l) \<and> tty_termios s' = tty_termios s"
proof -
  obtain k ks where q: "klist_rel (tty_lines s) (k # ks)" "str_rel k l" "list_all2 str_rel ks lines"
    using assms(1) by (auto simp: tty_rel_def list_all2_Cons2)
  obtain q' where q': "srmw_get (tty_lines s) = Inr (k, q')" "klist_rel q' ks" using srmw.get_law [OF q(1)] by blast
  obtain k' where k': "read_line_loop n k [] = Inr (take n l, k')" "str_rel k' (drop n l)"
    using read_line_loop_rel [OF q(2), of n "[]"] by auto
  have "\<not> srmw_empty (tty_lines s)" "string_is_empty (tty_read_line s)"
    using srmw.empty_law [OF q(1)] str_rel_size(2) [OF assms(3)] by simp_all
  then show ?thesis
    using assms(1,2) q' k' q(3) by (auto simp: tty_read_def canonical_read_def tty_rel_def)
qed

section \<open>Leaving the canonical mode\<close>

definition good_line :: "u8 list \<Rightarrow> bool" where
  "good_line l = (l \<noteq> [] \<and> 0 \<notin> set l \<and> length l < 2 ^ 31 - 1)"

lemma copy_line_rel:
  assumes "str_rel k l" "good_line l"
  shows "\<exists>k'. kbind (string_c_str k) string_make = Inr k' \<and> str_rel k' l"
proof -
  have "\<not> vec_null k" using assms by (auto simp: str_rel_def vec_rel_not_null good_line_def)
  moreover have "takeWhile (\<lambda>c. c \<noteq> 0) l = l" using assms(2) by (auto simp: good_line_def)
  ultimately have "string_c_str k = Inr l" using string_c_str_rel [OF assms(1)] by simp
  then show ?thesis using string_make_rel [of l] assms(2) by (auto simp: good_line_def)
qed

lemma drain_lines_rel:
  assumes "klist_rel q ks" "list_all2 str_rel ks lines" "list_all good_line lines" "list_all2 str_rel acc done_lines"
  shows "\<exists>ks' q'. drain_lines q acc = Some (Inr (ks', q')) \<and> list_all2 str_rel ks' (done_lines @ lines) \<and> klist_rel q' []"
  using assms
proof (induction lines arbitrary: q ks acc done_lines)
  case Nil
  then have e: "klist_rel q []" by simp
  then have "drain_lines q acc = Some (Inr (acc, q))"
    using srmw.empty_law [OF e] by (subst drain_lines.simps) simp
  then show ?case using e Nil.prems(4) by simp
next
  case (Cons l lines)
  from Cons.prems(2) obtain k ks1 where k: "ks = k # ks1" "str_rel k l" "list_all2 str_rel ks1 lines"
    by (auto simp: list_all2_Cons2)
  obtain q1 where q1: "srmw_get q = Inr (k, q1)" "klist_rel q1 ks1" using srmw.get_law [of q k ks1] Cons.prems(1) k(1) by blast
  obtain k' where k': "kbind (string_c_str k) string_make = Inr k'" "str_rel k' l"
    using copy_line_rel [OF k(2)] Cons.prems(3) by auto
  have "drain_lines q acc = drain_lines q1 (acc @ [k'])"
    using srmw.empty_law [OF Cons.prems(1)] k(1) q1(1) k'(1) by (subst drain_lines.simps) simp
  moreover have "list_all2 str_rel (acc @ [k']) (done_lines @ [l])" using Cons.prems(4) k'(2) by (simp add: list_all2_appendI)
  ultimately show ?case
    using Cons.IH [OF q1(2) k(3), of "acc @ [k']" "done_lines @ [l]"] Cons.prems(3) by simp
qed

lemma cb_push_capacity: "cb_push b x = Inr b' \<Longrightarrow> cb_capacity b' = cb_capacity b"
  by (auto simp: cb_push_def Let_def split: if_splits)

lemma cb_push_all_capacity: "kfold (\<lambda>c b. cb_push b c) cs b = Inr b' \<Longrightarrow> cb_capacity b' = cb_capacity b"
  by (induction cs arbitrary: b) (auto simp: kbind_Inr_iff dest!: cb_push_capacity)

lemma push_lines_rel:
  assumes "list_all2 str_rel ks lines" "cb_rel b xs" "length xs + length (concat lines) \<le> cb_capacity b"
  shows "\<exists>b'. kfold push_line_chars ks b = Inr b' \<and> cb_rel b' (xs @ concat lines)"
  using assms
proof (induction ks lines arbitrary: b xs rule: list_all2_induct)
  case (Cons k ks l lines)
  have "cb_fits b (length l)" using Cons.prems by (simp add: cb_fits_def cb_rel_def)
  then obtain b1 where b1: "kfold (\<lambda>c b. cb_push b c) l b = Inr b1" "cb_rel b1 (xs @ l)"
    using ring.put_all [OF Cons.prems(1), of l] by blast
  have cap: "cb_capacity b1 = cb_capacity b" by (rule cb_push_all_capacity [OF b1(1)])
  have "push_line_chars k b = Inr b1" using string_chars_rel [OF Cons.hyps(1)] b1(1) by (simp add: push_line_chars_def)
  then show ?case using Cons.IH [OF b1(2)] Cons.prems(2) cap by simp
qed simp

lemma cb_pop_capacity: "cb_pop b = Inr (x, b') \<Longrightarrow> cb_capacity b' = cb_capacity b"
  by (auto simp: cb_pop_def Let_def kbind_Inr_iff split: if_splits)

lemma get_n_capacity: "get_n cb_pop n b = Inr (xs, b') \<Longrightarrow> cb_capacity b' = cb_capacity b"
  by (induction n arbitrary: b xs b') (auto simp: kbind_Inr_iff dest!: cb_pop_capacity)

lemma empty_char_buffer_rel:
  assumes "cb_rel (tty_chars s) xs"
  shows "\<exists>b. empty_char_buffer s = Inr (s\<lparr>tty_chars := b\<rparr>) \<and> cb_rel b [] \<and> cb_capacity b = cb_capacity (tty_chars s)"
proof -
  have "cb_size (tty_chars s) = length xs" using assms by (simp add: cb_rel_def)
  moreover obtain b where b: "get_n cb_pop (length xs) (tty_chars s) = Inr (xs, b)" "cb_rel b []"
    using ring.get_all [of "tty_chars s" xs "[]"] assms by auto
  ultimately show ?thesis using get_n_capacity [OF b(1)] by (intro exI [of _ b]) (simp add: empty_char_buffer_def)
qed

lemma lines_to_chars_rel:
  assumes r: "tty_rel s (line, lines)" and "cb_rel (tty_chars s) xs" and good: "list_all good_line lines"
    and line: "line = [] \<or> good_line line"
    and fits: "length (concat lines) + length line \<le> cb_capacity (tty_chars s)"
  shows "\<exists>s'. lines_to_chars s = Some (Inr s') \<and> tty_rel s' ([], []) \<and> tty_termios s' = tty_termios s \<and>
    cb_rel (tty_chars s') (line @ concat (rev lines))"
proof -
  obtain ls where ls: "str_rel (tty_input_line s) line" "klist_rel (tty_lines s) ls" "list_all2 str_rel ls lines"
    using r by (auto simp: tty_rel_def)
  obtain ks q where ks: "drain_lines (tty_lines s) [] = Some (Inr (ks, q))" "list_all2 str_rel ks lines" "klist_rel q []"
    using drain_lines_rel [OF ls(2,3) good, of "[]" "[]"] by auto
  let ?e = "string_is_empty (tty_input_line s)"
  have e: "?e = (line = [])" using str_rel_size(2) [OF ls(1)] .
  let ?all = "lines @ (if line = [] then [] else [line])"
  obtain ks2 where ks2: "(if ?e then Inr ks else kbind (string_c_str (tty_input_line s)) (\<lambda>cs.
      kbind (string_make cs) (\<lambda>line. Inr (ks @ [line])))) = Inr ks2" "list_all2 str_rel ks2 ?all"
  proof (cases ?e)
    case True
    then show thesis using that [of ks] ks(2) e by simp
  next
    case False
    then obtain k where k: "kbind (string_c_str (tty_input_line s)) string_make = Inr k" "str_rel k line"
      using copy_line_rel [OF ls(1)] line e by auto
    then have "kbind (string_c_str (tty_input_line s)) (\<lambda>cs. kbind (string_make cs) (\<lambda>line. Inr (ks @ [line]))) = Inr (ks @ [k])"
      by (auto simp: kbind_Inr_iff)
    then show thesis using that [of "ks @ [k]"] False e ks(2) k(2) by (simp add: list_all2_appendI)
  qed
  let ?s = "s\<lparr>tty_lines := q, tty_input_line := (if ?e then tty_input_line s else string_empty)\<rparr>"
  have "cb_rel (tty_chars ?s) xs" using assms(2) by simp
  then obtain b where b: "empty_char_buffer ?s = Inr (?s\<lparr>tty_chars := b\<rparr>)" "cb_rel b []"
    "cb_capacity b = cb_capacity (tty_chars s)" using empty_char_buffer_rel [of ?s xs] by auto
  have "list_all2 str_rel (rev ks2) (rev ?all)" using ks2(2) by (simp only: list_all2_rev)
  moreover have "length (concat (rev ?all)) \<le> cb_capacity b" using fits b(3) by (auto simp: length_concat rev_map [symmetric])
  ultimately obtain b' where b': "kfold push_line_chars (rev ks2) b = Inr b'" "cb_rel b' (concat (rev ?all))"
    using push_lines_rel [of "rev ks2" "rev ?all" b "[]"] b(2) by auto
  have "lines_to_chars s = Some (Inr (?s\<lparr>tty_chars := b'\<rparr>))"
    unfolding lines_to_chars_def ks(1) using ks2(1) b(1) b'(1) by (simp add: Let_def)
  moreover have "concat (rev ?all) = line @ concat (rev lines)" by simp
  moreover have "tty_rel (?s\<lparr>tty_chars := b'\<rparr>) ([], [])" using ls(1) ks(3) e str_rel_empty by (auto simp: tty_rel_def)
  ultimately show ?thesis using b'(2) by auto
qed

end
