(* ===== verification/VirtualConsole.thy ===== *)
theory VirtualConsole
  imports TTYSpec
begin

text \<open>
  \<open>include/tty/VirtualConsole.hpp\<close>: a TTY whose display is a terminal and whose input comes from the
  keyboard. This is where the keyboard, the line discipline, the terminal and the console meet.
\<close>

section \<open>The device\<close>

text \<open>
  The controlling process is its number; \<open>vc_signals\<close> lists the calls of \<open>send_signal\<close>.
\<close>

record 'c virtual_console =
  vc_tty :: tty
  vc_term :: "'c terminal"
  vc_process :: "nat option"
  vc_signals :: "(nat \<times> nat) list"

definition SIGINT :: nat where "SIGINT = 9"

definition vc_ops :: "'c console_ops \<Rightarrow> 'c terminal tty_ops" where
  "vc_ops ops = \<lparr>to_echo = echo ops, to_unecho = unecho ops\<rparr>"

definition vc_new :: "'c console_ops \<Rightarrow> 'c \<Rightarrow> 'c virtual_console" where
  "vc_new ops c = \<lparr>vc_tty = tty_new, vc_term = terminal_new ops c, vc_process = None, vc_signals = []\<rparr>"

definition set_controlling_process :: "nat option \<Rightarrow> 'c virtual_console \<Rightarrow> 'c virtual_console" where
  "set_controlling_process p v = v\<lparr>vc_process := p\<rparr>"

definition handle_key_event :: "'c console_ops \<Rightarrow> key_event_t \<Rightarrow> 'c virtual_console \<Rightarrow> 'c virtual_console kres" where
  "handle_key_event ops event v =
     (if ev_key event = Key_C \<and> ev_modifiers event AND NOT CapsLock = Pressed OR Control
      then case vc_process v of
             None \<Rightarrow> Inr v
           | Some p \<Rightarrow> Inr (v\<lparr>vc_signals := vc_signals v @ [(p, SIGINT)]\<rparr>)
      else kbind (parse_key_event event) (\<lambda>result.
           kbind (string_chars result) (\<lambda>cs.
           kbind (kfold (emit (vc_ops ops)) cs (vc_tty v, vc_term v)) (\<lambda>(s, t).
             Inr (v\<lparr>vc_tty := s, vc_term := t\<rparr>)))))"

text \<open>
  The listeners of the keyboard are called from the queue of deferred calls, after the interrupt: each
  deferred call runs through the list of listeners. Only \<open>VirtualConsole::initialize\<close> registers a
  listener, always the current console, so that every entry of the list is this console.
\<close>

definition process_deferred_queue :: "'c console_ops \<Rightarrow> ps2_keyboard \<times> 'c virtual_console \<Rightarrow> (ps2_keyboard \<times> 'c virtual_console) kres" where
  "process_deferred_queue ops kv =
     (let (k, v) = kv
      in kbind (kfold (\<lambda>event. kfold (\<lambda>_. handle_key_event ops event) [0..<kb_listeners k]) (kb_deferred k) v) (\<lambda>v. Inr (k\<lparr>kb_deferred := []\<rparr>, v)))"

section \<open>The terminal as the display of a TTY\<close>

context console
begin

lemma unecho_move_safe:
  assumes "term_ok ops inv t" "cur_row cursor < t_height ops t" "cur_column cursor < t_width ops t"
  shows "safe ops inv (kbind (on_console (\<lambda>c. co_set_cursor ops c (cur_row cursor) (cur_column cursor)) (t\<lparr>t_cursor := cursor\<rparr>))
    (on_console (\<lambda>c. co_write_char ops c (cur_row cursor) (cur_column cursor) 32))) t"
proof -
  let ?t = "t\<lparr>t_cursor := cursor\<rparr>"
  have ok: "term_ok ops inv ?t" "same_rest ops t ?t"
    using assms by (simp_all add: term_ok_def same_rest_def cursor_ok_def t_width_def t_height_def)
  have "safe ops inv (kbind (on_console (\<lambda>c. co_set_cursor ops c (cur_row cursor) (cur_column cursor)) ?t)
      (on_console (\<lambda>c. co_write_char ops c (cur_row cursor) (cur_column cursor) 32))) ?t"
  proof (rule safe_bind)
    show "safe ops inv (on_console (\<lambda>c. co_set_cursor ops c (cur_row cursor) (cur_column cursor)) ?t) ?t"
      using ok(1) assms set_cursor_law
      by (intro on_console_safe) (simp_all add: console_step_def term_ok_def t_width_def t_height_def)
    fix t1 assume t1: "term_ok ops inv t1" "same_rest ops ?t t1"
    then show "safe ops inv (on_console (\<lambda>c. co_write_char ops c (cur_row cursor) (cur_column cursor) 32) t1) t1"
      using assms write_char_law [of "t_console t1" "cur_row cursor" "cur_column cursor" 32]
      by (intro on_console_safe) (simp_all add: console_step_def term_ok_def same_rest_def t_width_def t_height_def)
  qed
  then show ?thesis by (rule safe_cong [OF _ ok(2)])
qed

lemma safe_if: "(P \<Longrightarrow> safe ops inv a t) \<Longrightarrow> (\<not> P \<Longrightarrow> safe ops inv b t) \<Longrightarrow> safe ops inv (if P then a else b) t"
  by simp

lemma unecho_safe:
  assumes "term_ok ops inv t"
  shows "safe ops inv (unecho ops t) t"
  unfolding unecho_def
proof (rule safe_bind)
  show "safe ops inv (on_console (\<lambda>c. co_write_char ops c (cur_row (t_cursor t)) (cur_column (t_cursor t)) 32) t) t"
    using assms write_char_law cursor_in [OF assms]
    by (intro on_console_safe) (simp_all add: console_step_def term_ok_def t_width_def t_height_def)
  fix t1 assume t1: "term_ok ops inv t1"
  note b = cursor_in [OF t1] size_pos [OF t1]
  show "safe ops inv (let cursor = t_cursor t1;
         finish = (\<lambda>cursor.
           kbind (on_console (\<lambda>c. co_set_cursor ops c (cur_row cursor) (cur_column cursor)) (t1\<lparr>t_cursor := cursor\<rparr>))
             (on_console (\<lambda>c. co_write_char ops c (cur_row cursor) (cur_column cursor) 32)))
     in if cur_column cursor = 0
        then if cur_row cursor = 0 then Inr t1
             else finish (cursor\<lparr>cur_column := t_width ops t1 - 1, cur_row := cur_row cursor - 1\<rparr>)
        else finish (cursor\<lparr>cur_column := cur_column cursor - 1\<rparr>)) t1"
    unfolding Let_def
    by (intro safe_if unecho_move_safe [OF t1])
      (use t1 b word_pred_less order_less_trans [OF word_pred_less] in \<open>auto simp: word_neq_0_conv\<close>)
qed

end

definition term_disp :: "framebuffer_console terminal \<Rightarrow> bool" where
  "term_disp t = (term_ok fb_ops fb_inv t \<and> t_state t = SeqNone)"

interpretation vc: tty_display "vc_ops fb_ops" term_disp
proof
  fix t :: "framebuffer_console terminal" and ch :: u8
  show "\<exists>t'. to_echo (vc_ops fb_ops) ch t = Inr t' \<and> term_disp t'" if "term_disp t" "ch \<noteq> 27"
    using that fb_console.echo_text_safe [of t ch] by (auto simp: term_disp_def vc_ops_def safe_def same_rest_def)
  show "\<exists>t'. to_unecho (vc_ops fb_ops) t = Inr t' \<and> term_disp t'" if "term_disp t"
    using that fb_console.unecho_safe [of t] by (auto simp: term_disp_def vc_ops_def safe_def same_rest_def)
qed

section \<open>Properties of the line discipline on the terminal\<close>

lemma wide_disp: "term_disp wide_terminal"
  using wide_terminal_ok wide_terminal_fields(2) by (simp add: term_disp_def)

text \<open>
  C9. In canonical mode the handling of a typed character implements the abstract line discipline on
  lists: it appends to the line, erases its last character, kills it, or hands it to the queue of
  finished lines, while the terminal shows it without a fault. NUL and ESC and an end-of-file on an
  empty line are excluded.
\<close>

theorem line_discipline_refines:
  assumes "tty_rel s (line, lines)" "term_disp t" "lflag (tty_termios s) ICANON"
    and "ch \<noteq> 0" "ch \<noteq> 27" "0 \<notin> set line" "length line < 2 ^ 31 - 2" "is_cc (tty_termios s) VEOF ch \<longrightarrow> line \<noteq> []"
  shows "\<exists>s' t'. emit (vc_ops fb_ops) ch (s, t) = Inr (s', t') \<and>
    tty_rel s' (ld_input (tty_termios s) ch (line, lines)) \<and> term_disp t' \<and> tty_termios s' = tty_termios s"
  using vc.canonical_input_refines [OF assms] by blast

lemma canonical_new: "lflag (tty_termios tty_new) ICANON" "tty_termios tty_new = reset_termios"
  by (simp_all add: tty_new_def reset_termios_def lflag_def termios_defs)

theorem line_discipline_refines_witness:
  "\<exists>s t. emit (vc_ops fb_ops) 104 (tty_new, wide_terminal) = Inr (s, t) \<and> tty_rel s ([104], []) \<and> term_disp t"
proof -
  have "ld_input reset_termios 104 ([], []) = ([104], [])" by code_simp
  moreover have "\<not> is_cc reset_termios VEOF 104" by code_simp
  ultimately show ?thesis
    using line_discipline_refines [OF tty_rel_new wide_disp canonical_new(1), of 104] canonical_new(2) by auto
qed

text \<open>
  The end-of-file character on a fresh line stops the kernel: the line has no array yet, its C
  string is the null pointer, and the constructor of the copy reads through it.
\<close>

theorem eof_on_fresh_line_faults:
  assumes "tty_input_line s = string_empty" "lflag (tty_termios s) ICANON" "is_cc (tty_termios s) VEOF ch"
  shows "emit ops ch (s, d) = Inl NullDeref"
  using assms
  by (simp add: emit_def canonical_input_def put_line_def string_c_str_def string_empty_def vector_empty_def)

theorem eof_on_fresh_line_faults_witness: "emit (vc_ops fb_ops) 4 (tty_new, wide_terminal) = Inl NullDeref"
proof -
  have "is_cc (tty_termios tty_new) VEOF 4" unfolding canonical_new(2) by code_simp
  moreover have "tty_input_line tty_new = string_empty" by (simp add: tty_new_def)
  ultimately show ?thesis using canonical_new(1) by (intro eof_on_fresh_line_faults)
qed

text \<open>
  Leaving the canonical mode hands the lines that were typed but not read to the character buffer
  in reverse order: the unfinished line first, then the last finished line, the first line last.
\<close>

theorem leaving_canonical_reverses:
  assumes "tty_rel s (line, lines)" "lflag (tty_termios s) ICANON" "\<not> lflag tm ICANON" "cb_rel (tty_chars s) xs"
    and "list_all good_line lines" "line = [] \<or> good_line line"
    and "length (concat lines) + length line \<le> cb_capacity (tty_chars s)"
  shows "\<exists>s'. set_termios tm s = Some (Inr s') \<and> tty_rel s' ([], []) \<and>
    cb_rel (tty_chars s') (line @ concat (rev lines))"
proof -
  let ?s = "s\<lparr>tty_termios := tm\<rparr>"
  have "tty_rel ?s (line, lines)" "cb_rel (tty_chars ?s) xs" "cb_capacity (tty_chars ?s) = cb_capacity (tty_chars s)"
    using assms(1,4) by (simp_all add: tty_rel_def)
  moreover have "set_termios tm s = lines_to_chars ?s"
    using assms(2,3) by (auto simp: set_termios_def switch_buffers_def lflag_def)
  ultimately show ?thesis using lines_to_chars_rel [of ?s line lines xs] assms(5-7) by auto
qed

lemma default_cc:
  "\<not> is_cc reset_termios VEOF 97" "\<not> is_cc reset_termios VEOF 98" "\<not> is_cc reset_termios VEOF 10"
  by code_simp+

lemma default_ld:
  "ld_input reset_termios 97 ([], ls) = ([97], ls)" "ld_input reset_termios 98 ([], ls) = ([98], ls)"
  "ld_input reset_termios 10 (l, ls) = ([], ls @ [l @ [10]])"
  using default_cc by (simp_all add: ld_input_def is_cc_def reset_termios_def termios_defs int_of_char_def)

text \<open>Typing two lines.\<close>

lemma two_lines_typed:
  "\<exists>s t. kfold (emit (vc_ops fb_ops)) [97, 10, 98, 10] (tty_new, wide_terminal) = Inr (s, t) \<and>
     tty_rel s ([], [[97, 10], [98, 10]]) \<and> tty_termios s = reset_termios \<and> tty_chars s = cb_new 4096"
proof -
  note step = vc.canonical_input_refines
  obtain s1 t1 where s1: "emit (vc_ops fb_ops) 97 (tty_new, wide_terminal) = Inr (s1, t1)" "tty_rel s1 ([97], [])"
    "term_disp t1" "tty_termios s1 = reset_termios" "tty_chars s1 = tty_chars tty_new"
    using step [OF tty_rel_new wide_disp canonical_new(1), of 97] by (auto simp: canonical_new default_cc default_ld)
  have c: "lflag reset_termios ICANON" using canonical_new by simp
  obtain s2 t2 where s2: "emit (vc_ops fb_ops) 10 (s1, t1) = Inr (s2, t2)" "tty_rel s2 ([], [[97, 10]])"
    "term_disp t2" "tty_termios s2 = reset_termios" "tty_chars s2 = tty_chars s1"
    using step [OF s1(2,3), of 10] c s1(4) by (auto simp: default_cc default_ld)
  obtain s3 t3 where s3: "emit (vc_ops fb_ops) 98 (s2, t2) = Inr (s3, t3)" "tty_rel s3 ([98], [[97, 10]])"
    "term_disp t3" "tty_termios s3 = reset_termios" "tty_chars s3 = tty_chars s2"
    using step [OF s2(2,3), of 98] c s2(4) by (auto simp: default_cc default_ld)
  obtain s4 t4 where "emit (vc_ops fb_ops) 10 (s3, t3) = Inr (s4, t4)" "tty_rel s4 ([], [[97, 10], [98, 10]])"
    "tty_termios s4 = reset_termios" "tty_chars s4 = tty_chars s3"
    using step [OF s3(2,3), of 10] c s3(4) by (auto simp: default_cc default_ld)
  then show ?thesis using s1 s2 s3 by (simp add: tty_new_def)
qed

theorem leaving_canonical_reverses_witness:
  "\<exists>s t s'. kfold (emit (vc_ops fb_ops)) [97, 10, 98, 10] (tty_new, wide_terminal) = Inr (s, t) \<and>
     set_termios (reset_termios\<lparr>c_lflag := 0\<rparr>) s = Some (Inr s') \<and> cb_rel (tty_chars s') [98, 10, 97, 10]"
proof -
  obtain s t where s: "kfold (emit (vc_ops fb_ops)) [97, 10, 98, 10] (tty_new, wide_terminal) = Inr (s, t)"
    "tty_rel s ([], [[97, 10], [98, 10]])" "tty_termios s = reset_termios" "tty_chars s = cb_new 4096"
    using two_lines_typed by blast
  have "lflag (tty_termios s) ICANON" "\<not> lflag (reset_termios\<lparr>c_lflag := 0\<rparr>) ICANON"
    using s(3) canonical_new by (simp_all add: lflag_def)
  moreover have "cb_rel (tty_chars s) []" unfolding s(4) by (rule cb_rel_new) simp
  moreover have "list_all good_line [[97, 10], [98, 10]]" by (simp add: good_line_def)
  ultimately have "\<exists>s'. set_termios (reset_termios\<lparr>c_lflag := 0\<rparr>) s = Some (Inr s') \<and> tty_rel s' ([], []) \<and>
      cb_rel (tty_chars s') ([] @ concat (rev [[97, 10], [98, 10]]))"
    using s(2,4) by (intro leaving_canonical_reverses) (simp_all add: cb_new_def)
  then show ?thesis using s(1) by auto
qed

section \<open>Keys\<close>

text \<open>Key events that give one character: pressed, not an arrow, and not the interrupt combination.\<close>

definition plain_key :: "key_event_t \<Rightarrow> bool" where
  "plain_key e = (ev_modifiers e AND Pressed \<noteq> 0 \<and> ev_modifiers e AND Control = 0 \<and>
     ev_key e \<notin> {Key_Up, Key_Down, Key_Left, Key_Right} \<and> ev_code_point e \<noteq> 0)"

lemma plain_key_event:
  assumes "plain_key e"
  shows "handle_key_event ops e v =
    kbind (emit (vc_ops ops) (ev_code_point e) (vc_tty v, vc_term v)) (\<lambda>(s, t). Inr (v\<lparr>vc_tty := s, vc_term := t\<rparr>))"
proof -
  have "\<not> ev_modifiers e AND NOT CapsLock = Pressed OR Control"
  proof
    assume eq: "ev_modifiers e AND NOT CapsLock = Pressed OR Control"
    have "bit (ev_modifiers e AND NOT CapsLock) 1" unfolding eq by code_simp
    then have "bit (ev_modifiers e) 1" by (simp add: bit_and_iff)
    moreover have "bit Control 1" by code_simp
    ultimately have "bit (ev_modifiers e AND Control) 1" by (simp only: bit_and_iff simp_thms)
    then show False using assms by (simp add: plain_key_def)
  qed
  moreover obtain l where "string_push_back string_empty (ev_code_point e) = Inr l" "str_rel l [ev_code_point e]"
    using string_push_back_rel [OF str_rel_empty, of "ev_code_point e"] by auto
  moreover from this have "string_chars l = Inr [ev_code_point e]" using string_chars_rel by blast
  ultimately show ?thesis
    using assms by (simp add: handle_key_event_def parse_key_event_def plain_key_def kfold_single del: kfold.simps)
qed

lemma plain_key_events:
  "list_all plain_key es \<Longrightarrow> kfold (handle_key_event ops) es v =
     kbind (kfold (emit (vc_ops ops)) (map ev_code_point es) (vc_tty v, vc_term v)) (\<lambda>(s, t). Inr (v\<lparr>vc_tty := s, vc_term := t\<rparr>))"
proof (induction es arbitrary: v)
  case (Cons e es)
  then show ?case
    by (cases "emit (vc_ops ops) (ev_code_point e) (vc_tty v, vc_term v)") (auto simp: plain_key_event)
qed simp

text \<open>A printable character has no special meaning with the default settings.\<close>

lemma printable_ordinary:
  assumes "printable ch"
  shows "ch \<noteq> 0" "ch \<noteq> 27" "\<not> is_cc reset_termios VEOF ch" "ld_input reset_termios ch = (\<lambda>(line, lines). (line @ [ch], lines))"
proof -
  note ch = printable_uint [OF assms]
  show ne: "ch \<noteq> 0" "ch \<noteq> 27" using ch by auto
  have "is_cc tm i ch \<longleftrightarrow> ch = c_cc tm ! i" for tm i
  proof -
    have "is_cc tm i ch \<longleftrightarrow> uint (int_of_char ch) = uint (ucast (c_cc tm ! i) :: u32)"
      unfolding is_cc_def by (rule word_eq_iff_unsigned)
    also have "uint (ucast (c_cc tm ! i) :: u32) = uint (c_cc tm ! i)"
      by (rule uint_up_ucast) (simp add: is_up_def source_size_def target_size_def word_size)
    finally show ?thesis using ch uint_of_char [of ch] by (simp add: word_uint_eq_iff [of ch])
  qed
  moreover have "ch \<noteq> 10" "ch \<noteq> 4" "ch \<noteq> 127" "ch \<noteq> 21" using ch by auto
  ultimately show "\<not> is_cc reset_termios VEOF ch" "ld_input reset_termios ch = (\<lambda>(line, lines). (line @ [ch], lines))"
    using ne by (auto simp: fun_eq_iff ld_input_def reset_termios_def termios_defs)
qed

lemma enter_key:
  assumes "tty_rel s (line, lines)" "term_disp t" "tty_termios s = reset_termios" "0 \<notin> set line" "length line < 2 ^ 31 - 2"
  shows "\<exists>s' t'. emit (vc_ops fb_ops) 10 (s, t) = Inr (s', t') \<and> tty_rel s' ([], lines @ [line @ [10]]) \<and> term_disp t' \<and>
    tty_termios s' = reset_termios \<and> tty_read_line s' = tty_read_line s"
  using vc.canonical_input_refines [OF assms(1,2), of 10] canonical_new assms(3-5) by (auto simp: default_cc default_ld)

text \<open>Typing a line on the keys and pressing return.\<close>

lemma typed_line:
  assumes v: "tty_rel (vc_tty v) ([], [])" "term_disp (vc_term v)" "tty_termios (vc_tty v) = reset_termios"
    "str_rel (tty_read_line (vc_tty v)) []"
    and es: "list_all plain_key es" "list_all (\<lambda>e. printable (ev_code_point e)) es" "length es < 2 ^ 31 - 2"
    and ret: "plain_key ret" "ev_code_point ret = 10"
  shows "\<exists>v' s'. kfold (handle_key_event fb_ops) (es @ [ret]) v = Inr v' \<and>
    tty_read n (vc_tty v') = Some (Inr (take n (map ev_code_point es @ [10]), s'))"
proof -
  let ?cs = "map ev_code_point es"
  have ord: "\<forall>ch\<in>set ?cs. ch \<noteq> 0 \<and> ch \<noteq> 27 \<and> ld_input reset_termios ch = (\<lambda>(line, lines). (line @ [ch], lines))"
    "\<forall>ch\<in>set ?cs. \<not> is_cc reset_termios VEOF ch" "0 \<notin> set ?cs"
    using es(2) printable_ordinary by (auto simp: list_all_iff)
  obtain s1 t1 where s1: "kfold (emit (vc_ops fb_ops)) ?cs (vc_tty v, vc_term v) = Inr (s1, t1)"
    "tty_rel s1 (?cs, [])" "term_disp t1" "tty_termios s1 = reset_termios" "tty_read_line s1 = tty_read_line (vc_tty v)"
    using vc.type_ordinary [OF v(1,2), of ?cs] v(3) canonical_new ord es(3) by auto
  obtain s2 t2 where s2: "emit (vc_ops fb_ops) 10 (s1, t1) = Inr (s2, t2)" "tty_rel s2 ([], [?cs @ [10]])"
    "tty_termios s2 = reset_termios" "tty_read_line s2 = tty_read_line s1"
    using enter_key [OF s1(2,3,4) ord(3)] es(3) by auto
  have "list_all plain_key (es @ [ret])" using es(1) ret(1) by simp
  then have "kfold (handle_key_event fb_ops) (es @ [ret]) v = Inr (v\<lparr>vc_tty := s2, vc_term := t2\<rparr>)"
    using s1(1) s2(1) ret(2) by (simp add: plain_key_events plain_key_event kfold_append kfold_single del: kfold.simps)
  moreover obtain s3 where "tty_read n s2 = Some (Inr (take n (?cs @ [10]), s3))"
    using tty_read_rel [OF s2(2), of n] s2(3,4) s1(5) v(4) canonical_new by auto
  ultimately show ?thesis by auto
qed

end
