(* ===== verification/PMM.thy ===== *)
theory PMM
  imports KMath
begin

text \<open>
  \<open>memory/PhysicalMemoryManager.cpp\<close> and \<open>memory/MultibootMap.cpp\<close>: the allocator of physical pages.
  Eight bitmaps describe the memory in pages of 4 KiB, 8 KiB and so on up to 512 KiB; a set bit is a
  page that is not free. The spin lock is free before and after every operation.
\<close>

definition PAGE_SIZE :: u32 where
  "PAGE_SIZE = 0x1000"

section \<open>The memory map\<close>

text \<open>The type of a region is the value the boot loader gives; only \<open>Available\<close> is looked at.\<close>

type_synonym MultibootRegionType = u8

definition Available :: MultibootRegionType where
  "Available = 1"

record map_region_t =
  mr_base_address :: u64
  mr_length :: u64
  mr_type :: MultibootRegionType

record multiboot_info =
  mi_flags :: u32
  mi_mmap :: "map_region_t list"

definition MULTIBOOT_INFO_MEM_MAP :: u32 where
  "MULTIBOOT_INFO_MEM_MAP = 0x40"

record multiboot_map =
  mm_entries :: "map_region_t list"
  mm_mem_size :: u64
  mm_usable_mem_size :: u64

text \<open>The entries of the boot loader, in their order.\<close>

definition load_entry :: "map_region_t \<Rightarrow> multiboot_map \<Rightarrow> multiboot_map" where
  "load_entry region m =
     (let region_top = mr_base_address region + mr_length region;
          m = (if mm_mem_size m < region_top then m\<lparr>mm_mem_size := region_top\<rparr> else m);
          m = (if mr_type region = Available \<and> mm_usable_mem_size m < region_top
               then m\<lparr>mm_usable_mem_size := region_top\<rparr> else m)
      in m\<lparr>mm_entries := mm_entries m @ [region]\<rparr>)"

definition load_map :: "multiboot_info \<Rightarrow> multiboot_map \<Rightarrow> multiboot_map kres" where
  "load_map info m =
     kbind (kassert (mi_flags info AND MULTIBOOT_INFO_MEM_MAP \<noteq> 0)) (\<lambda>_.
       Inr (fold load_entry (mi_mmap info) (m\<lparr>mm_mem_size := 0, mm_usable_mem_size := 0\<rparr>)))"

section \<open>Bitmaps\<close>

text \<open>A bitmap is an array of double words; an index behind its end faults.\<close>

definition dword_at :: "nat \<Rightarrow> u32 list \<Rightarrow> u32 kres" where
  "dword_at i bm = (if i < length bm then Inr (bm ! i) else Inl BadAccess)"

definition dword_put :: "nat \<Rightarrow> u32 \<Rightarrow> u32 list \<Rightarrow> u32 list kres" where
  "dword_put i w bm = (if i < length bm then Inr (bm[i := w]) else Inl BadAccess)"

definition set_bit :: "nat \<Rightarrow> u32 list \<Rightarrow> u32 list kres" where
  "set_bit b bm = kbind (dword_at (b div 32) bm) (\<lambda>w. dword_put (b div 32) (w OR push_bit (b mod 32) 1) bm)"

definition get_bit :: "nat \<Rightarrow> u32 list \<Rightarrow> bool kres" where
  "get_bit b bm = kbind (dword_at (b div 32) bm) (\<lambda>w. Inr (w AND push_bit (b mod 32) 1 \<noteq> 0))"

definition clear_bit :: "nat \<Rightarrow> u32 list \<Rightarrow> u32 list kres" where
  "clear_bit b bm = kbind (dword_at (b div 32) bm) (\<lambda>w. dword_put (b div 32) (w AND NOT (push_bit (b mod 32) 1)) bm)"

definition set_dword :: "nat \<Rightarrow> u32 list \<Rightarrow> u32 list kres" where
  "set_dword b bm = dword_put (b div 32) 0xFFFFFFFF bm"

definition get_dword :: "nat \<Rightarrow> u32 list \<Rightarrow> u32 kres" where
  "get_dword b bm = dword_at (b div 32) bm"

definition clear_dword :: "nat \<Rightarrow> u32 list \<Rightarrow> u32 list kres" where
  "clear_dword b bm = dword_put (b div 32) 0 bm"

text \<open>
  The loops over a span of bits, a double word at a time where that is possible. An index never wraps
  around: it leaves the bitmap first.
\<close>

function set_span :: "nat \<Rightarrow> nat \<Rightarrow> u32 list \<Rightarrow> u32 list kres" where
  "set_span i e bm =
     (if i \<le> e
      then if i mod 32 = 0 \<and> 32 \<le> e - i
           then kbind (set_dword i bm) (\<lambda>bm. set_span (i + 32) e bm)
           else kbind (set_bit i bm) (\<lambda>bm. set_span (i + 1) e bm)
      else Inr bm)"
  by pat_completeness auto
termination by (relation "measure (\<lambda>(i, e, bm). Suc e - i)") auto

function clear_span :: "nat \<Rightarrow> nat \<Rightarrow> u32 list \<Rightarrow> u32 list kres" where
  "clear_span i e bm =
     (if i \<le> e
      then if i mod 32 = 0 \<and> 32 \<le> e - i
           then kbind (clear_dword i bm) (\<lambda>bm. clear_span (i + 32) e bm)
           else kbind (clear_bit i bm) (\<lambda>bm. clear_span (i + 1) e bm)
      else Inr bm)"
  by pat_completeness auto
termination by (relation "measure (\<lambda>(i, e, bm). Suc e - i)") auto

text \<open>A page of the next size is freed when both its halves are free.\<close>

function merge_span :: "nat \<Rightarrow> nat \<Rightarrow> u32 list \<Rightarrow> u32 list \<Rightarrow> u32 list kres" where
  "merge_span j e lower bm =
     (if j \<le> e
      then kbind (if j mod 32 = 0 \<and> 32 \<le> e - j
                  then kbind (get_dword (j * 2) lower) (\<lambda>a.
                       if a = 0 then kbind (get_dword (j * 2 + 32) lower) (\<lambda>b. Inr (b = 0)) else Inr False)
                  else Inr False) (\<lambda>whole.
           if whole then kbind (clear_dword j bm) (\<lambda>bm. merge_span (j + 32) e lower bm)
           else kbind (get_bit (j * 2) lower) (\<lambda>a.
                kbind (if a then Inr True else get_bit (j * 2 + 1) lower) (\<lambda>used.
                kbind (if used then Inr bm else clear_bit j bm) (\<lambda>bm. merge_span (j + 1) e lower bm))))
      else Inr bm)"
  by pat_completeness auto
termination by (relation "measure (\<lambda>(j, e, lower, bm). Suc e - j)") auto

declare set_span.simps [simp del] clear_span.simps [simp del] merge_span.simps [simp del]

section \<open>The page allocator\<close>

record buddy_t =
  bd_page_size :: u32
  bd_page_count :: u32
  bd_last_alloc :: u32
  bd_bitmap :: "u32 list"

record pmm =
  pm_buddies :: "buddy_t list"
  pm_memory_map :: multiboot_map
  pm_available_memory :: u32
  pm_used_memory :: u32
  pm_explicit_used_memory :: u32

fun mark_used :: "nat \<Rightarrow> nat \<Rightarrow> buddy_t list \<Rightarrow> buddy_t list kres" where
  "mark_used span_begin span_end [] = Inr []"
| "mark_used span_begin span_end (b # bs) =
     kbind (set_span span_begin span_end (bd_bitmap b)) (\<lambda>bm.
     kbind (mark_used (span_begin div 2) (span_end div 2) bs) (\<lambda>bs. Inr (b\<lparr>bd_bitmap := bm\<rparr> # bs)))"

fun merge_levels :: "nat \<Rightarrow> nat \<Rightarrow> u32 list \<Rightarrow> buddy_t list \<Rightarrow> buddy_t list kres" where
  "merge_levels span_begin span_end lower [] = Inr []"
| "merge_levels span_begin span_end lower (b # bs) =
     kbind (merge_span (span_begin div 2) (span_end div 2) lower (bd_bitmap b)) (\<lambda>bm.
     kbind (merge_levels (span_begin div 2) (span_end div 2) bm bs) (\<lambda>bs. Inr (b\<lparr>bd_bitmap := bm\<rparr> # bs)))"

fun mark_free :: "nat \<Rightarrow> nat \<Rightarrow> buddy_t list \<Rightarrow> buddy_t list kres" where
  "mark_free span_begin span_end [] = Inr []"
| "mark_free span_begin span_end (b # bs) =
     kbind (clear_span span_begin span_end (bd_bitmap b)) (\<lambda>bm.
     kbind (merge_levels span_begin span_end bm bs) (\<lambda>bs. Inr (b\<lparr>bd_bitmap := bm\<rparr> # bs)))"

definition buddy_count :: nat where
  "buddy_count = 8"

fun find_buddy :: "u32 \<Rightarrow> nat \<Rightarrow> buddy_t list \<Rightarrow> nat" where
  "find_buddy sz i [] = buddy_count - 1"
| "find_buddy sz i (b # bs) = (if sz \<le> bd_page_size b then i else find_buddy sz (i + 1) bs)"

definition get_buddy :: "u32 \<Rightarrow> buddy_t list \<Rightarrow> nat" where
  "get_buddy sz bs = find_buddy sz 0 bs"

fun make_buddies :: "nat \<Rightarrow> u32 \<Rightarrow> u32 \<Rightarrow> buddy_t list" where
  "make_buddies 0 page_count page_size = []"
| "make_buddies (Suc n) page_count page_size =
     \<lparr>bd_page_size = page_size, bd_page_count = page_count, bd_last_alloc = 0,
      bd_bitmap = replicate (unat ((page_count + 32 - 1) div 32)) 0xFFFFFFFF\<rparr> #
     make_buddies n (page_count div 2) (page_size * 2)"

text \<open>
  \<open>init\<close>: \<open>phys_addr\<close> and \<open>kernel_size\<close> are the physical address and the size of the kernel image, which
  the linker defines.
\<close>

definition free_region :: "map_region_t \<Rightarrow> pmm \<Rightarrow> pmm kres" where
  "free_region region p =
     (if mr_type region = Available
      then let first = ucast (mr_base_address region div 0x1000) :: u32;
               final = ucast ((mr_base_address region + mr_length region + 0x1000 - 1) div 0x1000 - 1) :: u32
           in kbind (mark_free (unat first) (unat final) (pm_buddies p)) (\<lambda>bs.
                Inr (p\<lparr>pm_buddies := bs, pm_used_memory := pm_used_memory p - (final - first + 1) * PAGE_SIZE\<rparr>))
      else Inr p)"

definition pmm_fresh :: "multiboot_map \<Rightarrow> pmm" where
  "pmm_fresh m =
     (let usable = ucast (mm_usable_mem_size m);
          page_count = ucast ((mm_usable_mem_size m + 0x1000 - 1) div 0x1000)
      in \<lparr>pm_buddies = make_buddies buddy_count page_count PAGE_SIZE, pm_memory_map = m,
          pm_available_memory = usable, pm_used_memory = usable, pm_explicit_used_memory = 0\<rparr>)"

definition take_kernel :: "u32 \<Rightarrow> u32 \<Rightarrow> pmm \<Rightarrow> pmm kres" where
  "take_kernel phys_addr kernel_size p =
     (let first = phys_addr div PAGE_SIZE; final = (phys_addr + kernel_size + PAGE_SIZE - 1) div PAGE_SIZE - 1
      in kbind (mark_used (unat first) (unat final) (pm_buddies p)) (\<lambda>bs.
           Inr (p\<lparr>pm_buddies := bs, pm_used_memory := pm_used_memory p + (final - first + 1) * PAGE_SIZE\<rparr>)))"

definition pmm_init :: "multiboot_info \<Rightarrow> u32 \<Rightarrow> u32 \<Rightarrow> pmm kres" where
  "pmm_init info phys_addr kernel_size =
     kbind (load_map info \<lparr>mm_entries = [], mm_mem_size = 0, mm_usable_mem_size = 0\<rparr>) (\<lambda>m.
     kbind (kfold free_region (mm_entries m) (pmm_fresh m)) (take_kernel phys_addr kernel_size))"

section \<open>Allocation\<close>

text \<open>The run of free pages at \<open>i\<close>: the test in the loop looks at the bit of \<open>i\<close> every time.\<close>

fun count_run :: "nat \<Rightarrow> buddy_t \<Rightarrow> u32 \<Rightarrow> nat \<Rightarrow> nat kres" where
  "count_run 0 b i count = Inr count"
| "count_run (Suc needed) b i count =
     (if unat i + count < unat (bd_page_count b)
      then kbind (get_bit (unat i) (bd_bitmap b)) (\<lambda>used. if used then Inr count else count_run needed b i (count + 1))
      else Inr count)"

text \<open>The search. \<open>Some (Inr None)\<close> is the end of the loop without a place, \<open>None\<close> a loop that never ends.\<close>

partial_function (option) alloc_search ::
  "buddy_t \<Rightarrow> u32 \<Rightarrow> u32 \<Rightarrow> u32 \<Rightarrow> u32 \<Rightarrow> u32 \<Rightarrow> u32 \<Rightarrow> u32 option kres option" where
  "alloc_search b sz boundary first final idx_start i =
     (if i = idx_start then Some (Inr None)
      else
        let j = (if final \<le> i then first else i);
            phys_addr = j * bd_page_size b;
            needed = (sz + bd_page_size b - 1) div bd_page_size b
        in if final \<le> i \<and> j = idx_start then Some (Inr None)
           else if boundary \<noteq> 0 \<and> phys_addr div boundary \<noteq> (phys_addr + sz) div boundary
           then alloc_search b sz boundary first final idx_start (j + 1)
           else case count_run (unat needed) b j 0 of
                  Inl e \<Rightarrow> Some (Inl e)
                | Inr count \<Rightarrow>
                    if count < unat needed
                    then alloc_search b sz boundary first final idx_start (j + of_nat count + 1)
                    else Some (Inr (Some j)))"

fun set_last_alloc :: "u32 \<Rightarrow> u32 \<Rightarrow> buddy_t list \<Rightarrow> buddy_t list" where
  "set_last_alloc idx count [] = []"
| "set_last_alloc idx count (b # bs) = b\<lparr>bd_last_alloc := idx + count - 1\<rparr> # set_last_alloc (idx div 2) (count div 2) bs"

definition pmm_take :: "u32 \<Rightarrow> nat \<Rightarrow> u32 \<Rightarrow> pmm \<Rightarrow> pmm kres" where
  "pmm_take sz idx i p =
     (let needed_small = (sz + PAGE_SIZE - 1) div PAGE_SIZE;
          small_page_idx = push_bit idx i
      in kbind (mark_used (unat small_page_idx) (unat (small_page_idx + needed_small - 1)) (pm_buddies p)) (\<lambda>bs.
           Inr (p\<lparr>pm_buddies := set_last_alloc small_page_idx needed_small bs,
                  pm_used_memory := pm_used_memory p + needed_small * PAGE_SIZE,
                  pm_explicit_used_memory := pm_explicit_used_memory p + sz\<rparr>)))"

definition pmm_alloc :: "u32 \<Rightarrow> u32 \<Rightarrow> u32 \<Rightarrow> u32 \<Rightarrow> pmm \<Rightarrow> (u32 \<times> pmm) kres option" where
  "pmm_alloc sz min_address max_address boundary p =
     (let idx = get_buddy sz (pm_buddies p); b = pm_buddies p ! idx;
          first = (min_address + bd_page_size b - 1) div bd_page_size b;
          real_max_address = kmin max_address (ucast (mm_usable_mem_size (pm_memory_map p)));
          final = real_max_address div bd_page_size b;
          idx_start = kmax (bd_last_alloc b) first
      in map_option (\<lambda>r. kbind r (\<lambda>found.
           case found of
             None \<Rightarrow> Inl KernelPanic
           | Some i \<Rightarrow> kbind (pmm_take sz idx i p) (\<lambda>p. Inr (i * bd_page_size b, p))))
           (alloc_search b sz boundary first final idx_start (idx_start + 1)))"

definition pmm_free :: "u32 \<Rightarrow> u32 \<Rightarrow> pmm \<Rightarrow> pmm kres" where
  "pmm_free page sz p =
     (let page_idx = page div PAGE_SIZE;
          b = pm_buddies p ! get_buddy sz (pm_buddies p);
          page_count = (sz + bd_page_size b - 1) div PAGE_SIZE
      in kbind (mark_free (unat page_idx) (unat (page_idx + page_count - 1)) (pm_buddies p)) (\<lambda>bs.
           Inr (p\<lparr>pm_buddies := bs, pm_used_memory := pm_used_memory p - page_count * PAGE_SIZE,
                  pm_explicit_used_memory := pm_explicit_used_memory p - sz\<rparr>)))"

definition pmm_reserve :: "u32 \<Rightarrow> u32 \<Rightarrow> pmm \<Rightarrow> pmm kres" where
  "pmm_reserve address sz p =
     (let start_page = address div PAGE_SIZE;
          page_count = round_up_to_power_of_two sz PAGE_SIZE div PAGE_SIZE
      in kbind (mark_used (unat start_page) (unat (start_page + page_count)) (pm_buddies p)) (\<lambda>bs.
           Inr (p\<lparr>pm_buddies := bs, pm_used_memory := pm_used_memory p + page_count * PAGE_SIZE,
                  pm_explicit_used_memory := pm_explicit_used_memory p + sz\<rparr>)))"

declare alloc_search.simps [code]

end
