(* ===== verification/PMMSpec.thy ===== *)
theory PMMSpec
  imports PMM
begin

text \<open>
  What the page allocator does: its eight bitmaps are a function of the set of the small pages that
  are not free, and every operation is the operation on that set.
\<close>

section \<open>Bitmaps\<close>

definition page_used :: "u32 list \<Rightarrow> nat \<Rightarrow> bool" where
  "page_used bm n \<longleftrightarrow> bit (bm ! (n div 32)) (n mod 32)"

lemma div32_less:
  "n < 32 * l \<longleftrightarrow> n div 32 < (l :: nat)"
  by (simp add: div_less_iff_less_mult mult.commute)

lemma and_single_bit:
  "w AND 2 ^ k = (0 :: u32) \<longleftrightarrow> \<not> bit w k"
  by (simp add: and_exp_eq_0_iff_not_bit)

lemma get_bit_in:
  "n < 32 * length bm \<Longrightarrow> get_bit n bm = Inr (page_used bm n)"
  by (simp add: get_bit_def dword_at_def div32_less and_single_bit page_used_def)

lemma bit_pow32:
  "k < 32 \<Longrightarrow> bit (2 ^ j :: u32) k \<longleftrightarrow> j = k"
  by (auto simp: bit_exp_iff)

lemma div_mod_eq:
  "n div 32 = m div 32 \<Longrightarrow> n mod 32 = m mod 32 \<longleftrightarrow> n = (m :: nat)"
  by (metis div_mult_mod_eq)

lemma set_bit_in:
  assumes "n < 32 * length bm"
  shows "\<exists>bm'. set_bit n bm = Inr bm' \<and> length bm' = length bm \<and>
           (\<forall>m < 32 * length bm. page_used bm' m \<longleftrightarrow> m = n \<or> page_used bm m)"
  using assms div_mod_eq [of n]
  by (auto simp: set_bit_def dword_at_def dword_put_def div32_less page_used_def nth_list_update
      bit_or_iff bit_pow32)

lemma clear_bit_in:
  assumes "n < 32 * length bm"
  shows "\<exists>bm'. clear_bit n bm = Inr bm' \<and> length bm' = length bm \<and>
           (\<forall>m < 32 * length bm. page_used bm' m \<longleftrightarrow> m \<noteq> n \<and> page_used bm m)"
  using assms div_mod_eq [of n]
  by (auto simp: clear_bit_def dword_at_def dword_put_def div32_less page_used_def nth_list_update
      bit_and_iff bit_not_iff bit_pow32)

lemma bit_all_ones:
  "bit (0xFFFFFFFF :: u32) k \<longleftrightarrow> k < 32"
proof -
  have "(0xFFFFFFFF :: u32) = - 1" by simp
  then show ?thesis by (simp only: bit_minus_1_iff possible_bit_word) simp
qed

section \<open>The loops over spans\<close>

text \<open>A double word at a time or a bit at a time: the bitmap is the same, and so is the fault.\<close>

lemma set_run:
  assumes "n < length bm" and "k \<le> 32"
  shows "kfold set_bit [32 * n..<32 * n + k] bm = Inr (bm[n := bm ! n OR mask k])"
  using assms(2)
proof (induction k)
  case (Suc k)
  have step: "set_bit (32 * n + k) b = Inr (b[n := b ! n OR 2 ^ k])" if "n < length b" for b
    using that Suc.prems by (simp add: set_bit_def dword_at_def dword_put_def)
  have "kfold set_bit [32 * n..<32 * n + Suc k] bm =
        kbind (kfold set_bit [32 * n..<32 * n + k] bm) (set_bit (32 * n + k))"
    by (simp add: kfold_append kfold_single)
  also have "\<dots> = Inr (bm[n := bm ! n OR mask (Suc k)])"
    using Suc assms(1) by (simp add: step mask_Suc_exp or.assoc or.commute or.left_commute)
  finally show ?case .
qed simp

lemma clear_run:
  assumes "n < length bm" and "k \<le> 32"
  shows "kfold clear_bit [32 * n..<32 * n + k] bm = Inr (bm[n := bm ! n AND NOT (mask (k))])"
  using assms(2)
proof (induction k)
  case (Suc k)
  have step: "clear_bit (32 * n + k) b = Inr (b[n := b ! n AND NOT (2 ^ k)])" if "n < length b" for b
    using that Suc.prems by (simp add: clear_bit_def dword_at_def dword_put_def)
  have "kfold clear_bit [32 * n..<32 * n + Suc k] bm =
        kbind (kfold clear_bit [32 * n..<32 * n + k] bm) (clear_bit (32 * n + k))"
    by (simp add: kfold_append kfold_single)
  also have "\<dots> = Inr (bm[n := bm ! n AND NOT (mask (Suc k))])"
    using Suc assms(1) by (simp add: step mask_Suc_exp and.assoc and.commute and.left_commute)
  finally show ?case .
qed simp

lemma mask_32:
  "mask 32 = (- 1 :: u32)" "(0xFFFFFFFF :: u32) = - 1"
  by (simp_all add: mask_eq_exp_minus_1)

lemma set_dword_run:
  assumes "i mod 32 = 0"
  shows "set_dword i bm = kfold set_bit [i..<i + 32] bm"
proof -
  obtain n where n: "i = 32 * n" using assms by (metis mult_div_mod_eq add.right_neutral)
  show ?thesis
  proof (cases "n < length bm")
    case True
    then show ?thesis using set_run [OF True, of 32] by (simp add: n set_dword_def dword_put_def mask_32)
  next
    case False
    then show ?thesis by (simp add: n set_dword_def dword_put_def upt_conv_Cons set_bit_def dword_at_def)
  qed
qed

lemma clear_dword_run:
  assumes "i mod 32 = 0"
  shows "clear_dword i bm = kfold clear_bit [i..<i + 32] bm"
proof -
  obtain n where n: "i = 32 * n" using assms by (metis mult_div_mod_eq add.right_neutral)
  show ?thesis
  proof (cases "n < length bm")
    case True
    then show ?thesis using clear_run [OF True, of 32] by (simp add: n clear_dword_def dword_put_def mask_32)
  next
    case False
    then show ?thesis by (simp add: n clear_dword_def dword_put_def upt_conv_Cons clear_bit_def dword_at_def)
  qed
qed

lemma kfold_upt_split:
  "i \<le> k \<Longrightarrow> k \<le> e \<Longrightarrow> kfold f [i..<e] s = kbind (kfold f [i..<k] s) (kfold f [k..<e])"
  by (metis kfold_append upt_add_eq_append le_add_diff_inverse)

lemma set_span_bits:
  "set_span i e bm = kfold set_bit [i..<Suc e] bm"
proof (induction i e bm rule: set_span.induct)
  case (1 i e bm)
  consider (dword) "i \<le> e" "i mod 32 = 0 \<and> 32 \<le> e - i" | (bit) "i \<le> e" "\<not> (i mod 32 = 0 \<and> 32 \<le> e - i)" | (stop) "e < i"
    by linarith
  then show ?case
  proof cases
    case dword
    then have "set_span i e bm = kbind (kfold set_bit [i..<i + 32] bm) (kfold set_bit [i + 32..<Suc e])"
      using "1.IH"(1) by (subst set_span.simps) (simp add: set_dword_run del: upt_Suc cong: kbind_cong)
    also have "\<dots> = kfold set_bit [i..<Suc e] bm"
      using dword by (intro kfold_upt_split [symmetric]) auto
    finally show ?thesis .
  next
    case bit
    then have "set_span i e bm = kbind (set_bit i bm) (set_span (i + 1) e)"
      by (subst set_span.simps) auto
    then show ?thesis using bit "1.IH"(2) by (simp add: upt_conv_Cons del: upt_Suc cong: kbind_cong)
  qed (simp add: set_span.simps)
qed

lemma clear_span_bits:
  "clear_span i e bm = kfold clear_bit [i..<Suc e] bm"
proof (induction i e bm rule: clear_span.induct)
  case (1 i e bm)
  consider (dword) "i \<le> e" "i mod 32 = 0 \<and> 32 \<le> e - i" | (bit) "i \<le> e" "\<not> (i mod 32 = 0 \<and> 32 \<le> e - i)" | (stop) "e < i"
    by linarith
  then show ?case
  proof cases
    case dword
    then have "clear_span i e bm = kbind (kfold clear_bit [i..<i + 32] bm) (kfold clear_bit [i + 32..<Suc e])"
      using "1.IH"(1) by (subst clear_span.simps) (simp add: clear_dword_run del: upt_Suc cong: kbind_cong)
    also have "\<dots> = kfold clear_bit [i..<Suc e] bm"
      using dword by (intro kfold_upt_split [symmetric]) auto
    finally show ?thesis .
  next
    case bit
    then have "clear_span i e bm = kbind (clear_bit i bm) (clear_span (i + 1) e)"
      by (subst clear_span.simps) auto
    then show ?thesis using bit "1.IH"(2) by (simp add: upt_conv_Cons del: upt_Suc cong: kbind_cong)
  qed (simp add: clear_span.simps)
qed

text \<open>
  C19. Marking a span a double word at a time leaves the same bitmap, or runs into the same fault, as
  marking it a bit at a time.
\<close>

theorem dword_marking_equivalent:
  "set_span i e bm = kfold set_bit [i..<Suc e] bm \<and> clear_span i e bm = kfold clear_bit [i..<Suc e] bm"
  by (simp only: set_span_bits clear_span_bits)

lemma set_run_in:
  assumes "e \<le> 32 * length bm"
  shows "\<exists>bm'. kfold set_bit [i..<e] bm = Inr bm' \<and> length bm' = length bm \<and>
           (\<forall>m < 32 * length bm. page_used bm' m \<longleftrightarrow> (i \<le> m \<and> m < e) \<or> page_used bm m)"
  using assms
proof (induction e)
  case (Suc e)
  then obtain b1 where b1: "kfold set_bit [i..<e] bm = Inr b1" "length b1 = length bm"
    "\<forall>m < 32 * length bm. page_used b1 m \<longleftrightarrow> (i \<le> m \<and> m < e) \<or> page_used bm m" by auto
  obtain b2 where b2: "set_bit e b1 = Inr b2" "length b2 = length b1"
    "\<forall>m < 32 * length b1. page_used b2 m \<longleftrightarrow> m = e \<or> page_used b1 m"
    using set_bit_in [of e b1] Suc.prems b1(2) by auto
  show ?case using b1 b2 by (cases "i \<le> e") (auto simp: kfold_append kfold_single less_Suc_eq)
qed simp

lemma clear_run_in:
  assumes "e \<le> 32 * length bm"
  shows "\<exists>bm'. kfold clear_bit [i..<e] bm = Inr bm' \<and> length bm' = length bm \<and>
           (\<forall>m < 32 * length bm. page_used bm' m \<longleftrightarrow> \<not> (i \<le> m \<and> m < e) \<and> page_used bm m)"
  using assms
proof (induction e)
  case (Suc e)
  then obtain b1 where b1: "kfold clear_bit [i..<e] bm = Inr b1" "length b1 = length bm"
    "\<forall>m < 32 * length bm. page_used b1 m \<longleftrightarrow> \<not> (i \<le> m \<and> m < e) \<and> page_used bm m" by auto
  obtain b2 where b2: "clear_bit e b1 = Inr b2" "length b2 = length b1"
    "\<forall>m < 32 * length b1. page_used b2 m \<longleftrightarrow> m \<noteq> e \<and> page_used b1 m"
    using clear_bit_in [of e b1] Suc.prems b1(2) by auto
  show ?case using b1 b2 by (cases "i \<le> e") (auto simp: kfold_append kfold_single less_Suc_eq)
qed simp

text \<open>The merging loop, a bit at a time.\<close>

definition merge_bit :: "u32 list \<Rightarrow> nat \<Rightarrow> u32 list \<Rightarrow> u32 list kres" where
  "merge_bit lower j bm = (if page_used lower (2 * j) \<or> page_used lower (2 * j + 1) then Inr bm else clear_bit j bm)"

lemma zero_dword_unused:
  assumes "lower ! n = 0" and "m div 32 = n"
  shows "\<not> page_used lower m"
  using assms by (simp add: page_used_def)

lemma merge_dword_run:
  assumes "j mod 32 = 0" and "lower ! (j * 2 div 32) = 0" and "lower ! ((j * 2 + 32) div 32) = 0"
  shows "kfold (merge_bit lower) [j..<j + 32] bm = clear_dword j bm"
proof -
  obtain n where n: "j = 32 * n" using assms(1) by (metis mult_div_mod_eq add.right_neutral)
  have unused: "\<not> page_used lower m" if "64 * n \<le> m" "m < 64 * n + 64" for m
  proof (cases "m < 64 * n + 32")
    case True
    then show ?thesis using that assms(2) by (intro zero_dword_unused [of _ "2 * n"]) (auto simp: n)
  next
    case False
    then show ?thesis using that assms(3) by (intro zero_dword_unused [of _ "2 * n + 1"]) (auto simp: n)
  qed
  have "kfold (merge_bit lower) [j..<j + 32] bm = kfold clear_bit [j..<j + 32] bm"
    by (intro kfold_cong) (auto simp: merge_bit_def n unused)
  then show ?thesis using assms(1) by (simp add: clear_dword_run)
qed

lemma merge_span_bits:
  assumes "2 * e + 1 < 32 * length lower"
  shows "merge_span j e lower bm = kfold (merge_bit lower) [j..<Suc e] bm"
proof (induction "Suc e - j" arbitrary: j bm rule: less_induct)
  case less
  note rest = less.hyps [where j = "j + 32"] less.hyps [where j = "j + 1"]
  define whole where "whole \<longleftrightarrow> j mod 32 = 0 \<and> 32 \<le> e - j \<and> lower ! (j * 2 div 32) = 0 \<and> lower ! ((j * 2 + 32) div 32) = 0"
  consider (stop) "e < j" | (dword) "j \<le> e" "whole" | (bit) "j \<le> e" "\<not> whole" by linarith
  then show ?case
  proof cases
    case stop
    then show ?thesis by (simp add: merge_span.simps)
  next
    case dword
    have "j * 2 div 32 < length lower" "(j * 2 + 32) div 32 < length lower" using dword assms by (auto simp: whole_def)
    then have "merge_span j e lower bm = kbind (clear_dword j bm) (kfold (merge_bit lower) [j + 32..<Suc e])"
      using dword rest(1) assms
      by (subst merge_span.simps) (simp add: whole_def get_dword_def dword_at_def del: upt_Suc cong: kbind_cong)
    also have "\<dots> = kfold (merge_bit lower) [j..<Suc e] bm"
      using dword by (subst kfold_upt_split [of j "j + 32"]) (auto simp: merge_dword_run whole_def)
    finally show ?thesis .
  next
    case bit
    then have test: "(if j mod 32 = 0 \<and> 32 \<le> e - j
                  then kbind (get_dword (j * 2) lower) (\<lambda>a.
                       if a = 0 then kbind (get_dword (j * 2 + 32) lower) (\<lambda>b. Inr (b = 0)) else Inr False)
                  else Inr False) = Inr False"
      using assms by (auto simp: whole_def get_dword_def dword_at_def)
    have bits: "get_bit (j * 2) lower = Inr (page_used lower (2 * j))" "get_bit (j * 2 + 1) lower = Inr (page_used lower (2 * j + 1))"
      using bit(1) assms by (simp_all add: get_bit_in mult.commute)
    have "merge_span j e lower bm = kbind (merge_bit lower j bm) (merge_span (j + 1) e lower)"
      using bit(1) by (subst merge_span.simps) (auto simp: test bits bits(2) [simplified] merge_bit_def)
    also have "\<dots> = kbind (merge_bit lower j bm) (kfold (merge_bit lower) [j + 1..<Suc e])"
      using bit(1) rest(2) by (intro kbind_cong refl) (simp del: upt_Suc)
    finally show ?thesis using bit(1) by (simp add: upt_conv_Cons del: upt_Suc)
  qed
qed

lemma merge_run_in:
  assumes "e \<le> 32 * length bm"
  shows "\<exists>bm'. kfold (merge_bit lower) [j..<e] bm = Inr bm' \<and> length bm' = length bm \<and>
           (\<forall>m < 32 * length bm. page_used bm' m \<longleftrightarrow>
              page_used bm m \<and> \<not> (j \<le> m \<and> m < e \<and> \<not> page_used lower (2 * m) \<and> \<not> page_used lower (2 * m + 1)))"
  using assms
proof (induction e)
  case (Suc e)
  then obtain b1 where b1: "kfold (merge_bit lower) [j..<e] bm = Inr b1" "length b1 = length bm"
    "\<forall>m < 32 * length bm. page_used b1 m \<longleftrightarrow>
       page_used bm m \<and> \<not> (j \<le> m \<and> m < e \<and> \<not> page_used lower (2 * m) \<and> \<not> page_used lower (2 * m + 1))" by auto
  obtain b2 where b2: "clear_bit e b1 = Inr b2" "length b2 = length b1"
    "\<forall>m < 32 * length b1. page_used b2 m \<longleftrightarrow> m \<noteq> e \<and> page_used b1 m"
    using clear_bit_in [of e b1] Suc.prems b1(2) by auto
  let ?free = "j \<le> e \<and> \<not> page_used lower (2 * e) \<and> \<not> page_used lower (2 * e + 1)"
  have "kfold (merge_bit lower) [j..<Suc e] bm = Inr (if ?free then b2 else b1)"
    using b1(1) b2(1) by (auto simp: kfold_append kfold_single merge_bit_def [of lower e])
  then show ?case using b1 b2 by (cases ?free) (auto simp: less_Suc_eq simp del: upt_Suc)
qed simp

section \<open>The bitmaps and the set of used pages\<close>

text \<open>The bitmap of level \<open>i\<close> has the bit of a page set when the page contains a small page of \<open>U\<close>.\<close>

definition level_ok :: "nat \<Rightarrow> nat set \<Rightarrow> nat \<Rightarrow> buddy_t \<Rightarrow> bool" where
  "level_ok N U i b \<longleftrightarrow>
     bd_page_size b = PAGE_SIZE * 2 ^ i \<and> unat (bd_page_count b) = N div 2 ^ i \<and>
     length (bd_bitmap b) = (N div 2 ^ i + 31) div 32 \<and>
     (\<forall>j < N div 2 ^ i. page_used (bd_bitmap b) j \<longleftrightarrow> (\<exists>m\<in>U. m div 2 ^ i = j))"

primrec levels_ok :: "nat \<Rightarrow> nat set \<Rightarrow> nat \<Rightarrow> buddy_t list \<Rightarrow> bool" where
  "levels_ok N U i [] \<longleftrightarrow> True"
| "levels_ok N U i (b # bs) \<longleftrightarrow> level_ok N U i b \<and> levels_ok N U (Suc i) bs"

lemma levels_ok_nth:
  "levels_ok N U i bs \<Longrightarrow> k < length bs \<Longrightarrow> level_ok N U (i + k) (bs ! k)"
proof (induction bs arbitrary: i k)
  case (Cons b bs)
  then show ?case using Cons.IH [of "Suc i" "k - 1"] by (cases k) auto
qed simp

lemma span_div:
  assumes "a \<le> e" "0 < (k :: nat)"
  shows "(\<exists>m\<in>{a..e}. m div k = j) \<longleftrightarrow> a div k \<le> j \<and> j \<le> e div k"
proof
  assume "a div k \<le> j \<and> j \<le> e div k"
  then have "max a (j * k) \<le> e" "max a (j * k) div k = j"
    using assms by (auto simp: max_def less_eq_div_iff_mult_less_eq mult.commute intro!: antisym div_le_mono)
  then show "\<exists>m\<in>{a..e}. m div k = j" by (intro bexI [of _ "max a (j * k)"]) auto
qed (auto intro: div_le_mono)

lemma div_exact_less:
  assumes "e < N" "(k :: nat) dvd N"
  shows "e div k < N div k"
  using assms by (cases "k = 0") (auto simp: div_less_iff_less_mult mult.commute)

lemma div_pow_Suc:
  "x div 2 ^ i div 2 = x div (2 ^ Suc i :: nat)"
  by (simp only: power_Suc2 div_mult2_eq)

lemma round_32:
  "n \<le> 32 * ((n + 31) div 32 :: nat)"
  by presburger

lemma bitmap_covers:
  "level_ok N U i b \<Longrightarrow> N div 2 ^ i \<le> 32 * length (bd_bitmap b)"
  by (simp only: level_ok_def round_32)

lemma bits_in_bitmap:
  "level_ok N U i b \<Longrightarrow> j < N div 2 ^ i \<Longrightarrow> j < 32 * length (bd_bitmap b)"
  using bitmap_covers by fastforce

lemma mark_used_levels:
  assumes "levels_ok N U i bs" "a \<le> e" "e < N" "2 ^ (i + length bs) dvd 2 * N"
  shows "\<exists>bs'. mark_used (a div 2 ^ i) (e div 2 ^ i) bs = Inr bs' \<and> length bs' = length bs \<and>
           map bd_last_alloc bs' = map bd_last_alloc bs \<and> levels_ok N (U \<union> {a..e}) i bs'"
  using assms(1,4)
proof (induction bs arbitrary: i)
  case (Cons b bs)
  have lvl: "level_ok N U i b" using Cons.prems by simp
  have "2 ^ i * 2 dvd N * 2" using Cons.prems(2) by (auto simp: power_add mult.assoc mult.commute intro: dvd_mult_left)
  then have "e div 2 ^ i < N div 2 ^ i" using assms(3) by (intro div_exact_less) simp_all
  then have "Suc (e div 2 ^ i) \<le> 32 * length (bd_bitmap b)" using bits_in_bitmap [OF lvl] by (simp add: Suc_le_eq)
  from set_run_in [OF this, of "a div 2 ^ i"] obtain bm where
    bm: "set_span (a div 2 ^ i) (e div 2 ^ i) (bd_bitmap b) = Inr bm" "length bm = length (bd_bitmap b)"
    "\<forall>m < 32 * length (bd_bitmap b). page_used bm m \<longleftrightarrow> (\<exists>x\<in>{a..e}. x div 2 ^ i = m) \<or> page_used (bd_bitmap b) m"
    using span_div [OF assms(2), of "2 ^ i"] by (auto simp: set_span_bits less_Suc_eq_le)
  have "level_ok N (U \<union> {a..e}) i (b\<lparr>bd_bitmap := bm\<rparr>)"
    using lvl bm bits_in_bitmap [OF lvl] by (auto simp: level_ok_def)
  moreover obtain bs' where "mark_used (a div 2 ^ Suc i) (e div 2 ^ Suc i) bs = Inr bs'" "length bs' = length bs"
    "map bd_last_alloc bs' = map bd_last_alloc bs" "levels_ok N (U \<union> {a..e}) (Suc i) bs'"
    using Cons.IH [of "Suc i"] Cons.prems by auto
  ultimately show ?case using bm(1) by (simp add: div_pow_Suc del: power_Suc)
qed simp

lemma halves:
  "(\<exists>x\<in>U. x div 2 ^ i = 2 * m) \<or> (\<exists>x\<in>U. x div 2 ^ i = 2 * m + 1) \<longleftrightarrow> (\<exists>x\<in>U. x div 2 ^ Suc i = (m :: nat))"
proof -
  have "y div 2 = m \<longleftrightarrow> y = 2 * m \<or> y = 2 * m + 1" for y by presburger
  then have "x div 2 ^ Suc i = m \<longleftrightarrow> x div 2 ^ i = 2 * m \<or> x div 2 ^ i = 2 * m + 1" for x
    by (simp only: div_pow_Suc [symmetric])
  then show ?thesis by blast
qed

lemma merge_levels_ok:
  assumes "levels_ok N U (Suc i) bs" "a \<le> e" "e < N" "2 ^ (Suc i + length bs) dvd 2 * N"
    "\<forall>j < N div 2 ^ i. page_used lower j \<longleftrightarrow> (\<exists>m\<in>U - {a..e}. m div 2 ^ i = j)" "N div 2 ^ i \<le> 32 * length lower"
  shows "\<exists>bs'. merge_levels (a div 2 ^ i) (e div 2 ^ i) lower bs = Inr bs' \<and> length bs' = length bs \<and>
           map bd_last_alloc bs' = map bd_last_alloc bs \<and> levels_ok N (U - {a..e}) (Suc i) bs'"
  using assms(1,4-)
proof (induction bs arbitrary: i lower)
  case (Cons b bs)
  have lvl: "level_ok N U (Suc i) b" using Cons.prems by simp
  have "2 ^ Suc i * 2 dvd N * 2" using Cons.prems(2) by (auto simp: power_add mult.assoc mult.commute intro: dvd_mult_left)
  then have dvd: "2 ^ Suc i dvd N" by simp
  have in_b: "e div 2 ^ Suc i < N div 2 ^ Suc i" using assms(3) dvd by (rule div_exact_less)
  have pair: "2 * m + 1 < N div 2 ^ i" if "m < N div 2 ^ Suc i" for m
    using that dvd by auto
  then have "2 * (e div 2 ^ Suc i) + 1 < 32 * length lower" using in_b Cons.prems(4) by (meson less_le_trans)
  note merge = merge_span_bits [OF this, of "a div 2 ^ Suc i" "bd_bitmap b"]
  have "Suc (e div 2 ^ Suc i) \<le> 32 * length (bd_bitmap b)" using bits_in_bitmap [OF lvl in_b] by simp
  from merge_run_in [OF this, of lower "a div 2 ^ Suc i"] obtain bm where
    bm: "merge_span (a div 2 ^ Suc i) (e div 2 ^ Suc i) lower (bd_bitmap b) = Inr bm" "length bm = length (bd_bitmap b)"
    "\<forall>m < 32 * length (bd_bitmap b). page_used bm m \<longleftrightarrow> page_used (bd_bitmap b) m \<and>
       \<not> (a div 2 ^ Suc i \<le> m \<and> m \<le> e div 2 ^ Suc i \<and> \<not> page_used lower (2 * m) \<and> \<not> page_used lower (2 * m + 1))"
    unfolding merge less_Suc_eq_le by blast
  have "page_used bm m \<longleftrightarrow> (\<exists>x\<in>U - {a..e}. x div 2 ^ Suc i = m)" if m: "m < N div 2 ^ Suc i" for m
  proof -
    have "page_used lower (2 * m) \<or> page_used lower (2 * m + 1) \<longleftrightarrow> (\<exists>x\<in>U - {a..e}. x div 2 ^ Suc i = m)"
      using Cons.prems(3) pair [OF m] halves [of "U - {a..e}" i m] by auto
    moreover have "page_used (bd_bitmap b) m \<longleftrightarrow> (\<exists>x\<in>U. x div 2 ^ Suc i = m)" using lvl m by (simp add: level_ok_def)
    ultimately show ?thesis using bm(3) bits_in_bitmap [OF lvl m] span_div [OF assms(2), of "2 ^ Suc i" m] by auto
  qed
  then have new: "level_ok N (U - {a..e}) (Suc i) (b\<lparr>bd_bitmap := bm\<rparr>)" using lvl bm(2) by (simp add: level_ok_def)
  moreover obtain bs' where "merge_levels (a div 2 ^ Suc i) (e div 2 ^ Suc i) bm bs = Inr bs'" "length bs' = length bs"
    "map bd_last_alloc bs' = map bd_last_alloc bs" "levels_ok N (U - {a..e}) (Suc (Suc i)) bs'"
    using Cons.IH [of "Suc i" bm] Cons.prems new bitmap_covers [OF new] by (auto simp: level_ok_def)
  ultimately show ?case using bm(1) by (simp add: div_pow_Suc del: power_Suc)
qed simp

lemma mark_free_levels:
  assumes "levels_ok N U 0 bs" "a \<le> e" "e < N" "2 ^ length bs dvd 2 * N" "bs \<noteq> []"
  shows "\<exists>bs'. mark_free a e bs = Inr bs' \<and> length bs' = length bs \<and>
           map bd_last_alloc bs' = map bd_last_alloc bs \<and> levels_ok N (U - {a..e}) 0 bs'"
proof -
  obtain b rest where bs: "bs = b # rest" using assms(5) by (cases bs) auto
  have lvl: "level_ok N U 0 b" using assms(1) bs by simp
  have "Suc e \<le> 32 * length (bd_bitmap b)" using bits_in_bitmap [OF lvl] assms(3) by (simp add: Suc_le_eq)
  from clear_run_in [OF this, of a] obtain bm where
    bm: "clear_span a e (bd_bitmap b) = Inr bm" "length bm = length (bd_bitmap b)"
    "\<forall>m < 32 * length (bd_bitmap b). page_used bm m \<longleftrightarrow> m \<notin> {a..e} \<and> page_used (bd_bitmap b) m"
    by (auto simp: clear_span_bits less_Suc_eq_le)
  have new: "level_ok N (U - {a..e}) 0 (b\<lparr>bd_bitmap := bm\<rparr>)"
    using lvl bm bits_in_bitmap [OF lvl] by (auto simp: level_ok_def)
  moreover obtain bs' where "merge_levels a e bm rest = Inr bs'" "length bs' = length rest"
    "map bd_last_alloc bs' = map bd_last_alloc rest" "levels_ok N (U - {a..e}) (Suc 0) bs'"
    using merge_levels_ok [of N U 0 rest a e bm] assms bs new bitmap_covers [OF new] by (auto simp: level_ok_def)
  ultimately show ?thesis using bm(1) bs by simp
qed

end
