(* ===== verification/PMMAlloc.thy ===== *)
theory PMMAlloc
  imports PMMSpec
begin

text \<open>The search of the page allocator, and allocation and freeing on the set of used pages.\<close>

section \<open>The search\<close>

text \<open>The place \<open>j\<close> can be taken: the page is free and does not cross a boundary.\<close>

definition admissible :: "buddy_t \<Rightarrow> u32 \<Rightarrow> u32 \<Rightarrow> u32 \<Rightarrow> bool" where
  "admissible b sz bdry j \<longleftrightarrow>
     j < bd_page_count b \<and> \<not> page_used (bd_bitmap b) (unat j) \<and>
     (bdry = 0 \<or> j * bd_page_size b div bdry = (j * bd_page_size b + sz) div bdry)"

definition one_page :: "buddy_t \<Rightarrow> u32 \<Rightarrow> bool" where
  "one_page b sz \<longleftrightarrow> (sz + bd_page_size b - 1) div bd_page_size b = 1 \<and> unat (bd_page_count b) \<le> 32 * length (bd_bitmap b)"

lemma count_run_one:
  assumes "unat (bd_page_count b) \<le> 32 * length (bd_bitmap b)"
  shows "count_run (Suc 0) b j 0 = Inr (if j < bd_page_count b \<and> \<not> page_used (bd_bitmap b) (unat j) then 1 else 0)"
  using assms by (auto simp: get_bit_in word_less_nat_alt)

lemma search_body:
  assumes "one_page b sz"
  shows "(if i = s then Some (Inr None)
      else
        let j = (if e \<le> i then f else i);
            phys_addr = j * bd_page_size b;
            needed = (sz + bd_page_size b - 1) div bd_page_size b
        in if e \<le> i \<and> j = s then Some (Inr None)
           else if bdry \<noteq> 0 \<and> phys_addr div bdry \<noteq> (phys_addr + sz) div bdry then go (j + 1)
           else case count_run (unat needed) b j 0 of
                  Inl e \<Rightarrow> Some (Inl e)
                | Inr count \<Rightarrow> if count < unat needed then go (j + of_nat count + 1) else Some (Inr (Some j))) =
     (if i = s \<or> (e \<le> i \<and> f = s) then Some (Inr None)
      else if admissible b sz bdry (if e \<le> i then f else i) then Some (Inr (Some (if e \<le> i then f else i)))
      else go ((if e \<le> i then f else i) + 1))"
proof -
  have one: "unat ((sz + bd_page_size b - 1) div bd_page_size b) = Suc 0" using assms by (simp add: one_page_def)
  have run: "count_run (Suc 0) b j 0 = Inr (if j < bd_page_count b \<and> \<not> page_used (bd_bitmap b) (unat j) then 1 else 0)" for j
    using assms count_run_one by (simp add: one_page_def del: count_run.simps)
  show ?thesis unfolding Let_def one run
    by (cases "i = s"; cases "e \<le> i"; cases "f = s") (simp_all add: admissible_def)
qed

lemma alloc_search_step:
  assumes "one_page b sz"
  shows "alloc_search b sz bdry f e s i =
     (if i = s \<or> (e \<le> i \<and> f = s) then Some (Inr None)
      else if admissible b sz bdry (if e \<le> i then f else i) then Some (Inr (Some (if e \<le> i then f else i)))
      else alloc_search b sz bdry f e s ((if e \<le> i then f else i) + 1))"
  by (subst alloc_search.simps) (rule search_body [OF assms])

text \<open>What holds at every step of the search holds where it ends.\<close>

lemma alloc_search_invariant:
  assumes "alloc_search b sz bdry f e s i = Some r" "one_page b sz" "I i"
    and step: "\<And>i. I i \<Longrightarrow> i \<noteq> s \<Longrightarrow> \<not> (e \<le> i \<and> f = s) \<Longrightarrow> \<not> admissible b sz bdry (if e \<le> i then f else i) \<Longrightarrow>
                  I ((if e \<le> i then f else i) + 1)"
  shows "\<exists>i. I i \<and> (if i = s \<or> (e \<le> i \<and> f = s) then r = Inr None
              else admissible b sz bdry (if e \<le> i then f else i) \<and> r = Inr (Some (if e \<le> i then f else i)))"
proof -
  have "(b, sz, bdry, f, e, s) = (b, sz, bdry, f, e, s) \<longrightarrow> I i \<longrightarrow> ?thesis"
  proof (rule alloc_search.raw_induct [where P = "\<lambda>b' sz' bdry' f' e' s' i r. (b', sz', bdry', f', e', s') = (b, sz, bdry, f, e, s) \<longrightarrow> I i \<longrightarrow>
        (\<exists>i. I i \<and> (if i = s \<or> (e \<le> i \<and> f = s) then r = Inr None
              else admissible b sz bdry (if e \<le> i then f else i) \<and> r = Inr (Some (if e \<le> i then f else i))))", OF _ assms(1)], intro impI)
    fix search b' sz' bdry' f' e' s' i r
    assume IH: "\<And>b' sz' bdry' f' e' s' i r. search b' sz' bdry' f' e' s' i = Some r \<Longrightarrow>
        (b', sz', bdry', f', e', s') = (b, sz, bdry, f, e, s) \<longrightarrow> I i \<longrightarrow>
        (\<exists>i. I i \<and> (if i = s \<or> (e \<le> i \<and> f = s) then r = Inr None
              else admissible b sz bdry (if e \<le> i then f else i) \<and> r = Inr (Some (if e \<le> i then f else i))))"
      and I: "I i" and eq: "(b', sz', bdry', f', e', s') = (b, sz, bdry, f, e, s)"
      and body: "(if i = s' then Some (Inr None)
      else
        let j = (if e' \<le> i then f' else i);
            phys_addr = j * bd_page_size b';
            needed = (sz' + bd_page_size b' - 1) div bd_page_size b'
        in if e' \<le> i \<and> j = s' then Some (Inr None)
           else if bdry' \<noteq> 0 \<and> phys_addr div bdry' \<noteq> (phys_addr + sz') div bdry' then search b' sz' bdry' f' e' s' (j + 1)
           else case count_run (unat needed) b' j 0 of
                  Inl e \<Rightarrow> Some (Inl e)
                | Inr count \<Rightarrow> if count < unat needed then search b' sz' bdry' f' e' s' (j + of_nat count + 1)
                               else Some (Inr (Some j))) = Some r"
    from eq have eqs: "b' = b" "sz' = sz" "bdry' = bdry" "f' = f" "e' = e" "s' = s" by simp_all
    note new = body [unfolded eqs search_body [OF assms(2), where go = "search b sz bdry f e s"]]
    show "\<exists>i. I i \<and> (if i = s \<or> (e \<le> i \<and> f = s) then r = Inr None
              else admissible b sz bdry (if e \<le> i then f else i) \<and> r = Inr (Some (if e \<le> i then f else i)))"
    proof (cases "i = s \<or> (e \<le> i \<and> f = s) \<or> admissible b sz bdry (if e \<le> i then f else i)")
      case True
      then show ?thesis using new I by (intro exI [of _ i]) (auto split: if_splits)
    next
      case False
      then have "search b sz bdry f e s ((if e \<le> i then f else i) + 1) = Some r" using new by (auto split: if_splits)
      then show ?thesis using IH step [OF I] False by blast
    qed
  qed
  then show ?thesis using assms(3) by simp
qed

text \<open>Whatever the search finds can be taken, and it lies in the range that was asked for.\<close>

lemma alloc_search_sound:
  assumes "alloc_search b sz bdry f e s i = Some r" and "one_page b sz"
  shows "r = Inr None \<or> (\<exists>j. r = Inr (Some j) \<and> admissible b sz bdry j)"
  using alloc_search_invariant [OF assms, of "\<lambda>_. True"] by (auto split: if_splits)

lemma next_in_range:
  fixes f j e :: u32
  shows "f \<le> j \<Longrightarrow> j < e \<Longrightarrow> f \<le> j + 1"
  using unat_Suc_less [of j e] by (simp add: word_le_nat_alt)

lemma alloc_search_range:
  assumes "alloc_search b sz bdry f e s i = Some (Inr (Some j))" and "one_page b sz" and "f \<le> i" and "f < e"
  shows "f \<le> j \<and> j < e"
proof -
  have "f \<le> (if e \<le> i then f else i) + 1" if "f \<le> i" for i
    using that assms(4) next_in_range [of f "if e \<le> i then f else i" e] by auto
  from alloc_search_invariant [OF assms(1,2), of "\<lambda>i. f \<le> i", OF assms(3) this]
  show ?thesis using assms(4) by (auto split: if_splits)
qed

text \<open>
  When no place can be taken and the search began behind the end of the range, it never comes back to
  where it began.
\<close>

lemma alloc_search_hangs:
  assumes "one_page b sz" "\<And>j. \<not> admissible b sz bdry j" "f < e" "e < s"
  shows "alloc_search b sz bdry f e s (s + 1) = None"
proof (rule ccontr)
  assume "alloc_search b sz bdry f e s (s + 1) \<noteq> None"
  then obtain r where r: "alloc_search b sz bdry f e s (s + 1) = Some r" by auto
  have "(if e \<le> i then f else i) + 1 \<noteq> s" for i
    using assms(3,4) inc_le [of "if e \<le> i then f else i" e] by (cases "e \<le> i") (auto simp: not_le)
  from alloc_search_invariant [OF r assms(1), of "\<lambda>i. i \<noteq> s", OF _ this]
  show False using assms(2-4) by (auto split: if_splits)
qed

text \<open>The search that ends: the places after the last one, and then those before it, the first that can be taken.\<close>

definition places :: "u32 \<Rightarrow> u32 \<Rightarrow> u32 list" where
  "places lo hi = map of_nat [unat lo..<unat hi]"

lemma places_Cons:
  assumes "lo < hi"
  shows "places lo hi = lo # places (lo + 1) hi"
  using assms unat_Suc_less [OF assms] by (simp add: places_def word_less_nat_alt upt_conv_Cons)

lemma places_Nil [simp]:
  "places lo lo = []"
  by (simp add: places_def)

lemma set_places:
  "set (places lo hi) = {j. lo \<le> j \<and> j < hi}"
proof -
  have "j \<in> set (places lo hi)" if "lo \<le> j" "j < hi" for j
    using that by (auto simp: places_def word_le_nat_alt word_less_nat_alt intro!: image_eqI [of _ _ "unat j"])
  moreover have "lo \<le> j \<and> j < hi" if j: "j \<in> set (places lo hi)" for j
  proof -
    obtain n where n: "j = of_nat n" "unat lo \<le> n" "n < unat hi" using j by (auto simp: places_def)
    moreover have "unat hi < 2 ^ LENGTH(32)" by (rule unsigned_less)
    ultimately have "unat j = n" by (simp add: unsigned_of_nat take_bit_nat_eq_self)
    then show ?thesis using n by (simp add: word_le_nat_alt word_less_nat_alt)
  qed
  ultimately show ?thesis by blast
qed

lemma alloc_search_before:
  assumes "one_page b sz" "f \<le> i" "i \<le> s" "s < e"
  shows "alloc_search b sz bdry f e s i = Some (Inr (List.find (admissible b sz bdry) (places i s)))"
  using assms(2,3)
proof (induction "unat s - unat i" arbitrary: i)
  case 0
  then have "i = s" by (simp add: word_le_nat_alt word_unat_eq_iff)
  then show ?case by (simp add: alloc_search_step [OF assms(1)])
next
  case (Suc n)
  then have "i < s" by (simp add: word_less_nat_alt)
  then have "alloc_search b sz bdry f e s i =
    (if admissible b sz bdry i then Some (Inr (Some i)) else alloc_search b sz bdry f e s (i + 1))"
    using assms(4) by (subst alloc_search_step [OF assms(1)]) auto
  then show ?case
    using Suc.hyps(1) [of "i + 1"] Suc.hyps(2) Suc.prems \<open>i < s\<close> unat_Suc_less [OF \<open>i < s\<close>] inc_le [OF \<open>i < s\<close>] next_in_range [of f i s]
    by (simp add: places_Cons)
qed

lemma alloc_search_after:
  assumes "one_page b sz" "f \<le> s" "s < i" "i \<le> e"
  shows "alloc_search b sz bdry f e s i =
           Some (Inr (List.find (admissible b sz bdry) (places i e @ places f s)))"
  using assms(3,4)
proof (induction "unat e - unat i" arbitrary: i)
  case 0
  then have i: "i = e" by (simp add: word_le_nat_alt word_unat_eq_iff)
  show ?case
  proof (cases "f = s")
    case True
    then show ?thesis using i by (simp add: alloc_search_step [OF assms(1)])
  next
    case False
    then have "f < s" "s < e" using assms(2) "0.prems" i by simp_all
    then have "alloc_search b sz bdry f e s i = alloc_search b sz bdry f e s f"
      using i by (auto simp: alloc_search_step [OF assms(1), where i = f] alloc_search_step [OF assms(1), where i = e] not_le)
    then show ?thesis using i \<open>s < e\<close> assms(2) by (simp add: alloc_search_before [OF assms(1)])
  qed
next
  case (Suc n)
  then have "i < e" by (simp add: word_less_nat_alt)
  then have "alloc_search b sz bdry f e s i =
    (if admissible b sz bdry i then Some (Inr (Some i)) else alloc_search b sz bdry f e s (i + 1))"
    using Suc.prems by (subst alloc_search_step [OF assms(1)]) auto
  moreover have "s < i + 1" using Suc.prems(1) unat_Suc_less [OF \<open>i < e\<close>] by (simp add: word_less_nat_alt)
  ultimately show ?case
    using Suc.hyps(1) [of "i + 1"] Suc.hyps(2) \<open>i < e\<close> unat_Suc_less [OF \<open>i < e\<close>] inc_le [OF \<open>i < e\<close>]
    by (simp add: places_Cons)
qed

lemma alloc_search_full:
  assumes "one_page b sz" "f \<le> s" "s < e"
  shows "alloc_search b sz bdry f e s (s + 1) =
           Some (Inr (List.find (admissible b sz bdry) (places (s + 1) e @ places f s)))"
  using alloc_search_after [OF assms(1,2), of "s + 1" e] assms(3) inc_le [of s e] unat_Suc_less [of s e]
  by (simp add: word_less_nat_alt)

section \<open>The allocator on the set of used pages\<close>

text \<open>
  \<open>N\<close> is the number of small pages. It is a multiple of 128, so that every page size divides the
  memory, and the memory is smaller than the address space.
\<close>

definition pmm_rel :: "nat \<Rightarrow> nat set \<Rightarrow> pmm \<Rightarrow> bool" where
  "pmm_rel N U p \<longleftrightarrow>
     length (pm_buddies p) = buddy_count \<and> levels_ok N U 0 (pm_buddies p) \<and> 128 dvd N \<and> N < 2 ^ 20 \<and>
     unat (mm_usable_mem_size (pm_memory_map p)) \<le> N * 4096"

definition page_span :: "u32 \<Rightarrow> u32 \<Rightarrow> nat set" where
  "page_span a sz = {unat a div 4096..<unat a div 4096 + (unat sz + 4095) div 4096}"

lemma levels_dvd:
  "128 dvd N \<Longrightarrow> 2 ^ buddy_count dvd 2 * (N :: nat)"
  by (auto simp: buddy_count_def)

lemma pmm_mark_used:
  assumes "pmm_rel N U p" "a \<le> e" "e < N"
  shows "\<exists>bs. mark_used a e (pm_buddies p) = Inr bs \<and> map bd_last_alloc bs = map bd_last_alloc (pm_buddies p) \<and>
           length bs = buddy_count \<and> levels_ok N (U \<union> {a..e}) 0 bs"
  using assms mark_used_levels [of N U 0 "pm_buddies p" a e] levels_dvd [of N] by (auto simp: pmm_rel_def)

lemma pmm_mark_free:
  assumes "pmm_rel N U p" "a \<le> e" "e < N"
  shows "\<exists>bs. mark_free a e (pm_buddies p) = Inr bs \<and> map bd_last_alloc bs = map bd_last_alloc (pm_buddies p) \<and>
           length bs = buddy_count \<and> levels_ok N (U - {a..e}) 0 bs"
proof -
  have "pm_buddies p \<noteq> []" using assms(1) by (auto simp: pmm_rel_def buddy_count_def)
  then show ?thesis
    using assms mark_free_levels [of N U "pm_buddies p" a e] levels_dvd [of N] by (auto simp: pmm_rel_def)
qed

lemma set_last_alloc_levels:
  "levels_ok N U i bs \<Longrightarrow> levels_ok N U i (set_last_alloc idx count bs)"
  by (induction bs arbitrary: i idx count) (simp_all add: level_ok_def)

lemma length_set_last_alloc [simp]:
  "length (set_last_alloc idx count bs) = length bs"
  by (induction bs arbitrary: idx count) simp_all

lemma find_buddy_fits:
  assumes "\<exists>b\<in>set bs. sz \<le> bd_page_size b"
  shows "\<exists>k < length bs. find_buddy sz i bs = i + k \<and> sz \<le> bd_page_size (bs ! k) \<and> (\<forall>l < k. bd_page_size (bs ! l) < sz)"
  using assms
proof (induction bs arbitrary: i)
  case (Cons b bs)
  show ?case
  proof (cases "sz \<le> bd_page_size b")
    case False
    then obtain k where "k < length bs" "find_buddy sz (i + 1) bs = i + 1 + k" "sz \<le> bd_page_size (bs ! k)"
      "\<forall>l < k. bd_page_size (bs ! l) < sz" using Cons by fastforce
    then show ?thesis using False by (intro exI [of _ "Suc k"]) (auto simp: less_Suc_eq_0_disj not_le)
  qed (intro exI [of _ 0], simp)
qed simp

lemma level_size:
  assumes "pmm_rel N U p" "k < buddy_count"
  shows "bd_page_size (pm_buddies p ! k) = PAGE_SIZE * 2 ^ k" "unat (bd_page_size (pm_buddies p ! k)) = 4096 * 2 ^ k"
proof -
  have "level_ok N U k (pm_buddies p ! k)" using assms levels_ok_nth [of N U 0 "pm_buddies p" k] by (simp add: pmm_rel_def)
  then show size: "bd_page_size (pm_buddies p ! k) = PAGE_SIZE * 2 ^ k" by (simp add: level_ok_def)
  have "k \<in> {0, 1, 2, 3, 4, 5, 6, 7}" using assms(2) by (auto simp: buddy_count_def)
  then show "unat (bd_page_size (pm_buddies p ! k)) = 4096 * 2 ^ k" by (auto simp: size PAGE_SIZE_def)
qed

lemma get_buddy_fits:
  assumes "pmm_rel N U p" "sz \<le> 0x80000"
  shows "get_buddy sz (pm_buddies p) < buddy_count" "sz \<le> bd_page_size (pm_buddies p ! get_buddy sz (pm_buddies p))"
    "l < get_buddy sz (pm_buddies p) \<Longrightarrow> bd_page_size (pm_buddies p ! l) < sz"
proof -
  have "bd_page_size (pm_buddies p ! 7) = 0x80000" using level_size(1) [OF assms(1), of 7] by (simp add: buddy_count_def PAGE_SIZE_def)
  then have "\<exists>b\<in>set (pm_buddies p). sz \<le> bd_page_size b"
    using assms by (intro bexI [of _ "pm_buddies p ! 7"]) (auto simp: pmm_rel_def buddy_count_def)
  from find_buddy_fits [OF this, of 0] show "get_buddy sz (pm_buddies p) < buddy_count"
    "sz \<le> bd_page_size (pm_buddies p ! get_buddy sz (pm_buddies p))"
    "l < get_buddy sz (pm_buddies p) \<Longrightarrow> bd_page_size (pm_buddies p ! l) < sz"
    using assms(1) by (auto simp: get_buddy_def pmm_rel_def)
qed

lemma one_page_fits:
  assumes "pmm_rel N U p" "0 < sz" "sz \<le> 0x80000"
  shows "one_page (pm_buddies p ! get_buddy sz (pm_buddies p)) sz"
proof -
  let ?k = "get_buddy sz (pm_buddies p)" let ?b = "pm_buddies p ! ?k"
  note k = get_buddy_fits [OF assms(1,3)]
  have lvl: "level_ok N U ?k ?b" using assms(1) k(1) levels_ok_nth [of N U 0 "pm_buddies p" ?k] by (simp add: pmm_rel_def)
  have "(2 :: nat) ^ ?k \<le> 2 ^ 7" using k(1) by (intro power_increasing) (auto simp: buddy_count_def)
  then have small: "unat (bd_page_size ?b) \<le> 0x80000" using level_size(2) [OF assms(1) k(1)] by simp
  have le: "unat sz \<le> unat (bd_page_size ?b)" "0 < unat sz" using k(2) assms(2) by (simp_all add: word_le_nat_alt word_less_nat_alt)
  have "unat (sz + bd_page_size ?b - 1) = unat sz + unat (bd_page_size ?b) - 1"
    using small le by (subst unat_pred) (auto simp: unat_word_ariths word_less_nat_alt)
  then have "unat ((sz + bd_page_size ?b - 1) div bd_page_size ?b) = (unat (bd_page_size ?b) + (unat sz - 1)) div unat (bd_page_size ?b)"
    using le by (simp add: unat_div_distrib add.commute)
  also have "\<dots> = 1" using le by (subst div_add_self1) auto
  finally have "(sz + bd_page_size ?b - 1) div bd_page_size ?b = 1" by (simp add: word_unat_eq_iff)
  then show ?thesis using bitmap_covers [OF lvl] lvl by (simp add: one_page_def level_ok_def)
qed

lemma needed_pages:
  assumes "0 < sz" "sz \<le> 0x80000"
  shows "unat ((sz + PAGE_SIZE - 1) div PAGE_SIZE) = (unat sz + 4095) div 4096" "0 < (unat sz + 4095) div 4096"
proof -
  have "unat (sz + 0x1000 - 1) = unat sz + 4095"
    using assms by (subst unat_pred) (auto simp: unat_word_ariths word_less_nat_alt word_le_nat_alt)
  then show "unat ((sz + PAGE_SIZE - 1) div PAGE_SIZE) = (unat sz + 4095) div 4096" by (simp add: PAGE_SIZE_def unat_div_distrib)
  show "0 < (unat sz + 4095) div 4096" using assms(1) by (simp add: div_greater_zero_iff word_less_nat_alt)
qed

text \<open>Where a free page of the chosen size lies among the small pages.\<close>

lemma block_pages:
  assumes "pmm_rel N U p" "0 < sz" "sz \<le> 0x80000" "k = get_buddy sz (pm_buddies p)" "j < bd_page_count (pm_buddies p ! k)"
  shows "unat (push_bit k j) = unat j * 2 ^ k" "unat (j * bd_page_size (pm_buddies p ! k)) = unat j * 2 ^ k * 4096"
    "(unat sz + 4095) div 4096 \<le> 2 ^ k" "(unat j + 1) * 2 ^ k \<le> N"
proof -
  note k = get_buddy_fits [OF assms(1,3), folded assms(4)]
  have lvl: "level_ok N U k (pm_buddies p ! k)" using assms(1) k(1) levels_ok_nth [of N U 0 "pm_buddies p" k] by (simp add: pmm_rel_def)
  have "unat j + 1 \<le> N div 2 ^ k" using assms(5) lvl by (simp add: level_ok_def word_less_nat_alt)
  then show in_N: "(unat j + 1) * 2 ^ k \<le> N" by (simp add: less_eq_div_iff_mult_less_eq)
  then have small: "unat j * 2 ^ k < 2 ^ 20" using assms(1) by (simp add: pmm_rel_def)
  have "k \<in> {0, 1, 2, 3, 4, 5, 6, 7}" using k(1) by (auto simp: buddy_count_def)
  then have "unat (2 ^ k :: u32) = 2 ^ k" by auto
  then show "unat (push_bit k j) = unat j * 2 ^ k" using small by (simp add: push_bit_eq_mult unat_word_ariths)
  show "unat (j * bd_page_size (pm_buddies p ! k)) = unat j * 2 ^ k * 4096"
    using small level_size(2) [OF assms(1) k(1)] by (simp add: unat_word_ariths)
  have "unat sz \<le> 4096 * 2 ^ k" using k(2) level_size(2) [OF assms(1) k(1)] by (simp add: word_le_nat_alt)
  then have "unat sz + 4095 < (2 ^ k + 1) * 4096" by simp
  then show "(unat sz + 4095) div 4096 \<le> 2 ^ k" by (simp add: div_less_iff_less_mult less_Suc_eq_le [symmetric])
qed

lemma block_free:
  assumes "pmm_rel N U p" "0 < sz" "sz \<le> 0x80000" "k = get_buddy sz (pm_buddies p)" "j < bd_page_count (pm_buddies p ! k)"
    "\<not> page_used (bd_bitmap (pm_buddies p ! k)) (unat j)"
  shows "page_span (j * bd_page_size (pm_buddies p ! k)) sz \<inter> U = {}" "page_span (j * bd_page_size (pm_buddies p ! k)) sz \<subseteq> {..<N}"
proof -
  note bp = block_pages [OF assms(1-5)]
  have sub: "page_span (j * bd_page_size (pm_buddies p ! k)) sz \<subseteq> {unat j * 2 ^ k..<(unat j + 1) * 2 ^ k}"
    using bp(3) by (auto simp: page_span_def bp(2))
  then show "page_span (j * bd_page_size (pm_buddies p ! k)) sz \<subseteq> {..<N}" using bp(4) by fastforce
  have lvl: "level_ok N U k (pm_buddies p ! k)"
    using assms(1) get_buddy_fits [OF assms(1,3), folded assms(4)] levels_ok_nth [of N U 0 "pm_buddies p" k] by (simp add: pmm_rel_def)
  have "m div 2 ^ k \<noteq> unat j" if "m \<in> U" for m
    using lvl assms(5,6) that by (auto simp: level_ok_def word_less_nat_alt)
  moreover have "m div 2 ^ k = unat j" if "m \<in> {unat j * 2 ^ k..<(unat j + 1) * 2 ^ k}" for m
    using that by (intro div_nat_eqI) (auto simp: mult.commute)
  ultimately show "page_span (j * bd_page_size (pm_buddies p ! k)) sz \<inter> U = {}" using sub by blast
qed

lemma pmm_take_refines:
  assumes "pmm_rel N U p" "0 < sz" "sz \<le> 0x80000" "k = get_buddy sz (pm_buddies p)" "j < bd_page_count (pm_buddies p ! k)"
  shows "\<exists>p'. pmm_take sz k j p = Inr p' \<and> pmm_rel N (U \<union> page_span (j * bd_page_size (pm_buddies p ! k)) sz) p' \<and>
           pm_explicit_used_memory p' = pm_explicit_used_memory p + sz"
proof -
  let ?n = "(unat sz + 4095) div 4096" let ?i = "unat j * 2 ^ k"
  note bp = block_pages [OF assms(1-5)] and need = needed_pages [OF assms(2,3)]
  have "N < 2 ^ 20" using assms(1) by (simp add: pmm_rel_def)
  then have sum: "unat (push_bit k j + (sz + PAGE_SIZE - 1) div PAGE_SIZE - 1) = ?i + ?n - 1"
    using bp need by (subst unat_pred) (auto simp: unat_word_ariths word_less_nat_alt)
  have "?i \<le> ?i + ?n - 1" "?i + ?n - 1 < N" using bp need(2) by simp_all
  from pmm_mark_used [OF assms(1) this] obtain bs where
    bs: "mark_used ?i (?i + ?n - 1) (pm_buddies p) = Inr bs" "length bs = buddy_count" "levels_ok N (U \<union> {?i..?i + ?n - 1}) 0 bs"
    by blast
  have "page_span (j * bd_page_size (pm_buddies p ! k)) sz = {?i..?i + ?n - 1}"
    using need(2) by (auto simp: page_span_def bp(2))
  then show ?thesis
    using bs assms(1) sum by (simp add: pmm_take_def Let_def bp(1) pmm_rel_def set_last_alloc_levels)
qed

section \<open>Allocation\<close>

lemma alloc_takes_free_pages:
  assumes "pmm_rel N U p" "0 < sz" "sz \<le> 0x80000" "pmm_alloc sz min_address max_address bdry p = Some r"
  shows "r = Inl KernelPanic \<or>
    (\<exists>a p'. r = Inr (a, p') \<and> page_span a sz \<inter> U = {} \<and> page_span a sz \<subseteq> {..<N} \<and> 4096 dvd unat a \<and>
       (bdry = 0 \<or> a div bdry = (a + sz) div bdry) \<and> pmm_rel N (U \<union> page_span a sz) p')"
proof -
  let ?k = "get_buddy sz (pm_buddies p)" let ?b = "pm_buddies p ! ?k"
  note one = one_page_fits [OF assms(1-3)]
  obtain f e s q where search: "alloc_search ?b sz bdry f e s (s + 1) = Some q"
    and r: "r = kbind q (\<lambda>found. case found of None \<Rightarrow> Inl KernelPanic
       | Some i \<Rightarrow> kbind (pmm_take sz ?k i p) (\<lambda>p. Inr (i * bd_page_size ?b, p)))"
    using assms(4) by (auto simp: pmm_alloc_def Let_def)
  note q = alloc_search_sound [OF search one]
  show ?thesis
  proof (cases "q = Inr None")
    case False
    then obtain j where j: "q = Inr (Some j)" "admissible ?b sz bdry j" using q by auto
    then have in_b: "j < bd_page_count ?b" "\<not> page_used (bd_bitmap ?b) (unat j)" by (simp_all add: admissible_def)
    show ?thesis
      using pmm_take_refines [OF assms(1-3) refl in_b(1)] block_free [OF assms(1-3) refl in_b] block_pages(2) [OF assms(1-3) refl in_b(1)]
        j r by (auto simp: admissible_def)
  qed (simp add: r)
qed

lemma alloc_next_fit:
  assumes "pmm_rel N U p" "0 < sz" "sz \<le> 0x80000" "b = pm_buddies p ! get_buddy sz (pm_buddies p)"
    "first = (min_address + bd_page_size b - 1) div bd_page_size b"
    "final = kmin max_address (ucast (mm_usable_mem_size (pm_memory_map p))) div bd_page_size b"
    "start = kmax (bd_last_alloc b) first" "start < final"
  shows "\<exists>r. pmm_alloc sz min_address max_address bdry p = Some r \<and>
    (case List.find (admissible b sz bdry) (places (start + 1) final @ places first start) of
       None \<Rightarrow> r = Inl KernelPanic
     | Some j \<Rightarrow> first \<le> j \<and> j < final \<and> j \<noteq> start \<and> (\<exists>p'. r = Inr (j * bd_page_size b, p')))"
proof -
  have le: "first \<le> start" using assms(7) by (auto simp: kmax_def)
  note search = alloc_search_full [OF one_page_fits [OF assms(1-3), folded assms(4)] le assms(8), of bdry]
  show ?thesis
  proof (cases "List.find (admissible b sz bdry) (places (start + 1) final @ places first start)")
    case None
    then show ?thesis using assms(4-7) search by (simp add: pmm_alloc_def Let_def)
  next
    case (Some j)
    then have adm: "admissible b sz bdry j" and "j \<in> set (places (start + 1) final @ places first start)"
      by (metis find_Some_iff, metis find_Some_iff nth_mem)
    then have "first \<le> j \<and> j < final \<and> j \<noteq> start"
      using le assms(8) unat_Suc_less [OF assms(8)] by (auto simp: set_places word_le_nat_alt word_less_nat_alt)
    moreover obtain p' where "pmm_take sz (get_buddy sz (pm_buddies p)) j p = Inr p'"
      using pmm_take_refines [OF assms(1-3) refl, of j] adm assms(4) by (auto simp: admissible_def)
    ultimately show ?thesis using Some assms(4-7) search by (simp add: pmm_alloc_def Let_def)
  qed
qed

text \<open>
  C7. Physical memory is never handed out twice: what \<open>alloc\<close> returns for a request of at most 512 KiB
  was free, lies in the memory, does not cross the boundary that was asked for, and exactly its pages
  are used afterwards; otherwise the kernel panics.
\<close>

theorem pmm_alloc_safe:
  assumes "pmm_rel N U p" "0 < sz" "sz \<le> 0x80000" "pmm_alloc sz min_address max_address bdry p = Some r"
  shows "r = Inl KernelPanic \<or>
    (\<exists>a p'. r = Inr (a, p') \<and> page_span a sz \<inter> U = {} \<and> page_span a sz \<subseteq> {..<N} \<and> 4096 dvd unat a \<and>
       (bdry = 0 \<or> a div bdry = (a + sz) div bdry) \<and> pmm_rel N (U \<union> page_span a sz) p')"
  using assms by (rule alloc_takes_free_pages)

text \<open>
  C21. When the last allocation of the size lies before the end of the range, \<open>alloc\<close> returns. It takes
  the first place after the last allocation that can be taken, or else the first one before it; it
  panics only when there is none. The place of the last allocation is not looked at.
\<close>

theorem pmm_alloc_next_fit:
  assumes "pmm_rel N U p" "0 < sz" "sz \<le> 0x80000" "b = pm_buddies p ! get_buddy sz (pm_buddies p)"
    "first = (min_address + bd_page_size b - 1) div bd_page_size b"
    "final = kmin max_address (ucast (mm_usable_mem_size (pm_memory_map p))) div bd_page_size b"
    "start = kmax (bd_last_alloc b) first" "start < final"
  shows "\<exists>r. pmm_alloc sz min_address max_address bdry p = Some r \<and>
    (case List.find (admissible b sz bdry) (places (start + 1) final @ places first start) of
       None \<Rightarrow> r = Inl KernelPanic
     | Some j \<Rightarrow> first \<le> j \<and> j < final \<and> j \<noteq> start \<and> (\<exists>p'. r = Inr (j * bd_page_size b, p')))"
  using assms by (rule alloc_next_fit)

text \<open>
  C35. When the last allocation of the size lies behind the range and nothing of the size is free,
  \<open>alloc\<close> neither panics nor returns.
\<close>

theorem pmm_alloc_hangs:
  assumes "pmm_rel N U p" "0 < sz" "sz \<le> 0x80000" "b = pm_buddies p ! get_buddy sz (pm_buddies p)"
    "first = (min_address + bd_page_size b - 1) div bd_page_size b"
    "final = kmin max_address (ucast (mm_usable_mem_size (pm_memory_map p))) div bd_page_size b"
    "first < final" "final < bd_last_alloc b" "{..<N} \<subseteq> U"
  shows "pmm_alloc sz min_address max_address bdry p = None"
proof -
  let ?k = "get_buddy sz (pm_buddies p)"
  have "kmax (bd_last_alloc b) first = bd_last_alloc b" using assms(7,8) by (auto simp: kmax_def)
  moreover have "\<not> admissible b sz bdry j" for j
  proof
    assume "admissible b sz bdry j"
    then have free: "j < bd_page_count (pm_buddies p ! ?k)" "\<not> page_used (bd_bitmap (pm_buddies p ! ?k)) (unat j)"
      using assms(4) by (simp_all add: admissible_def)
    have "page_span (j * bd_page_size (pm_buddies p ! ?k)) sz \<noteq> {}" using needed_pages(2) [OF assms(2,3)] by (auto simp: page_span_def)
    then show False using block_free [OF assms(1-3) refl free] assms(9) by blast
  qed
  ultimately show ?thesis
    using alloc_search_hangs [OF one_page_fits [OF assms(1-3), folded assms(4)] _ assms(7,8), of bdry] assms(4-6)
    by (simp add: pmm_alloc_def Let_def)
qed

end
