(* ===== verification/PMMOps.thy ===== *)
theory PMMOps
  imports PMMAlloc
begin

text \<open>Initialisation, freeing and reserving on the set of used pages.\<close>

section \<open>The memory map\<close>

lemma load_entries:
  assumes "\<forall>r\<in>set (mm_entries m). mr_type r = Available \<longrightarrow> mr_base_address r + mr_length r \<le> mm_usable_mem_size m"
  shows "mm_entries (fold load_entry rs m) = mm_entries m @ rs \<and>
    (\<forall>r\<in>set (mm_entries m @ rs). mr_type r = Available \<longrightarrow> mr_base_address r + mr_length r \<le> mm_usable_mem_size (fold load_entry rs m))"
  using assms
proof (induction rs arbitrary: m)
  case (Cons r rs)
  have "mm_entries (load_entry r m) = mm_entries m @ [r]" by (simp add: load_entry_def Let_def)
  moreover have "\<forall>x\<in>set (mm_entries m @ [r]). mr_type x = Available \<longrightarrow> mr_base_address x + mr_length x \<le> mm_usable_mem_size (load_entry r m)"
    using Cons.prems by (fastforce simp: load_entry_def Let_def not_less)
  ultimately show ?case using Cons.IH [of "load_entry r m"] by simp
qed simp

section \<open>Initialisation\<close>

lemma make_buddies_levels:
  assumes "unat pc = N div 2 ^ i" "ps = PAGE_SIZE * 2 ^ i" "N < 2 ^ 20"
  shows "levels_ok N {..<N} i (make_buddies n pc ps)"
  using assms
proof (induction n arbitrary: i pc ps)
  case (Suc n)
  have small: "N div 2 ^ i < 2 ^ 20" using Suc.prems(3) by (meson div_le_dividend le_less_trans)
  have len: "unat ((pc + 32 - 1) div 32) = (N div 2 ^ i + 31) div 32"
  proof -
    have "pc + 32 - 1 = pc + 31" by simp
    moreover have "unat (pc + 31) = N div 2 ^ i + 31" using Suc.prems(1) small by (simp add: unat_word_ariths)
    ultimately show ?thesis by (simp only: unat_div_distrib) simp
  qed
  have "page_used (replicate ((N div 2 ^ i + 31) div 32) 0xFFFFFFFF) j" if "j < N div 2 ^ i" for j
  proof -
    have "j div 32 < (N div 2 ^ i + 31) div 32" using that by (simp add: div32_less [symmetric] less_le_trans [OF _ round_32])
    then show ?thesis unfolding page_used_def by (simp only: nth_replicate bit_all_ones)
  qed
  moreover have "\<exists>m\<in>{..<N}. m div 2 ^ i = j" if "j < N div 2 ^ i" for j
  proof -
    have "(j + 1) * 2 ^ i \<le> N" using that by (simp only: less_eq_div_iff_mult_less_eq [symmetric] zero_less_power zero_less_numeral Suc_eq_plus1 [symmetric] Suc_le_eq)
    moreover have "0 < (2 :: nat) ^ i" by simp
    ultimately have "j * 2 ^ i < N" unfolding add_mult_distrib by linarith
    then show ?thesis by (intro bexI [of _ "j * 2 ^ i"]) simp_all
  qed
  moreover have "levels_ok N {..<N} (Suc i) (make_buddies n (pc div 2) (ps * 2))"
  proof (rule Suc.IH)
    show "unat (pc div 2) = N div 2 ^ Suc i" using Suc.prems(1) by (simp add: unat_div_distrib div_pow_Suc del: power_Suc)
    show "ps * 2 = PAGE_SIZE * 2 ^ Suc i" using Suc.prems(2) by simp
  qed (rule Suc.prems)
  ultimately show ?case using Suc.prems(1,2) unfolding make_buddies.simps levels_ok.simps level_ok_def buddy_t.select_convs len by simp
qed simp

definition region_pages :: "map_region_t \<Rightarrow> nat set" where
  "region_pages r = {unat (mr_base_address r) div 4096..<(unat (mr_base_address r) + unat (mr_length r) + 4095) div 4096}"

text \<open>A region that is not empty and ends inside the memory.\<close>

definition region_ok :: "nat \<Rightarrow> map_region_t \<Rightarrow> bool" where
  "region_ok N r \<longleftrightarrow> 0 < mr_length r \<and> unat (mr_base_address r) + unat (mr_length r) \<le> N * 4096"

lemma free_region_refines:
  assumes "pmm_rel N U p" "mr_type r = Available \<Longrightarrow> region_ok N r"
  shows "\<exists>p'. free_region r p = Inr p' \<and> map bd_last_alloc (pm_buddies p') = map bd_last_alloc (pm_buddies p) \<and>
    pm_memory_map p' = pm_memory_map p \<and> pmm_rel N (U - (if mr_type r = Available then region_pages r else {})) p'"
proof (cases "mr_type r = Available")
  case True
  let ?a = "mr_base_address r" let ?l = "mr_length r"
  have ok: "0 < unat ?l" "unat ?a + unat ?l \<le> N * 4096" "N < 2 ^ 20"
    using assms True by (auto simp: region_ok_def pmm_rel_def word_less_nat_alt)
  define e where "e = (unat ?a + unat ?l + 4095) div 4096 - 1"
  have pos: "0 < (unat ?a + unat ?l + 4095) div 4096" using ok by (simp add: div_greater_zero_iff)
  have first: "unat (ucast (?a div 0x1000) :: u32) = unat ?a div 4096"
    using ok by (simp add: unsigned_ucast_eq take_bit_nat_eq_self unat_div_distrib div_less_iff_less_mult)
  have "unat (?a + ?l) = unat ?a + unat ?l" using ok by (simp add: unat_word_ariths)
  moreover have "?a + ?l + 0x1000 - 1 = ?a + ?l + 0xFFF" by simp
  ultimately have "unat (?a + ?l + 0x1000 - 1) = unat ?a + unat ?l + 4095" using ok by (simp only: unat_word_ariths) simp
  then have "unat ((?a + ?l + 0x1000 - 1) div 0x1000) = Suc e" using pos by (simp add: unat_div_distrib e_def)
  then have e64: "unat ((?a + ?l + 0x1000 - 1) div 0x1000 - 1) = e" by (subst unat_pred) (auto simp: word_less_nat_alt)
  have e: "unat ?a div 4096 \<le> e" "e < N" using ok pos by (auto simp: e_def less_eq_div_iff_mult_less_eq div_less_iff_less_mult) 
  have final: "unat (ucast ((?a + ?l + 0x1000 - 1) div 0x1000 - 1) :: u32) = e"
    using e ok(3) by (simp only: unsigned_ucast_eq e64) (simp add: take_bit_nat_eq_self)
  have "region_pages r = {unat ?a div 4096..e}" using pos by (auto simp: region_pages_def e_def)
  then show ?thesis
    using pmm_mark_free [OF assms(1) e] assms(1) True unfolding free_region_def Let_def first final
    by (auto simp: pmm_rel_def)
qed (use assms in \<open>simp add: free_region_def\<close>)

lemma free_regions_refine:
  assumes "pmm_rel N U p" "\<forall>r\<in>set rs. mr_type r = Available \<longrightarrow> region_ok N r"
  shows "\<exists>p'. kfold free_region rs p = Inr p' \<and> map bd_last_alloc (pm_buddies p') = map bd_last_alloc (pm_buddies p) \<and>
    pm_memory_map p' = pm_memory_map p \<and>
    pmm_rel N (U - (\<Union>r\<in>{r \<in> set rs. mr_type r = Available}. region_pages r)) p'"
  using assms
proof (induction rs arbitrary: U p)
  case (Cons r rs)
  let ?V = "U - (if mr_type r = Available then region_pages r else {})"
  obtain p1 where p1: "free_region r p = Inr p1" "map bd_last_alloc (pm_buddies p1) = map bd_last_alloc (pm_buddies p)"
    "pm_memory_map p1 = pm_memory_map p" "pmm_rel N ?V p1"
    using free_region_refines [OF Cons.prems(1), of r] Cons.prems(2) by auto
  have "?V - (\<Union>r\<in>{r \<in> set rs. mr_type r = Available}. region_pages r) =
        U - (\<Union>r\<in>{x \<in> set (r # rs). mr_type x = Available}. region_pages r)" by auto
  then show ?case using Cons.IH [OF p1(4)] Cons.prems(2) p1(1-3) by (simp add: kbind_Inr_iff)
qed simp

definition memory_pages :: "multiboot_info \<Rightarrow> nat" where
  "memory_pages info =
     (unat (mm_usable_mem_size (fold load_entry (mi_mmap info) \<lparr>mm_entries = [], mm_mem_size = 0, mm_usable_mem_size = 0\<rparr>)) + 4095) div 4096"

lemma page_count_of:
  assumes "(unat (u :: u64) + 4095) div 4096 < 2 ^ 20"
  shows "unat (ucast ((u + 0x1000 - 1) div 0x1000) :: u32) = (unat u + 4095) div 4096"
proof -
  have "unat u < 2 ^ 32" using assms by (simp add: div_less_iff_less_mult)
  then have "unat (u + 0x1000 - 1) = unat u + 4095" by (simp only: diff_conv_add_uminus add.assoc) (simp add: unat_word_ariths)
  then have "unat ((u + 0x1000 - 1) div 0x1000) = (unat u + 4095) div 4096" by (simp only: unat_div_distrib) simp
  then show ?thesis using assms by (simp only: unsigned_ucast_eq) (simp add: take_bit_nat_eq_self)
qed

lemma make_buddies_shape:
  "length (make_buddies n c s) = n" "map bd_last_alloc (make_buddies n c s) = replicate n 0"
  by (induction n arbitrary: c s) simp_all

lemma round_4096:
  "x \<le> (x + 4095) div 4096 * (4096 :: nat)"
  using div_mult_mod_eq [of "x + 4095" 4096] mod_less_divisor [of 4096 "x + 4095"] by linarith

lemma pmm_fresh_rel:
  assumes "N = (unat (mm_usable_mem_size m) + 4095) div 4096" "128 dvd N" "N < 2 ^ 20"
  shows "pmm_rel N {..<N} (pmm_fresh m)"
proof -
  have "unat (mm_usable_mem_size m) \<le> N * 4096" unfolding assms(1) by (rule round_4096)
  then show ?thesis
    using make_buddies_levels [OF _ _ assms(3), where i = 0 and ps = PAGE_SIZE] page_count_of [of "mm_usable_mem_size m"] assms
    by (simp only: pmm_rel_def pmm_fresh_def Let_def pmm.select_convs make_buddies_shape) simp
qed

lemma take_kernel_refines:
  assumes "pmm_rel N U p" "0 < kernel_size" "unat phys_addr + unat kernel_size \<le> N * 4096"
  shows "\<exists>p'. take_kernel phys_addr kernel_size p = Inr p' \<and> pm_memory_map p' = pm_memory_map p \<and> map bd_last_alloc (pm_buddies p') = map bd_last_alloc (pm_buddies p) \<and>
    pmm_rel N (U \<union> {unat phys_addr div 4096..<(unat phys_addr + unat kernel_size + 4095) div 4096}) p'"
proof -
  define e where "e = (unat phys_addr + unat kernel_size + 4095) div 4096 - 1"
  have "N < 2 ^ 20" using assms(1) by (simp add: pmm_rel_def)
  have ks: "0 < unat kernel_size" using assms(2) by (simp add: word_less_nat_alt)
  then have pos: "0 < (unat phys_addr + unat kernel_size + 4095) div 4096" by (simp add: div_greater_zero_iff)
  have "unat (phys_addr + kernel_size + PAGE_SIZE - 1) = unat phys_addr + unat kernel_size + 4095"
    using assms(3) \<open>N < 2 ^ 20\<close> by (simp only: diff_conv_add_uminus add.assoc PAGE_SIZE_def) (simp add: unat_word_ariths)
  then have "unat ((phys_addr + kernel_size + PAGE_SIZE - 1) div PAGE_SIZE) = Suc e"
    using pos by (simp only: unat_div_distrib e_def) (simp add: PAGE_SIZE_def)
  then have final: "unat ((phys_addr + kernel_size + PAGE_SIZE - 1) div PAGE_SIZE - 1) = e"
    by (subst unat_pred) (auto simp: word_less_nat_alt)
  have first: "unat (phys_addr div PAGE_SIZE) = unat phys_addr div 4096" by (simp add: PAGE_SIZE_def unat_div_distrib)
  have e: "unat phys_addr div 4096 \<le> e" "e < N"
    using ks pos assms(3) by (auto simp: e_def less_eq_div_iff_mult_less_eq div_less_iff_less_mult)
  have "{unat phys_addr div 4096..<(unat phys_addr + unat kernel_size + 4095) div 4096} = {unat phys_addr div 4096..e}"
    using pos by (auto simp: e_def)
  then show ?thesis
    using pmm_mark_used [OF assms(1) e] assms(1) unfolding take_kernel_def Let_def first final by (auto simp: pmm_rel_def)
qed

lemma init_establishes:
  assumes "mi_flags info AND MULTIBOOT_INFO_MEM_MAP \<noteq> 0" "N = memory_pages info" "128 dvd N" "N < 2 ^ 20"
    "\<forall>r\<in>set (mi_mmap info). mr_type r = Available \<longrightarrow> region_ok N r"
    "0 < kernel_size" "unat phys_addr + unat kernel_size \<le> N * 4096"
  shows "\<exists>p. pmm_init info phys_addr kernel_size = Inr p \<and>
    load_map info \<lparr>mm_entries = [], mm_mem_size = 0, mm_usable_mem_size = 0\<rparr> = Inr (pm_memory_map p) \<and> (\<forall>b\<in>set (pm_buddies p). bd_last_alloc b = 0) \<and>
    pmm_rel N ({..<N} - (\<Union>r\<in>{r \<in> set (mi_mmap info). mr_type r = Available}. region_pages r) \<union>
       {unat phys_addr div 4096..<(unat phys_addr + unat kernel_size + 4095) div 4096}) p"
proof -
  define m where "m = fold load_entry (mi_mmap info) \<lparr>mm_entries = [], mm_mem_size = 0, mm_usable_mem_size = 0\<rparr>"
  have ents: "mm_entries m = mi_mmap info"
    using load_entries [of "\<lparr>mm_entries = [], mm_mem_size = 0, mm_usable_mem_size = 0\<rparr>" "mi_mmap info"] by (simp add: m_def)
  have "N = (unat (mm_usable_mem_size m) + 4095) div 4096" using assms(2) by (simp add: memory_pages_def m_def)
  from pmm_fresh_rel [OF this assms(3,4)] have fresh: "pmm_rel N {..<N} (pmm_fresh m)" .
  obtain p1 where p1: "kfold free_region (mi_mmap info) (pmm_fresh m) = Inr p1" "map bd_last_alloc (pm_buddies p1) = replicate buddy_count 0"
    "pm_memory_map p1 = m" "pmm_rel N ({..<N} - (\<Union>r\<in>{r \<in> set (mi_mmap info). mr_type r = Available}. region_pages r)) p1"
    using free_regions_refine [OF fresh assms(5)] by (auto simp: pmm_fresh_def Let_def make_buddies_shape)
  obtain p where p: "take_kernel phys_addr kernel_size p1 = Inr p" "map bd_last_alloc (pm_buddies p) = replicate buddy_count 0"
    "pm_memory_map p = m" "pmm_rel N ({..<N} - (\<Union>r\<in>{r \<in> set (mi_mmap info). mr_type r = Available}. region_pages r) \<union>
       {unat phys_addr div 4096..<(unat phys_addr + unat kernel_size + 4095) div 4096}) p"
    using take_kernel_refines [OF p1(4) assms(6,7)] p1(2,3) by auto
  have "\<forall>b\<in>set (pm_buddies p). bd_last_alloc b = 0" using p(2) by (metis image_eqI in_set_replicate list.set_map)
  then show ?thesis using p p1(1) assms(1) by (simp add: pmm_init_def load_map_def m_def [symmetric] ents)
qed

text \<open>
  C10. Initialisation, for a memory of a multiple of 512 KiB: every page is used but those the available
  regions of the memory map touch, and of these the pages of the kernel are used as well.
\<close>

theorem pmm_init_refines:
  assumes "mi_flags info AND MULTIBOOT_INFO_MEM_MAP \<noteq> 0" "N = memory_pages info" "128 dvd N" "N < 2 ^ 20"
    "\<forall>r\<in>set (mi_mmap info). mr_type r = Available \<longrightarrow> region_ok N r"
    "0 < kernel_size" "unat phys_addr + unat kernel_size \<le> N * 4096"
  shows "\<exists>p. pmm_init info phys_addr kernel_size = Inr p \<and>
    load_map info \<lparr>mm_entries = [], mm_mem_size = 0, mm_usable_mem_size = 0\<rparr> = Inr (pm_memory_map p) \<and> (\<forall>b\<in>set (pm_buddies p). bd_last_alloc b = 0) \<and>
    pmm_rel N ({..<N} - (\<Union>r\<in>{r \<in> set (mi_mmap info). mr_type r = Available}. region_pages r) \<union>
       {unat phys_addr div 4096..<(unat phys_addr + unat kernel_size + 4095) div 4096}) p"
  using assms by (rule init_establishes)

section \<open>Freeing and reserving\<close>

text \<open>What \<open>free\<close> releases: the size is rounded up by the page size of its class, and not by the small one.\<close>

definition freed_pages :: "u32 \<Rightarrow> pmm \<Rightarrow> nat" where
  "freed_pages sz p = (unat sz + 4096 * 2 ^ get_buddy sz (pm_buddies p) - 1) div 4096"

lemma pmm_free_refines:
  assumes "pmm_rel N U p" "0 < sz" "sz \<le> 0x80000" "unat a div 4096 + freed_pages sz p \<le> N"
  shows "\<exists>p'. pmm_free a sz p = Inr p' \<and> pmm_rel N (U - {unat a div 4096..<unat a div 4096 + freed_pages sz p}) p' \<and>
    pm_explicit_used_memory p' = pm_explicit_used_memory p - sz"
proof -
  let ?k = "get_buddy sz (pm_buddies p)" let ?b = "pm_buddies p ! ?k" let ?i = "unat a div 4096" let ?n = "freed_pages sz p"
  note k = get_buddy_fits(1) [OF assms(1,3)]
  have small: "N < 2 ^ 20" "0 < unat sz" "unat sz \<le> 0x80000"
    using assms(1-3) by (simp_all add: pmm_rel_def word_less_nat_alt word_le_nat_alt)
  have "(2 :: nat) ^ ?k \<le> 2 ^ 7" using k by (intro power_increasing) (auto simp: buddy_count_def)
  then have "unat (sz + bd_page_size ?b - 1) = unat sz + 4096 * 2 ^ ?k - 1"
    using small level_size(2) [OF assms(1) k] by (subst unat_pred) (auto simp: unat_word_ariths word_less_nat_alt)
  then have count: "unat ((sz + bd_page_size ?b - 1) div PAGE_SIZE) = ?n"
    by (simp only: unat_div_distrib freed_pages_def) (simp add: PAGE_SIZE_def)
  have "4096 \<le> unat sz + 4096 * 2 ^ ?k - 1" using small(2) one_le_power [of "2 :: nat" ?k] by linarith
  then have pos: "0 < ?n" by (simp add: freed_pages_def div_greater_zero_iff)
  have first: "unat (a div PAGE_SIZE) = ?i" by (simp add: PAGE_SIZE_def unat_div_distrib)
  have "unat (a div PAGE_SIZE + (sz + bd_page_size ?b - 1) div PAGE_SIZE) = ?i + ?n"
    using assms(4) small(1) by (simp only: unat_word_ariths(1) first count) simp
  then have final: "unat (a div PAGE_SIZE + (sz + bd_page_size ?b - 1) div PAGE_SIZE - 1) = ?i + ?n - 1"
    using pos by (subst unat_pred) (simp_all only: word_less_nat_alt, simp)
  have "?i \<le> ?i + ?n - 1" "?i + ?n - 1 < N" "{?i..<?i + ?n} = {?i..?i + ?n - 1}" using pos assms(4) by auto
  then show ?thesis
    using pmm_mark_free [OF assms(1), of ?i "?i + ?n - 1"] assms(1) unfolding pmm_free_def Let_def first final by (auto simp: pmm_rel_def)
qed

lemma get_buddy_exact:
  assumes "pmm_rel N U p" "k < buddy_count" "unat sz \<le> 4096 * 2 ^ k" "k = 0 \<or> 4096 * 2 ^ (k - 1) < unat sz"
  shows "get_buddy sz (pm_buddies p) = k"
proof -
  let ?g = "get_buddy sz (pm_buddies p)"
  have "(2 :: nat) ^ k \<le> 2 ^ 7" using assms(2) by (intro power_increasing) (auto simp: buddy_count_def)
  then have "sz \<le> 0x80000" using assms(3) by (simp add: word_le_nat_alt)
  note fit = get_buddy_fits [OF assms(1) this]
  have "unat sz \<le> 4096 * 2 ^ ?g" using fit(2) level_size(2) [OF assms(1) fit(1)] by (simp add: word_le_nat_alt)
  then have "k = 0 \<or> (2 :: nat) ^ (k - 1) < 2 ^ ?g" using assms(4) by linarith
  then have "k \<le> ?g" by (auto dest: power_less_imp_less_exp [rotated])
  moreover have "\<not> k < ?g"
  proof
    assume "k < ?g"
    then have "unat (bd_page_size (pm_buddies p ! k)) < unat sz" using fit(3) by (simp add: word_less_nat_alt)
    then show False using level_size(2) [OF assms(1,2)] assms(3) by simp
  qed
  ultimately show ?thesis by simp
qed

text \<open>
  C33. A page that was allocated and is freed again leaves the memory as it was: the same pages are free.
\<close>

theorem pmm_page_roundtrip:
  assumes "pmm_rel N U p" "0 < sz" "sz \<le> 0x1000" "pmm_alloc sz min_address max_address bdry p = Some (Inr (a, p'))"
  shows "\<exists>p''. pmm_free a sz p' = Inr p'' \<and> pmm_rel N U p''"
proof -
  have sz: "0 < unat sz" "unat sz \<le> 4096" using assms(2,3) by (simp_all add: word_less_nat_alt word_le_nat_alt)
  have le: "sz \<le> 0x80000" using sz by (simp add: word_le_nat_alt)
  have a: "page_span a sz \<inter> U = {}" "page_span a sz \<subseteq> {..<N}" "pmm_rel N (U \<union> page_span a sz) p'"
    using alloc_takes_free_pages [OF assms(1,2) le assms(4)] by auto
  have "freed_pages sz p' = 1" "(unat sz + 4095) div 4096 = 1"
    using get_buddy_exact [OF a(3), of 0 sz] sz by (auto simp: freed_pages_def buddy_count_def intro: div_nat_eqI)
  then show ?thesis
    using pmm_free_refines [OF a(3) assms(2) le, of a] a(1,2) by (auto simp: page_span_def Un_Diff Diff_triv)
qed

text \<open>
  C39. Freeing a larger block frees pages behind it: for \<open>2 ^ k\<close> pages, \<open>2 * 2 ^ k - 1\<close> pages become free,
  also when the pages behind the block belong to someone else.
\<close>

theorem pmm_free_frees_neighbours:
  assumes "pmm_rel N U p" "0 < k" "k < buddy_count" "unat a div 4096 + (2 * 2 ^ k - 1) \<le> N"
  shows "\<exists>p'. pmm_free a (PAGE_SIZE * 2 ^ k) p = Inr p' \<and> pmm_rel N (U - {unat a div 4096..<unat a div 4096 + (2 * 2 ^ k - 1)}) p' \<and>
    unat a div 4096 + 2 ^ k \<in> {unat a div 4096..<unat a div 4096 + (2 * 2 ^ k - 1)}"
proof -
  have sz: "unat (PAGE_SIZE * 2 ^ k) = 4096 * 2 ^ k" using level_size [OF assms(1,3)] by simp
  have "(2 :: nat) ^ k \<le> 2 ^ 7" using assms(3) by (intro power_increasing) (auto simp: buddy_count_def)
  then have le: "0 < PAGE_SIZE * 2 ^ k" "PAGE_SIZE * 2 ^ k \<le> 0x80000" using sz by (simp_all add: word_less_nat_alt word_le_nat_alt)
  have "get_buddy (PAGE_SIZE * 2 ^ k) (pm_buddies p) = k"
    using assms(2) by (intro get_buddy_exact [OF assms(1,3)]) (simp_all add: sz)
  then have "freed_pages (PAGE_SIZE * 2 ^ k) p = (4096 * (2 * 2 ^ k - 1) + 4095) div 4096"
    by (simp add: freed_pages_def sz diff_mult_distrib2)
  then have "freed_pages (PAGE_SIZE * 2 ^ k) p = 2 * 2 ^ k - 1" by simp
  moreover have "(2 :: nat) ^ 1 \<le> 2 ^ k" using assms(2) by (intro power_increasing) auto
  ultimately show ?thesis using pmm_free_refines [OF assms(1) le, of a] assms(4) by auto
qed

text \<open>\<open>reserve\<close> marks one page more than the size has.\<close>

lemma pmm_reserve_refines:
  assumes "pmm_rel N U p" "unat address div 4096 + (unat sz + 4095) div 4096 < N"
  shows "\<exists>p'. pmm_reserve address sz p = Inr p' \<and>
    pmm_rel N (U \<union> {unat address div 4096..unat address div 4096 + (unat sz + 4095) div 4096}) p'"
proof -
  have small: "N < 2 ^ 20" using assms(1) by (simp add: pmm_rel_def)
  then have sz: "unat sz < 2 ^ 32 - 4096" using assms(2) by (simp add: div_less_iff_less_mult)
  then have "round_up_to_power_of_two sz PAGE_SIZE = round_up_to_multiple sz PAGE_SIZE"
    using round_up_power_eq_multiple [of 12 sz] by (simp add: PAGE_SIZE_def)
  moreover have "unat (round_up_to_multiple sz PAGE_SIZE) = (unat sz + 4095) div 4096 * 4096"
    using unat_round_up [of PAGE_SIZE sz] sz by (simp add: PAGE_SIZE_def)
  ultimately have count: "unat (round_up_to_power_of_two sz PAGE_SIZE div PAGE_SIZE) = (unat sz + 4095) div 4096"
    by (simp add: unat_div_distrib) (simp add: PAGE_SIZE_def)
  have first: "unat (address div PAGE_SIZE) = unat address div 4096" by (simp add: PAGE_SIZE_def unat_div_distrib)
  have "unat (address div PAGE_SIZE + round_up_to_power_of_two sz PAGE_SIZE div PAGE_SIZE) =
        unat address div 4096 + (unat sz + 4095) div 4096"
    using assms(2) small by (simp only: unat_word_ariths(1) first count) simp
  then show ?thesis
    using pmm_mark_used [OF assms(1) le_add1 assms(2)] assms(1) unfolding pmm_reserve_def Let_def first by (auto simp: pmm_rel_def)
qed

section \<open>A small memory\<close>

text \<open>512 KiB of memory, all of it available, with the kernel at 64 KiB.\<close>

definition small_info :: multiboot_info where
  "small_info = \<lparr>mi_flags = 0x40, mi_mmap = [\<lparr>mr_base_address = 0, mr_length = 0x80000, mr_type = Available\<rparr>]\<rparr>"

lemma small_load:
  "load_map small_info \<lparr>mm_entries = [], mm_mem_size = 0, mm_usable_mem_size = 0\<rparr> =
     Inr \<lparr>mm_entries = mi_mmap small_info, mm_mem_size = 0x80000, mm_usable_mem_size = 0x80000\<rparr>"
  "memory_pages small_info = 128"
  by (simp_all add: load_map_def small_info_def load_entry_def Let_def MULTIBOOT_INFO_MEM_MAP_def memory_pages_def)

lemma small_init_hyps:
  "mi_flags small_info AND MULTIBOOT_INFO_MEM_MAP \<noteq> 0"
  "\<forall>r\<in>set (mi_mmap small_info). mr_type r = Available \<longrightarrow> region_ok 128 r"
  "unat (0x10000 :: u32) + unat (0x3000 :: u32) \<le> 128 * 4096"
  by (simp_all add: small_info_def MULTIBOOT_INFO_MEM_MAP_def region_ok_def)

lemma small_pages:
  "{..<128} - (\<Union>r\<in>{r \<in> set (mi_mmap small_info). mr_type r = Available}. region_pages r) \<union>
     {unat (0x10000 :: u32) div 4096..<(unat (0x10000 :: u32) + unat (0x3000 :: u32) + 4095) div 4096} = {16..<19}"
proof -
  have "(\<Union>r\<in>{r \<in> set (mi_mmap small_info). mr_type r = Available}. region_pages r) = {0..<128}"
    by (auto simp: small_info_def region_pages_def)
  then show ?thesis by auto
qed

theorem pmm_init_refines_witness:
  "\<exists>p. pmm_init small_info 0x10000 0x3000 = Inr p \<and> pmm_rel 128 {16..<19} p"
proof -
  have "\<exists>p. pmm_init small_info 0x10000 0x3000 = Inr p \<and>
      load_map small_info \<lparr>mm_entries = [], mm_mem_size = 0, mm_usable_mem_size = 0\<rparr> = Inr (pm_memory_map p) \<and>
      (\<forall>b\<in>set (pm_buddies p). bd_last_alloc b = 0) \<and> pmm_rel 128 {16..<19} p"
    using pmm_init_refines [OF small_init_hyps(1) small_load(2) [symmetric] _ _ small_init_hyps(2) _ small_init_hyps(3)]
    unfolding small_pages by simp
  then show ?thesis by blast
qed

lemma small_pmm:
  "\<exists>p. pmm_rel 128 {16..<19} p \<and> mm_usable_mem_size (pm_memory_map p) = 0x80000 \<and> (\<forall>b\<in>set (pm_buddies p). bd_last_alloc b = 0)"
proof -
  obtain p where "Inr \<lparr>mm_entries = mi_mmap small_info, mm_mem_size = 0x80000, mm_usable_mem_size = 0x80000\<rparr> = (Inr (pm_memory_map p) :: multiboot_map kres)"
    "\<forall>b\<in>set (pm_buddies p). bd_last_alloc b = 0" "pmm_rel 128 {16..<19} p"
    using init_establishes [OF small_init_hyps(1) small_load(2) [symmetric] _ _ small_init_hyps(2) _ small_init_hyps(3)]
    unfolding small_pages small_load(1) by auto
  then show ?thesis by (intro exI [of _ p]) (simp add: sum.inject [symmetric] eq_commute [of _ "pm_memory_map p"])
qed

text \<open>The search for one page in it begins behind the page 0 and ends at the page 128.\<close>

lemma small_search:
  assumes "pmm_rel 128 {16..<19} p" "mm_usable_mem_size (pm_memory_map p) = 0x80000" "\<forall>b\<in>set (pm_buddies p). bd_last_alloc b = 0"
  defines "b \<equiv> pm_buddies p ! 0"
  shows "b = pm_buddies p ! get_buddy 0x1000 (pm_buddies p)" "0 = (0 + bd_page_size b - 1) div bd_page_size b"
    "0x80 = kmin 0xFFFFFFFF (ucast (mm_usable_mem_size (pm_memory_map p))) div bd_page_size b"
    "0 = kmax (bd_last_alloc b) 0" "List.find (admissible b 0x1000 0) (places (0 + 1) 0x80 @ places 0 0) = Some 1"
    "bd_page_size b = 0x1000"
proof -
  have ne: "0 < length (pm_buddies p)" using assms(1) by (simp add: pmm_rel_def buddy_count_def)
  show "b = pm_buddies p ! get_buddy 0x1000 (pm_buddies p)"
    using get_buddy_exact [OF assms(1), of 0 "0x1000"] by (simp add: b_def buddy_count_def)
  show sz: "bd_page_size b = 0x1000" using level_size(1) [OF assms(1), of 0] by (simp add: b_def PAGE_SIZE_def buddy_count_def)
  have last: "bd_last_alloc b = 0" using assms(3) ne by (simp add: b_def)
  have "level_ok 128 {16..<19} 0 b"
    using levels_ok_nth [OF _ ne, of 128 "{16..<19}" 0] assms(1) by (simp add: b_def pmm_rel_def)
  then have "admissible b 0x1000 0 1" by (auto simp: admissible_def level_ok_def word_less_nat_alt)
  moreover have "places 1 0x80 = 1 # places 2 0x80" by (subst places_Cons) simp_all
  ultimately show "List.find (admissible b 0x1000 0) (places (0 + 1) 0x80 @ places 0 0) = Some 1" by simp
  show "0 = (0 + bd_page_size b - 1) div bd_page_size b" by (simp add: sz)
  show "0x80 = kmin 0xFFFFFFFF (ucast (mm_usable_mem_size (pm_memory_map p))) div bd_page_size b" by (simp add: sz assms(2) kmin_def)
  show "0 = kmax (bd_last_alloc b) 0" by (simp add: last kmax_def)
qed

lemma small_alloc:
  assumes "pmm_rel 128 {16..<19} p" "mm_usable_mem_size (pm_memory_map p) = 0x80000" "\<forall>b\<in>set (pm_buddies p). bd_last_alloc b = 0"
  shows "\<exists>p'. pmm_alloc 0x1000 0 0xFFFFFFFF 0 p = Some (Inr (0x1000, p'))"
  using alloc_next_fit [OF assms(1) _ _ small_search(1-4) [OF assms], of 0] small_search(5,6) [OF assms] by auto

theorem pmm_alloc_safe_witness:
  "\<exists>p a p'. pmm_rel 128 {16..<19} p \<and> pmm_alloc 0x1000 0 0xFFFFFFFF 0 p = Some (Inr (a, p')) \<and> page_span a 0x1000 \<inter> {16..<19} = {} \<and>
     pmm_rel 128 ({16..<19} \<union> page_span a 0x1000) p'"
proof -
  obtain p where p: "pmm_rel 128 {16..<19} p" "mm_usable_mem_size (pm_memory_map p) = 0x80000" "\<forall>b\<in>set (pm_buddies p). bd_last_alloc b = 0"
    using small_pmm by auto
  obtain p' where p': "pmm_alloc 0x1000 0 0xFFFFFFFF 0 p = Some (Inr (0x1000, p'))" using small_alloc [OF p] by auto
  show ?thesis using pmm_alloc_safe [OF p(1) _ _ p'] p(1) p' by auto
qed

theorem pmm_alloc_next_fit_witness:
  "\<exists>p p'. pmm_rel 128 {16..<19} p \<and> pmm_alloc 0x1000 0 0xFFFFFFFF 0 p = Some (Inr (0x1000, p'))"
proof -
  obtain p where p: "pmm_rel 128 {16..<19} p" "mm_usable_mem_size (pm_memory_map p) = 0x80000" "\<forall>b\<in>set (pm_buddies p). bd_last_alloc b = 0"
    using small_pmm by auto
  show ?thesis
    using pmm_alloc_next_fit [OF p(1) _ _ small_search(1-4) [OF p], of 0] small_search(5,6) [OF p] p(1) by auto
qed

theorem pmm_page_roundtrip_witness:
  "\<exists>p a p' p''. pmm_rel 128 {16..<19} p \<and> pmm_alloc 0x1000 0 0xFFFFFFFF 0 p = Some (Inr (a, p')) \<and> pmm_free a 0x1000 p' = Inr p'' \<and>
     pmm_rel 128 {16..<19} p''"
proof -
  obtain p where p: "pmm_rel 128 {16..<19} p" "mm_usable_mem_size (pm_memory_map p) = 0x80000" "\<forall>b\<in>set (pm_buddies p). bd_last_alloc b = 0"
    using small_pmm by auto
  obtain p' where p': "pmm_alloc 0x1000 0 0xFFFFFFFF 0 p = Some (Inr (0x1000, p'))" using small_alloc [OF p] by auto
  show ?thesis using pmm_page_roundtrip [OF p(1) _ _ p'] p(1) p' by auto
qed

text \<open>Freeing the two pages before the kernel frees its first page.\<close>

theorem pmm_free_frees_neighbours_witness:
  "\<exists>p p'. pmm_rel 128 {16..<19} p \<and> pmm_free 0xE000 0x2000 p = Inr p' \<and> pmm_rel 128 {17..<19} p'"
proof -
  obtain p where p: "pmm_rel 128 {16..<19} p" using small_pmm by auto
  have "{16..<19} - {14..<17} = {17..<19 :: nat}" by auto
  then show ?thesis
    using pmm_free_frees_neighbours [OF p, of 1 "0xE000"] p by (auto simp: buddy_count_def PAGE_SIZE_def)
qed

text \<open>
  A full memory after the page 1 was allocated: the last allocation of the larger pages is then the
  index before the page 0.
\<close>

definition full_pmm :: pmm where
  "full_pmm = (let p = pmm_fresh \<lparr>mm_entries = [], mm_mem_size = 0x80000, mm_usable_mem_size = 0x80000\<rparr>
               in p\<lparr>pm_buddies := set_last_alloc 1 1 (pm_buddies p)\<rparr>)"

theorem pmm_alloc_hangs_witness:
  "pmm_rel 128 {..<128} full_pmm \<and> pmm_alloc 0x2000 0 0xFFFFFFFF 0 full_pmm = None"
proof -
  have rel: "pmm_rel 128 {..<128} full_pmm"
    using pmm_fresh_rel [of 128 "\<lparr>mm_entries = [], mm_mem_size = 0x80000, mm_usable_mem_size = 0x80000\<rparr>"]
    by (simp add: full_pmm_def Let_def pmm_rel_def set_last_alloc_levels)
  have g: "pm_buddies full_pmm ! 1 = pm_buddies full_pmm ! get_buddy 0x2000 (pm_buddies full_pmm)"
    using get_buddy_exact [OF rel, of 1 "0x2000"] by (simp add: buddy_count_def)
  have sz: "bd_page_size (pm_buddies full_pmm ! 1) = 0x2000" using level_size(1) [OF rel, of 1] by (simp add: PAGE_SIZE_def buddy_count_def)
  have last: "bd_last_alloc (pm_buddies full_pmm ! 1) = 0xFFFFFFFF"
  proof -
    have "bd_last_alloc (set_last_alloc 1 1 (make_buddies (Suc (Suc n)) c PAGE_SIZE) ! 1) = 0xFFFFFFFF" for n c by simp
    from this [of 6] show ?thesis by (simp only: full_pmm_def pmm_fresh_def Let_def buddy_count_def) simp
  qed
  have usable: "mm_usable_mem_size (pm_memory_map full_pmm) = 0x80000" by (simp add: full_pmm_def pmm_fresh_def Let_def)
  have "pmm_alloc 0x2000 0 0xFFFFFFFF 0 full_pmm = None"
    by (rule pmm_alloc_hangs [OF rel _ _ g refl refl]) (simp_all add: sz last usable kmin_def del: One_nat_def)
  then show ?thesis using rel by simp
qed

end
