(* ===== verification/Paging.thy ===== *)
theory Paging
  imports PMMOps
begin

text \<open>
  \<open>arch/i686/memory.cpp\<close> with the types of \<open>memory/definitions.hpp\<close>: page directories, page tables,
  mapping and unmapping. The page directories and the mapping tables of the address spaces are
  objects of the kernel heap; the page tables are frames of physical memory, which the kernel reaches
  through one fixed virtual page. The invalidation of cached translations and the messages to
  other processors have no effect in the model, and the spin lock of the master directory is free
  before and after every operation.
\<close>

section \<open>Regions\<close>

datatype CachingMode = Uncacheable | WriteCombining | WriteThrough | WriteProtect | WriteBack

record region_t =
  rg_address :: u32
  rg_size :: u32

definition rg_end :: "region_t \<Rightarrow> u32" where
  "rg_end r = rg_address r + rg_size r - 1"

definition overlaps :: "region_t \<Rightarrow> region_t \<Rightarrow> bool" where
  "overlaps r other \<longleftrightarrow> rg_address r \<le> rg_end other \<and> rg_address other \<le> rg_end r"

definition contains :: "region_t \<Rightarrow> u32 \<Rightarrow> bool" where
  "contains r p \<longleftrightarrow> rg_address r \<le> p \<and> p \<le> rg_end r"

record mapping_config_t =
  mc_readable :: bool
  mc_writeable :: bool
  mc_userspace :: bool
  mc_caching_mode :: CachingMode
  mc_bounds :: region_t
  mc_alignment :: u32

definition default_config :: mapping_config_t where
  "default_config = \<lparr>mc_readable = True, mc_writeable = True, mc_userspace = False, mc_caching_mode = WriteThrough,
     mc_bounds = \<lparr>rg_address = 0, rg_size = 0xFFFFFFFF\<rparr>, mc_alignment = 0\<rparr>"

record memory_region_t =
  mr_virt_address :: u32
  mr_phys_address :: u32
  mr_size :: u32
  mr_mapped :: bool
  mr_present :: bool
  mr_allocated :: bool
  mr_config :: mapping_config_t

definition virt_region :: "memory_region_t \<Rightarrow> region_t" where
  "virt_region r = \<lparr>rg_address = mr_virt_address r, rg_size = mr_size r\<rparr>"

section \<open>Page tables\<close>

text \<open>The bits of an entry that are left to the system are always zero and have no field.\<close>

record page_table_entry_t =
  pt_present :: bool
  pt_writeable :: bool
  pt_user :: bool
  pt_write_through :: bool
  pt_cache_disable :: bool
  pt_accessed :: bool
  pt_dirty :: bool
  pt_page_attribute :: bool
  pt_global :: bool
  pt_page_address :: "20 word"

definition pt_value :: "page_table_entry_t \<Rightarrow> u32" where
  "pt_value e = of_bool (pt_present e) OR push_bit 1 (of_bool (pt_writeable e)) OR push_bit 2 (of_bool (pt_user e)) OR
     push_bit 3 (of_bool (pt_write_through e)) OR push_bit 4 (of_bool (pt_cache_disable e)) OR push_bit 5 (of_bool (pt_accessed e)) OR
     push_bit 6 (of_bool (pt_dirty e)) OR push_bit 7 (of_bool (pt_page_attribute e)) OR push_bit 8 (of_bool (pt_global e)) OR
     push_bit 12 (ucast (pt_page_address e))"

definition pt_page :: "page_table_entry_t \<Rightarrow> u32" where
  "pt_page e = push_bit 12 (ucast (pt_page_address e))"

definition null_pt_entry :: page_table_entry_t where
  "null_pt_entry = \<lparr>pt_present = False, pt_writeable = False, pt_user = False, pt_write_through = False, pt_cache_disable = False,
     pt_accessed = False, pt_dirty = False, pt_page_attribute = False, pt_global = False, pt_page_address = 0\<rparr>"

record page_directory_entry_t =
  pd_present :: bool
  pd_writeable :: bool
  pd_user :: bool
  pd_write_through :: bool
  pd_cache_disable :: bool
  pd_accessed :: bool
  pd_page_size :: bool
  pd_table_address :: "20 word"

definition pd_value :: "page_directory_entry_t \<Rightarrow> u32" where
  "pd_value e = of_bool (pd_present e) OR push_bit 1 (of_bool (pd_writeable e)) OR push_bit 2 (of_bool (pd_user e)) OR
     push_bit 3 (of_bool (pd_write_through e)) OR push_bit 4 (of_bool (pd_cache_disable e)) OR push_bit 5 (of_bool (pd_accessed e)) OR
     push_bit 7 (of_bool (pd_page_size e)) OR push_bit 12 (ucast (pd_table_address e))"

definition pd_table :: "page_directory_entry_t \<Rightarrow> u32" where
  "pd_table e = push_bit 12 (ucast (pd_table_address e))"

definition null_pd_entry :: page_directory_entry_t where
  "null_pd_entry = \<lparr>pd_present = False, pd_writeable = False, pd_user = False, pd_write_through = False, pd_cache_disable = False,
     pd_accessed = False, pd_page_size = False, pd_table_address = 0\<rparr>"

record paging_space_t =
  ps_physical_pd_address :: u32
  ps_page_directory :: ptr
  ps_mapping_table :: ptr
  ps_page_directory_version :: u64

text \<open>
  The state: the frames that hold page tables, the page directories and mapping tables on the kernel
  heap, the address spaces and the one the processor uses, and the master copy of the kernel half.
  \<open>ar_virtual_addr\<close> is the symbol of the linker where the kernel half begins.
\<close>

record arch_t =
  ar_frames :: "20 word \<rightharpoonup> page_table_entry_t list"
  ar_pmm :: pmm
  ar_directories :: "addr \<rightharpoonup> page_directory_entry_t list"
  ar_mappings :: "addr \<rightharpoonup> page_table_entry_t list"
  ar_spaces :: "addr \<rightharpoonup> paging_space_t"
  ar_current :: ptr
  ar_master_directory :: ptr
  ar_master_mapping :: ptr
  ar_directory_version :: u64
  ar_virtual_addr :: u32

section \<open>Addresses\<close>

definition PAGE_COUNT :: nat where
  "PAGE_COUNT = 1024"

definition OFFSET_MASK :: u32 where
  "OFFSET_MASK = 0xFFF"

definition TABLE_MASK :: u32 where
  "TABLE_MASK = 0x3FF000"

definition DIRECTORY_MASK :: u32 where
  "DIRECTORY_MASK = 0xFFC00000"

definition PAGE_TABLE_ARRAY_ADDR :: u32 where
  "PAGE_TABLE_ARRAY_ADDR = 0xFFC00000"

definition FIXED_PAGE_TABLE_MAP_ADDR :: u32 where
  "FIXED_PAGE_TABLE_MAP_ADDR = PAGE_TABLE_ARRAY_ADDR - PAGE_SIZE"

definition is_kernel_space :: "arch_t \<Rightarrow> u32 \<Rightarrow> bool" where
  "is_kernel_space a virt_addr \<longleftrightarrow> ar_virtual_addr a < virt_addr"

definition to_page_address :: "u32 \<Rightarrow> u32" where
  "to_page_address phys_addr = phys_addr AND (TABLE_MASK OR DIRECTORY_MASK)"

definition get_pd_index :: "u32 \<Rightarrow> nat" where
  "get_pd_index virt_addr = unat (drop_bit 22 (virt_addr AND DIRECTORY_MASK))"

definition get_pt_index :: "u32 \<Rightarrow> nat" where
  "get_pt_index virt_addr = unat (drop_bit 12 (virt_addr AND TABLE_MASK))"

definition get_offset :: "u32 \<Rightarrow> u32" where
  "get_offset virt_addr = virt_addr AND OFFSET_MASK"

section \<open>Entries\<close>

definition get_write_through_from_pat_index :: "u8 \<Rightarrow> bool" where
  "get_write_through_from_pat_index pat_index \<longleftrightarrow> pat_index AND 1 \<noteq> 0"

definition get_cache_disable_from_pat_index :: "u8 \<Rightarrow> bool" where
  "get_cache_disable_from_pat_index pat_index \<longleftrightarrow> drop_bit 1 pat_index AND 1 \<noteq> 0"

definition get_page_attribute_from_pat_index :: "u8 \<Rightarrow> bool" where
  "get_page_attribute_from_pat_index pat_index \<longleftrightarrow> drop_bit 2 pat_index AND 1 \<noteq> 0"

definition raw_create_pde :: "u32 \<Rightarrow> bool \<Rightarrow> bool \<Rightarrow> u8 \<Rightarrow> page_directory_entry_t" where
  "raw_create_pde table_addr is_user is_writeable pat_index =
     \<lparr>pd_present = True, pd_writeable = is_writeable, pd_user = is_user,
      pd_write_through = get_write_through_from_pat_index pat_index,
      pd_cache_disable = get_cache_disable_from_pat_index pat_index,
      pd_accessed = False, pd_page_size = False, pd_table_address = ucast (drop_bit 12 table_addr)\<rparr>"

definition raw_create_pte :: "u32 \<Rightarrow> bool \<Rightarrow> bool \<Rightarrow> u8 \<Rightarrow> page_table_entry_t" where
  "raw_create_pte page_addr is_user is_writeable pat_index =
     \<lparr>pt_present = True, pt_writeable = is_writeable, pt_user = is_user,
      pt_write_through = get_write_through_from_pat_index pat_index,
      pt_cache_disable = get_cache_disable_from_pat_index pat_index,
      pt_accessed = False, pt_dirty = False,
      pt_page_attribute = get_page_attribute_from_pat_index pat_index,
      pt_global = False, pt_page_address = ucast (drop_bit 12 page_addr)\<rparr>"

definition create_pte :: "u32 \<Rightarrow> page_directory_entry_t \<Rightarrow> bool \<Rightarrow> bool \<Rightarrow> u8 \<Rightarrow> page_table_entry_t kres" where
  "create_pte page_address pde is_user is_writeable pat_index =
     kbind (kassert (\<not> is_user \<or> (is_user \<and> pd_user pde))) (\<lambda>_. Inr (raw_create_pte page_address is_user is_writeable pat_index))"

fun caching_mode_to_pat_index :: "CachingMode \<Rightarrow> u8" where
  "caching_mode_to_pat_index Uncacheable = 3"
| "caching_mode_to_pat_index WriteCombining = 4"
| "caching_mode_to_pat_index WriteThrough = 1"
| "caching_mode_to_pat_index WriteProtect = 5"
| "caching_mode_to_pat_index WriteBack = 0"

text \<open>The page attribute table that \<open>initialize\<close> writes, and the mode an index of it selects.\<close>

definition pat_table :: u64 where
  "pat_table = 6 OR push_bit 8 4 OR push_bit 16 7 OR push_bit 24 0 OR push_bit 32 1 OR push_bit 40 5 OR push_bit 48 7 OR push_bit 56 0"

section \<open>Reaching a page table\<close>

text \<open>An array access that faults outside the array.\<close>

definition at_index :: "nat \<Rightarrow> 'a list \<Rightarrow> 'a kres" where
  "at_index i xs = (if i < length xs then Inr (xs ! i) else Inl BadAccess)"

text \<open>
  \<open>get_page_table_for\<close> puts the frame of the mapping table into the fixed page, through the directory
  of the current space, and returns the fixed page; the model returns the frame behind it. The fixed
  page is a window that is written anew before every use and is not otherwise read, so that its entry
  in the tables of the current space is not part of the state: no range that is mapped or unmapped
  here reaches it.
\<close>

definition get_page_table_for :: "paging_space_t \<Rightarrow> nat \<Rightarrow> arch_t \<Rightarrow> (20 word) kres" where
  "get_page_table_for ms pd_index a =
     kbind (deref (ar_spaces a) (ar_current a)) (\<lambda>cur.
     kbind (deref (ar_directories a) (ps_page_directory cur)) (\<lambda>dir.
     kbind (at_index (get_pd_index FIXED_PAGE_TABLE_MAP_ADDR) dir) (\<lambda>pde.
     kbind (kassert (pd_present pde)) (\<lambda>_.
     kbind (deref (ar_mappings a) (ps_mapping_table ms)) (\<lambda>mt.
     kbind (at_index pd_index mt) (\<lambda>e.
     kbind (create_pte (pt_page e) pde False True (caching_mode_to_pat_index Uncacheable)) (\<lambda>pte.
     Inr (pt_page_address pte))))))))"

definition read_entry :: "20 word \<Rightarrow> nat \<Rightarrow> arch_t \<Rightarrow> page_table_entry_t kres" where
  "read_entry frame i a = (case ar_frames a frame of None \<Rightarrow> Inl BadAccess | Some t \<Rightarrow> at_index i t)"

definition write_entry :: "20 word \<Rightarrow> nat \<Rightarrow> page_table_entry_t \<Rightarrow> arch_t \<Rightarrow> arch_t kres" where
  "write_entry frame i e a =
     (case ar_frames a frame of None \<Rightarrow> Inl BadAccess
      | Some t \<Rightarrow> kbind (at_index i t) (\<lambda>_. Inr (a\<lparr>ar_frames := (ar_frames a)(frame \<mapsto> t[i := e])\<rparr>)))"

definition set_directory_entry :: "ptr \<Rightarrow> nat \<Rightarrow> page_directory_entry_t \<Rightarrow> arch_t \<Rightarrow> arch_t kres" where
  "set_directory_entry d i e a =
     kbind (deref (ar_directories a) d) (\<lambda>dir. kbind (at_index i dir) (\<lambda>_.
     kbind (store (ar_directories a) d (\<lambda>dir. dir[i := e])) (\<lambda>ds. Inr (a\<lparr>ar_directories := ds\<rparr>))))"

definition set_mapping_entry :: "ptr \<Rightarrow> nat \<Rightarrow> page_table_entry_t \<Rightarrow> arch_t \<Rightarrow> arch_t kres" where
  "set_mapping_entry m i e a =
     kbind (deref (ar_mappings a) m) (\<lambda>mt. kbind (at_index i mt) (\<lambda>_.
     kbind (store (ar_mappings a) m (\<lambda>mt. mt[i := e])) (\<lambda>ms. Inr (a\<lparr>ar_mappings := ms\<rparr>))))"

definition directory_entry :: "ptr \<Rightarrow> nat \<Rightarrow> arch_t \<Rightarrow> page_directory_entry_t kres" where
  "directory_entry d i a = kbind (deref (ar_directories a) d) (at_index i)"

definition create_pde :: "nat \<Rightarrow> paging_space_t \<Rightarrow> bool \<Rightarrow> bool \<Rightarrow> u8 \<Rightarrow> arch_t \<Rightarrow> (page_directory_entry_t \<times> arch_t) kres option" where
  "create_pde pd_index ms is_user is_writeable pat_index a =
     obind (pmm_alloc PAGE_SIZE 0 0xFFFFFFFF 0 (ar_pmm a)) (\<lambda>(table_addr, p). Some (
       kbind (set_mapping_entry (ps_mapping_table ms) pd_index
                (raw_create_pte table_addr False True (caching_mode_to_pat_index Uncacheable)) (a\<lparr>ar_pmm := p\<rparr>)) (\<lambda>a.
       kbind (get_page_table_for ms pd_index a) (\<lambda>frame.
       Inr (raw_create_pde table_addr is_user is_writeable pat_index,
            a\<lparr>ar_frames := (ar_frames a)(frame \<mapsto> replicate PAGE_COUNT null_pt_entry)\<rparr>)))))"

section \<open>Mapping\<close>

partial_function (option) for_pages :: "(u32 \<Rightarrow> 's \<Rightarrow> 's kres option) \<Rightarrow> u32 \<Rightarrow> u32 \<Rightarrow> 's \<Rightarrow> 's kres option" where
  "for_pages callback virt_addr page_limit s =
     (if virt_addr < page_limit
      then obind (callback virt_addr s) (\<lambda>s. for_pages callback (virt_addr + PAGE_SIZE) page_limit s)
      else Some (Inr s))"

definition for_page_in_range :: "u32 \<Rightarrow> u32 \<Rightarrow> (u32 \<Rightarrow> 's \<Rightarrow> 's kres option) \<Rightarrow> 's \<Rightarrow> 's kres option" where
  "for_page_in_range virt_addr sz callback s =
     for_pages callback virt_addr (round_up_to_multiple (virt_addr + sz) PAGE_SIZE) s"

text \<open>The version is that of the space the processor uses.\<close>

definition bump_version :: "arch_t \<Rightarrow> arch_t kres" where
  "bump_version a =
     (let v = ar_directory_version a + 1
      in kbind (store (ar_spaces a) (ar_current a) (\<lambda>s. s\<lparr>ps_page_directory_version := v\<rparr>)) (\<lambda>ss.
           Inr (a\<lparr>ar_directory_version := v, ar_spaces := ss\<rparr>)))"

definition ensure_kernel_table :: "paging_space_t \<Rightarrow> mapping_config_t \<Rightarrow> nat \<Rightarrow> arch_t \<Rightarrow> arch_t kres option" where
  "ensure_kernel_table ms config pd_index a =
     obind (Some (directory_entry (ar_master_directory a) pd_index a)) (\<lambda>master.
     obind (if pd_value master = 0
            then obind (create_pde pd_index ms (mc_userspace config) (mc_writeable config) (caching_mode_to_pat_index Uncacheable) a)
                   (\<lambda>(pde, a). Some (
                      kbind (set_directory_entry (ar_master_directory a) pd_index pde a) (\<lambda>a.
                      kbind (set_mapping_entry (ar_master_mapping a) pd_index
                               (raw_create_pte (pd_table pde) False True (caching_mode_to_pat_index Uncacheable)) a) (\<lambda>a.
                      bump_version a))))
            else Some (Inr a)) (\<lambda>a.
     Some (kbind (directory_entry (ar_master_directory a) pd_index a) (\<lambda>pde.
           set_directory_entry (ps_page_directory ms) pd_index pde a))))"

definition ensure_table :: "paging_space_t \<Rightarrow> mapping_config_t \<Rightarrow> u32 \<Rightarrow> arch_t \<Rightarrow> arch_t kres option" where
  "ensure_table ms config virt_addr a =
     (let pd_index = get_pd_index virt_addr
      in obind (Some (directory_entry (ps_page_directory ms) pd_index a)) (\<lambda>pde.
         if pd_value pde = 0
         then if is_kernel_space a virt_addr then ensure_kernel_table ms config pd_index a
              else obind (create_pde pd_index ms (mc_userspace config) (mc_writeable config)
                            (caching_mode_to_pat_index (mc_caching_mode config)) a)
                     (\<lambda>(pde, a). Some (set_directory_entry (ps_page_directory ms) pd_index pde a))
         else Some (Inr a)))"

definition map_page :: "paging_space_t \<Rightarrow> mapping_config_t \<Rightarrow> u32 \<Rightarrow> u32 \<times> arch_t \<Rightarrow> (u32 \<times> arch_t) kres option" where
  "map_page ms config virt_addr s =
     (case s of (phys_addr, a) \<Rightarrow>
      obind (ensure_table ms config virt_addr a) (\<lambda>a. Some (
      kbind (directory_entry (ps_page_directory ms) (get_pd_index virt_addr) a) (\<lambda>pde.
      kbind (kassert (pd_present pde)) (\<lambda>_.
      kbind (get_page_table_for ms (get_pd_index virt_addr) a) (\<lambda>frame.
      kbind (read_entry frame (get_pt_index virt_addr) a) (\<lambda>old.
      kbind (kassert (\<not> pt_present old)) (\<lambda>_.
      kbind (create_pte (to_page_address phys_addr) pde (mc_userspace config) (mc_writeable config)
               (caching_mode_to_pat_index (mc_caching_mode config))) (\<lambda>pte.
      kbind (write_entry frame (get_pt_index virt_addr) pte a) (\<lambda>a.
      Inr (phys_addr + PAGE_SIZE, a)))))))))))"

definition arch_map :: "ptr \<Rightarrow> u32 \<Rightarrow> u32 \<Rightarrow> u32 \<Rightarrow> mapping_config_t \<Rightarrow> arch_t \<Rightarrow> arch_t kres option" where
  "arch_map space phys_addr virt_addr sz config a =
     obind (Some (kbind (kassert (virt_addr + sz < PAGE_TABLE_ARRAY_ADDR)) (\<lambda>_. deref (ar_spaces a) space))) (\<lambda>ms.
     obind (for_page_in_range virt_addr sz (map_page ms config) (phys_addr, a)) (\<lambda>(_, a). Some (Inr a)))"

section \<open>Unmapping\<close>

text \<open>The state of the loop: the tables to check, the last one put there, and the machine.\<close>

definition unmap_page :: "paging_space_t \<Rightarrow> u32 \<Rightarrow> nat list \<times> nat \<times> arch_t \<Rightarrow> (nat list \<times> nat \<times> arch_t) kres option" where
  "unmap_page ms virt_addr s =
     (case s of (checks, current, a) \<Rightarrow> Some (
      let pd_index = get_pd_index virt_addr
      in kbind (directory_entry (ps_page_directory ms) pd_index a) (\<lambda>pde.
         kbind (kassert (pd_present pde)) (\<lambda>_.
         kbind (get_page_table_for ms pd_index a) (\<lambda>frame.
         kbind (read_entry frame (get_pt_index virt_addr) a) (\<lambda>old.
         kbind (kassert (pt_present old)) (\<lambda>_.
         kbind (write_entry frame (get_pt_index virt_addr) null_pt_entry a) (\<lambda>a.
         if current \<noteq> pd_index \<and> \<not> is_kernel_space a virt_addr
         then Inr (checks @ [pd_index], pd_index, a)
         else Inr (checks, current, a)))))))))"

definition table_is_empty :: "20 word \<Rightarrow> arch_t \<Rightarrow> bool kres" where
  "table_is_empty frame a =
     (case ar_frames a frame of None \<Rightarrow> Inl BadAccess | Some t \<Rightarrow> Inr (\<forall>e\<in>set t. pt_value e = 0))"

definition check_table :: "paging_space_t \<Rightarrow> nat \<Rightarrow> arch_t \<Rightarrow> arch_t kres" where
  "check_table ms pd_index a =
     kbind (get_page_table_for ms pd_index a) (\<lambda>frame.
     kbind (table_is_empty frame a) (\<lambda>to_delete.
     if to_delete
     then kbind (directory_entry (ps_page_directory ms) pd_index a) (\<lambda>pde.
          kbind (set_directory_entry (ps_page_directory ms) pd_index null_pd_entry a) (\<lambda>a.
          kbind (pmm_free (pd_table pde) PAGE_SIZE (ar_pmm a)) (\<lambda>p. Inr (a\<lparr>ar_pmm := p\<rparr>))))
     else Inr a))"

definition arch_unmap :: "ptr \<Rightarrow> u32 \<Rightarrow> u32 \<Rightarrow> arch_t \<Rightarrow> arch_t kres option" where
  "arch_unmap space virt_addr sz a =
     obind (Some (kbind (kassert (virt_addr + sz < PAGE_TABLE_ARRAY_ADDR)) (\<lambda>_. deref (ar_spaces a) space))) (\<lambda>ms.
     obind (for_page_in_range virt_addr sz (unmap_page ms) ([], PAGE_COUNT, a)) (\<lambda>(checks, _, a).
     Some (kfold (check_table ms) checks a)))"

section \<open>Translation\<close>

definition as_physical_for :: "ptr \<Rightarrow> u32 \<Rightarrow> arch_t \<Rightarrow> u32 kres" where
  "as_physical_for space virt_addr a =
     kbind (deref (ar_spaces a) space) (\<lambda>ms.
     kbind (get_page_table_for ms (get_pd_index virt_addr) a) (\<lambda>frame.
     kbind (read_entry frame (get_pt_index virt_addr) a) (\<lambda>e.
     kbind (kassert (pt_present e)) (\<lambda>_. Inr (pt_page e + get_offset virt_addr)))))"

text \<open>
  \<open>as_physical\<close> reads the current tables through the entry of the directory that refers to itself,
  as the processor does.
\<close>

definition as_physical :: "u32 \<Rightarrow> arch_t \<Rightarrow> u32 kres" where
  "as_physical virt_addr a =
     kbind (deref (ar_spaces a) (ar_current a)) (\<lambda>ms.
     kbind (directory_entry (ps_page_directory ms) (get_pd_index virt_addr) a) (\<lambda>pde.
     kbind (kassert (pd_present pde)) (\<lambda>_.
     kbind (read_entry (pd_table_address pde) (get_pt_index virt_addr) a) (\<lambda>e.
     kbind (kassert (pt_present e)) (\<lambda>_. Inr (pt_page e + get_offset virt_addr))))))"

section \<open>Address spaces\<close>

text \<open>
  \<open>kcalloc\<close> returned the addresses \<open>pd\<close> and \<open>mt\<close>. The second \<open>as_physical\<close> of the directory gives
  the same value as the first.
\<close>

definition create_memory_space :: "ptr \<Rightarrow> ptr \<Rightarrow> arch_t \<Rightarrow> (paging_space_t \<times> arch_t) kres" where
  "create_memory_space pd mt a =
     kbind (kassert (pd \<noteq> None)) (\<lambda>_.
     kbind (kassert (mt \<noteq> None)) (\<lambda>_.
     kbind (deref (ar_directories a) (ar_master_directory a)) (\<lambda>mdir.
     kbind (deref (ar_mappings a) (ar_master_mapping a)) (\<lambda>mmap.
     kbind (as_physical (the mt) a) (\<lambda>mt_phys.
     kbind (as_physical (the pd) a) (\<lambda>pd_phys.
     let i = get_pd_index (ar_virtual_addr a);
         dir = replicate i null_pd_entry @ drop i mdir;
         mp = replicate i null_pt_entry @ drop i mmap;
         dir = dir[PAGE_COUNT - 1 := (dir ! (PAGE_COUNT - 1))\<lparr>pd_table_address := ucast (drop_bit 12 mt_phys)\<rparr>];
         mp = mp[PAGE_COUNT - 1 := (mp ! (PAGE_COUNT - 1))\<lparr>pt_page_address := ucast (drop_bit 12 pd_phys)\<rparr>]
     in Inr (\<lparr>ps_physical_pd_address = pd_phys, ps_page_directory = pd, ps_mapping_table = mt,
              ps_page_directory_version = ar_directory_version a\<rparr>,
             a\<lparr>ar_directories := (ar_directories a)(the pd \<mapsto> dir), ar_mappings := (ar_mappings a)(the mt \<mapsto> mp)\<rparr>)))))))"

definition check_page_directory :: "arch_t \<Rightarrow> arch_t kres" where
  "check_page_directory a =
     kbind (deref (ar_spaces a) (ar_current a)) (\<lambda>ms.
     kbind (if ps_page_directory_version ms \<noteq> ar_directory_version a
            then kbind (deref (ar_directories a) (ar_master_directory a)) (\<lambda>mdir.
                 kbind (deref (ar_mappings a) (ar_master_mapping a)) (\<lambda>mmap.
                 let i = get_pd_index (ar_virtual_addr a); n = PAGE_COUNT - i - 1 in
                 kbind (store (ar_directories a) (ps_page_directory ms) (\<lambda>d. take i d @ take n (drop i mdir) @ drop (i + n) d)) (\<lambda>ds.
                 kbind (store (ar_mappings a) (ps_mapping_table ms) (\<lambda>m. take i m @ take n (drop i mmap) @ drop (i + n) m)) (\<lambda>ms.
                 Inr (a\<lparr>ar_directories := ds, ar_mappings := ms\<rparr>)))))
            else Inr a) (\<lambda>a.
     kbind (store (ar_spaces a) (ar_current a) (\<lambda>s. s\<lparr>ps_page_directory_version := ar_directory_version a\<rparr>)) (\<lambda>ss.
     Inr (a\<lparr>ar_spaces := ss\<rparr>))))"

definition get_kernel_region :: "u32 \<Rightarrow> u32 \<Rightarrow> u32 \<Rightarrow> memory_region_t" where
  "get_kernel_region kernel_start kernel_end physical_addr =
     (let sz = kernel_end - kernel_start;
          page_begin = kernel_start div PAGE_SIZE * PAGE_SIZE;
          page_end = round_up_to_multiple (kernel_start + sz + 1) PAGE_SIZE
      in \<lparr>mr_virt_address = page_begin, mr_phys_address = round_down_to_multiple physical_addr PAGE_SIZE, mr_size = page_end - page_begin,
          mr_mapped = True, mr_present = True, mr_allocated = True, mr_config = default_config\<rparr>)"

definition get_mapping_region :: memory_region_t where
  "get_mapping_region =
     \<lparr>mr_virt_address = PAGE_TABLE_ARRAY_ADDR, mr_phys_address = 0, mr_size = 0x400000,
      mr_mapped = True, mr_present = True, mr_allocated = True, mr_config = default_config\<rparr>"

declare for_pages.simps [code]

end
