(* ===== verification/PagingSpec.thy ===== *)
theory PagingSpec
  imports Paging
begin

text \<open>
  What mapping does to the translation of addresses. The processor's view of a space is the function
  \<open>view\<close> from page numbers to entries; mapping a page changes it at that page only, whether or not a new
  page table has to be made, and a new page table never takes a frame that is in use.
\<close>

section \<open>Addresses and entries\<close>

lemma mask_values:
  "DIRECTORY_MASK = NOT (mask 22)" "TABLE_MASK = mask 22 AND NOT (mask 12)" "OFFSET_MASK = mask 12"
  "TABLE_MASK OR DIRECTORY_MASK = NOT (mask 12)"
  unfolding DIRECTORY_MASK_def TABLE_MASK_def OFFSET_MASK_def by (simp_all add: mask_eq_exp_minus_1)

lemma pd_index_div: "get_pd_index v = unat v div 4096 div 1024"
proof -
  have "drop_bit 22 (v AND NOT (mask 22)) = drop_bit 22 v"
    by (rule bit_word_eqI) (auto simp: bit_drop_bit_eq bit_and_iff bit_not_iff bit_mask_iff dest: bit_imp_le_length)
  then show ?thesis by (simp add: get_pd_index_def mask_values unat_drop_bit_eq drop_bit_eq_div div_mult2_eq [symmetric])
qed

lemma pt_index_mod: "get_pt_index v = unat v div 4096 mod 1024"
proof -
  have "drop_bit 12 (v AND (mask 22 AND NOT (mask 12))) = take_bit 10 (drop_bit 12 v)"
    by (rule bit_word_eqI) (auto simp: bit_drop_bit_eq bit_and_iff bit_not_iff bit_mask_iff bit_take_bit_iff)
  then show ?thesis by (simp add: get_pt_index_def mask_values unat_drop_bit_eq unsigned_take_bit_eq drop_bit_eq_div take_bit_eq_mod)
qed

lemma page_of_addr: "ucast (drop_bit 12 (to_page_address v)) = (ucast (drop_bit 12 v) :: 20 word)"
  unfolding to_page_address_def mask_values(4)
  by (rule bit_word_eqI) (auto simp: bit_ucast_iff bit_drop_bit_eq bit_and_iff bit_not_iff bit_mask_iff)

lemma unat_frame: "unat (ucast (drop_bit 12 (v :: u32)) :: 20 word) = unat v div 4096"
proof -
  have "unat v div 4096 < 2 ^ 20" using unat_bound [of v] by (simp add: div_less_iff_less_mult)
  then show ?thesis by (simp add: unsigned_ucast_eq unat_drop_bit_eq drop_bit_eq_div take_bit_nat_eq_self)
qed

lemma pd_value_0: "pd_value e = 0 \<Longrightarrow> \<not> pd_present e"
proof
  assume "pd_present e"
  then have "bit (pd_value e) 0" by (simp add: pd_value_def bit_or_iff)
  moreover assume "pd_value e = 0"
  ultimately show False by simp
qed

lemma pt_value_0: "pt_value e = 0 \<Longrightarrow> \<not> pt_present e"
proof
  assume "pt_present e"
  then have "bit (pt_value e) 0" by (simp add: pt_value_def bit_or_iff)
  moreover assume "pt_value e = 0"
  ultimately show False by simp
qed

lemma raw_pde_facts [simp]:
  "pd_present (raw_create_pde t u w p)" "pd_user (raw_create_pde t u w p) = u" "pd_value (raw_create_pde t u w p) \<noteq> 0"
  "pd_table_address (raw_create_pde t u w p) = ucast (drop_bit 12 t)"
  using pd_value_0 [of "raw_create_pde t u w p"] by (auto simp: raw_create_pde_def)

lemma raw_pte_facts [simp]:
  "pt_present (raw_create_pte t u w p)" "pt_page_address (raw_create_pte t u w p) = ucast (drop_bit 12 t)"
  by (simp_all add: raw_create_pte_def)

lemma null_facts [simp]:
  "\<not> pt_present null_pt_entry" "\<not> pd_present null_pd_entry" "pd_value null_pd_entry = 0" "pt_value null_pt_entry = 0"
  by (simp_all add: null_pt_entry_def null_pd_entry_def pd_value_def pt_value_def)

lemma frame_of_page [simp]:
  "ucast (drop_bit 12 (pt_page e)) = pt_page_address e" "ucast (drop_bit 12 (pd_table d)) = pd_table_address d"
  by (rule bit_word_eqI; auto simp: pt_page_def pd_table_def bit_ucast_iff bit_drop_bit_eq bit_push_bit_iff dest: bit_imp_le_length)+

section \<open>Tables\<close>

definition view :: "page_directory_entry_t list \<Rightarrow> (20 word \<rightharpoonup> page_table_entry_t list) \<Rightarrow> nat \<Rightarrow> page_table_entry_t option" where
  "view dir frames n =
     (if pd_present (dir ! (n div 1024))
      then case frames (pd_table_address (dir ! (n div 1024))) of
             None \<Rightarrow> None
           | Some t \<Rightarrow> if pt_present (t ! (n mod 1024)) then Some (t ! (n mod 1024)) else None
      else None)"

text \<open>The last directory entry refers to the tables themselves and is left out.\<close>

definition tables_ok :: "nat set \<Rightarrow> page_directory_entry_t list \<Rightarrow> page_table_entry_t list \<Rightarrow> (20 word \<rightharpoonup> page_table_entry_t list) \<Rightarrow> bool" where
  "tables_ok U dir mt frames \<longleftrightarrow> length dir = 1024 \<and> length mt = 1024 \<and>
     (\<forall>i<1023. pd_value (dir ! i) \<noteq> 0 \<longrightarrow>
        pd_present (dir ! i) \<and> pt_page_address (mt ! i) = pd_table_address (dir ! i) \<and> unat (pd_table_address (dir ! i)) \<in> U \<and>
        (\<exists>t. frames (pd_table_address (dir ! i)) = Some t \<and> length t = 1024)) \<and>
     (\<forall>i<1023. \<forall>j<1023. i \<noteq> j \<longrightarrow> pd_value (dir ! i) \<noteq> 0 \<longrightarrow> pd_value (dir ! j) \<noteq> 0 \<longrightarrow>
        pd_table_address (dir ! i) \<noteq> pd_table_address (dir ! j))"

lemma view_write:
  assumes ok: "tables_ok U dir mt frames" and i: "i < 1023" "pd_value (dir ! i) \<noteq> 0"
    and t: "frames (pd_table_address (dir ! i)) = Some t" and k: "k < 1024"
  shows "tables_ok U dir mt (frames(pd_table_address (dir ! i) \<mapsto> t[k := e]))"
    and "n < 1023 * 1024 \<Longrightarrow> view dir (frames(pd_table_address (dir ! i) \<mapsto> t[k := e])) n =
           (if n = i * 1024 + k then if pt_present e then Some e else None else view dir frames n)"
proof -
  have len: "length t = 1024" using ok i t by (auto simp: tables_ok_def)
  then show "tables_ok U dir mt (frames(pd_table_address (dir ! i) \<mapsto> t[k := e]))" using ok by (simp add: tables_ok_def)
  assume n: "n < 1023 * 1024"
  then have nd: "n div 1024 < 1023" by (simp add: div_less_iff_less_mult)
  have split: "n = i * 1024 + k \<longleftrightarrow> n div 1024 = i \<and> n mod 1024 = k"
    using k by (metis div_mult_mod_eq add.commute div_mult_self3 div_less mod_mult_self3 mod_less add_0 zero_neq_numeral)
  show "view dir (frames(pd_table_address (dir ! i) \<mapsto> t[k := e])) n =
           (if n = i * 1024 + k then if pt_present e then Some e else None else view dir frames n)"
  proof (cases "n div 1024 = i")
    case True
    then show ?thesis using ok i t len split by (auto simp: view_def tables_ok_def)
  next
    case False
    then have "pd_present (dir ! (n div 1024)) \<Longrightarrow> pd_table_address (dir ! (n div 1024)) \<noteq> pd_table_address (dir ! i)"
      using ok i nd pd_value_0 by (auto simp: tables_ok_def)
    then show ?thesis using False split by (auto simp: view_def)
  qed
qed

lemma view_new_table:
  assumes ok: "tables_ok U dir mt frames" and i: "i < 1023" "pd_value (dir ! i) = 0"
    and f: "unat f \<notin> U" and pde: "pd_present pde" "pd_value pde \<noteq> 0" "pd_table_address pde = f" and pte: "pt_page_address pte = f"
  shows "tables_ok (insert (unat f) U) (dir[i := pde]) (mt[i := pte]) (frames(f \<mapsto> replicate 1024 null_pt_entry))"
    and "n < 1023 * 1024 \<Longrightarrow> view (dir[i := pde]) (frames(f \<mapsto> replicate 1024 null_pt_entry)) n = view dir frames n"
proof -
  have fresh: "\<forall>j<1023. pd_value (dir ! j) \<noteq> 0 \<longrightarrow> pd_table_address (dir ! j) \<noteq> f"
    using ok f by (auto simp: tables_ok_def)
  then show "tables_ok (insert (unat f) U) (dir[i := pde]) (mt[i := pte]) (frames(f \<mapsto> replicate 1024 null_pt_entry))"
    using ok i pde pte by (auto simp: tables_ok_def nth_list_update)
  assume "n < 1023 * 1024"
  then have nd: "n div 1024 < 1023" "length dir = 1024" using ok by (simp_all add: div_less_iff_less_mult tables_ok_def)
  then show "view (dir[i := pde]) (frames(f \<mapsto> replicate 1024 null_pt_entry)) n = view dir frames n"
    using fresh i pde pd_value_0 by (cases "n div 1024 = i") (auto simp: view_def nth_list_update)
qed

section \<open>Address spaces\<close>

definition dir_of :: "arch_t \<Rightarrow> paging_space_t \<Rightarrow> page_directory_entry_t list" where
  "dir_of a ms = the (ar_directories a (the (ps_page_directory ms)))"

definition map_of_space :: "arch_t \<Rightarrow> paging_space_t \<Rightarrow> page_table_entry_t list" where
  "map_of_space a ms = the (ar_mappings a (the (ps_mapping_table ms)))"

definition space_view :: "arch_t \<Rightarrow> paging_space_t \<Rightarrow> nat \<Rightarrow> page_table_entry_t option" where
  "space_view a ms = view (dir_of a ms) (ar_frames a)"

text \<open>The tables of a space exist, and its kernel half is that of the master directory.\<close>

definition space_live :: "arch_t \<Rightarrow> paging_space_t \<Rightarrow> bool" where
  "space_live a ms \<longleftrightarrow>
     (\<exists>pd mt. ps_page_directory ms = Some pd \<and> ps_mapping_table ms = Some mt \<and>
        ar_directories a pd = Some (dir_of a ms) \<and> ar_mappings a mt = Some (map_of_space a ms))"

definition master_synced :: "arch_t \<Rightarrow> paging_space_t \<Rightarrow> bool" where
  "master_synced a ms \<longleftrightarrow>
     (\<exists>md mm mdir mmap. ar_master_directory a = Some md \<and> ar_directories a md = Some mdir \<and> length mdir = 1024 \<and>
        ar_master_mapping a = Some mm \<and> ar_mappings a mm = Some mmap \<and> length mmap = 1024 \<and>
        (\<forall>i. get_pd_index (ar_virtual_addr a) \<le> i \<longrightarrow> i < 1023 \<longrightarrow>
           mdir ! i = dir_of a ms ! i \<and> mmap ! i = map_of_space a ms ! i))"

text \<open>The window of the current space through which page tables are reached is open.\<close>

definition window_open :: "arch_t \<Rightarrow> bool" where
  "window_open a \<longleftrightarrow>
     (\<exists>c cur cd cdir. ar_current a = Some c \<and> ar_spaces a c = Some cur \<and> ps_page_directory cur = Some cd \<and>
        ar_directories a cd = Some cdir \<and> length cdir = 1024 \<and> pd_present (cdir ! 1022))"

definition space_ok :: "nat \<Rightarrow> nat set \<Rightarrow> arch_t \<Rightarrow> paging_space_t \<Rightarrow> bool" where
  "space_ok N U a ms \<longleftrightarrow> space_live a ms \<and> master_synced a ms \<and> window_open a \<and> pmm_rel N U (ar_pmm a) \<and> U \<subseteq> {..<N} \<and>
     get_pd_index (ar_virtual_addr a) \<le> 1022 \<and> tables_ok U (dir_of a ms) (map_of_space a ms) (ar_frames a)"

lemma fixed_index [simp]: "get_pd_index FIXED_PAGE_TABLE_MAP_ADDR = 1022"
  by (simp add: pd_index_div FIXED_PAGE_TABLE_MAP_ADDR_def PAGE_TABLE_ARRAY_ADDR_def PAGE_SIZE_def)

lemma window_table:
  assumes "window_open a" "ps_mapping_table ms = Some mt" "ar_mappings a mt = Some mp" "i < length mp"
  shows "get_page_table_for ms i a = Inr (pt_page_address (mp ! i))"
  using assms by (auto simp: window_open_def get_page_table_for_def at_index_def create_pte_def)

lemma set_directory_in:
  "d = Some p \<Longrightarrow> ar_directories a p = Some dir \<Longrightarrow> i < length dir \<Longrightarrow>
   set_directory_entry d i e a = Inr (a\<lparr>ar_directories := (ar_directories a)(p \<mapsto> dir[i := e])\<rparr>)"
  by (simp add: set_directory_entry_def at_index_def)

lemma set_mapping_in:
  "m = Some p \<Longrightarrow> ar_mappings a p = Some mp \<Longrightarrow> i < length mp \<Longrightarrow>
   set_mapping_entry m i e a = Inr (a\<lparr>ar_mappings := (ar_mappings a)(p \<mapsto> mp[i := e])\<rparr>)"
  by (simp add: set_mapping_entry_def at_index_def)

lemma directory_entry_in:
  "d = Some p \<Longrightarrow> ar_directories a p = Some dir \<Longrightarrow> i < length dir \<Longrightarrow> directory_entry d i a = Inr (dir ! i)"
  by (simp add: directory_entry_def at_index_def)

text \<open>A new page table takes a frame that was free.\<close>

lemma create_pde_takes_free_frame:
  assumes rel: "pmm_rel N U (ar_pmm a)" and win: "window_open a"
    and mt: "ps_mapping_table ms = Some mt" "ar_mappings a mt = Some mp" "i < length mp"
    and run: "create_pde i ms u w pat a = Some r"
  shows "r = Inl KernelPanic \<or> (\<exists>t p. unat t div 4096 \<notin> U \<and> unat t div 4096 < N \<and> pmm_rel N (insert (unat t div 4096) U) p \<and>
    r = Inr (raw_create_pde t u w pat, a\<lparr>ar_pmm := p, ar_mappings := (ar_mappings a)(mt \<mapsto> mp[i := raw_create_pte t False True 3]),
      ar_frames := (ar_frames a)(ucast (drop_bit 12 t) \<mapsto> replicate 1024 null_pt_entry)\<rparr>))"
proof -
  obtain q where q: "pmm_alloc PAGE_SIZE 0 0xFFFFFFFF 0 (ar_pmm a) = Some q"
    using run by (cases "pmm_alloc PAGE_SIZE 0 0xFFFFFFFF 0 (ar_pmm a)") (auto simp: create_pde_def)
  have "0 < PAGE_SIZE" "PAGE_SIZE \<le> 0x80000" by (simp_all add: PAGE_SIZE_def)
  from alloc_takes_free_pages [OF rel this q]
  consider (panic) "q = Inl KernelPanic" |
    (page) t p where "q = Inr (t, p)" "page_span t PAGE_SIZE \<inter> U = {}" "pmm_rel N (U \<union> page_span t PAGE_SIZE) p" "page_span t PAGE_SIZE \<subseteq> {..<N}" by blast
  then show ?thesis
  proof cases
    case panic
    then show ?thesis using run q by (simp add: create_pde_def)
  next
    case t: (page t p)
    have span: "page_span t PAGE_SIZE = {unat t div 4096}" by (auto simp: page_span_def PAGE_SIZE_def)
    have "window_open (a\<lparr>ar_pmm := p, ar_mappings := (ar_mappings a)(mt \<mapsto> mp[i := raw_create_pte t False True 3])\<rparr>)"
      using win by (simp add: window_open_def)
    note win' = window_table [OF this mt(1), of "mp[i := raw_create_pte t False True 3]" i]
    have "r = Inr (raw_create_pde t u w pat, a\<lparr>ar_pmm := p, ar_mappings := (ar_mappings a)(mt \<mapsto> mp[i := raw_create_pte t False True 3]),
      ar_frames := (ar_frames a)(ucast (drop_bit 12 t) \<mapsto> replicate 1024 null_pt_entry)\<rparr>)"
      using run q t(1) mt win' by (simp add: create_pde_def set_mapping_in PAGE_COUNT_def)
    then show ?thesis using t(2-4) by (auto simp: span)
  qed
qed

text \<open>What a step may do: the space stays well formed, nothing that is used becomes free, and the view is as given.\<close>

definition spaces_kept :: "arch_t \<Rightarrow> arch_t \<Rightarrow> bool" where
  "spaces_kept a a' \<longleftrightarrow> (\<forall>s ms. ar_spaces a s = Some ms \<longrightarrow>
     (\<exists>ms'. ar_spaces a' s = Some ms' \<and> ps_page_directory ms' = ps_page_directory ms \<and> ps_mapping_table ms' = ps_mapping_table ms))"

lemma spaces_kept_same: "ar_spaces a' = ar_spaces a \<Longrightarrow> spaces_kept a a'"
  by (simp add: spaces_kept_def)

lemma spaces_kept_trans: "spaces_kept a b \<Longrightarrow> spaces_kept b c \<Longrightarrow> spaces_kept a c"
  unfolding spaces_kept_def by (metis (no_types))

definition view_step :: "nat \<Rightarrow> nat set \<Rightarrow> arch_t \<Rightarrow> paging_space_t \<Rightarrow> (nat \<Rightarrow> page_table_entry_t option) \<Rightarrow> arch_t \<Rightarrow> bool" where
  "view_step N U a ms f a' \<longleftrightarrow>
     (\<exists>U'. U \<subseteq> U' \<and> space_ok N U' a' ms) \<and> ar_virtual_addr a' = ar_virtual_addr a \<and> spaces_kept a a' \<and>
     (\<forall>n < 1023 * 1024. space_view a' ms n = f n)"

lemma window_keep:
  assumes "window_open a" "ar_current a' = ar_current a"
    "\<And>c cur. ar_spaces a c = Some cur \<Longrightarrow> \<exists>cur'. ar_spaces a' c = Some cur' \<and> ps_page_directory cur' = ps_page_directory cur"
    "\<And>d dir. ar_directories a d = Some dir \<Longrightarrow> length dir = 1024 \<Longrightarrow> pd_present (dir ! 1022) \<Longrightarrow>
       \<exists>dir'. ar_directories a' d = Some dir' \<and> length dir' = 1024 \<and> pd_present (dir' ! 1022)"
  shows "window_open a'"
proof -
  obtain c cur cd cdir where c: "ar_current a = Some c" "ar_spaces a c = Some cur" "ps_page_directory cur = Some cd"
      "ar_directories a cd = Some cdir" "length cdir = 1024" "pd_present (cdir ! 1022)"
    using assms(1) unfolding window_open_def by blast
  obtain cur' where "ar_spaces a' c = Some cur'" "ps_page_directory cur' = Some cd" using assms(3) [OF c(2)] c(3) by auto
  moreover obtain dir' where "ar_directories a' cd = Some dir'" "length dir' = 1024" "pd_present (dir' ! 1022)"
    using assms(4) [OF c(4-6)] by auto
  ultimately show ?thesis
    unfolding window_open_def using assms(2) c(1) by (intro exI [of _ c] exI [of _ cur'] exI [of _ cd] exI [of _ dir']) simp
qed

lemma master_syncedI:
  assumes "ar_master_directory a = Some md" "ar_directories a md = Some mdir" "length mdir = 1024"
    "ar_master_mapping a = Some mm" "ar_mappings a mm = Some mmap" "length mmap = 1024"
    "\<And>i. get_pd_index (ar_virtual_addr a) \<le> i \<Longrightarrow> i < 1023 \<Longrightarrow> mdir ! i = dir_of a ms ! i \<and> mmap ! i = map_of_space a ms ! i"
  shows "master_synced a ms"
  unfolding master_synced_def
  by (intro exI [of _ md] exI [of _ mm] exI [of _ mdir] exI [of _ mmap]) (simp add: assms)

lemma present_update:
  "length dir = 1024 \<Longrightarrow> pd_present (dir ! 1022) \<Longrightarrow> pd_present e \<Longrightarrow> pd_present (dir[i := e] ! 1022)"
  by (cases "i = 1022") simp_all

text \<open>The directory entry \<open>i\<close> gets a new page table in the space, and in the master copy when it is a kernel entry.\<close>

lemma space_ok_new_table:
  assumes ok: "space_ok N U a ms" and i: "i < 1023" "pd_value (dir_of a ms ! i) = 0"
    and f: "unat t div 4096 \<notin> U" "unat t div 4096 < N" "pmm_rel N (insert (unat t div 4096) U) (ar_pmm a')"
    and pd: "ps_page_directory ms = Some pd" "ar_directories a' pd = Some ((dir_of a ms)[i := raw_create_pde t u w pat])"
    and mt: "ps_mapping_table ms = Some mt" "ar_mappings a' mt = Some ((map_of_space a ms)[i := raw_create_pte t False True 3])"
    and frames: "ar_frames a' = (ar_frames a)(ucast (drop_bit 12 t) \<mapsto> replicate 1024 null_pt_entry)"
    and rest: "master_synced a' ms" "window_open a'" "ar_virtual_addr a' = ar_virtual_addr a" "spaces_kept a a'"
  shows "view_step N U a ms (space_view a ms) a' \<and> pd_value (dir_of a' ms ! i) \<noteq> 0 \<and> pd_user (dir_of a' ms ! i) = u \<and>
     (\<forall>j. j \<noteq> i \<longrightarrow> dir_of a' ms ! j = dir_of a ms ! j)"
proof -
  let ?f = "ucast (drop_bit 12 t) :: 20 word"
  have tab: "tables_ok U (dir_of a ms) (map_of_space a ms) (ar_frames a)" using ok by (simp add: space_ok_def)
  have dir: "dir_of a' ms = (dir_of a ms)[i := raw_create_pde t u w pat]" "map_of_space a' ms = (map_of_space a ms)[i := raw_create_pte t False True 3]"
    using pd mt by (simp_all add: dir_of_def map_of_space_def)
  have fU: "unat ?f \<notin> U" using f(1) by (simp add: unat_frame)
  note new = view_new_table [OF tab i fU raw_pde_facts(1,3,4) raw_pte_facts(2)]
  have "space_ok N (insert (unat t div 4096) U) a' ms"
    using new(1) pd mt f(2,3) rest ok unfolding space_ok_def space_live_def dir frames by (auto simp: unat_frame dir)
  then have "view_step N U a ms (space_view a ms) a'"
    using new(2) rest(3,4) unfolding view_step_def space_view_def dir frames by blast
  moreover have "i < length (dir_of a ms)" using tab i by (simp add: tables_ok_def)
  ultimately show ?thesis by (simp add: dir)
qed

lemma user_table_made:
  assumes ok: "space_ok N U a ms" and i: "i < 1023" "i < get_pd_index (ar_virtual_addr a)" "pd_value (dir_of a ms ! i) = 0"
    and run: "obind (create_pde i ms u w pat a) (\<lambda>(pde, a). Some (set_directory_entry (ps_page_directory ms) i pde a)) = Some r"
  shows "r = Inl KernelPanic \<or> (\<exists>a'. r = Inr a' \<and> view_step N U a ms (space_view a ms) a' \<and>
           pd_value (dir_of a' ms ! i) \<noteq> 0 \<and> pd_user (dir_of a' ms ! i) = u \<and> (\<forall>j. j \<noteq> i \<longrightarrow> dir_of a' ms ! j = dir_of a ms ! j))"
proof -
  obtain pd mt where live: "ps_page_directory ms = Some pd" "ps_mapping_table ms = Some mt"
      "ar_directories a pd = Some (dir_of a ms)" "ar_mappings a mt = Some (map_of_space a ms)"
    using ok by (auto simp: space_ok_def space_live_def)
  have len: "length (dir_of a ms) = 1024" "length (map_of_space a ms) = 1024" using ok by (simp_all add: space_ok_def tables_ok_def)
  obtain q where q: "create_pde i ms u w pat a = Some q" using run by (cases "create_pde i ms u w pat a") auto
  have im: "i < length (map_of_space a ms)" using i len by simp
  from create_pde_takes_free_frame [OF _ _ live(2,4) im q, of N U] ok
  consider (panic) "q = Inl KernelPanic" |
    (frame) t p where "unat t div 4096 \<notin> U" "unat t div 4096 < N" "pmm_rel N (insert (unat t div 4096) U) p"
      "q = Inr (raw_create_pde t u w pat, a\<lparr>ar_pmm := p, ar_mappings := (ar_mappings a)(mt \<mapsto> (map_of_space a ms)[i := raw_create_pte t False True 3]),
        ar_frames := (ar_frames a)(ucast (drop_bit 12 t) \<mapsto> replicate 1024 null_pt_entry)\<rparr>)"
    by (auto simp: space_ok_def)
  then show ?thesis
  proof cases
    case panic
    then show ?thesis using run q by simp
  next
    case f: (frame t p)
    define a' where "a' = a\<lparr>ar_pmm := p, ar_mappings := (ar_mappings a)(mt \<mapsto> (map_of_space a ms)[i := raw_create_pte t False True 3]),
        ar_frames := (ar_frames a)(ucast (drop_bit 12 t) \<mapsto> replicate 1024 null_pt_entry),
        ar_directories := (ar_directories a)(pd \<mapsto> (dir_of a ms)[i := raw_create_pde t u w pat])\<rparr>"
    have r: "r = Inr a'" using run q f live i len by (simp add: set_directory_in a'_def)
    have dir: "dir_of a' ms = (dir_of a ms)[i := raw_create_pde t u w pat]" "map_of_space a' ms = (map_of_space a ms)[i := raw_create_pte t False True 3]"
      using live by (simp_all add: dir_of_def map_of_space_def a'_def)
    obtain md mm mdir mmap where m: "ar_master_directory a = Some md" "ar_directories a md = Some mdir" "length mdir = 1024"
        "ar_master_mapping a = Some mm" "ar_mappings a mm = Some mmap" "length mmap = 1024"
        "\<And>j. get_pd_index (ar_virtual_addr a) \<le> j \<Longrightarrow> j < 1023 \<Longrightarrow> mdir ! j = dir_of a ms ! j \<and> mmap ! j = map_of_space a ms ! j"
      using ok unfolding space_ok_def master_synced_def by blast
    have st: "ar_directories a' = (ar_directories a)(pd \<mapsto> (dir_of a ms)[i := raw_create_pde t u w pat])"
        "ar_mappings a' = (ar_mappings a)(mt \<mapsto> (map_of_space a ms)[i := raw_create_pte t False True 3])"
        "ar_master_directory a' = ar_master_directory a" "ar_master_mapping a' = ar_master_mapping a" "ar_current a' = ar_current a"
        "ar_spaces a' = ar_spaces a" "ar_virtual_addr a' = ar_virtual_addr a" "ar_pmm a' = p"
        "ar_frames a' = (ar_frames a)(ucast (drop_bit 12 t) \<mapsto> replicate 1024 null_pt_entry)"
      by (simp_all add: a'_def)
    have "master_synced a' ms"
    proof (rule master_syncedI)
      show "ar_directories a' md = Some (if md = pd then (dir_of a ms)[i := raw_create_pde t u w pat] else mdir)"
        "ar_mappings a' mm = Some (if mm = mt then (map_of_space a ms)[i := raw_create_pte t False True 3] else mmap)"
        using m(2,5) by (simp_all add: st)
      fix j
      assume j: "get_pd_index (ar_virtual_addr a') \<le> j" "j < 1023"
      then have "j \<noteq> i" using i(2) by (auto simp: st)
      then show "(if md = pd then (dir_of a ms)[i := raw_create_pde t u w pat] else mdir) ! j = dir_of a' ms ! j \<and>
          (if mm = mt then (map_of_space a ms)[i := raw_create_pte t False True 3] else mmap) ! j = map_of_space a' ms ! j"
        using m(7) [of j] j by (simp add: st dir)
    qed (simp_all add: st m len)
    moreover have "window_open a'"
    proof (rule window_keep [of a])
      fix d dir assume "ar_directories a d = Some dir" "length dir = 1024" "pd_present (dir ! 1022)"
      then show "\<exists>dir'. ar_directories a' d = Some dir' \<and> length dir' = 1024 \<and> pd_present (dir' ! 1022)"
        using live(3) by (cases "d = pd") (simp_all add: st present_update)
    qed (use ok in \<open>simp_all add: space_ok_def st\<close>)
    ultimately have "view_step N U a ms (space_view a ms) a' \<and> pd_value (dir_of a' ms ! i) \<noteq> 0 \<and> pd_user (dir_of a' ms ! i) = u \<and>
        (\<forall>j. j \<noteq> i \<longrightarrow> dir_of a' ms ! j = dir_of a ms ! j)"
      by (intro space_ok_new_table [OF ok i(1,3) f(1,2) _ live(1) _ live(2) _ st(9) _ _ st(7)]) (simp_all add: st f(3) spaces_kept_same)
    with r show ?thesis by blast
  qed
qed

lemma master_pte: "raw_create_pte (pd_table (raw_create_pde t u w pat)) False True 3 = raw_create_pte t False True 3"
  by (simp add: raw_create_pte_def)

lemma kernel_table_made:
  assumes ok: "space_ok N U a ms" and i: "i < 1023" "get_pd_index (ar_virtual_addr a) \<le> i" "pd_value (dir_of a ms ! i) = 0"
    and run: "ensure_kernel_table ms config i a = Some r"
  shows "r = Inl KernelPanic \<or> (\<exists>a'. r = Inr a' \<and> view_step N U a ms (space_view a ms) a' \<and>
           pd_value (dir_of a' ms ! i) \<noteq> 0 \<and> pd_user (dir_of a' ms ! i) = mc_userspace config \<and> (\<forall>j. j \<noteq> i \<longrightarrow> dir_of a' ms ! j = dir_of a ms ! j))"
proof -
  let ?u = "mc_userspace config" let ?w = "mc_writeable config"
  obtain pd mt where live: "ps_page_directory ms = Some pd" "ps_mapping_table ms = Some mt"
      "ar_directories a pd = Some (dir_of a ms)" "ar_mappings a mt = Some (map_of_space a ms)"
    using ok by (auto simp: space_ok_def space_live_def)
  have len: "length (dir_of a ms) = 1024" "length (map_of_space a ms) = 1024" using ok by (simp_all add: space_ok_def tables_ok_def)
  obtain md mm mdir mmap where m: "ar_master_directory a = Some md" "ar_directories a md = Some mdir" "length mdir = 1024"
      "ar_master_mapping a = Some mm" "ar_mappings a mm = Some mmap" "length mmap = 1024"
      "\<And>j. get_pd_index (ar_virtual_addr a) \<le> j \<Longrightarrow> j < 1023 \<Longrightarrow> mdir ! j = dir_of a ms ! j \<and> mmap ! j = map_of_space a ms ! j"
    using ok unfolding space_ok_def master_synced_def by blast
  obtain c cur where cur: "ar_current a = Some c" "ar_spaces a c = Some cur" using ok by (auto simp: space_ok_def window_open_def)
  have same: "pd = md \<Longrightarrow> dir_of a ms = mdir" "mt = mm \<Longrightarrow> map_of_space a ms = mmap" using live m by auto
  have null: "directory_entry (ar_master_directory a) i a = Inr (mdir ! i)" "pd_value (mdir ! i) = 0"
    using m i by (simp_all add: directory_entry_in)
  obtain q where q: "create_pde i ms ?u ?w 3 a = Some q"
    using run null by (cases "create_pde i ms ?u ?w 3 a") (auto simp: ensure_kernel_table_def)
  have im: "i < length (map_of_space a ms)" using i len by simp
  from create_pde_takes_free_frame [OF _ _ live(2,4) im q, of N U] ok
  consider (panic) "q = Inl KernelPanic" |
    (frame) t p where "unat t div 4096 \<notin> U" "unat t div 4096 < N" "pmm_rel N (insert (unat t div 4096) U) p"
      "q = Inr (raw_create_pde t ?u ?w 3, a\<lparr>ar_pmm := p, ar_mappings := (ar_mappings a)(mt \<mapsto> (map_of_space a ms)[i := raw_create_pte t False True 3]),
        ar_frames := (ar_frames a)(ucast (drop_bit 12 t) \<mapsto> replicate 1024 null_pt_entry)\<rparr>)"
    by (auto simp: space_ok_def)
  then show ?thesis
  proof cases
    case panic
    then show ?thesis using run q null by (simp add: ensure_kernel_table_def)
  next
    case f: (frame t p)
    let ?pde = "raw_create_pde t ?u ?w 3" let ?pte = "raw_create_pte t False True 3"
    define a' where "a' = a\<lparr>ar_pmm := p, ar_frames := (ar_frames a)(ucast (drop_bit 12 t) \<mapsto> replicate 1024 null_pt_entry),
        ar_mappings := (ar_mappings a)(mt \<mapsto> (map_of_space a ms)[i := ?pte], mm \<mapsto> mmap[i := ?pte]),
        ar_directory_version := ar_directory_version a + 1,
        ar_spaces := (ar_spaces a)(c \<mapsto> cur\<lparr>ps_page_directory_version := ar_directory_version a + 1\<rparr>),
        ar_directories := (ar_directories a)(md \<mapsto> mdir[i := ?pde], pd \<mapsto> (dir_of a ms)[i := ?pde])\<rparr>"
    have st: "ar_directories a' = (ar_directories a)(md \<mapsto> mdir[i := ?pde], pd \<mapsto> (dir_of a ms)[i := ?pde])"
        "ar_mappings a' = (ar_mappings a)(mt \<mapsto> (map_of_space a ms)[i := ?pte], mm \<mapsto> mmap[i := ?pte])"
        "ar_master_directory a' = ar_master_directory a" "ar_master_mapping a' = ar_master_mapping a" "ar_current a' = ar_current a"
        "ar_spaces a' = (ar_spaces a)(c \<mapsto> cur\<lparr>ps_page_directory_version := ar_directory_version a + 1\<rparr>)"
        "ar_virtual_addr a' = ar_virtual_addr a" "ar_pmm a' = p"
        "ar_frames a' = (ar_frames a)(ucast (drop_bit 12 t) \<mapsto> replicate 1024 null_pt_entry)"
      by (simp_all add: a'_def)
    have r: "r = Inr a'"
      using run q f(4) null m(1-6) i live(1,2) len cur same
      by (cases "mm = mt"; cases "pd = md")
        (simp_all add: ensure_kernel_table_def set_directory_in set_mapping_in directory_entry_in bump_version_def master_pte a'_def Let_def live(3) fun_upd_twist)
    have dir: "dir_of a' ms = (dir_of a ms)[i := ?pde]" "map_of_space a' ms = (map_of_space a ms)[i := ?pte]"
      using live same by (simp_all add: dir_of_def map_of_space_def st)
    have "master_synced a' ms"
    proof (rule master_syncedI)
      show "ar_directories a' md = Some (mdir[i := ?pde])" "ar_mappings a' mm = Some (mmap[i := ?pte])"
        using same by (auto simp: st)
      fix j assume j: "get_pd_index (ar_virtual_addr a') \<le> j" "j < 1023"
      then show "mdir[i := ?pde] ! j = dir_of a' ms ! j \<and> mmap[i := ?pte] ! j = map_of_space a' ms ! j"
        using m(7) [of j] i m(3,6) len by (cases "j = i") (simp_all add: st dir)
    qed (simp_all add: st m)
    moreover have "window_open a'"
    proof (rule window_keep [of a])
      fix d dir assume d: "ar_directories a d = Some dir" "length dir = 1024" "pd_present (dir ! 1022)"
      then have "d = pd \<Longrightarrow> dir = dir_of a ms" "d = md \<Longrightarrow> dir = mdir" using live(3) m(2) by auto
      then show "\<exists>dir'. ar_directories a' d = Some dir' \<and> length dir' = 1024 \<and> pd_present (dir' ! 1022)"
        using d by (cases "d = pd"; cases "d = md") (simp_all add: st present_update)
    next
      fix e cur' assume "ar_spaces a e = Some cur'"
      then show "\<exists>cur''. ar_spaces a' e = Some cur'' \<and> ps_page_directory cur'' = ps_page_directory cur'"
        using cur by (cases "e = c") (simp_all add: st)
    qed (use ok in \<open>simp_all add: space_ok_def st\<close>)
    moreover have "ar_mappings a' mt = Some ((map_of_space a ms)[i := ?pte])" using same(2) by (simp add: st)
    moreover have "spaces_kept a a'" using cur by (auto simp: spaces_kept_def st)
    ultimately have "view_step N U a ms (space_view a ms) a' \<and> pd_value (dir_of a' ms ! i) \<noteq> 0 \<and> pd_user (dir_of a' ms ! i) = ?u \<and>
        (\<forall>j. j \<noteq> i \<longrightarrow> dir_of a' ms ! j = dir_of a ms ! j)"
      by (intro space_ok_new_table [OF ok i(1,3) f(1,2) _ live(1) _ live(2) _ st(9) _ _ st(7)]) (simp_all add: st f(3) spaces_kept_same)
    with r show ?thesis by blast
  qed
qed

section \<open>Mapping a page\<close>

text \<open>The two halves of the address space do not share a page table.\<close>

definition halves_split :: "arch_t \<Rightarrow> u32 \<Rightarrow> bool" where
  "halves_split a v \<longleftrightarrow> (is_kernel_space a v \<longleftrightarrow> get_pd_index (ar_virtual_addr a) \<le> get_pd_index v)"

text \<open>Only a page without a page table has to be on one side of the border; tables that exist are kept.\<close>

definition half_ok :: "arch_t \<Rightarrow> paging_space_t \<Rightarrow> u32 \<Rightarrow> bool" where
  "half_ok a ms v \<longleftrightarrow> (pd_value (dir_of a ms ! get_pd_index v) = 0 \<longrightarrow> halves_split a v)"

definition tables_kept :: "arch_t \<Rightarrow> paging_space_t \<Rightarrow> arch_t \<Rightarrow> bool" where
  "tables_kept a ms a' \<longleftrightarrow> (\<forall>i. pd_value (dir_of a ms ! i) \<noteq> 0 \<longrightarrow> dir_of a' ms ! i = dir_of a ms ! i)"

lemma tables_kept_trans: "tables_kept a ms b \<Longrightarrow> tables_kept b ms c \<Longrightarrow> tables_kept a ms c"
  by (simp add: tables_kept_def)

lemma half_ok_kept: "half_ok a ms v \<Longrightarrow> tables_kept a ms a' \<Longrightarrow> ar_virtual_addr a' = ar_virtual_addr a \<Longrightarrow> half_ok a' ms v"
  by (auto simp: half_ok_def tables_kept_def halves_split_def is_kernel_space_def)

lemma ensure_table_made:
  assumes ok: "space_ok N U a ms" and v: "get_pd_index v < 1023" "half_ok a ms v" and run: "ensure_table ms config v a = Some r"
  shows "r = Inl KernelPanic \<or> (\<exists>a'. r = Inr a' \<and> view_step N U a ms (space_view a ms) a' \<and> pd_value (dir_of a' ms ! get_pd_index v) \<noteq> 0 \<and>
    (pd_value (dir_of a ms ! get_pd_index v) = 0 \<longrightarrow> pd_user (dir_of a' ms ! get_pd_index v) = mc_userspace config) \<and>
    (\<forall>j. j \<noteq> get_pd_index v \<or> pd_value (dir_of a ms ! j) \<noteq> 0 \<longrightarrow> dir_of a' ms ! j = dir_of a ms ! j))"
proof -
  let ?i = "get_pd_index v"
  obtain pd where live: "ps_page_directory ms = Some pd" "ar_directories a pd = Some (dir_of a ms)" using ok by (auto simp: space_ok_def space_live_def)
  have "?i < length (dir_of a ms)" using ok v(1) by (simp add: space_ok_def tables_ok_def)
  then have entry: "directory_entry (ps_page_directory ms) ?i a = Inr (dir_of a ms ! ?i)" by (rule directory_entry_in [OF live])
  consider (old) "pd_value (dir_of a ms ! ?i) \<noteq> 0" | (kernel) "pd_value (dir_of a ms ! ?i) = 0" "is_kernel_space a v"
    | (user) "pd_value (dir_of a ms ! ?i) = 0" "\<not> is_kernel_space a v" by blast
  then show ?thesis
  proof cases
    case old
    then have "r = Inr a" using run entry by (simp add: ensure_table_def Let_def)
    then show ?thesis using ok old by (auto simp: view_step_def spaces_kept_same)
  next
    case kernel
    then have "ensure_kernel_table ms config ?i a = Some r" using run entry by (simp add: ensure_table_def Let_def)
    from kernel_table_made [OF ok v(1) _ kernel(1) this] show ?thesis using kernel v(2) by (auto simp: half_ok_def halves_split_def)
  next
    case user
    then have "obind (create_pde ?i ms (mc_userspace config) (mc_writeable config) (caching_mode_to_pat_index (mc_caching_mode config)) a)
        (\<lambda>(pde, a). Some (set_directory_entry (ps_page_directory ms) ?i pde a)) = Some r"
      using run entry by (simp add: ensure_table_def Let_def)
    from user_table_made [OF ok v(1) _ user(1) this] show ?thesis using user v(2) by (auto simp: half_ok_def halves_split_def)
  qed
qed

abbreviation mapped_entry :: "mapping_config_t \<Rightarrow> u32 \<Rightarrow> page_table_entry_t" where
  "mapped_entry config phys \<equiv> raw_create_pte phys (mc_userspace config) (mc_writeable config) (caching_mode_to_pat_index (mc_caching_mode config))"

lemma page_in_table: "unat v div 4096 = get_pd_index v * 1024 + get_pt_index v"
  by (simp add: pd_index_div pt_index_mod)

lemma space_write:
  assumes ok: "space_ok N U a ms" and v: "get_pd_index v < 1023" "pd_value (dir_of a ms ! get_pd_index v) \<noteq> 0"
  shows "\<exists>frame old. get_page_table_for ms (get_pd_index v) a = Inr frame \<and> read_entry frame (get_pt_index v) a = Inr old \<and>
    (pt_present old \<longleftrightarrow> space_view a ms (unat v div 4096) \<noteq> None) \<and>
    (pt_present old \<longrightarrow> space_view a ms (unat v div 4096) = Some old) \<and>
    (\<exists>a'. write_entry frame (get_pt_index v) e a = Inr a' \<and> dir_of a' ms = dir_of a ms \<and> map_of_space a' ms = map_of_space a ms \<and>
       ar_pmm a' = ar_pmm a \<and> ar_frames a' frame = map_option (\<lambda>t. t[get_pt_index v := e]) (ar_frames a frame) \<and>
       space_ok N U a' ms \<and> ar_virtual_addr a' = ar_virtual_addr a \<and> ar_spaces a' = ar_spaces a \<and>
       (\<forall>n < 1023 * 1024. space_view a' ms n = (if n = unat v div 4096 then if pt_present e then Some e else None else space_view a ms n)))"
proof -
  let ?i = "get_pd_index v" let ?k = "get_pt_index v" let ?f = "pd_table_address (dir_of a ms ! ?i)"
  have tab: "tables_ok U (dir_of a ms) (map_of_space a ms) (ar_frames a)" using ok by (simp add: space_ok_def)
  then obtain t where t: "ar_frames a ?f = Some t" "length t = 1024" "pd_present (dir_of a ms ! ?i)" "pt_page_address (map_of_space a ms ! ?i) = ?f"
    "length (map_of_space a ms) = 1024"
    using v by (auto simp: tables_ok_def)
  have k: "?k < 1024" by (simp add: pt_index_mod)
  obtain mt where "ps_mapping_table ms = Some mt" "ar_mappings a mt = Some (map_of_space a ms)" using ok by (auto simp: space_ok_def space_live_def)
  then have frame: "get_page_table_for ms ?i a = Inr ?f"
    using window_table [of a ms mt "map_of_space a ms" ?i] ok v(1) t by (simp add: space_ok_def)
  have old: "read_entry ?f ?k a = Inr (t ! ?k)" using t k by (simp add: read_entry_def at_index_def)
  have dm: "unat v div 4096 div 1024 = ?i" "unat v div 4096 mod 1024 = ?k" by (simp_all add: pd_index_div pt_index_mod)
  define a' where "a' = a\<lparr>ar_frames := (ar_frames a)(?f \<mapsto> t[?k := e])\<rparr>"
  have stored: "write_entry ?f ?k e a = Inr a'" using t k by (simp add: write_entry_def at_index_def a'_def)
  have same: "dir_of a' ms = dir_of a ms" "map_of_space a' ms = map_of_space a ms" "ar_frames a' = (ar_frames a)(?f \<mapsto> t[?k := e])"
    "ar_virtual_addr a' = ar_virtual_addr a" "ar_pmm a' = ar_pmm a" "ar_spaces a' = ar_spaces a"
    by (simp_all add: a'_def dir_of_def map_of_space_def)
  note w = view_write [OF tab v t(1) k, where e = e]
  have "space_ok N U a' ms"
    using ok w(1) unfolding space_ok_def same by (auto simp: space_live_def master_synced_def window_open_def same, auto simp: a'_def)
  moreover have "\<forall>n < 1023 * 1024. space_view a' ms n = (if n = unat v div 4096 then if pt_present e then Some e else None else space_view a ms n)"
    using w(2) page_in_table [of v] unfolding space_view_def same by simp
  moreover have "space_view a ms (unat v div 4096) = (if pt_present (t ! ?k) then Some (t ! ?k) else None)"
    using t by (simp add: space_view_def view_def dm)
  ultimately show ?thesis using frame old stored same t(1) by (intro exI [of _ ?f] exI [of _ "t ! ?k"]) auto
qed

lemma to_page_entry: "raw_create_pte (to_page_address phys) u w pat = raw_create_pte phys u w pat"
  by (simp add: raw_create_pte_def page_of_addr)

definition users_ok :: "mapping_config_t \<Rightarrow> nat set \<Rightarrow> arch_t \<Rightarrow> paging_space_t \<Rightarrow> bool" where
  "users_ok config I a ms \<longleftrightarrow> (mc_userspace config \<longrightarrow> (\<forall>i\<in>I. pd_value (dir_of a ms ! i) \<noteq> 0 \<longrightarrow> pd_user (dir_of a ms ! i)))"

text \<open>The page table is there.\<close>

lemma ensure_table_there:
  assumes "space_ok N U a ms" "get_pd_index v < 1023" "pd_value (dir_of a ms ! get_pd_index v) \<noteq> 0"
  shows "ensure_table ms config v a = Some (Inr a)" "directory_entry (ps_page_directory ms) (get_pd_index v) a = Inr (dir_of a ms ! get_pd_index v)"
    "pd_present (dir_of a ms ! get_pd_index v)"
proof -
  obtain pd where live: "ps_page_directory ms = Some pd" "ar_directories a pd = Some (dir_of a ms)" using assms(1) by (auto simp: space_ok_def space_live_def)
  have "get_pd_index v < length (dir_of a ms)" using assms(1,2) by (simp add: space_ok_def tables_ok_def)
  then show entry: "directory_entry (ps_page_directory ms) (get_pd_index v) a = Inr (dir_of a ms ! get_pd_index v)" by (rule directory_entry_in [OF live])
  then show "ensure_table ms config v a = Some (Inr a)" using assms(3) by (simp add: ensure_table_def Let_def)
  show "pd_present (dir_of a ms ! get_pd_index v)" using assms by (simp add: space_ok_def tables_ok_def)
qed

lemma map_page_there:
  assumes ok: "space_ok N U a ms" and v: "get_pd_index v < 1023" "pd_value (dir_of a ms ! get_pd_index v) \<noteq> 0"
    and free: "space_view a ms (unat v div 4096) = None" and user: "mc_userspace config \<longrightarrow> pd_user (dir_of a ms ! get_pd_index v)"
  shows "\<exists>a'. map_page ms config v (phys, a) = Some (Inr (phys + PAGE_SIZE, a')) \<and> dir_of a' ms = dir_of a ms \<and> space_ok N U a' ms \<and>
    view_step N U a ms ((space_view a ms)(unat v div 4096 \<mapsto> mapped_entry config phys)) a'"
proof -
  let ?e = "mapped_entry config phys"
  obtain frame old a' where w: "get_page_table_for ms (get_pd_index v) a = Inr frame" "read_entry frame (get_pt_index v) a = Inr old"
      "pt_present old \<longleftrightarrow> space_view a ms (unat v div 4096) \<noteq> None" "write_entry frame (get_pt_index v) ?e a = Inr a'"
      "dir_of a' ms = dir_of a ms" "space_ok N U a' ms" "ar_virtual_addr a' = ar_virtual_addr a" "ar_spaces a' = ar_spaces a"
      "\<forall>n < 1023 * 1024. space_view a' ms n = (if n = unat v div 4096 then if pt_present ?e then Some ?e else None else space_view a ms n)"
    using space_write [OF ok v, where e = ?e] by blast
  note there = ensure_table_there [OF ok v]
  have "map_page ms config v (phys, a) = Some (Inr (phys + PAGE_SIZE, a'))"
    using w(1-4) user free there by (simp add: map_page_def create_pte_def to_page_entry)
  moreover have "view_step N U a ms ((space_view a ms)(unat v div 4096 \<mapsto> ?e)) a'"
    unfolding view_step_def using w(6-9) by (auto intro: spaces_kept_same)
  ultimately show ?thesis using w(5,6) by blast
qed

lemma view_step_trans:
  assumes "view_step N U1 a1 ms g a'" "U \<subseteq> U1" "ar_virtual_addr a1 = ar_virtual_addr a" "spaces_kept a a1"
    "\<And>n. n < 1023 * 1024 \<Longrightarrow> g n = h n"
  shows "view_step N U a ms h a'"
proof -
  obtain U' where "U1 \<subseteq> U'" "space_ok N U' a' ms" "ar_virtual_addr a' = ar_virtual_addr a1" "spaces_kept a1 a'"
    "\<forall>n < 1023 * 1024. space_view a' ms n = g n" using assms(1) by (auto simp: view_step_def)
  then show ?thesis
    unfolding view_step_def using assms(2-5) spaces_kept_trans [OF assms(4)] by (intro conjI exI [of _ U']) auto
qed

lemma map_page_maps:
  assumes ok: "space_ok N U a ms" and v: "get_pd_index v < 1023" "half_ok a ms v" "get_pd_index v \<in> I"
    and free: "space_view a ms (unat v div 4096) = None" and user: "users_ok config I a ms"
    and run: "map_page ms config v (phys, a) = Some r"
  shows "r = Inl KernelPanic \<or> (\<exists>a'. r = Inr (phys + PAGE_SIZE, a') \<and> users_ok config I a' ms \<and> tables_kept a ms a' \<and>
    view_step N U a ms ((space_view a ms)(unat v div 4096 \<mapsto> mapped_entry config phys)) a')"
proof -
  let ?i = "get_pd_index v"
  obtain q where q: "ensure_table ms config v a = Some q" using run by (cases "ensure_table ms config v a") (auto simp: map_page_def)
  from ensure_table_made [OF ok v(1,2) q]
  consider (panic) "q = Inl KernelPanic" | (table) a1 where "q = Inr a1" "view_step N U a ms (space_view a ms) a1" "pd_value (dir_of a1 ms ! ?i) \<noteq> 0"
      "pd_value (dir_of a ms ! ?i) = 0 \<longrightarrow> pd_user (dir_of a1 ms ! ?i) = mc_userspace config"
      "\<forall>j. j \<noteq> ?i \<or> pd_value (dir_of a ms ! j) \<noteq> 0 \<longrightarrow> dir_of a1 ms ! j = dir_of a ms ! j" by blast
  then show ?thesis
  proof cases
    case panic
    then show ?thesis using run q by (simp add: map_page_def)
  next
    case a1: (table a1)
    obtain U1 where U1: "U \<subseteq> U1" "space_ok N U1 a1 ms" "ar_virtual_addr a1 = ar_virtual_addr a" "spaces_kept a a1"
      and same: "\<forall>n < 1023 * 1024. space_view a1 ms n = space_view a ms n" using a1(2) by (auto simp: view_step_def)
    have users: "users_ok config I a1 ms" "mc_userspace config \<longrightarrow> pd_user (dir_of a1 ms ! ?i)"
      using user a1(4,5) v(3) by (auto simp: users_ok_def) metis+
    have n: "unat v div 4096 < 1023 * 1024" using v(1) by (simp add: pd_index_div div_less_iff_less_mult)
    have run1: "map_page ms config v (phys, a1) = Some r"
      using run q a1(1) ensure_table_there(1) [OF U1(2) v(1) a1(3)] by (simp add: map_page_def)
    have "space_view a1 ms (unat v div 4096) = None" using same n free by simp
    from map_page_there [OF U1(2) v(1) a1(3) this users(2), of phys] run1 obtain a' where
      a': "r = Inr (phys + PAGE_SIZE, a')" "dir_of a' ms = dir_of a1 ms"
        "view_step N U1 a1 ms ((space_view a1 ms)(unat v div 4096 \<mapsto> mapped_entry config phys)) a'" by auto
    have "view_step N U a ms ((space_view a ms)(unat v div 4096 \<mapsto> mapped_entry config phys)) a'"
      using same by (intro view_step_trans [OF a'(3) U1(1,3,4)]) simp
    moreover have "users_ok config I a' ms" using users(1) a'(2) by (simp add: users_ok_def)
    moreover have "tables_kept a ms a'" using a1(5) unfolding tables_kept_def a'(2) by blast
    ultimately show ?thesis using a'(1) by blast
  qed
qed

definition page_list :: "u32 \<Rightarrow> nat \<Rightarrow> u32 list" where
  "page_list v n = map (\<lambda>k. v + of_nat k * PAGE_SIZE) [0..<n]"

lemma for_pages_list:
  assumes "unat v + n * 4096 < 2 ^ 32" "4096 dvd unat v"
  shows "for_pages cb v (v + of_nat n * PAGE_SIZE) s = okfold cb (page_list v n) s"
  using assms
proof (induction n arbitrary: v s)
  case 0
  then show ?case by (simp add: for_pages.simps page_list_def)
next
  case (Suc n)
  have step: "unat (v + PAGE_SIZE) = unat v + 4096" using Suc.prems(1) by (subst unat_add_small) (simp_all add: PAGE_SIZE_def)
  have "unat (of_nat (Suc n) * PAGE_SIZE :: u32) = Suc n * 4096"
    using Suc.prems(1) by (subst unat_mult_small) (simp_all add: PAGE_SIZE_def unsigned_of_nat take_bit_nat_eq_self del: of_nat_Suc)
  then have less: "v < v + of_nat (Suc n) * PAGE_SIZE"
    using Suc.prems(1) unfolding word_less_nat_alt by (subst unat_add_small) simp_all
  have lim: "v + of_nat (Suc n) * PAGE_SIZE = (v + PAGE_SIZE) + of_nat n * PAGE_SIZE" by (simp add: algebra_simps)
  have "page_list v (Suc n) = v # page_list (v + PAGE_SIZE) n"
    by (simp add: page_list_def upt_conv_Cons map_Suc_upt [symmetric] algebra_simps del: upt_Suc)
  moreover have "for_pages cb (v + PAGE_SIZE) (v + of_nat (Suc n) * PAGE_SIZE) s' = okfold cb (page_list (v + PAGE_SIZE) n) s'" for s'
    unfolding lim using Suc.prems step by (intro Suc.IH) simp_all
  ultimately show ?case using less by (subst for_pages.simps) (simp cong: obind_cong)
qed

text \<open>What a range of pages looks like after it was mapped.\<close>

definition map_range :: "mapping_config_t \<Rightarrow> u32 \<Rightarrow> nat \<Rightarrow> nat \<Rightarrow> (nat \<Rightarrow> page_table_entry_t option) \<Rightarrow> nat \<Rightarrow> page_table_entry_t option" where
  "map_range config phys first n f m =
     (if first \<le> m \<and> m < first + n then Some (mapped_entry config (phys + of_nat (m - first) * PAGE_SIZE)) else f m)"

lemma map_range_Suc:
  "map_range config phys first (Suc n) f = (map_range config phys first n f)(first + n \<mapsto> mapped_entry config (phys + of_nat n * PAGE_SIZE))"
  by (rule ext) (auto simp: map_range_def less_Suc_eq)

text \<open>The conditions on a range: aligned, below the page tables, in one half, and not mapped.\<close>

definition range_ok :: "arch_t \<Rightarrow> paging_space_t \<Rightarrow> mapping_config_t \<Rightarrow> u32 \<Rightarrow> nat \<Rightarrow> bool" where
  "range_ok a ms config v n \<longleftrightarrow>
     4096 dvd unat v \<and> unat v + n * 4096 < unat PAGE_TABLE_ARRAY_ADDR \<and>
     (\<forall>m. unat v div 4096 \<le> m \<and> m < unat v div 4096 + n \<longrightarrow>
        half_ok a ms (of_nat m * PAGE_SIZE) \<and> space_view a ms m = None \<and>
        (mc_userspace config \<longrightarrow> pd_value (dir_of a ms ! (m div 1024)) \<noteq> 0 \<longrightarrow> pd_user (dir_of a ms ! (m div 1024))))"

lemma page_address:
  assumes "4096 dvd unat v" "unat v + Suc k * 4096 < unat PAGE_TABLE_ARRAY_ADDR"
  shows "unat (v + of_nat k * PAGE_SIZE) div 4096 = unat v div 4096 + k" "v + of_nat k * PAGE_SIZE = of_nat (unat v div 4096 + k) * PAGE_SIZE"
    "get_pd_index (v + of_nat k * PAGE_SIZE) < 1023"
proof -
  obtain q where q: "unat v = 4096 * q" using assms(1) by (elim dvdE)
  have small: "unat (of_nat m * PAGE_SIZE :: u32) = m * 4096" if "m < 2 ^ 20" for m
    using that by (subst unat_mult_small) (simp_all add: PAGE_SIZE_def unsigned_of_nat take_bit_nat_eq_self)
  have "unat PAGE_TABLE_ARRAY_ADDR = 1023 * 1024 * 4096" by (simp add: PAGE_TABLE_ARRAY_ADDR_def)
  then have lim: "q + k + 1 < 1023 * 1024" using assms(2) q by simp
  then have u: "unat (v + of_nat k * PAGE_SIZE) = (q + k) * 4096"
    using small [of k] q by (subst unat_add_small) simp_all
  then show "unat (v + of_nat k * PAGE_SIZE) div 4096 = unat v div 4096 + k" using q by simp
  have "unat (of_nat (q + k) * PAGE_SIZE :: u32) = (q + k) * 4096" using lim by (intro small) simp
  then show "v + of_nat k * PAGE_SIZE = of_nat (unat v div 4096 + k) * PAGE_SIZE" using u q by (simp add: word_unat_eq_iff)
  show "get_pd_index (v + of_nat k * PAGE_SIZE) < 1023" using lim by (simp add: pd_index_div u div_less_iff_less_mult)
qed

definition mapped_so_far ::
  "nat \<Rightarrow> nat set \<Rightarrow> arch_t \<Rightarrow> paging_space_t \<Rightarrow> mapping_config_t \<Rightarrow> u32 \<Rightarrow> u32 \<Rightarrow> nat \<Rightarrow> nat \<Rightarrow> u32 \<times> arch_t \<Rightarrow> bool" where
  "mapped_so_far N U a ms config v phys n l s \<longleftrightarrow>
     fst s = phys + of_nat l * PAGE_SIZE \<and> users_ok config ((\<lambda>m. m div 1024) ` {unat v div 4096..<unat v div 4096 + n}) (snd s) ms \<and>
     tables_kept a ms (snd s) \<and> view_step N U a ms (map_range config phys (unat v div 4096) l (space_view a ms)) (snd s)"

lemma map_pages_step:
  assumes rng: "range_ok a ms config v n" and l: "l < n" and sofar: "mapped_so_far N U a ms config v phys n l s"
    and run: "map_page ms config (v + of_nat l * PAGE_SIZE) s = Some r"
  shows "r \<in> Inl ` {KernelPanic} \<or> (\<exists>s'. r = Inr s' \<and> mapped_so_far N U a ms config v phys n (Suc l) s')"
proof -
  let ?p = "unat v div 4096" let ?I = "(\<lambda>m. m div 1024) ` {?p..<?p + n}" let ?v = "v + of_nat l * PAGE_SIZE" let ?phys = "phys + of_nat l * PAGE_SIZE"
  obtain a1 where s: "s = (?phys, a1)" and user: "users_ok config ?I a1 ms" and tabs: "tables_kept a ms a1"
    and view: "view_step N U a ms (map_range config phys ?p l (space_view a ms)) a1" using sofar by (cases s) (auto simp: mapped_so_far_def)
  obtain U1 where U1: "U \<subseteq> U1" "space_ok N U1 a1 ms" "ar_virtual_addr a1 = ar_virtual_addr a"
    "\<forall>m < 1023 * 1024. space_view a1 ms m = map_range config phys ?p l (space_view a ms) m" and kept: "spaces_kept a a1" using view by (auto simp: view_step_def)
  have al: "4096 dvd unat v" "unat v + Suc l * 4096 < unat PAGE_TABLE_ARRAY_ADDR" using rng l by (auto simp: range_ok_def)
  note pa = page_address [OF al]
  have "?p \<le> ?p + l \<and> ?p + l < ?p + n" using l by simp
  then have in_rng: "half_ok a ms ?v" "space_view a ms (?p + l) = None" using rng unfolding range_ok_def pa(2) by blast+
  have idx: "get_pd_index ?v \<in> ?I" using l unfolding pd_index_div pa(1) by simp
  have small: "?p + l < 1023 * 1024" using pa(3) unfolding pd_index_div pa(1) by (simp add: div_less_iff_less_mult)
  have half: "half_ok a1 ms ?v" by (rule half_ok_kept [OF in_rng(1) tabs U1(3)])
  have free: "space_view a1 ms (unat ?v div 4096) = None" using U1(4) small in_rng(2) unfolding pa(1) by (simp add: map_range_def)
  from map_page_maps [OF U1(2) pa(3) half idx free user run [unfolded s]] show ?thesis
  proof (elim disjE exE conjE)
    fix a' assume a': "r = Inr (?phys + PAGE_SIZE, a')" "users_ok config ?I a' ms" and tabs': "tables_kept a1 ms a'" and a'_view:
      "view_step N U1 a1 ms ((space_view a1 ms)(unat ?v div 4096 \<mapsto> mapped_entry config ?phys)) a'"
    have "view_step N U a ms (map_range config phys ?p (Suc l) (space_view a ms)) a'"
      using U1(4) by (intro view_step_trans [OF a'_view U1(1,3) kept]) (simp add: map_range_Suc pa(1))
    then have "mapped_so_far N U a ms config v phys n (Suc l) (?phys + PAGE_SIZE, a')"
      using a'(2) tables_kept_trans [OF tabs tabs'] by (simp add: mapped_so_far_def algebra_simps)
    then show ?thesis using a'(1) by blast
  qed simp
qed

lemma map_pages_map:
  assumes ok: "space_ok N U a ms" and rng: "range_ok a ms config v n"
    and run: "okfold (map_page ms config) (page_list v n) (phys, a) = Some r"
  shows "r = Inl KernelPanic \<or> (\<exists>a'. r = Inr (phys + of_nat n * PAGE_SIZE, a') \<and> tables_kept a ms a' \<and>
    view_step N U a ms (map_range config phys (unat v div 4096) n (space_view a ms)) a')"
proof -
  let ?J = "\<lambda>is s. \<exists>l\<le>n. is = drop l (page_list v n) \<and> mapped_so_far N U a ms config v phys n l s"
  have len: "length (page_list v n) = n" by (simp add: page_list_def)
  have "users_ok config ((\<lambda>m. m div 1024) ` {unat v div 4096..<unat v div 4096 + n}) a ms" using rng by (auto simp: users_ok_def range_ok_def)
  then have init: "?J (page_list v n) (phys, a)"
    using ok by (intro exI [of _ 0]) (auto simp: mapped_so_far_def view_step_def map_range_def spaces_kept_same tables_kept_def)
  have step: "q \<in> Inl ` {KernelPanic} \<or> (\<exists>s'. q = Inr s' \<and> ?J is s')" if J: "?J (i # is) s" and q: "map_page ms config i s = Some q" for i "is" s q
  proof -
    obtain l where l: "l \<le> n" "i # is = drop l (page_list v n)" "mapped_so_far N U a ms config v phys n l s" using J by blast
    have ln: "l < n" using l(1,2) len by (cases "l = n") auto
    have "page_list v n ! l = i" "is = drop (Suc l) (page_list v n)"
      using l(2) ln len by (metis Cons_nth_drop_Suc list.inject)+
    then have "i = v + of_nat l * PAGE_SIZE" using ln by (simp add: page_list_def)
    from map_pages_step [OF rng ln l(3) q [unfolded this]] show ?thesis
      using \<open>is = drop (Suc l) (page_list v n)\<close> ln Suc_leI by blast
  qed
  from okfold_invariant [where I = ?J and E = "{KernelPanic}", OF run init step]
  have "r \<in> Inl ` {KernelPanic} \<or> (\<exists>s'. r = Inr s' \<and> ?J [] s')" .
  then show ?thesis using len by (auto simp: mapped_so_far_def)
qed

end
