(* ===== verification/PagingOps.thy ===== *)
theory PagingOps
  imports PagingSpec
begin

text \<open>Mapping, unmapping and translating ranges of addresses.\<close>

section \<open>Mapping a range\<close>

lemma range_limit:
  assumes "4096 dvd unat v" "unat sz = n * 4096" "unat v + n * 4096 < unat PAGE_TABLE_ARRAY_ADDR"
  shows "round_up_to_multiple (v + sz) PAGE_SIZE = v + of_nat n * PAGE_SIZE" "v + sz < PAGE_TABLE_ARRAY_ADDR" "unat v + n * 4096 < 2 ^ 32"
    "sz = of_nat n * PAGE_SIZE"
proof -
  have lim: "unat v + n * 4096 < 0xFFC00000" using assms(3) by (simp add: PAGE_TABLE_ARRAY_ADDR_def)
  then show "unat v + n * 4096 < 2 ^ 32" by simp
  have u: "unat (v + sz) = unat v + n * 4096" using lim assms(2) by (subst unat_add_small) simp_all
  then show "v + sz < PAGE_TABLE_ARRAY_ADDR" using assms(3) by (simp add: word_less_nat_alt)
  have "of_nat (unat sz) = (of_nat (n * 4096) :: u32)" using assms(2) by simp
  then show sz: "sz = of_nat n * PAGE_SIZE" by (simp add: PAGE_SIZE_def)
  obtain q where q: "unat v = 4096 * q" using assms(1) by (elim dvdE)
  have "unat (round_up_to_multiple (v + sz) PAGE_SIZE) = (unat (v + sz) + unat PAGE_SIZE - 1) div unat PAGE_SIZE * unat PAGE_SIZE"
    using u lim by (intro unat_round_up) (simp_all add: PAGE_SIZE_def)
  also have "\<dots> = ((q + n) * 4096 + 4095) div 4096 * 4096" using u q by (simp add: PAGE_SIZE_def)
  also have "((q + n) * 4096 + 4095) div 4096 = q + n" by (rule div_nat_eqI) simp_all
  also have "(q + n) * 4096 = unat (v + sz)" using u q by simp
  finally have "round_up_to_multiple (v + sz) PAGE_SIZE = v + sz" by (simp only: word_unat_eq_iff)
  then show "round_up_to_multiple (v + sz) PAGE_SIZE = v + of_nat n * PAGE_SIZE" using sz by simp
qed

lemma arch_map_loop:
  assumes "ar_spaces a s = Some ms" "4096 dvd unat v" "unat sz = n * 4096" "unat v + n * 4096 < unat PAGE_TABLE_ARRAY_ADDR"
  shows "arch_map (Some s) phys v sz config a =
    obind (okfold (map_page ms config) (page_list v n) (phys, a)) (\<lambda>(_, a). Some (Inr a))"
  using range_limit [OF assms(2-4)] assms(1)
  by (simp add: arch_map_def for_page_in_range_def for_pages_list [OF range_limit(3) [OF assms(2-4)] assms(2)])

lemma arch_map_effect:
  assumes "ar_spaces a s = Some ms" "space_ok N U a ms" "range_ok a ms config v n" "unat sz = n * 4096"
    "arch_map (Some s) phys v sz config a = Some r"
  shows "r = Inl KernelPanic \<or> (\<exists>a'. r = Inr a' \<and> tables_kept a ms a' \<and>
    view_step N U a ms (map_range config phys (unat v div 4096) n (space_view a ms)) a')"
proof -
  have rng: "4096 dvd unat v" "unat v + n * 4096 < unat PAGE_TABLE_ARRAY_ADDR" using assms(3) by (simp_all add: range_ok_def)
  obtain q where q: "okfold (map_page ms config) (page_list v n) (phys, a) = Some q"
    using assms(5) arch_map_loop [OF assms(1) rng(1) assms(4) rng(2)] by (cases "okfold (map_page ms config) (page_list v n) (phys, a)") auto
  from map_pages_map [OF assms(2,3) q] show ?thesis
    using assms(5) q by (auto simp: arch_map_loop [OF assms(1) rng(1) assms(4) rng(2)])
qed

text \<open>With the page tables in place nothing has to be allocated, and mapping always returns.\<close>

lemma page_list_drop:
  assumes "i # is = drop l (page_list v n)" "l \<le> n"
  shows "l < n" "i = v + of_nat l * PAGE_SIZE" "is = drop (Suc l) (page_list v n)"
proof -
  have len: "length (page_list v n) = n" by (simp add: page_list_def)
  show l: "l < n" using assms len by (cases "l = n") auto
  have "i # is = page_list v n ! l # drop (Suc l) (page_list v n)" using l len assms(1) by (simp add: Cons_nth_drop_Suc)
  then show "i = v + of_nat l * PAGE_SIZE" "is = drop (Suc l) (page_list v n)" using l by (simp_all add: page_list_def)
qed

definition mapped_there :: "nat \<Rightarrow> nat set \<Rightarrow> arch_t \<Rightarrow> paging_space_t \<Rightarrow> mapping_config_t \<Rightarrow> u32 \<Rightarrow> u32 \<Rightarrow> nat \<Rightarrow> u32 \<times> arch_t \<Rightarrow> bool" where
  "mapped_there N U a ms config v phys l s \<longleftrightarrow>
     fst s = phys + of_nat l * PAGE_SIZE \<and> dir_of (snd s) ms = dir_of a ms \<and> space_ok N U (snd s) ms \<and>
     view_step N U a ms (map_range config phys (unat v div 4096) l (space_view a ms)) (snd s)"

lemma map_there_step:
  assumes rng: "range_ok a ms config v n" and l: "l < n" and sofar: "mapped_there N U a ms config v phys l s"
    and tables: "\<forall>m. unat v div 4096 \<le> m \<and> m < unat v div 4096 + n \<longrightarrow> pd_value (dir_of a ms ! (m div 1024)) \<noteq> 0"
  shows "\<exists>s'. map_page ms config (v + of_nat l * PAGE_SIZE) s = Some (Inr s') \<and> mapped_there N U a ms config v phys (Suc l) s'"
proof -
  let ?p = "unat v div 4096" let ?v = "v + of_nat l * PAGE_SIZE" let ?phys = "phys + of_nat l * PAGE_SIZE"
  obtain a1 where s: "s = (?phys, a1)" "dir_of a1 ms = dir_of a ms" "space_ok N U a1 ms"
    and view: "view_step N U a ms (map_range config phys ?p l (space_view a ms)) a1" using sofar by (cases s) (auto simp: mapped_there_def)
  have kept: "ar_virtual_addr a1 = ar_virtual_addr a" "spaces_kept a a1"
    "\<forall>m < 1023 * 1024. space_view a1 ms m = map_range config phys ?p l (space_view a ms) m" using view by (auto simp: view_step_def)
  have al: "4096 dvd unat v" "unat v + Suc l * 4096 < unat PAGE_TABLE_ARRAY_ADDR" using rng l by (auto simp: range_ok_def)
  note pa = page_address [OF al]
  have in_rng: "?p \<le> ?p + l \<and> ?p + l < ?p + n" using l by simp
  then have r: "space_view a ms (?p + l) = None" "pd_value (dir_of a ms ! ((?p + l) div 1024)) \<noteq> 0"
      "mc_userspace config \<longrightarrow> pd_user (dir_of a ms ! ((?p + l) div 1024))"
    using rng tables unfolding range_ok_def by blast+
  have pd: "get_pd_index ?v = (?p + l) div 1024" unfolding pd_index_div pa(1) by simp
  have small: "?p + l < 1023 * 1024" using pa(3) unfolding pd by (simp add: div_less_iff_less_mult)
  have "space_view a1 ms (unat ?v div 4096) = None" using kept(3) small r(1) unfolding pa(1) by (simp add: map_range_def)
  moreover have "pd_value (dir_of a1 ms ! get_pd_index ?v) \<noteq> 0" "mc_userspace config \<longrightarrow> pd_user (dir_of a1 ms ! get_pd_index ?v)"
    using r unfolding pd s(2) by simp_all
  ultimately obtain a' where a': "map_page ms config ?v (?phys, a1) = Some (Inr (?phys + PAGE_SIZE, a'))" "dir_of a' ms = dir_of a1 ms"
      "space_ok N U a' ms" "view_step N U a1 ms ((space_view a1 ms)(unat ?v div 4096 \<mapsto> mapped_entry config ?phys)) a'"
    using map_page_there [OF s(3) pa(3)] by blast
  have "view_step N U a ms (map_range config phys ?p (Suc l) (space_view a ms)) a'"
    using kept(3) by (intro view_step_trans [OF a'(4) order_refl kept(1,2)]) (simp add: map_range_Suc pa(1))
  then have "mapped_there N U a ms config v phys (Suc l) (?phys + PAGE_SIZE, a')"
    using a'(2,3) s(2) by (simp add: mapped_there_def algebra_simps)
  then show ?thesis using a'(1) s(1) by blast
qed

lemma arch_map_tables_there:
  assumes "ar_spaces a s = Some ms" "space_ok N U a ms" "range_ok a ms config v n" "unat sz = n * 4096"
    and tables: "\<forall>m. unat v div 4096 \<le> m \<and> m < unat v div 4096 + n \<longrightarrow> pd_value (dir_of a ms ! (m div 1024)) \<noteq> 0"
  shows "\<exists>a'. arch_map (Some s) phys v sz config a = Some (Inr a') \<and> space_ok N U a' ms \<and>
    view_step N U a ms (map_range config phys (unat v div 4096) n (space_view a ms)) a'"
proof -
  let ?J = "\<lambda>is s. \<exists>l\<le>n. is = drop l (page_list v n) \<and> mapped_there N U a ms config v phys l s"
  have rng: "4096 dvd unat v" "unat v + n * 4096 < unat PAGE_TABLE_ARRAY_ADDR" using assms(3) by (simp_all add: range_ok_def)
  have init: "?J (page_list v n) (phys, a)"
    using assms(2) by (intro exI [of _ 0]) (auto simp: mapped_there_def view_step_def map_range_def spaces_kept_same)
  have step: "\<exists>s'. map_page ms config i s = Some (Inr s') \<and> ?J is s'" if J: "?J (i # is) s" for i "is" s
  proof -
    obtain l where l: "l \<le> n" "i # is = drop l (page_list v n)" "mapped_there N U a ms config v phys l s" using J by blast
    note i = page_list_drop [OF l(2,1)]
    obtain s' where s': "map_page ms config (v + of_nat l * PAGE_SIZE) s = Some (Inr s')" "mapped_there N U a ms config v phys (Suc l) s'"
      using map_there_step [OF assms(3) i(1) l(3) tables] by auto
    show ?thesis using s' i by (intro exI [of _ s'] conjI exI [of _ "Suc l"]) simp_all
  qed
  have "\<exists>s'. okfold (map_page ms config) (page_list v n) (phys, a) = Some (Inr s') \<and> ?J [] s'"
    by (rule okfold_total [where I = ?J, OF init step])
  then obtain s' l where s': "okfold (map_page ms config) (page_list v n) (phys, a) = Some (Inr s')"
      "l \<le> n" "drop l (page_list v n) = []" "mapped_there N U a ms config v phys l s'" by auto
  then have "mapped_there N U a ms config v phys n s'" by (simp add: page_list_def)
  then show ?thesis
    using s'(1) arch_map_loop [OF assms(1) rng(1) assms(4) rng(2), of phys config]
    by (intro exI [of _ "snd s'"]) (cases s', simp add: mapped_there_def)
qed

section \<open>Unmapping a range\<close>

lemma free_frame:
  assumes "pmm_rel N U p" "unat (pd_table_address e) < N"
  shows "\<exists>p'. pmm_free (pd_table e) PAGE_SIZE p = Inr p' \<and> pmm_rel N (U - {unat (pd_table_address e)}) p'"
proof -
  have f: "unat (pd_table e) div 4096 = unat (pd_table_address e)" using unat_frame [of "pd_table e"] by simp
  have "freed_pages PAGE_SIZE p = 1"
    using get_buddy_exact [OF assms(1), of 0 PAGE_SIZE] by (simp add: freed_pages_def PAGE_SIZE_def buddy_count_def)
  moreover have "{m..<m + 1} = {m :: nat}" for m by auto
  ultimately show ?thesis
    using pmm_free_refines [OF assms(1), of PAGE_SIZE "pd_table e"] assms(2) by (auto simp: PAGE_SIZE_def f)
qed

lemma view_drop_table:
  assumes ok: "tables_ok U dir mt frames" and i: "i < 1023" "pd_value (dir ! i) \<noteq> 0"
    and empty: "frames (pd_table_address (dir ! i)) = Some t" "\<forall>e\<in>set t. pt_value e = 0"
  shows "tables_ok (U - {unat (pd_table_address (dir ! i))}) (dir[i := null_pd_entry]) mt frames"
    and "n < 1023 * 1024 \<Longrightarrow> view (dir[i := null_pd_entry]) frames n = view dir frames n"
proof -
  have len: "length dir = 1024" "length t = 1024" using ok i empty by (auto simp: tables_ok_def)
  have "\<forall>j<1023. j \<noteq> i \<longrightarrow> pd_value (dir ! j) \<noteq> 0 \<longrightarrow>
      unat (pd_table_address (dir ! j)) \<noteq> unat (pd_table_address (dir ! i))"
    using ok i unfolding tables_ok_def word_unat_eq_iff [symmetric] by blast
  then show "tables_ok (U - {unat (pd_table_address (dir ! i))}) (dir[i := null_pd_entry]) mt frames"
    using ok i by (auto simp: tables_ok_def nth_list_update)
  assume "n < 1023 * 1024"
  have "\<not> pt_present (t ! (n mod 1024))" using empty(2) len(2) pt_value_0 by simp
  then show "view (dir[i := null_pd_entry]) frames n = view dir frames n"
    using i len empty(1) by (cases "n div 1024 = i") (auto simp: view_def nth_list_update)
qed

definition check_step :: "nat \<Rightarrow> arch_t \<Rightarrow> paging_space_t \<Rightarrow> nat \<Rightarrow> arch_t \<Rightarrow> bool" where
  "check_step N a ms i a' \<longleftrightarrow> (\<exists>U'. space_ok N U' a' ms) \<and> (\<forall>j. j \<noteq> i \<longrightarrow> dir_of a' ms ! j = dir_of a ms ! j) \<and>
     ar_virtual_addr a' = ar_virtual_addr a \<and> ar_spaces a' = ar_spaces a \<and> (\<forall>n < 1023 * 1024. space_view a' ms n = space_view a ms n)"

lemma check_table_checks:
  assumes ok: "space_ok N U a ms" and i: "i < get_pd_index (ar_virtual_addr a)" "pd_value (dir_of a ms ! i) \<noteq> 0"
  shows "\<exists>a'. check_table ms i a = Inr a' \<and> check_step N a ms i a'"
proof -
  have i2: "i < 1022" "i < 1023" using i(1) ok by (simp_all add: space_ok_def)
  obtain pd mt where live: "ps_page_directory ms = Some pd" "ps_mapping_table ms = Some mt"
      "ar_directories a pd = Some (dir_of a ms)" "ar_mappings a mt = Some (map_of_space a ms)"
    using ok by (auto simp: space_ok_def space_live_def)
  have tab: "tables_ok U (dir_of a ms) (map_of_space a ms) (ar_frames a)" using ok by (simp add: space_ok_def)
  let ?e = "dir_of a ms ! i"
  obtain t where t: "ar_frames a (pd_table_address ?e) = Some t" "length t = 1024" "pt_page_address (map_of_space a ms ! i) = pd_table_address ?e"
      "unat (pd_table_address ?e) \<in> U" "length (map_of_space a ms) = 1024" "length (dir_of a ms) = 1024"
    using tab i2(2) i(2) unfolding tables_ok_def by blast
  have frame: "get_page_table_for ms i a = Inr (pd_table_address ?e)"
    using window_table [OF _ live(2,4), of i] ok t i2 by (simp add: space_ok_def)
  show ?thesis
  proof (cases "\<forall>e\<in>set t. pt_value e = 0")
    case False
    then have "check_table ms i a = Inr a" using frame t(1) by (auto simp: check_table_def table_is_empty_def)
    then show ?thesis using ok by (auto simp: check_step_def)
  next
    case True
    obtain p where p: "pmm_free (pd_table ?e) PAGE_SIZE (ar_pmm a) = Inr p" "pmm_rel N (U - {unat (pd_table_address ?e)}) p"
      using free_frame [of N U "ar_pmm a" ?e] ok t(4) by (auto simp: space_ok_def)
    define a' where "a' = a\<lparr>ar_directories := (ar_directories a)(pd \<mapsto> (dir_of a ms)[i := null_pd_entry]), ar_pmm := p\<rparr>"
    have st: "ar_directories a' = (ar_directories a)(pd \<mapsto> (dir_of a ms)[i := null_pd_entry])" "ar_mappings a' = ar_mappings a"
        "ar_master_directory a' = ar_master_directory a" "ar_master_mapping a' = ar_master_mapping a" "ar_current a' = ar_current a"
        "ar_spaces a' = ar_spaces a" "ar_virtual_addr a' = ar_virtual_addr a" "ar_pmm a' = p" "ar_frames a' = ar_frames a"
      by (simp_all add: a'_def)
    have run: "check_table ms i a = Inr a'"
      using frame t(1,6) True p(1) i2 live(1,3) directory_entry_in [OF refl live(3)]
      by (simp add: check_table_def table_is_empty_def set_directory_in [OF refl live(3)] a'_def)
    have dir: "dir_of a' ms = (dir_of a ms)[i := null_pd_entry]" "map_of_space a' ms = map_of_space a ms"
      using live by (simp_all add: dir_of_def map_of_space_def st)
    note drop = view_drop_table [OF tab i2(2) i(2) t(1) True]
    obtain md mm mdir mmap where m: "ar_master_directory a = Some md" "ar_directories a md = Some mdir" "length mdir = 1024"
        "ar_master_mapping a = Some mm" "ar_mappings a mm = Some mmap" "length mmap = 1024"
        "\<And>j. get_pd_index (ar_virtual_addr a) \<le> j \<Longrightarrow> j < 1023 \<Longrightarrow> mdir ! j = dir_of a ms ! j \<and> mmap ! j = map_of_space a ms ! j"
      using ok unfolding space_ok_def master_synced_def by blast
    have "master_synced a' ms"
    proof (rule master_syncedI)
      show "ar_directories a' md = Some (if md = pd then (dir_of a ms)[i := null_pd_entry] else mdir)" using m(2) by (simp add: st)
      show "ar_mappings a' mm = Some mmap" using m(5) by (simp add: st)
      fix j assume j: "get_pd_index (ar_virtual_addr a') \<le> j" "j < 1023"
      then have "j \<noteq> i" using i(1) by (auto simp: st)
      then show "(if md = pd then (dir_of a ms)[i := null_pd_entry] else mdir) ! j = dir_of a' ms ! j \<and> mmap ! j = map_of_space a' ms ! j"
        using m(7) [of j] j by (simp add: st dir)
    qed (simp_all add: st m t)
    moreover have "window_open a'"
    proof (rule window_keep [of a])
      fix d dir assume "ar_directories a d = Some dir" "length dir = 1024" "pd_present (dir ! 1022)"
      then show "\<exists>dir'. ar_directories a' d = Some dir' \<and> length dir' = 1024 \<and> pd_present (dir' ! 1022)"
        using live(3) i2 by (cases "d = pd") (simp_all add: st)
    qed (use ok in \<open>simp_all add: space_ok_def st\<close>)
    ultimately have "space_ok N (U - {unat (pd_table_address ?e)}) a' ms"
      using drop(1) ok p(2) live unfolding space_ok_def space_live_def by (auto simp: dir st)
    moreover have "\<forall>n < 1023 * 1024. space_view a' ms n = space_view a ms n" using drop(2) by (simp add: space_view_def dir st)
    ultimately have "check_step N a ms i a'" unfolding check_step_def by (auto simp: dir st)
    with run show ?thesis by blast
  qed
qed

lemma check_tables_check:
  assumes "space_ok N U a ms" "distinct checks" "\<forall>i\<in>set checks. i < get_pd_index (ar_virtual_addr a) \<and> pd_value (dir_of a ms ! i) \<noteq> 0"
  shows "\<exists>a'. kfold (check_table ms) checks a = Inr a' \<and> (\<exists>U'. space_ok N U' a' ms) \<and> ar_virtual_addr a' = ar_virtual_addr a \<and>
    ar_spaces a' = ar_spaces a \<and> (\<forall>n < 1023 * 1024. space_view a' ms n = space_view a ms n)"
  using assms
proof (induction checks arbitrary: a U)
  case (Cons i checks)
  obtain a1 U1 where a1: "check_table ms i a = Inr a1" "space_ok N U1 a1 ms" "\<forall>j. j \<noteq> i \<longrightarrow> dir_of a1 ms ! j = dir_of a ms ! j"
      "ar_virtual_addr a1 = ar_virtual_addr a" "ar_spaces a1 = ar_spaces a" "\<forall>n < 1023 * 1024. space_view a1 ms n = space_view a ms n"
    using check_table_checks [OF Cons.prems(1), of i] Cons.prems(3) by (auto simp: check_step_def)
  have "\<forall>j\<in>set checks. j < get_pd_index (ar_virtual_addr a1) \<and> pd_value (dir_of a1 ms ! j) \<noteq> 0"
    using Cons.prems(2,3) a1(3,4) by auto
  from Cons.IH [OF a1(2) _ this] Cons.prems(2) show ?case using a1 by auto
qed auto

definition unmap_range :: "nat \<Rightarrow> nat \<Rightarrow> (nat \<Rightarrow> page_table_entry_t option) \<Rightarrow> nat \<Rightarrow> page_table_entry_t option" where
  "unmap_range first n f m = (if first \<le> m \<and> m < first + n then None else f m)"

lemma unmap_range_Suc: "unmap_range first (Suc n) f = (unmap_range first n f)(first + n := None)"
  by (rule ext) (auto simp: unmap_range_def less_Suc_eq)

text \<open>The conditions on a range to unmap: aligned, below the page tables, in one half, and mapped.\<close>

definition mapped_ok :: "arch_t \<Rightarrow> paging_space_t \<Rightarrow> u32 \<Rightarrow> nat \<Rightarrow> bool" where
  "mapped_ok a ms v n \<longleftrightarrow>
     4096 dvd unat v \<and> unat v + n * 4096 < unat PAGE_TABLE_ARRAY_ADDR \<and>
     (\<forall>m. unat v div 4096 \<le> m \<and> m < unat v div 4096 + n \<longrightarrow>
        halves_split a (of_nat m * PAGE_SIZE) \<and> space_view a ms m \<noteq> None)"

text \<open>The tables noted for the check are in the user half, distinct, and none is beyond the page that is unmapped.\<close>

definition checks_ok :: "arch_t \<Rightarrow> paging_space_t \<Rightarrow> nat \<Rightarrow> nat list \<Rightarrow> nat \<Rightarrow> bool" where
  "checks_ok a ms bound checks current \<longleftrightarrow> distinct checks \<and> (checks \<noteq> [] \<longrightarrow> current \<le> bound) \<and>
     (\<forall>i\<in>set checks. i \<le> current \<and> i < get_pd_index (ar_virtual_addr a) \<and> pd_value (dir_of a ms ! i) \<noteq> 0)"

lemma checks_push:
  assumes "checks_ok a ms bound checks current" "current \<noteq> i" "bound \<le> i"
    "i < get_pd_index (ar_virtual_addr a)" "pd_value (dir_of a ms ! i) \<noteq> 0"
  shows "checks_ok a ms i (checks @ [i]) i"
proof -
  have "\<forall>j\<in>set checks. j < i" using assms(1-3) by (fastforce simp: checks_ok_def)
  then show ?thesis using assms by (fastforce simp: checks_ok_def)
qed

lemma checks_mono: "checks_ok a ms bound checks current \<Longrightarrow> bound \<le> bound' \<Longrightarrow> checks_ok a ms bound' checks current"
  by (auto simp: checks_ok_def)

definition unmapped_so_far :: "nat \<Rightarrow> nat set \<Rightarrow> arch_t \<Rightarrow> paging_space_t \<Rightarrow> u32 \<Rightarrow> nat \<Rightarrow> nat list \<times> nat \<times> arch_t \<Rightarrow> bool" where
  "unmapped_so_far N U a ms v l s \<longleftrightarrow>
     (case s of (checks, current, a1) \<Rightarrow>
        dir_of a1 ms = dir_of a ms \<and> space_ok N U a1 ms \<and> ar_virtual_addr a1 = ar_virtual_addr a \<and> ar_spaces a1 = ar_spaces a \<and>
        (\<forall>m < 1023 * 1024. space_view a1 ms m = unmap_range (unat v div 4096) l (space_view a ms) m) \<and>
        checks_ok a ms ((unat v div 4096 + l) div 1024) checks current)"

lemma view_table_there: "space_ok N U a ms \<Longrightarrow> space_view a ms m \<noteq> None \<Longrightarrow> pd_value (dir_of a ms ! (m div 1024)) \<noteq> 0"
  using pd_value_0 by (fastforce simp: space_view_def view_def split: if_splits)

lemma unmap_step:
  assumes rng: "mapped_ok a ms v n" and l: "l < n" and ok: "space_ok N U a ms" and sofar: "unmapped_so_far N U a ms v l s"
  shows "\<exists>s'. unmap_page ms (v + of_nat l * PAGE_SIZE) s = Some (Inr s') \<and> unmapped_so_far N U a ms v (Suc l) s'"
proof -
  let ?p = "unat v div 4096" let ?v = "v + of_nat l * PAGE_SIZE"
  obtain checks current a1 where s: "s = (checks, current, a1)" by (cases s) auto
  have so: "dir_of a1 ms = dir_of a ms" "space_ok N U a1 ms" "ar_virtual_addr a1 = ar_virtual_addr a" "ar_spaces a1 = ar_spaces a"
      "\<forall>m < 1023 * 1024. space_view a1 ms m = unmap_range ?p l (space_view a ms) m" "checks_ok a ms ((?p + l) div 1024) checks current"
    using sofar by (simp_all add: s unmapped_so_far_def)
  have al: "4096 dvd unat v" "unat v + Suc l * 4096 < unat PAGE_TABLE_ARRAY_ADDR" using rng l by (auto simp: mapped_ok_def)
  note pa = page_address [OF al]
  have "?p \<le> ?p + l \<and> ?p + l < ?p + n" using l by simp
  then have r: "space_view a ms (?p + l) \<noteq> None" "halves_split a ?v" using rng unfolding mapped_ok_def pa(2) by blast+
  have pd: "get_pd_index ?v = (?p + l) div 1024" unfolding pd_index_div pa(1) by simp
  have small: "?p + l < 1023 * 1024" using pa(3) unfolding pd by (simp add: div_less_iff_less_mult)
  have there: "pd_value (dir_of a1 ms ! get_pd_index ?v) \<noteq> 0" using view_table_there [OF ok r(1)] unfolding pd so(1) .
  have seen: "space_view a1 ms (unat ?v div 4096) \<noteq> None" using so(5) small r(1) unfolding pa(1) by (simp add: unmap_range_def)
  obtain frame old a2 where w: "get_page_table_for ms (get_pd_index ?v) a1 = Inr frame" "read_entry frame (get_pt_index ?v) a1 = Inr old"
      "pt_present old" "write_entry frame (get_pt_index ?v) null_pt_entry a1 = Inr a2"
      "dir_of a2 ms = dir_of a1 ms" "space_ok N U a2 ms" "ar_virtual_addr a2 = ar_virtual_addr a1" "ar_spaces a2 = ar_spaces a1"
      "\<forall>m < 1023 * 1024. space_view a2 ms m = (if m = ?p + l then if pt_present null_pt_entry then Some null_pt_entry else None else space_view a1 ms m)"
    using space_write [OF so(2) pa(3) there, where e = null_pt_entry] seen unfolding pa(1) by blast
  note entry = ensure_table_there(2,3) [OF so(2) pa(3) there]
  define c where "c = (if current \<noteq> get_pd_index ?v \<and> \<not> is_kernel_space a2 ?v then (checks @ [get_pd_index ?v], get_pd_index ?v) else (checks, current))"
  have run: "unmap_page ms ?v s = Some (Inr (fst c, snd c, a2))" using w(1-4) entry by (cases "current \<noteq> get_pd_index ?v \<and> \<not> is_kernel_space a2 ?v") (simp_all add: s unmap_page_def c_def Let_def)
  have "is_kernel_space a2 ?v \<longleftrightarrow> is_kernel_space a ?v" using w(7) so(3) by (simp add: is_kernel_space_def)
  then have user: "\<not> is_kernel_space a2 ?v \<Longrightarrow> get_pd_index ?v < get_pd_index (ar_virtual_addr a)" using r(2) by (simp add: halves_split_def)
  have "checks_ok a ms (get_pd_index ?v) (fst c) (snd c)"
    using so(6) checks_push [OF so(6), of "get_pd_index ?v"] user there unfolding c_def pd so(1) by auto
  then have "checks_ok a ms ((?p + Suc l) div 1024) (fst c) (snd c)" by (rule checks_mono) (simp add: pd div_le_mono)
  then have "unmapped_so_far N U a ms v (Suc l) (fst c, snd c, a2)"
    using w(5-9) so(1,3,4,5) by (simp add: unmapped_so_far_def unmap_range_Suc)
  then show ?thesis using run by blast
qed

lemma arch_unmap_loop:
  assumes "ar_spaces a s = Some ms" "4096 dvd unat v" "unat sz = n * 4096" "unat v + n * 4096 < unat PAGE_TABLE_ARRAY_ADDR"
  shows "arch_unmap (Some s) v sz a =
    obind (okfold (unmap_page ms) (page_list v n) ([], PAGE_COUNT, a)) (\<lambda>(checks, _, a). Some (kfold (check_table ms) checks a))"
  using range_limit [OF assms(2-4)] assms(1)
  by (simp add: arch_unmap_def for_page_in_range_def for_pages_list [OF range_limit(3) [OF assms(2-4)] assms(2)])

lemma arch_unmap_effect:
  assumes "ar_spaces a s = Some ms" "space_ok N U a ms" "mapped_ok a ms v n" "unat sz = n * 4096"
  shows "\<exists>a'. arch_unmap (Some s) v sz a = Some (Inr a') \<and> (\<exists>U'. space_ok N U' a' ms) \<and> ar_virtual_addr a' = ar_virtual_addr a \<and>
    ar_spaces a' = ar_spaces a \<and> (\<forall>m < 1023 * 1024. space_view a' ms m = unmap_range (unat v div 4096) n (space_view a ms) m)"
proof -
  let ?J = "\<lambda>is s. \<exists>l\<le>n. is = drop l (page_list v n) \<and> unmapped_so_far N U a ms v l s"
  have rng: "4096 dvd unat v" "unat v + n * 4096 < unat PAGE_TABLE_ARRAY_ADDR" using assms(3) by (simp_all add: mapped_ok_def)
  have init: "?J (page_list v n) ([], PAGE_COUNT, a)"
    using assms(2) by (intro exI [of _ 0]) (auto simp: unmapped_so_far_def checks_ok_def unmap_range_def)
  have step: "\<exists>s'. unmap_page ms i s = Some (Inr s') \<and> ?J is s'" if J: "?J (i # is) s" for i "is" s
  proof -
    obtain l where l: "l \<le> n" "i # is = drop l (page_list v n)" "unmapped_so_far N U a ms v l s" using J by blast
    note i = page_list_drop [OF l(2,1)]
    obtain s' where s': "unmap_page ms (v + of_nat l * PAGE_SIZE) s = Some (Inr s')" "unmapped_so_far N U a ms v (Suc l) s'"
      using unmap_step [OF assms(3) i(1) assms(2) l(3)] by auto
    show ?thesis using s' i by (intro exI [of _ s'] conjI exI [of _ "Suc l"]) simp_all
  qed
  have "\<exists>s'. okfold (unmap_page ms) (page_list v n) ([], PAGE_COUNT, a) = Some (Inr s') \<and> ?J [] s'"
    by (rule okfold_total [where I = ?J, OF init step])
  then obtain s' l where s': "okfold (unmap_page ms) (page_list v n) ([], PAGE_COUNT, a) = Some (Inr s')"
      "l \<le> n" "drop l (page_list v n) = []" "unmapped_so_far N U a ms v l s'" by auto
  then have "unmapped_so_far N U a ms v n s'" by (simp add: page_list_def)
  then obtain checks current a1 where a1: "s' = (checks, current, a1)" "dir_of a1 ms = dir_of a ms" "space_ok N U a1 ms"
      "ar_virtual_addr a1 = ar_virtual_addr a" "ar_spaces a1 = ar_spaces a"
      "\<forall>m < 1023 * 1024. space_view a1 ms m = unmap_range (unat v div 4096) n (space_view a ms) m"
      "checks_ok a ms ((unat v div 4096 + n) div 1024) checks current"
    by (cases s') (auto simp: unmapped_so_far_def)
  have "distinct checks" "\<forall>i\<in>set checks. i < get_pd_index (ar_virtual_addr a1) \<and> pd_value (dir_of a1 ms ! i) \<noteq> 0"
    using a1(2,4,7) by (auto simp: checks_ok_def)
  from check_tables_check [OF a1(3) this] obtain a' where a': "kfold (check_table ms) checks a1 = Inr a'" "\<exists>U'. space_ok N U' a' ms"
      "ar_virtual_addr a' = ar_virtual_addr a1" "ar_spaces a' = ar_spaces a1" "\<forall>m < 1023 * 1024. space_view a' ms m = space_view a1 ms m"
    by blast
  then have "arch_unmap (Some s) v sz a = Some (Inr a')"
    using s'(1) a1(1) by (simp add: arch_unmap_loop [OF assms(1) rng(1) assms(4) rng(2)])
  then show ?thesis using a' a1(4-6) by auto
qed

section \<open>Translation\<close>

lemma as_physical_for_view:
  assumes "ar_spaces a s = Some ms" "space_ok N U a ms" "get_pd_index v < 1023" "space_view a ms (unat v div 4096) = Some e"
  shows "as_physical_for (Some s) v a = Inr (pt_page e + get_offset v)"
proof -
  have "pd_value (dir_of a ms ! get_pd_index v) \<noteq> 0"
    using view_table_there [OF assms(2), of "unat v div 4096"] assms(4) by (simp add: pd_index_div)
  from space_write [OF assms(2,3) this, where e = e] show ?thesis
    using assms(1,4) by (auto simp: as_physical_for_def)
qed

lemma space_ok_same:
  assumes "ps_page_directory ms' = ps_page_directory ms" "ps_mapping_table ms' = ps_mapping_table ms"
  shows "space_ok N U a ms' = space_ok N U a ms" "space_view a ms' = space_view a ms" "dir_of a ms' = dir_of a ms"
proof -
  have eq: "dir_of a ms' = dir_of a ms" "map_of_space a ms' = map_of_space a ms"
    by (simp_all add: dir_of_def map_of_space_def assms)
  then show "space_ok N U a ms' = space_ok N U a ms" "space_view a ms' = space_view a ms" "dir_of a ms' = dir_of a ms"
    by (simp_all add: space_ok_def space_live_def master_synced_def space_view_def assms)
qed

lemma pt_page_raw:
  assumes "4096 dvd unat p"
  shows "pt_page (raw_create_pte p u w pat) = p"
proof -
  have up: "unat (ucast w :: u32) = unat w" for w :: "20 word"
    using unat_bound [of w] by (simp add: unsigned_ucast_eq take_bit_nat_eq_self)
  have "unat (pt_page (raw_create_pte p u w pat)) = unat p div 4096 * 4096 mod 2 ^ 32"
    unfolding pt_page_def raw_pte_facts push_bit_eq_mult unat_word_ariths up unat_frame by simp
  also have "\<dots> = unat p" using assms unat_bound [of p] by (simp add: dvd_div_mult_self)
  finally show ?thesis by (simp only: word_unat_eq_iff)
qed

lemma range_offset:
  assumes "4096 dvd unat v" "unat v + n * 4096 < unat PAGE_TABLE_ARRAY_ADDR" "off < n * 4096"
  shows "unat (v + of_nat off) div 4096 = unat v div 4096 + off div 4096" "get_offset (v + of_nat off) = of_nat (off mod 4096)"
    "get_pd_index (v + of_nat off) < 1023" "off div 4096 < n" "unat v div 4096 + off div 4096 < 1023 * 1024"
proof -
  obtain q where q: "unat v = 4096 * q" using assms(1) by (elim dvdE)
  have lim: "4096 * q + n * 4096 < 1023 * 1024 * 4096" using assms(2) q by (simp add: PAGE_TABLE_ARRAY_ADDR_def)
  then have u: "unat (v + of_nat off) = 4096 * q + off"
    using assms(3) q by (subst unat_add_small) (simp_all add: unsigned_of_nat take_bit_nat_eq_self)
  then show d: "unat (v + of_nat off) div 4096 = unat v div 4096 + off div 4096" using q by simp
  show "off div 4096 < n" using assms(3) by (simp add: div_less_iff_less_mult)
  then show small: "unat v div 4096 + off div 4096 < 1023 * 1024" using lim q by simp
  then show "get_pd_index (v + of_nat off) < 1023" unfolding pd_index_div d by (simp add: div_less_iff_less_mult)
  have "unat (get_offset (v + of_nat off)) = off mod 4096"
    unfolding get_offset_def mask_values take_bit_eq_mask [symmetric] unsigned_take_bit_eq u
    by (simp add: take_bit_nat_def mod_mult_self4 mult.commute)
  then show "get_offset (v + of_nat off) = of_nat (off mod 4096)" by (metis of_nat_unat ucast_id)
qed

lemma page_plus_offset:
  assumes "4096 dvd unat phys"
  shows "pt_page (mapped_entry config (phys + of_nat (off div 4096) * PAGE_SIZE)) + of_nat (off mod 4096) = phys + of_nat off"
proof -
  have "unat (phys + of_nat (off div 4096) * PAGE_SIZE) = (unat phys + unat (of_nat (off div 4096 * 4096) :: u32)) mod 2 ^ 32"
    by (simp add: unat_word_ariths PAGE_SIZE_def)
  also have "unat (of_nat (off div 4096 * 4096) :: u32) = (off div 4096 * 4096) mod 2 ^ 32"
    by (simp only: unsigned_of_nat take_bit_nat_def len_num1 len_bit0 len_bit1) simp
  finally have "4096 dvd unat (phys + of_nat (off div 4096) * PAGE_SIZE)"
    using assms by (simp add: dvd_mod_iff)
  then have "pt_page (mapped_entry config (phys + of_nat (off div 4096) * PAGE_SIZE)) = phys + of_nat (off div 4096) * PAGE_SIZE"
    by (rule pt_page_raw)
  moreover have "(of_nat (off div 4096) * PAGE_SIZE + of_nat (off mod 4096) :: u32) = of_nat (off div 4096 * 4096 + off mod 4096)"
    unfolding of_nat_add of_nat_mult PAGE_SIZE_def by simp
  ultimately show ?thesis by (simp add: add.assoc)
qed

section \<open>Properties\<close>

lemma view_translates:
  assumes "ar_spaces a s = Some ms" "4096 dvd unat phys" "4096 dvd unat v" "unat v + n * 4096 < unat PAGE_TABLE_ARRAY_ADDR"
    "view_step N U a ms (map_range config phys (unat v div 4096) n (space_view a ms)) a'" "off < n * 4096"
  shows "as_physical_for (Some s) (v + of_nat off) a' = Inr (phys + of_nat off)"
proof -
  obtain ms' U' where ms': "ar_spaces a' s = Some ms'" "ps_page_directory ms' = ps_page_directory ms" "ps_mapping_table ms' = ps_mapping_table ms"
      and ok: "space_ok N U' a' ms" using assms(1,5) unfolding view_step_def spaces_kept_def by blast
  note o = range_offset [OF assms(3,4,6)]
  have "space_view a' ms (unat (v + of_nat off) div 4096) = Some (mapped_entry config (phys + of_nat (off div 4096) * PAGE_SIZE))"
    using assms(5) o(4,5) unfolding o(1) view_step_def by (simp add: map_range_def)
  then have "as_physical_for (Some s) (v + of_nat off) a' =
      Inr (pt_page (mapped_entry config (phys + of_nat (off div 4096) * PAGE_SIZE)) + get_offset (v + of_nat off))"
    using as_physical_for_view [OF ms'(1) _ o(3)] ok by (simp add: space_ok_same [OF ms'(2,3)])
  then show ?thesis unfolding o(2) page_plus_offset [OF assms(2)] .
qed

text \<open>
  C6. Mapping a range of pages: when \<open>map\<close> returns, either physical memory is exhausted and the kernel panics,
  or every address of the range translates to the physical address at the same offset, every other page of the address
  space is mapped as before, the page tables are well formed, and no frame that was in use has been freed or reused as a page table.
\<close>

theorem arch_map_maps_range:
  assumes "ar_spaces a s = Some ms" "space_ok N U a ms" "range_ok a ms config v n" "unat sz = n * 4096" "4096 dvd unat phys"
    "arch_map (Some s) phys v sz config a = Some r"
  shows "r = Inl KernelPanic \<or> (\<exists>a' U'. r = Inr a' \<and> U \<subseteq> U' \<and> space_ok N U' a' ms \<and>
    (\<forall>off < n * 4096. as_physical_for (Some s) (v + of_nat off) a' = Inr (phys + of_nat off)) \<and>
    (\<forall>m < 1023 * 1024. m < unat v div 4096 \<or> unat v div 4096 + n \<le> m \<longrightarrow> space_view a' ms m = space_view a ms m))"
proof -
  have rng: "4096 dvd unat v" "unat v + n * 4096 < unat PAGE_TABLE_ARRAY_ADDR" using assms(3) by (simp_all add: range_ok_def)
  consider "r = Inl KernelPanic" | a' where "r = Inr a'" "view_step N U a ms (map_range config phys (unat v div 4096) n (space_view a ms)) a'"
    using arch_map_effect [OF assms(1-4,6)] by blast
  then show ?thesis
  proof cases
    case 2
    then have "\<forall>off < n * 4096. as_physical_for (Some s) (v + of_nat off) a' = Inr (phys + of_nat off)"
      using view_translates [OF assms(1,5) rng 2(2)] by blast
    then show ?thesis using 2 by (auto simp: view_step_def map_range_def)
  qed simp
qed

text \<open>
  C26. When the page tables of the range exist, \<open>map\<close> returns, whatever the state of the physical memory, and takes no frame.
\<close>

theorem arch_map_returns:
  assumes "ar_spaces a s = Some ms" "space_ok N U a ms" "range_ok a ms config v n" "unat sz = n * 4096"
    and "\<forall>m. unat v div 4096 \<le> m \<and> m < unat v div 4096 + n \<longrightarrow> pd_value (dir_of a ms ! (m div 1024)) \<noteq> 0"
  shows "\<exists>a'. arch_map (Some s) phys v sz config a = Some (Inr a') \<and> space_ok N U a' ms"
  using arch_map_tables_there [OF assms] by blast

lemma mapped_after:
  assumes "range_ok a ms config v n" "view_step N U a ms (map_range config phys (unat v div 4096) n (space_view a ms)) a'"
    "\<forall>m. unat v div 4096 \<le> m \<and> m < unat v div 4096 + n \<longrightarrow> halves_split a (of_nat m * PAGE_SIZE)"
  shows "mapped_ok a' ms v n"
proof -
  have "unat v + n * 4096 < 1023 * 1024 * 4096" "4096 dvd unat v" using assms(1) by (simp_all add: range_ok_def PAGE_TABLE_ARRAY_ADDR_def)
  then have lim: "unat v div 4096 + n < 1023 * 1024" "ar_virtual_addr a' = ar_virtual_addr a"
    using assms(2) by (auto simp: view_step_def elim!: dvdE)
  have view: "\<forall>m < 1023 * 1024. space_view a' ms m = map_range config phys (unat v div 4096) n (space_view a ms) m"
    using assms(2) by (simp add: view_step_def)
  have "halves_split a' (of_nat m * PAGE_SIZE) \<and> space_view a' ms m \<noteq> None"
    if m: "unat v div 4096 \<le> m \<and> m < unat v div 4096 + n" for m
  proof -
    have "halves_split a (of_nat m * PAGE_SIZE)" using assms(3) m by blast
    then show ?thesis using view lim m by (simp add: halves_split_def is_kernel_space_def map_range_def)
  qed
  then show ?thesis using assms(1) unfolding mapped_ok_def range_ok_def by blast
qed

lemma unmap_range_cong: "f m = g m \<Longrightarrow> unmap_range first n f m = unmap_range first n g m"
  by (simp add: unmap_range_def)

lemma unmap_map_range: "(\<And>m. first \<le> m \<Longrightarrow> m < first + n \<Longrightarrow> f m = None) \<Longrightarrow> unmap_range first n (map_range config phys first n f) = f"
  by (rule ext) (auto simp: unmap_range_def map_range_def)

text \<open>
  C14. Unmapping a range of formerly unmapped pages that \<open>map\<close> has mapped, with page tables that were there or that
  \<open>map\<close> made, returns, keeps the page tables well formed and restores the address space. When all page tables of
  the range are there before, \<open>map\<close> returns in the first place; otherwise it may stop for want of memory, and
  nothing is said. The range has no page that shares the directory entry of the border of the kernel half without lying above
  the border.
\<close>

theorem unmap_undoes_map:
  assumes "ar_spaces a s = Some ms" "space_ok N U a ms" "range_ok a ms config v n" "unat sz = n * 4096"
    and half: "\<forall>m. unat v div 4096 \<le> m \<and> m < unat v div 4096 + n \<longrightarrow> halves_split a (of_nat m * PAGE_SIZE)"
  shows "((\<forall>m. unat v div 4096 \<le> m \<and> m < unat v div 4096 + n \<longrightarrow> pd_value (dir_of a ms ! (m div 1024)) \<noteq> 0) \<longrightarrow>
      (\<exists>a1. arch_map (Some s) phys v sz config a = Some (Inr a1))) \<and>
    (\<forall>a1. arch_map (Some s) phys v sz config a = Some (Inr a1) \<longrightarrow>
      (\<exists>a2. arch_unmap (Some s) v sz a1 = Some (Inr a2) \<and> (\<exists>U'. space_ok N U' a2 ms) \<and>
        (\<forall>m < 1023 * 1024. space_view a2 ms m = space_view a ms m)))"
proof (intro conjI impI allI)
  assume "\<forall>m. unat v div 4096 \<le> m \<and> m < unat v div 4096 + n \<longrightarrow> pd_value (dir_of a ms ! (m div 1024)) \<noteq> 0"
  then show "\<exists>a1. arch_map (Some s) phys v sz config a = Some (Inr a1)"
    using arch_map_tables_there [OF assms(1-4)] by blast
next
  fix a1 assume "arch_map (Some s) phys v sz config a = Some (Inr a1)"
  from arch_map_effect [OF assms(1-4) this]
  have step: "view_step N U a ms (map_range config phys (unat v div 4096) n (space_view a ms)) a1" by auto
  then obtain V where V: "space_ok N V a1 ms" unfolding view_step_def by blast
  obtain ms' where ms': "ar_spaces a1 s = Some ms'" "ps_page_directory ms' = ps_page_directory ms" "ps_mapping_table ms' = ps_mapping_table ms"
    using assms(1) step unfolding view_step_def spaces_kept_def by blast
  note same = space_ok_same [OF ms'(2,3)]
  have "mapped_ok a1 ms' v n" using mapped_after [OF assms(3) step half] by (simp add: mapped_ok_def same)
  from arch_unmap_effect [OF ms'(1) _ this assms(4), unfolded same, OF V] obtain a2 where
      a2: "arch_unmap (Some s) v sz a1 = Some (Inr a2)" "\<exists>U'. space_ok N U' a2 ms"
        "\<forall>m < 1023 * 1024. space_view a2 ms m = unmap_range (unat v div 4096) n (space_view a1 ms) m" by blast
  have "space_view a ms m = None" if "unat v div 4096 \<le> m" "m < unat v div 4096 + n" for m
    using assms(3) that unfolding range_ok_def by blast
  then have "unmap_range (unat v div 4096) n (map_range config phys (unat v div 4096) n (space_view a ms)) = space_view a ms"
    by (rule unmap_map_range)
  moreover have "\<forall>m < 1023 * 1024. space_view a1 ms m = map_range config phys (unat v div 4096) n (space_view a ms) m"
    using step by (simp add: view_step_def)
  ultimately have "\<forall>m < 1023 * 1024. space_view a2 ms m = space_view a ms m"
    using a2(3) by (metis (no_types) unmap_range_cong)
  then show "\<exists>a2. arch_unmap (Some s) v sz a1 = Some (Inr a2) \<and> (\<exists>U'. space_ok N U' a2 ms) \<and>
      (\<forall>m < 1023 * 1024. space_view a2 ms m = space_view a ms m)" using a2(1,2) by blast
qed

text \<open>
  C37. A kernel page table that the master directory has and the address space lacks: \<open>map\<close> copies the directory entry into the
  space but not the entry of its mapping table, and so looks for the page table in frame 0 instead of the frame of the master.
\<close>

theorem stale_kernel_table_misread:
  assumes "ar_master_directory a = Some md" "ar_directories a md = Some mdir" "ps_page_directory ms = Some pd" "ar_directories a pd = Some dir"
    "ps_mapping_table ms = Some mt" "ar_mappings a mt = Some mp" "length mdir = 1024" "length dir = 1024" "length mp = 1024" "window_open a"
    and v: "is_kernel_space a v" "get_pd_index v < 1022"
    and stale: "pd_value (dir ! get_pd_index v) = 0" "pd_present (mdir ! get_pd_index v)" "mp ! get_pd_index v = null_pt_entry"
  shows "\<exists>a'. ensure_table ms config v a = Some (Inr a') \<and>
    directory_entry (ps_page_directory ms) (get_pd_index v) a' = Inr (mdir ! get_pd_index v) \<and>
    get_page_table_for ms (get_pd_index v) a' = Inr 0 \<and>
    (ar_frames a 0 = None \<longrightarrow> map_page ms config v (phys, a) = Some (Inl BadAccess))"
proof -
  let ?i = "get_pd_index v"
  define a' where "a' = a\<lparr>ar_directories := (ar_directories a)(pd \<mapsto> dir[?i := mdir ! ?i])\<rparr>"
  have m: "pd_value (mdir ! ?i) \<noteq> 0" using stale(2) pd_value_0 by blast
  have entries: "directory_entry (Some pd) ?i a = Inr (dir ! ?i)" "directory_entry (Some md) ?i a = Inr (mdir ! ?i)"
    using assms(2,4,7,8) v(2) by (simp_all add: directory_entry_def at_index_def)
  have run: "ensure_table ms config v a = Some (Inr a')"
    using entries m stale(1) v assms(1,3,4,8) set_directory_in [OF refl assms(4), of ?i]
    by (simp add: ensure_table_def ensure_kernel_table_def a'_def Let_def)
  have st: "ar_directories a' = (ar_directories a)(pd \<mapsto> dir[?i := mdir ! ?i])" "ar_mappings a' = ar_mappings a"
      "ar_current a' = ar_current a" "ar_spaces a' = ar_spaces a" "ar_frames a' = ar_frames a" by (simp_all add: a'_def)
  have "window_open a'"
  proof (rule window_keep [OF assms(10)])
    fix d dir' assume "ar_directories a d = Some dir'" "length dir' = 1024" "pd_present (dir' ! 1022)"
    then show "\<exists>dir''. ar_directories a' d = Some dir'' \<and> length dir'' = 1024 \<and> pd_present (dir'' ! 1022)"
      using assms(4) v(2) by (cases "d = pd") (simp_all add: st)
  qed (simp_all add: st)
  then have frame: "get_page_table_for ms ?i a' = Inr 0"
    using window_table [of a' ms mt mp ?i] assms(5,6,9) v(2) stale(3) by (simp add: st null_pt_entry_def)
  have entry: "directory_entry (ps_page_directory ms) ?i a' = Inr (mdir ! ?i)"
    using assms(3,8) v(2) by (simp add: directory_entry_def at_index_def st)
  have "map_page ms config v (phys, a) = Some (Inl BadAccess)" if "ar_frames a 0 = None"
    using that run entry frame stale(2) by (simp add: map_page_def read_entry_def st)
  then show ?thesis using run entry frame by (intro exI [of _ a'] conjI impI) simp_all
qed

section \<open>A small machine\<close>

text \<open>
  One address space whose directory has three page tables, in the frames 16 to 18: one for the first pages, one for the
  kernel half and one for the fixed page. Physical memory has 128 pages.
\<close>

definition small_directory :: "page_directory_entry_t list" where
  "small_directory = (replicate 1024 null_pd_entry)
     [0 := raw_create_pde 0x10000 True True 3, 768 := raw_create_pde 0x11000 False True 3, 1022 := raw_create_pde 0x12000 False True 3]"

definition small_mapping :: "page_table_entry_t list" where
  "small_mapping = (replicate 1024 null_pt_entry)
     [0 := raw_create_pte 0x10000 False True 3, 768 := raw_create_pte 0x11000 False True 3, 1022 := raw_create_pte 0x12000 False True 3]"

definition small_space :: paging_space_t where
  "small_space = \<lparr>ps_physical_pd_address = 0x13000, ps_page_directory = Some 10, ps_mapping_table = Some 20, ps_page_directory_version = 0\<rparr>"

definition small_arch :: "pmm \<Rightarrow> arch_t" where
  "small_arch p = \<lparr>ar_frames = [16 \<mapsto> replicate 1024 null_pt_entry, 17 \<mapsto> replicate 1024 null_pt_entry, 18 \<mapsto> replicate 1024 null_pt_entry],
     ar_pmm = p, ar_directories = [10 \<mapsto> small_directory], ar_mappings = [20 \<mapsto> small_mapping], ar_spaces = [1 \<mapsto> small_space],
     ar_current = Some 1, ar_master_directory = Some 10, ar_master_mapping = Some 20, ar_directory_version = 0, ar_virtual_addr = 0xC0000000\<rparr>"

lemma small_entries:
  "i < 1024 \<Longrightarrow> small_directory ! i = (if i = 1022 then raw_create_pde 0x12000 False True 3 else if i = 768 then raw_create_pde 0x11000 False True 3
     else if i = 0 then raw_create_pde 0x10000 True True 3 else null_pd_entry)"
  "i < 1024 \<Longrightarrow> small_mapping ! i = (if i = 1022 then raw_create_pte 0x12000 False True 3 else if i = 768 then raw_create_pte 0x11000 False True 3
     else if i = 0 then raw_create_pte 0x10000 False True 3 else null_pt_entry)"
  "length small_directory = 1024" "length small_mapping = 1024"
  by (auto simp: small_directory_def small_mapping_def nth_list_update)

lemma small_arch_dir: "dir_of (small_arch p) small_space = small_directory" "map_of_space (small_arch p) small_space = small_mapping"
  by (simp_all add: dir_of_def map_of_space_def small_arch_def small_space_def)

lemma small_tables: "tables_ok {16..<19} small_directory small_mapping (ar_frames (small_arch p))"
  by (auto simp: tables_ok_def small_entries small_arch_def)

lemma small_arch_ok:
  assumes "pmm_rel 128 {16..<19} p"
  shows "space_ok 128 {16..<19} (small_arch p) small_space" "ar_spaces (small_arch p) 1 = Some small_space"
proof -
  show "ar_spaces (small_arch p) 1 = Some small_space" by (simp add: small_arch_def)
  have "space_live (small_arch p) small_space" "window_open (small_arch p)"
    by (simp_all add: space_live_def window_open_def small_arch_def small_space_def small_entries dir_of_def map_of_space_def)
  moreover have "master_synced (small_arch p) small_space"
    by (rule master_syncedI [of _ 10 small_directory 20 small_mapping]) (simp_all add: small_arch_dir, simp_all add: small_arch_def small_entries)
  moreover have "ar_pmm (small_arch p) = p" "get_pd_index (ar_virtual_addr (small_arch p)) = 768" by (simp_all add: small_arch_def pd_index_div)
  ultimately show "space_ok 128 {16..<19} (small_arch p) small_space"
    using assms small_tables [of p] by (auto simp: space_ok_def small_arch_dir)
qed

lemma small_range_ok: "range_ok (small_arch p) small_space default_config 0x1000 2"
proof -
  have "half_ok (small_arch p) small_space (of_nat m * PAGE_SIZE) \<and> space_view (small_arch p) small_space m = None" if "1 \<le> m \<and> m < 1 + 2" for m
  proof -
    have "m = 1 \<or> m = 2" using that by auto
    then show ?thesis
      by (auto simp: half_ok_def halves_split_def is_kernel_space_def small_arch_def pd_index_div PAGE_SIZE_def space_view_def view_def
          dir_of_def small_space_def small_entries)
  qed
  then show ?thesis by (simp add: range_ok_def default_config_def PAGE_TABLE_ARRAY_ADDR_def)
qed

lemma small_tables_there: "\<forall>m. 1 \<le> m \<and> m < 1 + 2 \<longrightarrow> pd_value (dir_of (small_arch p) small_space ! (m div 1024)) \<noteq> 0"
  by (simp add: small_arch_dir small_entries)

lemma small_halves: "\<forall>m. 1 \<le> m \<and> m < 1 + 2 \<longrightarrow> halves_split (small_arch p) (of_nat m * PAGE_SIZE)"
proof (intro allI impI)
  fix m :: nat assume "1 \<le> m \<and> m < 1 + 2"
  then have "m = 1 \<or> m = 2" by auto
  then show "halves_split (small_arch p) (of_nat m * PAGE_SIZE)"
    by (auto simp: halves_split_def is_kernel_space_def small_arch_def pd_index_div PAGE_SIZE_def)
qed

theorem arch_map_maps_range_witness:
  "\<exists>p a' U'. {16..<19} \<subseteq> U' \<and> arch_map (Some 1) 0x5000 0x1000 0x2000 default_config (small_arch p) = Some (Inr a') \<and>
     space_ok 128 U' a' small_space \<and> as_physical_for (Some 1) 0x2004 a' = Inr 0x6004"
proof -
  obtain p where p: "pmm_rel 128 {16..<19} p" using small_pmm by auto
  note ok = small_arch_ok [OF p]
  obtain a1 where a1: "arch_map (Some 1) 0x5000 0x1000 0x2000 default_config (small_arch p) = Some (Inr a1)"
    using arch_map_tables_there [OF ok(2,1) small_range_ok, where sz = "0x2000" and phys = "0x5000"] small_tables_there [of p] by auto
  obtain U' where "{16..<19} \<subseteq> U'" "space_ok 128 U' a1 small_space" and
      phys: "\<forall>off < 2 * 4096. as_physical_for (Some 1) (0x1000 + of_nat off) a1 = Inr (0x5000 + of_nat off)"
    using arch_map_maps_range [OF ok(2,1) small_range_ok _ _ a1] by auto
  moreover have "as_physical_for (Some 1) 0x2004 a1 = Inr 0x6004" using phys [rule_format, of "0x1004"] by simp
  ultimately show ?thesis using a1 by blast
qed

theorem arch_map_returns_witness:
  "\<exists>p a'. arch_map (Some 1) 0x5000 0x1000 0x2000 default_config (small_arch p) = Some (Inr a') \<and> space_ok 128 {16..<19} a' small_space"
proof -
  obtain p where p: "pmm_rel 128 {16..<19} p" using small_pmm by auto
  note ok = small_arch_ok [OF p]
  show ?thesis using arch_map_returns [OF ok(2,1) small_range_ok, where sz = "0x2000" and phys = "0x5000"] small_tables_there [of p] by auto
qed

theorem unmap_undoes_map_witness:
  "\<exists>p a1 a2. arch_map (Some 1) 0x5000 0x1000 0x2000 default_config (small_arch p) = Some (Inr a1) \<and>
     arch_unmap (Some 1) 0x1000 0x2000 a1 = Some (Inr a2) \<and> space_view a2 small_space 1 = None"
proof -
  obtain p where p: "pmm_rel 128 {16..<19} p" using small_pmm by auto
  note ok = small_arch_ok [OF p]
  obtain a1 a2 where a: "arch_map (Some 1) 0x5000 0x1000 0x2000 default_config (small_arch p) = Some (Inr a1)"
      "arch_unmap (Some 1) 0x1000 0x2000 a1 = Some (Inr a2)" "\<forall>m < 1023 * 1024. space_view a2 small_space m = space_view (small_arch p) small_space m"
    using unmap_undoes_map [OF ok(2,1) small_range_ok, where sz = "0x2000" and phys = "0x5000"] small_tables_there [of p] small_halves [of p]
    by fastforce
  have "space_view (small_arch p) small_space 1 = None" using small_range_ok [of p] by (simp add: range_ok_def)
  then show ?thesis using a by fastforce
qed

text \<open>The space of another process, made before the kernel got the page table at 768.\<close>

definition stale_space :: paging_space_t where
  "stale_space = \<lparr>ps_physical_pd_address = 0x14000, ps_page_directory = Some 11, ps_mapping_table = Some 21, ps_page_directory_version = 0\<rparr>"

definition stale_arch :: arch_t where
  "stale_arch = (small_arch full_pmm)\<lparr>ar_directories := [10 \<mapsto> small_directory, 11 \<mapsto> small_directory[768 := null_pd_entry]],
     ar_mappings := [20 \<mapsto> small_mapping, 21 \<mapsto> small_mapping[768 := null_pt_entry]]\<rparr>"

theorem stale_kernel_table_misread_witness:
  "map_page stale_space default_config 0xC0001000 (0x5000, stale_arch) = Some (Inl BadAccess)"
proof -
  have i: "get_pd_index 0xC0001000 = 768" by (simp add: pd_index_div)
  have w: "window_open stale_arch" by (simp add: window_open_def stale_arch_def small_arch_def small_space_def small_entries)
  have st: "ar_master_directory stale_arch = Some 10" "ar_directories stale_arch 10 = Some small_directory"
      "ar_directories stale_arch 11 = Some (small_directory[768 := null_pd_entry])" "ar_frames stale_arch 0 = None"
      "ar_mappings stale_arch 21 = Some (small_mapping[768 := null_pt_entry])" "is_kernel_space stale_arch 0xC0001000"
      "ps_page_directory stale_space = Some 11" "ps_mapping_table stale_space = Some 21"
    by (simp_all add: stale_arch_def small_arch_def stale_space_def is_kernel_space_def)
  from stale_kernel_table_misread [OF st(1,2,7,3,8,5) _ _ _ w st(6), of default_config "0x5000"] st(4) show ?thesis
    by (auto simp: i small_entries)
qed

end
