(* ===== verification/VMM.thy ===== *)
theory VMM
  imports PagingOps AVLSpec
begin

text \<open>
  \<open>memory/VirtualMemoryManager.cpp\<close>: the regions of the kernel half and of every address space, in AVL
  trees ordered by address, the search for free addresses, and the mapping and release of regions.
  The callbacks of the traversals get and return the state they capture by reference. A node of a tree is
  allocated by \<open>operator new\<close> at an address that the operations are given. The spin lock is free before and
  after every operation.
\<close>

section \<open>State\<close>

text \<open>
  A \<open>memory_space_t\<close> is known by its address: its \<open>paging_space\<close> is in \<open>ar_spaces\<close> and its
  \<open>userland_map\<close> in \<open>vm_userland_maps\<close>. The current one is that of the processor, \<open>ar_current\<close>.
\<close>

record vmm_t =
  vm_arch :: arch_t
  vm_userland_maps :: "addr \<rightharpoonup> memory_region_t avl"
  vm_kernel_memory_map :: "memory_region_t avl"

definition in_kernel_space :: "vmm_t \<Rightarrow> u32 \<Rightarrow> bool" where
  "in_kernel_space vm virt_address \<longleftrightarrow> ar_virtual_addr (vm_arch vm) \<le> virt_address"

text \<open>The tree a region belongs to, and replacing it.\<close>

definition region_tree :: "ptr \<Rightarrow> bool \<Rightarrow> vmm_t \<Rightarrow> memory_region_t avl kres" where
  "region_tree space kspace vm = (if kspace then Inr (vm_kernel_memory_map vm) else deref (vm_userland_maps vm) space)"

definition set_region_tree :: "ptr \<Rightarrow> bool \<Rightarrow> memory_region_t avl \<Rightarrow> vmm_t \<Rightarrow> vmm_t kres" where
  "set_region_tree space kspace t vm =
     (if kspace then Inr (vm\<lparr>vm_kernel_memory_map := t\<rparr>)
      else kbind (store (vm_userland_maps vm) space (\<lambda>_. t)) (\<lambda>m. Inr (vm\<lparr>vm_userland_maps := m\<rparr>)))"

section \<open>Traversals\<close>

definition unmapped_region :: "u32 \<Rightarrow> u32 \<Rightarrow> memory_region_t" where
  "unmapped_region start sz =
     \<lparr>mr_virt_address = start, mr_phys_address = 0, mr_size = sz, mr_mapped = False, mr_present = False, mr_allocated = False,
      mr_config = default_config\<rparr>"

text \<open>The state of the traversal: the last region, whether to continue, and the state of the caller's callback.\<close>

definition traversal_callback ::
  "bool \<Rightarrow> ('s \<Rightarrow> memory_region_t \<Rightarrow> bool \<times> 's) \<Rightarrow> memory_region_t \<times> bool \<times> 's \<Rightarrow> memory_region_t \<Rightarrow> bool \<times> memory_region_t \<times> bool \<times> 's" where
  "traversal_callback kspace callback st region =
     (case st of (last_region, do_continue, s) \<Rightarrow>
      let start = rg_end (virt_region last_region) + 1;
          limit = mr_virt_address region;
          (region, do_continue, s) =
            (if start \<noteq> limit
             then let (c, s) = callback s (unmapped_region start (limit - start))
                  in (region\<lparr>mr_config := (mr_config region)\<lparr>mc_userspace := \<not> kspace\<rparr>\<rparr>, c, s)
             else (region, do_continue, s))
      in if \<not> do_continue then (False, region, do_continue, s)
         else let (c, s) = callback s region in (c, region, c, s))"

definition traverse_all :: "ptr \<Rightarrow> bool \<Rightarrow> ('s \<Rightarrow> memory_region_t \<Rightarrow> bool \<times> 's) \<Rightarrow> vmm_t \<Rightarrow> 's \<Rightarrow> 's kres option" where
  "traverse_all space kspace callback vm s =
     (let low = (if kspace then ar_virtual_addr (vm_arch vm) else 0);
          limit = (if kspace then 0xFFFFFFFF else ar_virtual_addr (vm_arch vm))
      in obind (Some (region_tree space kspace vm)) (\<lambda>tree.
         obind (avl_traverse (traversal_callback kspace callback) tree (unmapped_region low 0, True, s)) (\<lambda>(last_region, do_continue, s).
         if \<not> do_continue then Some (Inr s)
         else let start = (if mr_mapped last_region then rg_end (virt_region last_region) + 1 else low);
                  region = unmapped_region start (limit - start)
              in Some (Inr (snd (callback s (region\<lparr>mr_config := (mr_config region)\<lparr>mc_userspace := \<not> kspace\<rparr>\<rparr>)))))))"

definition traverse_unmapped :: "ptr \<Rightarrow> bool \<Rightarrow> ('s \<Rightarrow> memory_region_t \<Rightarrow> bool \<times> 's) \<Rightarrow> vmm_t \<Rightarrow> 's \<Rightarrow> 's kres option" where
  "traverse_unmapped space kspace callback =
     traverse_all space kspace (\<lambda>s region. if \<not> mr_mapped region then callback s region else (True, s))"

definition traverse_mapped :: "ptr \<Rightarrow> bool \<Rightarrow> ('s \<Rightarrow> memory_region_t \<Rightarrow> bool \<times> 's) \<Rightarrow> vmm_t \<Rightarrow> 's \<Rightarrow> 's kres option" where
  "traverse_mapped space kspace callback =
     traverse_all space kspace (\<lambda>s region. if mr_mapped region then callback s region else (True, s))"

definition enumerate_regions :: "('s \<Rightarrow> memory_region_t \<Rightarrow> bool \<times> 's) \<Rightarrow> vmm_t \<Rightarrow> 's \<Rightarrow> 's kres option" where
  "enumerate_regions callback vm s =
     obind (Some (deref (vm_userland_maps vm) (ar_current (vm_arch vm)))) (\<lambda>tree.
     obind (avl_traverse callback tree s) (\<lambda>s. avl_traverse callback (vm_kernel_memory_map vm) s))"

section \<open>Searching\<close>

text \<open>The smallest gap that fits so far, and its size.\<close>

definition fit_callback :: "u32 \<Rightarrow> u32 \<times> region_t \<Rightarrow> memory_region_t \<Rightarrow> bool \<times> u32 \<times> region_t" where
  "fit_callback sz s mem_region =
     (case s of (min_size, min_region) \<Rightarrow>
      let region = virt_region mem_region
      in if rg_size region < min_size \<and> sz \<le> rg_size region
         then (rg_size region \<noteq> sz, rg_size region, region)
         else (True, min_size, min_region))"

definition find_free_region :: "ptr \<Rightarrow> u32 \<Rightarrow> bool \<Rightarrow> vmm_t \<Rightarrow> region_t kres option" where
  "find_free_region space sz kspace vm =
     obind (Some (kassert (0 < sz))) (\<lambda>_.
     obind (traverse_unmapped space kspace (fit_callback sz) vm (0xFFFFFFFF, \<lparr>rg_address = 0, rg_size = 0\<rparr>)) (\<lambda>(_, min_region).
     Some (if rg_size min_region = 0 then Inl KernelPanic else Inr min_region)))"

definition region_comparator :: "u32 \<Rightarrow> memory_region_t \<Rightarrow> int" where
  "region_comparator virtual_addr region =
     (if contains (virt_region region) virtual_addr then 0 else if mr_virt_address region < virtual_addr then -1 else 1)"

definition find_region :: "ptr \<Rightarrow> u32 \<Rightarrow> vmm_t \<Rightarrow> memory_region_t option kres option" where
  "find_region space virtual_addr vm =
     obind (Some (region_tree space (in_kernel_space vm virtual_addr) vm)) (\<lambda>tree. avl_find_by (region_comparator virtual_addr) tree)"

definition check_free :: "ptr \<Rightarrow> region_t \<Rightarrow> vmm_t \<Rightarrow> bool kres option" where
  "check_free space region vm =
     traverse_mapped space (in_kernel_space vm (rg_address region))
       (\<lambda>free mem_region. if overlaps (virt_region mem_region) region then (False, False) else (True, free)) vm True"

section \<open>Mapping and unmapping\<close>

definition vm_map :: "addr \<Rightarrow> ptr \<Rightarrow> u32 \<Rightarrow> u32 \<Rightarrow> u32 \<Rightarrow> mapping_config_t \<Rightarrow> vmm_t \<Rightarrow> (memory_region_t \<times> vmm_t) kres option" where
  "vm_map node space phys_address virt_address sz config vm =
     (let kspace = in_kernel_space vm virt_address;
          region = \<lparr>mr_virt_address = virt_address, mr_phys_address = phys_address, mr_size = sz, mr_mapped = True,
                    mr_present = True, mr_allocated = False, mr_config = config\<rparr>
      in obind (Some (region_tree space kspace vm)) (\<lambda>tree.
         obind (avl_insert mr_virt_address node region tree) (\<lambda>tree.
         obind (Some (set_region_tree space kspace tree vm)) (\<lambda>vm.
         obind (arch_map space phys_address virt_address sz config (vm_arch vm)) (\<lambda>a.
         Some (Inr (region, vm\<lparr>vm_arch := a\<rparr>)))))))"

definition vm_unmap :: "ptr \<Rightarrow> memory_region_t \<Rightarrow> vmm_t \<Rightarrow> vmm_t kres option" where
  "vm_unmap space region vm =
     (let kspace = in_kernel_space vm (mr_virt_address region)
      in obind (arch_unmap space (mr_virt_address region) (mr_size region) (vm_arch vm)) (\<lambda>a.
         obind (Some (region_tree space kspace (vm\<lparr>vm_arch := a\<rparr>))) (\<lambda>tree.
         obind (avl_remove mr_virt_address region tree) (\<lambda>(tree, _).
         Some (set_region_tree space kspace tree (vm\<lparr>vm_arch := a\<rparr>))))))"

definition take_physical :: "u32 \<Rightarrow> mapping_config_t \<Rightarrow> vmm_t \<Rightarrow> (u32 \<times> vmm_t) kres option" where
  "take_physical sz config vm =
     obind (pmm_alloc sz (rg_address (mc_bounds config)) (rg_end (mc_bounds config)) (mc_alignment config) (ar_pmm (vm_arch vm)))
       (\<lambda>(phys_addr, p). Some (Inr (phys_addr, vm\<lparr>vm_arch := (vm_arch vm)\<lparr>ar_pmm := p\<rparr>\<rparr>)))"

definition allocate_region :: "addr \<Rightarrow> u32 \<Rightarrow> mapping_config_t \<Rightarrow> vmm_t \<Rightarrow> (memory_region_t \<times> vmm_t) kres option" where
  "allocate_region node sz config vm =
     (let space = ar_current (vm_arch vm);
          sz = round_up_to_multiple sz PAGE_SIZE;
          kspace = (\<not> mc_userspace config)
      in obind (take_physical sz config vm) (\<lambda>(phys_addr, vm).
         obind (find_free_region space sz kspace vm) (\<lambda>region.
         vm_map node space phys_addr (rg_address region) sz config vm)))"

text \<open>A region of zeros is returned when the address is taken.\<close>

definition null_region :: memory_region_t where
  "null_region = unmapped_region 0 0"

definition allocate_region_at_for :: "addr \<Rightarrow> ptr \<Rightarrow> u32 \<Rightarrow> u32 \<Rightarrow> mapping_config_t \<Rightarrow> vmm_t \<Rightarrow> (memory_region_t \<times> vmm_t) kres option" where
  "allocate_region_at_for node space virt_addr sz config vm =
     (let address = round_down_to_multiple virt_addr PAGE_SIZE;
          sz = round_up_to_multiple (sz + (virt_addr - address)) PAGE_SIZE;
          virt_addr = address
      in obind (take_physical sz config vm) (\<lambda>(phys_addr, vm).
         obind (find_region space virt_addr vm) (\<lambda>found.
         if found \<noteq> None then Some (Inr (null_region, vm))
         else vm_map node space phys_addr virt_addr sz config vm)))"

definition allocate_region_at :: "addr \<Rightarrow> u32 \<Rightarrow> u32 \<Rightarrow> mapping_config_t \<Rightarrow> vmm_t \<Rightarrow> (memory_region_t \<times> vmm_t) kres option" where
  "allocate_region_at node virt_addr sz config vm = allocate_region_at_for node (ar_current (vm_arch vm)) virt_addr sz config vm"

definition map_region :: "addr \<Rightarrow> u32 \<Rightarrow> u32 \<Rightarrow> mapping_config_t \<Rightarrow> vmm_t \<Rightarrow> (memory_region_t \<times> vmm_t) kres option" where
  "map_region node phys_addr sz config vm =
     (let space = ar_current (vm_arch vm);
          address = round_down_to_multiple phys_addr PAGE_SIZE;
          sz = round_up_to_multiple (sz + (phys_addr - address)) PAGE_SIZE;
          phys_addr = address;
          kspace = (\<not> mc_userspace config)
      in obind (find_free_region space sz kspace vm) (\<lambda>region.
         vm_map node space phys_addr (rg_address region) sz config vm))"

definition map_region_at :: "addr \<Rightarrow> u32 \<Rightarrow> u32 \<Rightarrow> u32 \<Rightarrow> mapping_config_t \<Rightarrow> vmm_t \<Rightarrow> (memory_region_t \<times> vmm_t) kres option" where
  "map_region_at node phys_addr virt_addr sz config vm =
     (let space = ar_current (vm_arch vm);
          address = round_down_to_multiple virt_addr PAGE_SIZE;
          sz = round_up_to_multiple (sz + (virt_addr - address)) PAGE_SIZE;
          virt_addr = address
      in obind (find_region space virt_addr vm) (\<lambda>found.
         if found \<noteq> None then Some (Inr (null_region, vm))
         else vm_map node space phys_addr virt_addr sz config vm))"

definition vm_free_region :: "memory_region_t \<Rightarrow> vmm_t \<Rightarrow> vmm_t kres option" where
  "vm_free_region region vm =
     obind (Some (kassert (mr_mapped region))) (\<lambda>_.
     obind (vm_unmap (ar_current (vm_arch vm)) region vm) (\<lambda>vm. Some (
     if \<not> mr_allocated region then Inr vm
     else kbind (kassert (mr_present region)) (\<lambda>_.
          kbind (pmm_free (mr_phys_address region) (mr_size region) (ar_pmm (vm_arch vm))) (\<lambda>p.
          Inr (vm\<lparr>vm_arch := (vm_arch vm)\<lparr>ar_pmm := p\<rparr>\<rparr>))))))"

definition vm_free :: "u32 \<Rightarrow> vmm_t \<Rightarrow> vmm_t kres option" where
  "vm_free p vm =
     obind (find_region (ar_current (vm_arch vm)) p vm) (\<lambda>region.
     case region of None \<Rightarrow> Some (Inl AssertFail) | Some region \<Rightarrow> vm_free_region region vm)"

section \<open>Address spaces\<close>

text \<open>The regions of the kernel image and of the page tables, entered by \<open>init\<close>.\<close>

definition insert_kernel_regions :: "addr \<Rightarrow> addr \<Rightarrow> memory_region_t \<Rightarrow> memory_region_t \<Rightarrow> vmm_t \<Rightarrow> vmm_t kres option" where
  "insert_kernel_regions n1 n2 kernel_region mapping_region vm =
     obind (avl_insert mr_virt_address n1 kernel_region (vm_kernel_memory_map vm)) (\<lambda>t.
     obind (avl_insert mr_virt_address n2 mapping_region t) (\<lambda>t. Some (Inr (vm\<lparr>vm_kernel_memory_map := t\<rparr>))))"

text \<open>The new space is stored at an address the caller owns; \<open>pd\<close> and \<open>mt\<close> come from \<open>kcalloc\<close>.\<close>

definition vm_create_memory_space :: "addr \<Rightarrow> ptr \<Rightarrow> ptr \<Rightarrow> vmm_t \<Rightarrow> vmm_t kres" where
  "vm_create_memory_space space pd mt vm =
     kbind (create_memory_space pd mt (vm_arch vm)) (\<lambda>(ps, a).
     Inr (vm\<lparr>vm_arch := a\<lparr>ar_spaces := (ar_spaces a)(space \<mapsto> ps)\<rparr>, vm_userland_maps := (vm_userland_maps vm)(space \<mapsto> empty_avl)\<rparr>))"

definition free_current_userspace :: "vmm_t \<Rightarrow> vmm_t kres option" where
  "free_current_userspace vm =
     obind (Some (deref (vm_userland_maps vm) (ar_current (vm_arch vm)))) (\<lambda>tree.
     obind (avl_traverse (\<lambda>to_free region. (True, if mc_userspace (mr_config region) then to_free @ [region] else to_free)) tree []) (\<lambda>to_free.
     okfold vm_free_region to_free vm))"

definition load_memory_space :: "ptr \<Rightarrow> vmm_t \<Rightarrow> vmm_t kres" where
  "load_memory_space space vm =
     kbind (kassert (space \<noteq> None)) (\<lambda>_.
     kbind (deref (ar_spaces (vm_arch vm)) space) (\<lambda>ps.
     kbind (kassert (ps_page_directory ps \<noteq> None)) (\<lambda>_.
     kbind (kassert (ps_mapping_table ps \<noteq> None)) (\<lambda>_.
     Inr (vm\<lparr>vm_arch := (vm_arch vm)\<lparr>ar_current := space\<rparr>\<rparr>)))))"

end
