(* ===== verification/VMMSpec.thy ===== *)
theory VMMSpec
  imports VMM
begin

text \<open>The regions as sorted disjoint intervals and the gaps between them; what the searches return.\<close>

section \<open>Intervals\<close>

definition r_start :: "memory_region_t \<Rightarrow> nat" where
  "r_start r = unat (mr_virt_address r)"

definition r_stop :: "memory_region_t \<Rightarrow> nat" where
  "r_stop r = unat (mr_virt_address r) + unat (mr_size r)"

fun regions_from :: "nat \<Rightarrow> memory_region_t list \<Rightarrow> nat \<Rightarrow> bool" where
  "regions_from lo [] hi \<longleftrightarrow> lo \<le> hi"
| "regions_from lo (r # rs) hi \<longleftrightarrow> lo \<le> r_start r \<and> r_start r < r_stop r \<and> r_stop r \<le> 2 ^ 32 \<and> mr_mapped r \<and> regions_from (r_stop r) rs hi"

fun gaps :: "nat \<Rightarrow> memory_region_t list \<Rightarrow> nat \<Rightarrow> (nat \<times> nat) list" where
  "gaps lo [] hi = [(lo, hi - lo)]"
| "gaps lo (r # rs) hi = (if lo = r_start r then [] else [(lo, r_start r - lo)]) @ gaps (r_stop r) rs hi"

lemma regions_from_le: "regions_from lo rs hi \<Longrightarrow> lo \<le> hi"
  by (induction lo rs hi rule: regions_from.induct) auto

lemma regions_from_bounds: "regions_from lo rs hi \<Longrightarrow> r \<in> set rs \<Longrightarrow> lo \<le> r_start r \<and> r_start r < r_stop r \<and> r_stop r \<le> hi \<and> mr_mapped r"
proof (induction lo rs hi rule: regions_from.induct)
  case (2 lo x rs hi)
  then show ?case using regions_from_le by (cases "r = x") (fastforce intro: order_trans)+
qed simp

lemma regions_disjoint:
  "regions_from lo rs hi \<Longrightarrow> sorted_wrt (\<lambda>x y. r_stop x \<le> r_start y) rs"
  by (induction lo rs hi rule: regions_from.induct) (auto dest: regions_from_bounds)

lemma gap_bounds: "regions_from lo rs hi \<Longrightarrow> hi' \<le> hi \<Longrightarrow> g \<in> set (gaps lo rs hi') \<Longrightarrow> lo \<le> fst g \<and> (0 < snd g \<longrightarrow> fst g + snd g \<le> hi)"
proof (induction lo rs hi rule: regions_from.induct)
  case (2 lo x rs hi)
  have "r_start x \<le> hi" "r_stop x \<le> hi" using 2(2) regions_from_le [of "r_stop x" rs hi] by auto
  with 2 show ?case by (auto split: if_splits)
qed auto

lemma gap_disjoint:
  "regions_from lo rs hi \<Longrightarrow> hi' \<le> hi \<Longrightarrow> g \<in> set (gaps lo rs hi') \<Longrightarrow> 0 < snd g \<Longrightarrow> r \<in> set rs \<Longrightarrow>
     fst g + snd g \<le> r_start r \<or> r_stop r \<le> fst g"
proof (induction lo rs hi rule: regions_from.induct)
  case (2 lo x rs hi)
  note after = regions_from_bounds [of "r_stop x" rs hi] gap_bounds [of "r_stop x" rs hi hi' g]
  consider "g = (lo, r_start x - lo)" "lo \<noteq> r_start x" | "g \<in> set (gaps (r_stop x) rs hi')" using 2(4) by (auto split: if_splits)
  then show ?case
  proof cases
    case 1
    then show ?thesis using 2(2,6) after(1) [of r] by fastforce
  next
    case g: 2
    then show ?thesis using 2 after(2) by auto
  qed
qed simp

section \<open>The traversal\<close>

text \<open>What the callback is called on: the gaps and the regions, and at the end the last gap.\<close>

fun entries :: "bool \<Rightarrow> u32 \<Rightarrow> memory_region_t list \<Rightarrow> memory_region_t list" where
  "entries k start [] = []"
| "entries k start (r # rs) =
     (if start \<noteq> mr_virt_address r
      then [unmapped_region start (mr_virt_address r - start), r\<lparr>mr_config := (mr_config r)\<lparr>mc_userspace := \<not> k\<rparr>\<rparr>]
      else [r]) @ entries k (rg_end (virt_region r) + 1) rs"

definition next_start :: "memory_region_t list \<Rightarrow> u32 \<Rightarrow> u32" where
  "next_start rs low = (if rs = [] then low else rg_end (virt_region (last rs)) + 1)"

definition last_entry :: "bool \<Rightarrow> u32 \<Rightarrow> u32 \<Rightarrow> memory_region_t" where
  "last_entry k start limit = (unmapped_region start (limit - start))\<lparr>mr_config := default_config\<lparr>mc_userspace := \<not> k\<rparr>\<rparr>"

lemma virt_region_config [simp]: "virt_region (r\<lparr>mr_config := c\<rparr>) = virt_region r"
  by (simp add: virt_region_def)

lemma visit_traversal:
  "\<exists>l. visit (traversal_callback k cb) rs (last_region, True, s) =
     (let (c, s') = visit cb (entries k (rg_end (virt_region last_region) + 1) rs) s in (c, l, c, s')) \<and>
   (fst (visit cb (entries k (rg_end (virt_region last_region) + 1) rs) s) \<longrightarrow>
     (if rs = [] then l = last_region else virt_region l = virt_region (last rs) \<and> mr_mapped l = mr_mapped (last rs)))"
proof (induction rs arbitrary: last_region s)
  case (Cons r rs)
  define start where "start = rg_end (virt_region last_region) + 1"
  define r' where "r' = (if start \<noteq> mr_virt_address r then r\<lparr>mr_config := (mr_config r)\<lparr>mc_userspace := \<not> k\<rparr>\<rparr> else r)"
  have r': "virt_region r' = virt_region r" "mr_mapped r' = mr_mapped r" by (simp_all add: r'_def)
  obtain c1 s1 where cs: "(if start \<noteq> mr_virt_address r then cb s (unmapped_region start (mr_virt_address r - start)) else (True, s)) = (c1, s1)"
    by (cases "if start \<noteq> mr_virt_address r then cb s (unmapped_region start (mr_virt_address r - start)) else (True, s)") auto
  obtain c2 s2 where c2: "cb s1 r' = (c2, s2)" by (cases "cb s1 r'") auto
  have step: "traversal_callback k cb (last_region, True, s) r = (if c1 then (c2, r', c2, s2) else (False, r', False, s1))"
    using cs c2 by (auto simp: traversal_callback_def start_def r'_def Let_def split: if_splits)
  have vis: "visit cb (entries k start (r # rs)) s =
      (if c1 then if c2 then visit cb (entries k (rg_end (virt_region r) + 1) rs) s2 else (False, s2) else (False, s1))"
    using cs c2 by (auto simp: r'_def split: if_splits)
  obtain l where l: "visit (traversal_callback k cb) rs (r', True, s2) =
      (let (c, s') = visit cb (entries k (rg_end (virt_region r) + 1) rs) s2 in (c, l, c, s'))"
      "fst (visit cb (entries k (rg_end (virt_region r) + 1) rs) s2) \<longrightarrow>
        (if rs = [] then l = r' else virt_region l = virt_region (last rs) \<and> mr_mapped l = mr_mapped (last rs))"
    using Cons.IH [of r' s2] unfolding r' by blast
  show ?case unfolding start_def [symmetric] vis
  proof (cases "c1 \<and> c2")
    case True
    then show "\<exists>l. visit (traversal_callback k cb) (r # rs) (last_region, True, s) =
        (let (c, s') = if c1 then if c2 then visit cb (entries k (rg_end (virt_region r) + 1) rs) s2 else (False, s2) else (False, s1) in (c, l, c, s')) \<and>
      (fst (if c1 then if c2 then visit cb (entries k (rg_end (virt_region r) + 1) rs) s2 else (False, s2) else (False, s1)) \<longrightarrow>
        (if r # rs = [] then l = last_region else virt_region l = virt_region (last (r # rs)) \<and> mr_mapped l = mr_mapped (last (r # rs))))"
      using l step r' by (intro exI [of _ l]) auto
  next
    case False
    then show "\<exists>l. visit (traversal_callback k cb) (r # rs) (last_region, True, s) =
        (let (c, s') = if c1 then if c2 then visit cb (entries k (rg_end (virt_region r) + 1) rs) s2 else (False, s2) else (False, s1) in (c, l, c, s')) \<and>
      (fst (if c1 then if c2 then visit cb (entries k (rg_end (virt_region r) + 1) rs) s2 else (False, s2) else (False, s1)) \<longrightarrow>
        (if r # rs = [] then l = last_region else virt_region l = virt_region (last (r # rs)) \<and> mr_mapped l = mr_mapped (last (r # rs))))"
      using step by (intro exI [of _ r']) auto
  qed
qed simp

definition kspace_low :: "bool \<Rightarrow> vmm_t \<Rightarrow> u32" where
  "kspace_low k vm = (if k then ar_virtual_addr (vm_arch vm) else 0)"

definition kspace_limit :: "bool \<Rightarrow> vmm_t \<Rightarrow> u32" where
  "kspace_limit k vm = (if k then 0xFFFFFFFF else ar_virtual_addr (vm_arch vm))"

lemma contents_visit: "avl_contents key t xs \<Longrightarrow> avl_traverse cb t s = Some (Inr (snd (visit cb xs s)))"
  using traverse_refines by (auto simp: avl_contents_def)

lemma traverse_all_visits:
  assumes "region_tree space k vm = Inr t" "avl_contents mr_virt_address t rs" "\<forall>r\<in>set rs. mr_mapped r"
  shows "traverse_all space k cb vm s = Some (Inr (snd (visit cb
    (entries k (kspace_low k vm) rs @ [last_entry k (next_start rs (kspace_low k vm)) (kspace_limit k vm)]) s)))"
proof -
  let ?low = "kspace_low k vm"
  have low: "rg_end (virt_region (unmapped_region ?low 0)) + 1 = ?low" by (simp add: rg_end_def virt_region_def unmapped_region_def)
  obtain l where l: "visit (traversal_callback k cb) rs (unmapped_region ?low 0, True, s) =
      (let (c, s') = visit cb (entries k ?low rs) s in (c, l, c, s'))"
      "fst (visit cb (entries k ?low rs) s) \<longrightarrow>
        (if rs = [] then l = unmapped_region ?low 0 else virt_region l = virt_region (last rs) \<and> mr_mapped l = mr_mapped (last rs))"
    using visit_traversal [of k cb rs "unmapped_region ?low 0" s] unfolding low by blast
  obtain c s' where v: "visit cb (entries k ?low rs) s = (c, s')" by (cases "visit cb (entries k ?low rs) s") auto
  have start: "c \<Longrightarrow> (if mr_mapped l then rg_end (virt_region l) + 1 else ?low) = next_start rs ?low"
    using l(2) v assms(3) by (cases "rs = []") (auto simp: next_start_def unmapped_region_def)
  have run: "traverse_all space k cb vm s = (if \<not> c then Some (Inr s')
      else Some (Inr (snd (cb s' (last_entry k (if mr_mapped l then rg_end (virt_region l) + 1 else ?low) (kspace_limit k vm))))))"
    using l(1) v unfolding traverse_all_def kspace_low_def [symmetric] kspace_limit_def [symmetric]
    by (simp add: assms(1) contents_visit [OF assms(2)] last_entry_def unmapped_region_def Let_def)
  show ?thesis
  proof (cases c)
    case True
    then show ?thesis using run start v by (auto simp: visit_append)
  qed (use run v in \<open>simp add: visit_append\<close>)
qed

lemma visit_filter: "snd (visit (\<lambda>s x. if P x then cb s x else (True, s)) xs s) = snd (visit cb (filter P xs) s)"
  by (induction xs arbitrary: s) auto

text \<open>The gaps the traversal shows to the callback, as addresses.\<close>

definition gap_of :: "memory_region_t \<Rightarrow> nat \<times> nat" where
  "gap_of r = (unat (mr_virt_address r), unat (mr_size r))"

lemma next_word:
  assumes "r_stop r \<le> 2 ^ 32" "r_start r < r_stop r"
  shows "rg_end (virt_region r) + 1 = of_nat (r_stop r)"
proof -
  have "rg_end (virt_region r) + 1 = mr_virt_address r + mr_size r" by (simp add: rg_end_def virt_region_def)
  then show ?thesis by (simp add: r_stop_def)
qed

lemma gap_of_unmapped:
  assumes "lo < r_start r"
  shows "gap_of (unmapped_region (of_nat lo) (mr_virt_address r - of_nat lo)) = (lo, r_start r - lo)"
proof -
  have "lo < 2 ^ 32" using assms unat_bound [of "mr_virt_address r"] by (simp add: r_start_def)
  then have lo: "unat (of_nat lo :: u32) = lo" by (simp add: unsigned_of_nat take_bit_nat_eq_self)
  then show ?thesis using assms by (simp add: gap_of_def unmapped_region_def r_start_def unat_sub word_le_nat_alt)
qed

lemma of_nat_eq_start:
  assumes "lo \<le> r_start r"
  shows "of_nat lo = mr_virt_address r \<longleftrightarrow> lo = r_start r"
proof -
  have "lo < 2 ^ 32" using assms unat_bound [of "mr_virt_address r"] by (simp add: r_start_def)
  then have "unat (of_nat lo :: u32) = lo" by (simp add: unsigned_of_nat take_bit_nat_eq_self)
  then show ?thesis by (auto simp: r_start_def)
qed

lemma gaps_ne [simp]: "gaps lo rs hi \<noteq> []"
  by (induction lo rs hi rule: gaps.induct) auto

lemma last_gaps: "last (gaps lo rs hi) = (if rs = [] then lo else r_stop (last rs), hi - (if rs = [] then lo else r_stop (last rs)))"
  by (induction lo rs hi rule: gaps.induct) auto

lemma entries_gaps:
  assumes "regions_from lo rs hi"
  shows "map gap_of (filter (\<lambda>r. \<not> mr_mapped r) (entries k (of_nat lo) rs)) @ [(if rs = [] then lo else r_stop (last rs), x)] =
    butlast (gaps lo rs y) @ [(fst (last (gaps lo rs y)), x)]"
  using assms
proof (induction lo rs hi rule: regions_from.induct)
  case (2 lo r rs hi)
  have m: "mr_mapped r" "lo \<le> r_start r" "regions_from (r_stop r) rs hi" "r_stop r \<le> 2 ^ 32" "r_start r < r_stop r" using 2(2) by auto
  have IH: "map gap_of (filter (\<lambda>r. \<not> mr_mapped r) (entries k (of_nat (r_stop r)) rs)) @ [(if rs = [] then r_stop r else r_stop (last rs), x)] =
      butlast (gaps (r_stop r) rs y) @ [(fst (last (gaps (r_stop r) rs y)), x)]" using 2(1) m(3) by blast
  have "gap_of (unmapped_region (of_nat lo) (mr_virt_address r - of_nat lo)) = (lo, r_start r - lo)" if "lo \<noteq> r_start r"
    using gap_of_unmapped m(2) that by simp
  moreover have "\<not> mr_mapped (unmapped_region b c)" for b c by (simp add: unmapped_region_def)
  ultimately show ?case
    using IH m(1) of_nat_eq_start [OF m(2)] by (auto simp: next_word [OF m(4,5)] butlast_append)
qed simp

lemma regions_from_last: "regions_from lo rs hi \<Longrightarrow> (if rs = [] then lo else r_stop (last rs)) \<le> hi"
  by (induction lo rs hi rule: regions_from.induct) (auto split: if_splits)

lemma next_start_last:
  assumes "regions_from lo rs hi" "rs \<noteq> [] \<longrightarrow> r_stop (last rs) \<le> 2 ^ 32"
  shows "next_start rs (of_nat lo) = of_nat (if rs = [] then lo else r_stop (last rs))"
proof (cases "rs = []")
  case False
  then have "r_start (last rs) < r_stop (last rs)" using regions_from_bounds [OF assms(1), of "last rs"] by simp
  then show ?thesis using next_word [of "last rs"] assms(2) False by (simp add: next_start_def)
qed (simp add: next_start_def)

text \<open>The smallest gap that fits.\<close>

lemma fit_visit:
  assumes "snd (visit (fit_callback sz) gs (m, R)) = (m', R')"
  shows "(m' = m \<and> R' = R \<and> (\<forall>g\<in>set gs. sz \<le> mr_size g \<longrightarrow> m \<le> mr_size g)) \<or>
    (\<exists>g\<in>set gs. R' = virt_region g \<and> m' = mr_size g \<and> sz \<le> mr_size g \<and> mr_size g < m \<and> (\<forall>h\<in>set gs. sz \<le> mr_size h \<longrightarrow> mr_size g \<le> mr_size h))"
  using assms
proof (induction gs arbitrary: m R)
  case (Cons g gs)
  have step: "fit_callback sz (m, R) g = (if mr_size g < m \<and> sz \<le> mr_size g then (mr_size g \<noteq> sz, mr_size g, virt_region g) else (True, m, R))"
    by (simp add: fit_callback_def virt_region_def Let_def)
  consider (skip) "\<not> (mr_size g < m \<and> sz \<le> mr_size g)" | (exact) "mr_size g < m" "mr_size g = sz" | (better) "mr_size g < m" "sz < mr_size g"
    by fastforce
  then show ?case
  proof cases
    case skip
    then have "snd (visit (fit_callback sz) gs (m, R)) = (m', R')" using Cons.prems by (auto simp: step)
    from Cons.IH [OF this] show ?thesis using skip by (auto simp: not_less intro: order.strict_implies_order)
  next
    case exact
    then have "m' = mr_size g \<and> R' = virt_region g" using Cons.prems by (simp add: step)
    then show ?thesis using exact by auto
  next
    case better
    then have "sz \<le> mr_size g" "mr_size g \<noteq> sz" by auto
    then have "snd (visit (fit_callback sz) gs (mr_size g, virt_region g)) = (m', R')" using Cons.prems better(1) by (simp add: step)
    from Cons.IH [OF this] show ?thesis
    proof (elim disjE conjE bexE)
      assume "m' = mr_size g" "R' = virt_region g" "\<forall>h\<in>set gs. sz \<le> mr_size h \<longrightarrow> mr_size g \<le> mr_size h"
      then show ?thesis using better by auto
    next
      fix h assume "h \<in> set gs" "R' = virt_region h" "m' = mr_size h" "sz \<le> mr_size h" "mr_size h < mr_size g"
        "\<forall>k\<in>set gs. sz \<le> mr_size k \<longrightarrow> mr_size h \<le> mr_size k"
      then show ?thesis using better by (intro disjI2 bexI [of _ h]) auto
    qed
  qed
qed simp

text \<open>The gaps as the traversal shows them and as intervals have the same sizes below the largest number.\<close>

lemma shown_gaps:
  assumes "regions_from (unat (kspace_low k vm)) rs (if k then 2 ^ 32 else unat (ar_virtual_addr (vm_arch vm)))"
    and va: "1 < ar_virtual_addr (vm_arch vm)" "ar_virtual_addr (vm_arch vm) < 0xFFFFFFFF"
  defines "G \<equiv> filter (\<lambda>r. \<not> mr_mapped r) (entries k (kspace_low k vm) rs @ [last_entry k (next_start rs (kspace_low k vm)) (kspace_limit k vm)])"
    and "S \<equiv> gaps (unat (kspace_low k vm)) rs (unat (kspace_limit k vm))"
  shows "g \<in> set G \<Longrightarrow> mr_size g \<noteq> 0xFFFFFFFF \<Longrightarrow> gap_of g \<in> set S"
    and "h \<in> set S \<Longrightarrow> 0 < snd h \<Longrightarrow> h \<in> gap_of ` set G \<and> snd h < 0xFFFFFFFF"
proof -
  let ?lo = "unat (kspace_low k vm)" let ?hi = "if k then 2 ^ 32 else unat (ar_virtual_addr (vm_arch vm))" let ?lim = "unat (kspace_limit k vm)"
  let ?E = "last_entry k (next_start rs (kspace_low k vm)) (kspace_limit k vm)"
  define L where "L = (if rs = [] then ?lo else r_stop (last rs))"
  have L: "L \<le> ?hi" using regions_from_last [OF assms(1)] by (simp add: L_def)
  have hi: "?hi \<le> 2 ^ 32" "?lim \<le> ?hi" using unat_bound [of "ar_virtual_addr (vm_arch vm)"] by (auto simp: kspace_limit_def)
  have ns: "next_start rs (kspace_low k vm) = of_nat L"
    using next_start_last [OF assms(1)] L hi(1) by (auto simp: L_def split: if_splits)
  have E: "?E = (unmapped_region (of_nat L) (kspace_limit k vm - of_nat L))\<lparr>mr_config := default_config\<lparr>mc_userspace := \<not> k\<rparr>\<rparr>"
    by (simp add: last_entry_def ns)
  have G: "G = filter (\<lambda>r. \<not> mr_mapped r) (entries k (kspace_low k vm) rs) @ [?E]"
    by (simp add: G_def E unmapped_region_def)
  have gapE: "gap_of ?E = (if L \<le> ?lim then (L, ?lim - L) else (0, 0xFFFFFFFF))"
  proof (cases "L \<le> ?lim")
    case True
    then have "unat (of_nat L :: u32) = L" using unat_bound [of "kspace_limit k vm"] by (simp add: unsigned_of_nat take_bit_nat_eq_self)
    then show ?thesis using True by (simp add: E gap_of_def unmapped_region_def unat_sub word_le_nat_alt)
  next
    case False
    then have "k \<and> L = 2 ^ 32" using L by (auto simp: kspace_limit_def split: if_splits)
    then show ?thesis unfolding E by (simp add: gap_of_def unmapped_region_def kspace_limit_def unsigned_minus_1_eq_mask mask_eq_exp_minus_1)
  qed
  have "map gap_of (filter (\<lambda>r. \<not> mr_mapped r) (entries k (kspace_low k vm) rs)) @ [gap_of ?E] = butlast S @ [gap_of ?E]"
    using entries_gaps [OF assms(1), of k "snd (gap_of ?E)" ?lim] by (simp add: S_def)
  then have "set (map gap_of (filter (\<lambda>r. \<not> mr_mapped r) (entries k (kspace_low k vm) rs))) = set (butlast S)" by simp
  then have eq: "gap_of ` set G = set (butlast S) \<union> {gap_of ?E}" unfolding G set_append image_Un set_map by simp
  have S: "set S = set (butlast S) \<union> {(L, ?lim - L)}"
  proof -
    have l: "last S = (L, ?lim - L)" unfolding S_def last_gaps L_def by simp
    have "butlast S @ [last S] = S" by (rule append_butlast_last_id) (simp add: S_def)
    from arg_cong [OF this, of set] show ?thesis unfolding l by simp
  qed
  show "gap_of g \<in> set S" if "g \<in> set G" "mr_size g \<noteq> 0xFFFFFFFF"
  proof -
    have "unat (mr_size g) \<noteq> unat (0xFFFFFFFF :: u32)" using that(2) by (simp only: word_unat_eq_iff [symmetric] not_False_eq_True)
    then have big: "snd (gap_of g) \<noteq> 0xFFFFFFFF" by (simp add: gap_of_def)
    have "gap_of g \<in> set (butlast S) \<or> gap_of g = gap_of ?E" using that(1) eq by blast
    then show ?thesis using big unfolding S gapE by (auto split: if_splits)
  qed
  show "h \<in> gap_of ` set G \<and> snd h < 0xFFFFFFFF" if h: "h \<in> set S" "0 < snd h"
  proof
    show "h \<in> gap_of ` set G" using h unfolding eq gapE S by auto
    have "?lo \<le> fst h" "fst h + snd h \<le> ?hi" using gap_bounds [OF assms(1) hi(2)] h by (auto simp: S_def)
    then show "snd h < 0xFFFFFFFF" using va by (auto simp: kspace_low_def word_less_nat_alt split: if_splits)
  qed
qed

section \<open>What the searches return\<close>

definition regions_ok :: "bool \<Rightarrow> vmm_t \<Rightarrow> memory_region_t list \<Rightarrow> bool" where
  "regions_ok k vm rs \<longleftrightarrow> regions_from (unat (kspace_low k vm)) rs (if k then 2 ^ 32 else unat (ar_virtual_addr (vm_arch vm))) \<and>
     1 < ar_virtual_addr (vm_arch vm) \<and> ar_virtual_addr (vm_arch vm) < 0xFFFFFFFF"

abbreviation free_gaps :: "bool \<Rightarrow> vmm_t \<Rightarrow> memory_region_t list \<Rightarrow> (nat \<times> nat) list" where
  "free_gaps k vm rs \<equiv> gaps (unat (kspace_low k vm)) rs (unat (kspace_limit k vm))"

lemma free_gap_disjoint:
  assumes "regions_ok k vm rs" "g \<in> set (free_gaps k vm rs)" "0 < snd g" "r \<in> set rs"
  shows "fst g + snd g \<le> r_start r \<or> r_stop r \<le> fst g"
  using assms by (intro gap_disjoint [of "unat (kspace_low k vm)" rs "if k then 2 ^ 32 else unat (ar_virtual_addr (vm_arch vm))" "unat (kspace_limit k vm)"])
    (auto simp: regions_ok_def kspace_limit_def)

lemma find_free_region_gap:
  assumes "region_tree space k vm = Inr t" "avl_contents mr_virt_address t rs" "regions_ok k vm rs" "0 < sz"
  shows "\<exists>q. find_free_region space sz k vm = Some q \<and>
    (case q of Inl e \<Rightarrow> e = KernelPanic \<and> (\<forall>g\<in>set (free_gaps k vm rs). snd g < unat sz)
     | Inr r \<Rightarrow> (unat (rg_address r), unat (rg_size r)) \<in> set (free_gaps k vm rs) \<and> sz \<le> rg_size r \<and>
         (\<forall>g\<in>set (free_gaps k vm rs). unat sz \<le> snd g \<longrightarrow> unat (rg_size r) \<le> snd g))"
proof -
  let ?null = "\<lparr>rg_address = 0, rg_size = 0\<rparr> :: region_t"
  define G where "G = filter (\<lambda>r. \<not> mr_mapped r) (entries k (kspace_low k vm) rs @ [last_entry k (next_start rs (kspace_low k vm)) (kspace_limit k vm)])"
  have mapped: "\<forall>r\<in>set rs. mr_mapped r" using assms(3) regions_from_bounds by (auto simp: regions_ok_def)
  have ok: "regions_from (unat (kspace_low k vm)) rs (if k then 2 ^ 32 else unat (ar_virtual_addr (vm_arch vm)))"
      "1 < ar_virtual_addr (vm_arch vm)" "ar_virtual_addr (vm_arch vm) < 0xFFFFFFFF" using assms(3) by (simp_all add: regions_ok_def)
  note shown = shown_gaps [OF ok, folded G_def]
  obtain m R where fit: "snd (visit (fit_callback sz) G (0xFFFFFFFF, ?null)) = (m, R)" by (cases "snd (visit (fit_callback sz) G (0xFFFFFFFF, ?null))") auto
  then have run: "find_free_region space sz k vm = Some (if rg_size R = 0 then Inl KernelPanic else Inr R)"
    using assms(4) by (simp add: find_free_region_def traverse_unmapped_def traverse_all_visits [OF assms(1,2) mapped] visit_filter G_def)
  from fit_visit [OF fit] show ?thesis
  proof (elim disjE conjE bexE)
    assume none: "R = ?null" "\<forall>g\<in>set G. sz \<le> mr_size g \<longrightarrow> 0xFFFFFFFF \<le> mr_size g"
    have "snd g < unat sz" if g: "g \<in> set (free_gaps k vm rs)" for g
    proof (rule ccontr)
      assume "\<not> snd g < unat sz"
      moreover have "0 < unat sz" using assms(4) by (simp add: word_less_nat_alt)
      ultimately obtain x where x: "x \<in> set G" "snd g = unat (mr_size x)" "snd g < 0xFFFFFFFF" "sz \<le> mr_size x"
        using shown(2) [OF g] by (auto simp: gap_of_def word_le_nat_alt)
      then show False using none(2) by (auto simp: word_le_nat_alt)
    qed
    then show ?thesis using run none(1) by simp
  next
    fix x assume x: "x \<in> set G" "R = virt_region x" "sz \<le> mr_size x" "mr_size x < 0xFFFFFFFF" "\<forall>h\<in>set G. sz \<le> mr_size h \<longrightarrow> mr_size x \<le> mr_size h"
    have "gap_of x \<in> set (free_gaps k vm rs)" using shown(1) [OF x(1)] x(4) by auto
    moreover have "unat (mr_size x) \<le> snd g" if g: "g \<in> set (free_gaps k vm rs)" "unat sz \<le> snd g" for g
    proof -
      have "0 < snd g" using g(2) assms(4) by (auto simp: word_less_nat_alt)
      then obtain y where "y \<in> set G" "snd g = unat (mr_size y)" "sz \<le> mr_size y"
        using shown(2) [OF g(1)] g(2) by (auto simp: gap_of_def word_le_nat_alt)
      then show ?thesis using x(5) by (auto simp: word_le_nat_alt)
    qed
    moreover have "mr_size x \<noteq> 0" using x(3) assms(4) by auto
    ultimately show ?thesis using run x(2,3) by (auto simp: virt_region_def gap_of_def)
  qed
qed

text \<open>
  C12. \<open>find_free_region\<close> returns a smallest gap between the mapped regions that is large enough, which no mapped region overlaps, and panics
  only when every gap is too small.
\<close>

theorem find_free_region_best_fit:
  assumes "region_tree space k vm = Inr t" "avl_contents mr_virt_address t rs" "regions_ok k vm rs" "0 < sz"
  shows "\<exists>q. find_free_region space sz k vm = Some q \<and>
    (case q of Inl e \<Rightarrow> e = KernelPanic \<and> (\<forall>g\<in>set (free_gaps k vm rs). snd g < unat sz)
     | Inr r \<Rightarrow> (unat (rg_address r), unat (rg_size r)) \<in> set (free_gaps k vm rs) \<and> sz \<le> rg_size r \<and>
         (\<forall>g\<in>set (free_gaps k vm rs). unat sz \<le> snd g \<longrightarrow> unat (rg_size r) \<le> snd g) \<and>
         (\<forall>x\<in>set rs. unat (rg_address r) + unat (rg_size r) \<le> r_start x \<or> r_stop x \<le> unat (rg_address r)))"
proof -
  from find_free_region_gap [OF assms] obtain q where q: "find_free_region space sz k vm = Some q"
    "case q of Inl e \<Rightarrow> e = KernelPanic \<and> (\<forall>g\<in>set (free_gaps k vm rs). snd g < unat sz)
     | Inr r \<Rightarrow> (unat (rg_address r), unat (rg_size r)) \<in> set (free_gaps k vm rs) \<and> sz \<le> rg_size r \<and>
         (\<forall>g\<in>set (free_gaps k vm rs). unat sz \<le> snd g \<longrightarrow> unat (rg_size r) \<le> snd g)" by blast
  have "unat (rg_address r) + unat (rg_size r) \<le> r_start x \<or> r_stop x \<le> unat (rg_address r)"
    if "(unat (rg_address r), unat (rg_size r)) \<in> set (free_gaps k vm rs)" "sz \<le> rg_size r" "x \<in> set rs" for r x
    using free_gap_disjoint [OF assms(3) that(1) _ that(3)] that(2) assms(4) by (auto simp: word_le_nat_alt word_less_nat_alt)
  then show ?thesis using q by (auto split: sum.splits)
qed

lemma contains_interval:
  assumes "r_start r < r_stop r" "r_stop r \<le> 2 ^ 32"
  shows "contains (virt_region r) v \<longleftrightarrow> r_start r \<le> unat v \<and> unat v < r_stop r"
proof -
  have "unat (rg_end (virt_region r)) = r_stop r - 1"
  proof -
    have "rg_end (virt_region r) = mr_virt_address r + (mr_size r - 1)" by (simp add: rg_end_def virt_region_def)
    moreover have "unat (mr_size r - 1) = unat (mr_size r) - 1"
      using assms(1) by (subst unat_sub) (auto simp: r_start_def r_stop_def word_le_nat_alt)
    moreover have "unat (mr_virt_address r + (mr_size r - 1)) = unat (mr_virt_address r) + unat (mr_size r - 1)"
      using assms calculation(2) by (intro unat_add_small) (simp add: r_start_def r_stop_def)
    ultimately show ?thesis using assms(1) by (simp add: r_start_def r_stop_def)
  qed
  then show ?thesis using assms(1) by (auto simp: contains_def virt_region_def word_le_nat_alt r_start_def)
qed

lemma comparator_sign:
  assumes "r_start r < r_stop r" "r_stop r \<le> 2 ^ 32"
  shows "region_comparator v r = (if unat v < r_start r then 1 else if unat v < r_stop r then 0 else -1)"
  using contains_interval [OF assms, of v] assms(1) by (auto simp: region_comparator_def word_less_nat_alt r_start_def)

lemma comparator_fits:
  assumes "regions_from lo rs hi" "\<forall>r\<in>set rs. r_stop r \<le> 2 ^ 32"
  shows "fits (region_comparator v) rs"
proof -
  have "\<forall>r\<in>set rs. r_start r < r_stop r" using regions_from_bounds [OF assms(1)] by blast
  then show ?thesis unfolding fits_def
    by (intro sorted_wrt_mono_rel [OF _ regions_disjoint [OF assms(1)]]) (use assms(2) in \<open>auto simp: comparator_sign\<close>)
qed

lemma regions_stop: "regions_from lo rs hi \<Longrightarrow> \<forall>r\<in>set rs. r_stop r \<le> 2 ^ 32"
  by (induction lo rs hi rule: regions_from.induct) auto

text \<open>At most one region contains an address.\<close>

lemma find_disjoint:
  assumes "sorted_wrt (\<lambda>x y. r_stop x \<le> r_start y) rs" "r \<in> set rs" "r_start r \<le> n" "n < r_stop r" "\<forall>r\<in>set rs. r_start r < r_stop r"
  shows "List.find (\<lambda>r. r_start r \<le> n \<and> n < r_stop r) rs = Some r"
  using assms
proof (induction rs)
  case (Cons x rs)
  then show ?case by (cases "x = r") fastforce+
qed simp

text \<open>
  C24. \<open>find_region\<close> returns the one region that contains the address, and nothing when there is none.
\<close>

theorem find_region_correct:
  assumes "region_tree space (in_kernel_space vm v) vm = Inr t" "avl_contents mr_virt_address t rs" "regions_ok (in_kernel_space vm v) vm rs"
  shows "find_region space v vm = Some (Inr (List.find (\<lambda>r. r_start r \<le> unat v \<and> unat v < r_stop r) rs))"
proof -
  obtain lo hi where fr: "regions_from lo rs hi" using assms(3) by (auto simp: regions_ok_def)
  note stop = regions_stop [OF fr]
  have len: "\<forall>r\<in>set rs. r_start r < r_stop r" using regions_from_bounds [OF fr] by blast
  obtain T where T: "holds mr_virt_address t T" "elems T = rs" using assms(2) by (auto simp: avl_contents_def)
  obtain q where q: "avl_find_by (region_comparator v) t = Some (Inr q)"
      "case q of None \<Rightarrow> \<forall>x\<in>set rs. region_comparator v x \<noteq> 0 | Some r \<Rightarrow> r \<in> set rs \<and> region_comparator v r = 0"
    using find_by_refines [OF T(1), of "region_comparator v"] comparator_fits [OF fr stop] T(2) by auto
  have "q = List.find (\<lambda>r. r_start r \<le> unat v \<and> unat v < r_stop r) rs"
  proof (cases q)
    case None
    then have "\<forall>x\<in>set rs. \<not> (r_start x \<le> unat v \<and> unat v < r_stop x)" using q(2) len stop by (auto simp: comparator_sign split: if_splits)
    then show ?thesis using None by (simp add: find_None_iff2)
  next
    case (Some r)
    then have "r \<in> set rs" "r_start r \<le> unat v" "unat v < r_stop r" using q(2) len stop by (auto simp: comparator_sign split: if_splits)
    from find_disjoint [OF regions_disjoint [OF fr] this len] show ?thesis using Some by simp
  qed
  then show ?thesis using q(1) assms(1) by (simp add: find_region_def)
qed

section \<open>A small kernel half\<close>

text \<open>The regions of the kernel image (1 MiB at 0xC0100000) and of the page tables.\<close>

definition kernel_image :: memory_region_t where
  "kernel_image = (unmapped_region 0xC0100000 0x100000)\<lparr>mr_mapped := True\<rparr>"

definition small_tree :: "memory_region_t avl" where
  "small_tree = tree_at (Nd Lf 1 kernel_image 2 (Nd Lf 2 get_mapping_region 1 Lf))"

definition small_vm :: "arch_t \<Rightarrow> vmm_t" where
  "small_vm a = \<lparr>vm_arch = a, vm_userland_maps = [1 \<mapsto> empty_avl], vm_kernel_memory_map = small_tree\<rparr>"

lemma small_tree_contents: "avl_contents mr_virt_address small_tree [kernel_image, get_mapping_region]" "nodes small_tree 3 = None"
proof -
  let ?T = "Nd Lf 1 kernel_image 2 (Nd Lf 2 get_mapping_region 1 Lf)"
  have "holds mr_virt_address small_tree ?T" unfolding small_tree_def
    by (rule holds_tree_at) (simp_all add: bst_def kernel_image_def get_mapping_region_def unmapped_region_def PAGE_TABLE_ARRAY_ADDR_def)
  then show "avl_contents mr_virt_address small_tree [kernel_image, get_mapping_region]" by (force simp: avl_contents_def)
  show "nodes small_tree 3 = None" by (simp add: small_tree_def tree_at_def lay_out_None)
qed

lemma small_regions:
  "r_start kernel_image = 0xC0100000" "r_stop kernel_image = 0xC0200000" "r_start get_mapping_region = 0xFFC00000" "r_stop get_mapping_region = 0x100000000"
  "mr_mapped kernel_image" "mr_mapped get_mapping_region"
  by (simp_all add: r_start_def r_stop_def kernel_image_def get_mapping_region_def unmapped_region_def PAGE_TABLE_ARRAY_ADDR_def)

lemma small_regions_ok: "ar_virtual_addr a = 0xC0000000 \<Longrightarrow> regions_ok True (small_vm a) [kernel_image, get_mapping_region]"
  by (simp add: regions_ok_def kspace_low_def small_vm_def small_regions)

theorem find_free_region_best_fit_witness:
  "\<exists>r. find_free_region None 0x2000 True (small_vm (small_arch full_pmm)) = Some (Inr r) \<and> unat (rg_address r) = 0xC0000000 \<and> unat (rg_size r) = 0x100000"
proof -
  let ?vm = "small_vm (small_arch full_pmm)"
  have va: "ar_virtual_addr (small_arch full_pmm) = 0xC0000000" by (simp add: small_arch_def)
  have gaps: "free_gaps True ?vm [kernel_image, get_mapping_region] = [(0xC0000000, 0x100000), (0xC0200000, 0x3FA00000), (0x100000000, 0)]"
    by (simp add: kspace_low_def kspace_limit_def small_vm_def va small_regions)
  have t: "region_tree None True ?vm = Inr small_tree" "0 < (0x2000 :: u32)" by (simp_all add: region_tree_def small_vm_def)
  from find_free_region_best_fit [OF t(1) small_tree_contents(1) small_regions_ok [OF va] t(2), unfolded gaps]
  show ?thesis
  proof (elim exE conjE)
    fix q assume q: "find_free_region None 0x2000 True ?vm = Some q"
      "case q of Inl e \<Rightarrow> e = KernelPanic \<and> (\<forall>g\<in>set [(0xC0000000, 0x100000), (0xC0200000, 0x3FA00000), (0x100000000, 0)]. snd g < unat (0x2000 :: u32))
       | Inr r \<Rightarrow> (unat (rg_address r), unat (rg_size r)) \<in> set [(0xC0000000, 0x100000), (0xC0200000, 0x3FA00000), (0x100000000, 0)] \<and> 0x2000 \<le> rg_size r \<and>
         (\<forall>g\<in>set [(0xC0000000, 0x100000), (0xC0200000, 0x3FA00000), (0x100000000, 0)]. unat (0x2000 :: u32) \<le> snd g \<longrightarrow> unat (rg_size r) \<le> snd g) \<and>
         (\<forall>x\<in>set [kernel_image, get_mapping_region]. unat (rg_address r) + unat (rg_size r) \<le> r_start x \<or> r_stop x \<le> unat (rg_address r))"
    then show ?thesis by (cases q) (auto simp: word_le_nat_alt)
  qed
qed

theorem find_region_correct_witness:
  "find_region None 0xC0100004 (small_vm (small_arch full_pmm)) = Some (Inr (Some kernel_image)) \<and>
   find_region None 0xC0200000 (small_vm (small_arch full_pmm)) = Some (Inr None)"
proof -
  let ?vm = "small_vm (small_arch full_pmm)"
  have va: "ar_virtual_addr (small_arch full_pmm) = 0xC0000000" by (simp add: small_arch_def)
  have k: "in_kernel_space ?vm 0xC0100004 = True" "in_kernel_space ?vm 0xC0200000 = True" by (simp_all add: in_kernel_space_def small_vm_def va)
  have t: "region_tree None True ?vm = Inr small_tree" by (simp add: region_tree_def small_vm_def)
  note r = small_tree_contents(1) small_regions_ok [OF va]
  have "find_region None 0xC0100004 ?vm = Some (Inr (Some kernel_image))"
    using find_region_correct [of None ?vm "0xC0100004" small_tree] t r unfolding k by (simp add: small_regions)
  moreover have "find_region None 0xC0200000 ?vm = Some (Inr None)"
    using find_region_correct [of None ?vm "0xC0200000" small_tree] t r unfolding k by (simp add: small_regions)
  ultimately show ?thesis ..
qed

end
