(* ===== verification/VMMOps.thy ===== *)
theory VMMOps
  imports VMMSpec
begin

text \<open>
  Allocation in the kernel half: the page allocator, the tree of regions and the page tables together.
\<close>

section \<open>What mapping keeps\<close>

lemma create_pde_current: "create_pde i ms u w pat a = Some (Inr (e, a')) \<Longrightarrow> ar_current a' = ar_current a"
  by (auto simp: create_pde_def obind_Some_iff kbind_Inr_iff set_mapping_entry_def)

lemma ensure_table_current: "ensure_table ms config v a = Some (Inr a') \<Longrightarrow> ar_current a' = ar_current a"
  by (auto simp: ensure_table_def ensure_kernel_table_def obind_Some_iff kbind_Inr_iff Let_def set_directory_entry_def set_mapping_entry_def
      bump_version_def dest!: create_pde_current split: if_splits)

lemma map_page_current:
  assumes "map_page ms config v (phys, a) = Some (Inr (phys', a'))"
  shows "ar_current a' = ar_current a"
proof -
  have "\<exists>a1. ensure_table ms config v a = Some (Inr a1) \<and> ar_current a' = ar_current a1"
    using assms by (auto simp: map_page_def obind_Some_iff kbind_Inr_iff write_entry_def split: option.splits)
  then show ?thesis using ensure_table_current by auto
qed

lemma map_pages_current: "okfold (map_page ms config) vs (phys, a) = Some (Inr (phys', a')) \<Longrightarrow> ar_current a' = ar_current a"
proof (induction vs arbitrary: phys a)
  case (Cons v vs)
  then obtain ph a1 where "map_page ms config v (phys, a) = Some (Inr (ph, a1))" "okfold (map_page ms config) vs (ph, a1) = Some (Inr (phys', a'))"
    by (auto simp: obind_Some_iff)
  then show ?case using map_page_current Cons.IH by metis
qed simp

lemma arch_map_current:
  assumes "ar_spaces a s = Some ms" "4096 dvd unat v" "unat sz = n * 4096" "unat v + n * 4096 < unat PAGE_TABLE_ARRAY_ADDR"
    "arch_map (Some s) phys v sz config a = Some (Inr a')"
  shows "ar_current a' = ar_current a"
  using assms(5) map_pages_current by (auto simp: arch_map_loop [OF assms(1-4)] obind_Some_iff)

lemma space_ok_take:
  assumes "space_ok N U a ms" "pmm_rel N (U \<union> V) p" "V \<subseteq> {..<N}"
  shows "space_ok N (U \<union> V) (a\<lparr>ar_pmm := p\<rparr>) ms" "space_view (a\<lparr>ar_pmm := p\<rparr>) ms = space_view a ms" "dir_of (a\<lparr>ar_pmm := p\<rparr>) ms = dir_of a ms"
proof -
  have dir: "dir_of (a\<lparr>ar_pmm := p\<rparr>) ms = dir_of a ms" "map_of_space (a\<lparr>ar_pmm := p\<rparr>) ms = map_of_space a ms"
    by (simp_all add: dir_of_def map_of_space_def)
  have "tables_ok (U \<union> V) (dir_of a ms) (map_of_space a ms) (ar_frames a)" using assms(1) by (auto simp: space_ok_def tables_ok_def)
  then show "space_ok N (U \<union> V) (a\<lparr>ar_pmm := p\<rparr>) ms"
    using assms by (simp add: space_ok_def space_live_def master_synced_def window_open_def dir)
  show "space_view (a\<lparr>ar_pmm := p\<rparr>) ms = space_view a ms" "dir_of (a\<lparr>ar_pmm := p\<rparr>) ms = dir_of a ms"
    by (simp_all add: space_view_def dir)
qed

section \<open>The state of the manager\<close>

text \<open>
  The regions of the kernel half are sorted and disjoint, end on page boundaries and contain every mapped page; the last one is
  that of the page tables, and the first page table of the half exists.
\<close>

definition vm_ok :: "nat \<Rightarrow> nat set \<Rightarrow> vmm_t \<Rightarrow> addr \<Rightarrow> memory_region_t list \<Rightarrow> bool" where
  "vm_ok N U vm s rs \<longleftrightarrow> avl_contents mr_virt_address (vm_kernel_memory_map vm) rs \<and> regions_ok True vm rs \<and>
     (\<forall>r\<in>set rs. 4096 dvd r_stop r) \<and> get_mapping_region \<in> set rs \<and> 2 ^ 22 dvd unat (ar_virtual_addr (vm_arch vm)) \<and>
     ar_current (vm_arch vm) = Some s \<and>
     (\<exists>ms. ar_spaces (vm_arch vm) s = Some ms \<and> space_ok N U (vm_arch vm) ms \<and>
        pd_value (dir_of (vm_arch vm) ms ! get_pd_index (ar_virtual_addr (vm_arch vm))) \<noteq> 0 \<and>
        (\<forall>m < 1023 * 1024. unat (ar_virtual_addr (vm_arch vm)) \<le> m * 4096 \<longrightarrow> space_view (vm_arch vm) ms m \<noteq> None \<longrightarrow>
           (\<exists>r\<in>set rs. r_start r \<le> m * 4096 \<and> m * 4096 < r_stop r)))"

lemma gap_aligned: "g \<in> set (gaps lo rs hi) \<Longrightarrow> 4096 dvd lo \<Longrightarrow> \<forall>r\<in>set rs. 4096 dvd r_stop r \<Longrightarrow> 4096 dvd fst g"
  by (induction lo rs hi rule: gaps.induct) (auto split: if_splits)

lemma regions_insort:
  assumes "regions_from lo rs hi" "lo \<le> r_start r" "r_start r < r_stop r" "r_stop r \<le> hi" "r_stop r \<le> 2 ^ 32" "mr_mapped r"
    "\<forall>x\<in>set rs. r_stop r \<le> r_start x \<or> r_stop x \<le> r_start r"
  shows "regions_from lo (insort_key mr_virt_address r rs) hi"
  using assms
proof (induction lo rs hi rule: regions_from.induct)
  case (2 lo x rs hi)
  have x: "r_start x < r_stop x" using 2(2) by simp
  have le: "mr_virt_address r \<le> mr_virt_address x \<longleftrightarrow> r_start r \<le> r_start x" by (simp add: r_start_def word_le_nat_alt)
  show ?case
  proof (cases "r_start r \<le> r_start x")
    case True
    then have "r_stop r \<le> r_start x" using 2(8) x by auto
    then show ?thesis using 2 True le by auto
  next
    case False
    then have "r_stop x \<le> r_start r" using 2(4,8) by auto
    then show ?thesis using 2 False le by auto
  qed
qed auto

text \<open>Where a gap of the kernel half lies.\<close>

lemma kernel_gap:
  assumes "vm_ok N U vm s rs" "(unat v, S) \<in> set (free_gaps True vm rs)" "0 < S"
  shows "4096 dvd unat v" "ar_virtual_addr (vm_arch vm) \<le> v" "unat v + S \<le> unat PAGE_TABLE_ARRAY_ADDR"
    "\<forall>x\<in>set rs. unat v + S \<le> r_start x \<or> r_stop x \<le> unat v"
proof -
  have ok: "regions_ok True vm rs" "\<forall>r\<in>set rs. 4096 dvd r_stop r" "get_mapping_region \<in> set rs" "2 ^ 22 dvd unat (ar_virtual_addr (vm_arch vm))"
    using assms(1) by (simp_all add: vm_ok_def)
  have "(4096 :: nat) dvd 2 ^ 22" by (rule dvdI [of _ _ 1024]) simp
  then have "4096 dvd unat (ar_virtual_addr (vm_arch vm))" using ok(4) by (rule dvd_trans)
  then show "4096 dvd unat v" using gap_aligned [OF assms(2) _ ok(2)] by (simp add: kspace_low_def)
  show dis: "\<forall>x\<in>set rs. unat v + S \<le> r_start x \<or> r_stop x \<le> unat v" using free_gap_disjoint [OF ok(1) assms(2)] assms(3) by auto
  have "regions_from (unat (ar_virtual_addr (vm_arch vm))) rs (2 ^ 32)" using ok(1) by (simp add: regions_ok_def kspace_low_def)
  from gap_bounds [OF this _ assms(2) [unfolded kspace_low_def if_True]] show "ar_virtual_addr (vm_arch vm) \<le> v"
    by (auto simp: kspace_limit_def word_le_nat_alt)
  show "unat v + S \<le> unat PAGE_TABLE_ARRAY_ADDR"
    using bspec [OF dis ok(3)] unat_bound [of v] by (auto simp: small_regions PAGE_TABLE_ARRAY_ADDR_def)
qed

text \<open>The pages of a gap can be mapped.\<close>

lemma gap_range_ok:
  assumes ok: "vm_ok N U vm s rs" "ar_spaces (vm_arch vm) s = Some ms" and gap: "(unat v, S) \<in> set (free_gaps True vm rs)" "0 < S" "n * 4096 \<le> S"
    and lim: "unat v + n * 4096 < unat PAGE_TABLE_ARRAY_ADDR" and cfg: "\<not> mc_userspace config"
  shows "range_ok (vm_arch vm) ms config v n"
proof -
  let ?va = "ar_virtual_addr (vm_arch vm)"
  note g = kernel_gap [OF ok(1) gap(1,2)]
  have vm: "2 ^ 22 dvd unat ?va" "pd_value (dir_of (vm_arch vm) ms ! get_pd_index ?va) \<noteq> 0"
      "\<forall>m < 1023 * 1024. unat ?va \<le> m * 4096 \<longrightarrow> space_view (vm_arch vm) ms m \<noteq> None \<longrightarrow> (\<exists>r\<in>set rs. r_start r \<le> m * 4096 \<and> m * 4096 < r_stop r)"
    using ok by (auto simp: vm_ok_def)
  obtain q where q: "unat v = 4096 * q" using g(1) by (elim dvdE)
  have "half_ok (vm_arch vm) ms (of_nat m * PAGE_SIZE) \<and> space_view (vm_arch vm) ms m = None" if m: "q \<le> m" "m < q + n" for m
  proof -
    have mlim: "m < 1023 * 1024" using lim m q by (simp add: PAGE_TABLE_ARRAY_ADDR_def)
    have u: "unat (of_nat m * PAGE_SIZE :: u32) = m * 4096"
      using mlim by (subst unat_mult_small) (simp_all add: PAGE_SIZE_def unsigned_of_nat take_bit_nat_eq_self)
    have va: "unat ?va \<le> m * 4096" using g(2) q m(1) by (simp add: word_le_nat_alt)
    have "half_ok (vm_arch vm) ms (of_nat m * PAGE_SIZE)"
    proof (cases "of_nat m * PAGE_SIZE = ?va")
      case False
      then have "unat ?va \<noteq> m * 4096" using u word_unat_eq_iff [of "of_nat m * PAGE_SIZE" ?va] by simp
      then have "is_kernel_space (vm_arch vm) (of_nat m * PAGE_SIZE)" using va u by (simp add: is_kernel_space_def word_less_nat_alt)
      moreover have "get_pd_index ?va \<le> get_pd_index (of_nat m * PAGE_SIZE)" unfolding pd_index_div using va u by (intro div_le_mono) simp
      ultimately show ?thesis by (simp add: half_ok_def halves_split_def)
    qed (use vm(2) in \<open>simp add: half_ok_def\<close>)
    moreover have "\<not> (\<exists>r\<in>set rs. r_start r \<le> m * 4096 \<and> m * 4096 < r_stop r)"
    proof
      assume "\<exists>r\<in>set rs. r_start r \<le> m * 4096 \<and> m * 4096 < r_stop r"
      then obtain r where r: "r \<in> set rs" "r_start r \<le> m * 4096" "m * 4096 < r_stop r" by blast
      have "unat v + S \<le> r_start r \<or> r_stop r \<le> unat v" using g(4) r(1) by blast
      then show False using r(2,3) m q gap(3) by auto
    qed
    ultimately show ?thesis using vm(3) mlim va by blast
  qed
  then show ?thesis using g(1) lim cfg q by (simp add: range_ok_def)
qed

section \<open>Allocation\<close>

definition new_region :: "u32 \<Rightarrow> u32 \<Rightarrow> u32 \<Rightarrow> mapping_config_t \<Rightarrow> memory_region_t" where
  "new_region phys v sz config =
     \<lparr>mr_virt_address = v, mr_phys_address = phys, mr_size = sz, mr_mapped = True, mr_present = True, mr_allocated = False, mr_config = config\<rparr>"

lemma new_region_interval:
  "r_start (new_region phys v sz config) = unat v" "r_stop (new_region phys v sz config) = unat v + unat sz" "mr_mapped (new_region phys v sz config)"
  by (simp_all add: r_start_def r_stop_def new_region_def)

text \<open>With the pages and the gap found, what is left is the insertion into the tree and the mapping.\<close>

lemma vm_map_kernel:
  assumes ok: "vm_ok N U vm s rs" and node: "nodes (vm_kernel_memory_map vm) node = None"
    and gap: "(unat v, S) \<in> set (free_gaps True vm rs)" "0 < S"
  shows "\<exists>t. avl_contents mr_virt_address t (insort_key mr_virt_address (new_region phys v sz config) rs) \<and>
    vm_map node (Some s) phys v sz config vm = obind (arch_map (Some s) phys v sz config (vm_arch vm))
      (\<lambda>a. Some (Inr (new_region phys v sz config, vm\<lparr>vm_kernel_memory_map := t, vm_arch := a\<rparr>)))"
proof -
  note g = kernel_gap [OF ok gap]
  have tree: "avl_contents mr_virt_address (vm_kernel_memory_map vm) rs" and len: "\<forall>r\<in>set rs. r_start r < r_stop r"
    using ok regions_from_bounds by (auto simp: vm_ok_def regions_ok_def)
  have "v \<notin> mr_virt_address ` set rs"
  proof
    assume "v \<in> mr_virt_address ` set rs"
    then obtain r where r: "r \<in> set rs" "r_start r = unat v" by (auto simp: r_start_def)
    then show False using g(4) len gap(2) by fastforce
  qed
  then obtain t where t: "avl_insert mr_virt_address node (new_region phys v sz config) (vm_kernel_memory_map vm) = Some (Inr t)"
      "avl_contents mr_virt_address t (insort_key mr_virt_address (new_region phys v sz config) rs)"
    using insert_contents [OF tree node, of "new_region phys v sz config"] by (auto simp: new_region_def)
  have "in_kernel_space vm v" using g(2) by (simp add: in_kernel_space_def)
  then have "vm_map node (Some s) phys v sz config vm = obind (arch_map (Some s) phys v sz config (vm_arch vm))
      (\<lambda>a. Some (Inr (new_region phys v sz config, vm\<lparr>vm_kernel_memory_map := t, vm_arch := a\<rparr>)))"
    using t(1) by (simp add: vm_map_def region_tree_def set_region_tree_def new_region_def)
  then show ?thesis using t(2) by blast
qed

lemma rounded_size:
  assumes "0 < sz" "sz \<le> (0x80000 :: u32)"
  shows "unat (round_up_to_multiple sz PAGE_SIZE) = (unat sz + 4095) div 4096 * 4096" "0 < round_up_to_multiple sz PAGE_SIZE"
    "round_up_to_multiple sz PAGE_SIZE \<le> 0x80000" "unat sz \<le> unat (round_up_to_multiple sz PAGE_SIZE)"
proof -
  have b: "0 < unat sz" "unat sz \<le> 0x80000" using assms by (simp_all add: word_le_nat_alt word_less_nat_alt)
  show u: "unat (round_up_to_multiple sz PAGE_SIZE) = (unat sz + 4095) div 4096 * 4096"
    using unat_round_up [of PAGE_SIZE sz] b by (simp add: PAGE_SIZE_def)
  have "(unat sz + 4095) div 4096 * 4096 + (unat sz + 4095) mod 4096 = unat sz + 4095" by (rule div_mult_mod_eq)
  moreover have "(unat sz + 4095) mod 4096 < 4096" by simp
  ultimately show ge: "unat sz \<le> unat (round_up_to_multiple sz PAGE_SIZE)" unfolding u by linarith
  then show "0 < round_up_to_multiple sz PAGE_SIZE" using b(1) by (simp add: word_less_nat_alt)
  have "(unat sz + 4095) div 4096 \<le> (0x80000 + 4095) div 4096" using b(2) by (intro div_le_mono) simp
  then show "round_up_to_multiple sz PAGE_SIZE \<le> 0x80000" unfolding word_le_nat_alt u by simp
qed

lemma regions_ok_upd: "ar_virtual_addr (vm_arch vm') = ar_virtual_addr (vm_arch vm) \<Longrightarrow> regions_ok k vm' rs = regions_ok k vm rs"
  by (simp add: regions_ok_def kspace_low_def)

text \<open>The state after the mapping.\<close>

lemma vm_ok_mapped:
  assumes ok: "vm_ok N U vm s rs" "ar_spaces (vm_arch vm) s = Some ms" and gap: "(unat v, S) \<in> set (free_gaps True vm rs)" "0 < S"
    and n: "unat sz = n * 4096" "0 < n" "n * 4096 \<le> S"
    and t: "avl_contents mr_virt_address t (insort_key mr_virt_address (new_region phys v sz config) rs)"
    and step: "view_step N U1 (vm_arch vm) ms (map_range config phys (unat v div 4096) n (space_view (vm_arch vm) ms)) a'"
      "tables_kept (vm_arch vm) ms a'" "ar_current a' = Some s"
  shows "\<exists>U'. U1 \<subseteq> U' \<and> vm_ok N U' (vm\<lparr>vm_kernel_memory_map := t, vm_arch := a'\<rparr>) s (insort_key mr_virt_address (new_region phys v sz config) rs)"
proof -
  let ?r = "new_region phys v sz config" let ?rs = "insort_key mr_virt_address ?r rs" let ?va = "ar_virtual_addr (vm_arch vm)"
  note g = kernel_gap [OF ok(1) gap]
  obtain U' where U': "U1 \<subseteq> U'" "space_ok N U' a' ms" "ar_virtual_addr a' = ?va" "spaces_kept (vm_arch vm) a'"
      and view: "\<forall>m < 1023 * 1024. space_view a' ms m = map_range config phys (unat v div 4096) n (space_view (vm_arch vm) ms) m"
    using step(1) by (auto simp: view_step_def)
  obtain ms' where ms': "ar_spaces a' s = Some ms'" "ps_page_directory ms' = ps_page_directory ms" "ps_mapping_table ms' = ps_mapping_table ms"
    using ok(2) U'(4) unfolding spaces_kept_def by blast
  note same = space_ok_same [OF ms'(2,3)]
  have old: "regions_ok True vm rs" "\<forall>r\<in>set rs. 4096 dvd r_stop r" "get_mapping_region \<in> set rs" "2 ^ 22 dvd unat ?va"
      "pd_value (dir_of (vm_arch vm) ms ! get_pd_index ?va) \<noteq> 0"
      "\<forall>m < 1023 * 1024. unat ?va \<le> m * 4096 \<longrightarrow> space_view (vm_arch vm) ms m \<noteq> None \<longrightarrow> (\<exists>r\<in>set rs. r_start r \<le> m * 4096 \<and> m * 4096 < r_stop r)"
    using ok by (auto simp: vm_ok_def)
  have stop: "unat v + unat sz \<le> 2 ^ 32" using g(3) n(1,3) by (simp add: PAGE_TABLE_ARRAY_ADDR_def)
  have dis: "\<forall>x\<in>set rs. r_stop ?r \<le> r_start x \<or> r_stop x \<le> r_start ?r" using g(4) n(1,3) by (auto simp: new_region_interval)
  have "regions_ok True vm ?rs"
    using old(1) g(2) stop n(1,2) dis unfolding regions_ok_def
    by (auto intro!: regions_insort simp: new_region_interval kspace_low_def word_le_nat_alt)
  moreover have "4096 dvd r_stop ?r" using g(1) n(1) by (simp add: new_region_interval)
  moreover have "\<exists>r\<in>set ?rs. r_start r \<le> m * 4096 \<and> m * 4096 < r_stop r"
    if m: "m < 1023 * 1024" "unat ?va \<le> m * 4096" "space_view a' ms m \<noteq> None" for m
  proof (cases "unat v div 4096 \<le> m \<and> m < unat v div 4096 + n")
    case True
    obtain q where "unat v = 4096 * q" using g(1) by (elim dvdE)
    then have "r_start ?r \<le> m * 4096 \<and> m * 4096 < r_stop ?r" using True n(1) by (simp add: new_region_interval)
    then show ?thesis by (intro bexI [of _ ?r]) (auto simp: set_insort_key)
  next
    case False
    then have "space_view (vm_arch vm) ms m \<noteq> None" using m view by (auto simp: map_range_def)
    then show ?thesis using old(6) m by (auto simp: set_insort_key)
  qed
  moreover have "pd_value (dir_of a' ms ! get_pd_index ?va) \<noteq> 0" using old(5) step(2) by (simp add: tables_kept_def)
  ultimately have "vm_ok N U' (vm\<lparr>vm_kernel_memory_map := t, vm_arch := a'\<rparr>) s ?rs"
    using t old(2-4) step(3) ms'(1) U'(2,3) regions_ok_upd [of "vm\<lparr>vm_kernel_memory_map := t, vm_arch := a'\<rparr>" vm]
    by (auto simp: vm_ok_def set_insort_key same)
  then show ?thesis using U'(1) by blast
qed

text \<open>What \<open>map\<close> does with a part of a gap.\<close>

lemma vm_map_gap:
  assumes ok: "vm_ok N U vm s rs" and node: "nodes (vm_kernel_memory_map vm) node = None" and cfg: "\<not> mc_userspace config"
    and gap: "(unat v, S) \<in> set (free_gaps True vm rs)" "0 < S" and n: "unat sz = n * 4096" "0 < n" "n * 4096 \<le> S" and phys: "4096 dvd unat phys"
    and run: "vm_map node (Some s) phys v sz config vm = Some r"
  shows "r = Inl KernelPanic \<or> (r = Inl AssertFail \<and> unat v + unat sz = unat PAGE_TABLE_ARRAY_ADDR) \<or>
    (\<exists>vm' U'. r = Inr (new_region phys v sz config, vm') \<and> U \<subseteq> U' \<and> vm_ok N U' vm' s (insort_key mr_virt_address (new_region phys v sz config) rs) \<and>
       (\<forall>off < unat sz. as_physical_for (Some s) (v + of_nat off) (vm_arch vm') = Inr (phys + of_nat off)))"
proof -
  let ?reg = "new_region phys v sz config" let ?a = "vm_arch vm"
  note g = kernel_gap [OF ok gap]
  obtain ms where ms: "ar_spaces ?a s = Some ms" "space_ok N U ?a ms" "ar_current ?a = Some s" using ok by (auto simp: vm_ok_def)
  obtain t where t: "avl_contents mr_virt_address t (insort_key mr_virt_address ?reg rs)"
      "obind (arch_map (Some s) phys v sz config ?a) (\<lambda>a. Some (Inr (?reg, vm\<lparr>vm_kernel_memory_map := t, vm_arch := a\<rparr>))) = Some r"
    using vm_map_kernel [OF ok node gap, of phys sz config] run by auto
  show ?thesis
  proof (cases "unat v + unat sz = unat PAGE_TABLE_ARRAY_ADDR")
    case True
    then have "\<not> v + sz < PAGE_TABLE_ARRAY_ADDR" by (simp add: word_less_nat_alt unat_add_small PAGE_TABLE_ARRAY_ADDR_def)
    then have "r = Inl AssertFail" using t(2) by (simp add: arch_map_def)
    then show ?thesis using True by simp
  next
    case False
    then have lim: "unat v + n * 4096 < unat PAGE_TABLE_ARRAY_ADDR" using g(3) n(1,3) by simp
    obtain q where q: "arch_map (Some s) phys v sz config ?a = Some q" using t(2) by (cases "arch_map (Some s) phys v sz config ?a") auto
    from arch_map_effect [OF ms(1,2) gap_range_ok [OF ok ms(1) gap n(3) lim cfg] n(1) q]
    consider "q = Inl KernelPanic" | a' where "q = Inr a'" "tables_kept ?a ms a'"
        "view_step N U ?a ms (map_range config phys (unat v div 4096) n (space_view ?a ms)) a'" by blast
    then show ?thesis
    proof cases
      case 1
      then show ?thesis using t(2) q by simp
    next
      case (2 a')
      have "ar_current a' = Some s" using arch_map_current [OF ms(1) g(1) n(1) lim] q 2(1) ms(3) by simp
      from vm_ok_mapped [OF ok ms(1) gap n t(1) 2(3,2) this] obtain U' where
          "U \<subseteq> U'" "vm_ok N U' (vm\<lparr>vm_kernel_memory_map := t, vm_arch := a'\<rparr>) s (insort_key mr_virt_address ?reg rs)" by blast
      moreover have "r = Inr (?reg, vm\<lparr>vm_kernel_memory_map := t, vm_arch := a'\<rparr>)" using t(2) q 2(1) by simp
      moreover have "\<forall>off < unat sz. as_physical_for (Some s) (v + of_nat off) a' = Inr (phys + of_nat off)"
        using view_translates [OF ms(1) phys g(1) lim 2(3)] n(1) by simp
      ultimately show ?thesis by (intro disjI2 exI [of _ "vm\<lparr>vm_kernel_memory_map := t, vm_arch := a'\<rparr>"] exI [of _ U']) simp
    qed
  qed
qed

lemma vm_ok_take:
  assumes "vm_ok N U vm s rs" "pmm_rel N (U \<union> V) p" "V \<subseteq> {..<N}"
  shows "vm_ok N (U \<union> V) (vm\<lparr>vm_arch := (vm_arch vm)\<lparr>ar_pmm := p\<rparr>\<rparr>) s rs"
  using assms space_ok_take [OF _ assms(2,3)] regions_ok_upd [of "vm\<lparr>vm_arch := (vm_arch vm)\<lparr>ar_pmm := p\<rparr>\<rparr>" vm]
  by (auto simp: vm_ok_def)

text \<open>The three steps of an allocation.\<close>

lemma allocate_region_steps:
  assumes ok: "vm_ok N U vm s rs" and cfg: "\<not> mc_userspace config" and sz: "0 < sz" "sz \<le> 0x80000"
    and run: "allocate_region node sz config vm = Some r"
  shows "r = Inl KernelPanic \<or> (\<exists>phys p (R :: region_t). let V = page_span phys (round_up_to_multiple sz PAGE_SIZE) in
    V \<inter> U = {} \<and> V \<subseteq> {..<N} \<and> 4096 dvd unat phys \<and> pmm_rel N (U \<union> V) p \<and>
    (unat (rg_address R), unat (rg_size R)) \<in> set (free_gaps True vm rs) \<and> round_up_to_multiple sz PAGE_SIZE \<le> rg_size R \<and>
    vm_map node (Some s) phys (rg_address R) (round_up_to_multiple sz PAGE_SIZE) config (vm\<lparr>vm_arch := (vm_arch vm)\<lparr>ar_pmm := p\<rparr>\<rparr>) = Some r)"
proof -
  let ?sz = "round_up_to_multiple sz PAGE_SIZE"
  note rs = rounded_size [OF sz]
  have vm: "ar_current (vm_arch vm) = Some s" "pmm_rel N U (ar_pmm (vm_arch vm))" "avl_contents mr_virt_address (vm_kernel_memory_map vm) rs" "regions_ok True vm rs"
    using ok by (auto simp: vm_ok_def space_ok_def)
  obtain q where q: "pmm_alloc ?sz (rg_address (mc_bounds config)) (rg_end (mc_bounds config)) (mc_alignment config) (ar_pmm (vm_arch vm)) = Some q"
    using run by (cases "pmm_alloc ?sz (rg_address (mc_bounds config)) (rg_end (mc_bounds config)) (mc_alignment config) (ar_pmm (vm_arch vm))")
      (auto simp: allocate_region_def take_physical_def Let_def)
  from alloc_takes_free_pages [OF vm(2) rs(2,3) q]
  consider "q = Inl KernelPanic" | phys p where "q = Inr (phys, p)" "page_span phys ?sz \<inter> U = {}" "page_span phys ?sz \<subseteq> {..<N}" "4096 dvd unat phys"
      "pmm_rel N (U \<union> page_span phys ?sz) p" by blast
  then show ?thesis
  proof cases
    case 1
    then show ?thesis using run q by (simp add: allocate_region_def take_physical_def Let_def)
  next
    case (2 phys p)
    let ?vm = "vm\<lparr>vm_arch := (vm_arch vm)\<lparr>ar_pmm := p\<rparr>\<rparr>"
    have "region_tree (Some s) True ?vm = Inr (vm_kernel_memory_map vm)" by (simp add: region_tree_def)
    moreover have "regions_ok True ?vm rs" using vm(4) regions_ok_upd [of ?vm vm] by simp
    ultimately obtain f where f: "find_free_region (Some s) ?sz True ?vm = Some f"
        "case f of Inl e \<Rightarrow> e = KernelPanic \<and> (\<forall>g\<in>set (free_gaps True ?vm rs). snd g < unat ?sz)
         | Inr R \<Rightarrow> (unat (rg_address R), unat (rg_size R)) \<in> set (free_gaps True ?vm rs) \<and> ?sz \<le> rg_size R \<and>
             (\<forall>g\<in>set (free_gaps True ?vm rs). unat ?sz \<le> snd g \<longrightarrow> unat (rg_size R) \<le> snd g)"
      using find_free_region_gap [OF _ vm(3) _ rs(2)] by blast
    have gaps: "free_gaps True ?vm rs = free_gaps True vm rs" by (simp add: kspace_low_def kspace_limit_def)
    have go: "obind (Some f) (\<lambda>R. vm_map node (Some s) phys (rg_address R) ?sz config ?vm) = Some r"
      using run q 2(1) f(1) vm(1) cfg by (simp add: allocate_region_def take_physical_def Let_def)
    show ?thesis
    proof (cases f)
      case (Inl e)
      then show ?thesis using f(2) go by simp
    next
      case (Inr R)
      then show ?thesis using f(2) go 2 unfolding gaps Let_def by (intro disjI2 exI [of _ phys] exI [of _ p] exI [of _ R]) simp
    qed
  qed
qed

text \<open>
  C3. An allocation in the kernel half of at most 512 KiB: when \<open>allocate_region\<close> returns, either memory is exhausted and the kernel
  panics, or the request fills the last gap up to the page tables and runs into the assertion of \<open>map\<close>, or the new region overlaps no
  other region, its frames were free, every one of its addresses translates to its frame, and all invariants of the page allocator, the
  region tree and the page tables hold with the new region added.
\<close>

theorem allocate_region_correct:
  assumes ok: "vm_ok N U vm s rs" and node: "nodes (vm_kernel_memory_map vm) node = None" and cfg: "\<not> mc_userspace config"
    and sz: "0 < sz" "sz \<le> 0x80000" and run: "allocate_region node sz config vm = Some r"
  shows "r = Inl KernelPanic \<or>
    (r = Inl AssertFail \<and> (\<exists>g\<in>set (free_gaps True vm rs). fst g + unat (round_up_to_multiple sz PAGE_SIZE) = unat PAGE_TABLE_ARRAY_ADDR)) \<or>
    (\<exists>reg vm' U'. r = Inr (reg, vm') \<and> vm_ok N U' vm' s (insort_key mr_virt_address reg rs) \<and> unat sz \<le> unat (mr_size reg) \<and>
       page_span (mr_phys_address reg) (mr_size reg) \<inter> U = {} \<and> U \<union> page_span (mr_phys_address reg) (mr_size reg) \<subseteq> U' \<and>
       (\<forall>x\<in>set rs. r_stop reg \<le> r_start x \<or> r_stop x \<le> r_start reg) \<and>
       (\<forall>off < unat (mr_size reg). as_physical_for (Some s) (mr_virt_address reg + of_nat off) (vm_arch vm') = Inr (mr_phys_address reg + of_nat off)))"
proof -
  let ?sz = "round_up_to_multiple sz PAGE_SIZE"
  define n where "n = (unat sz + 4095) div 4096"
  note rsz = rounded_size [OF sz, folded n_def]
  from allocate_region_steps [OF ok cfg sz run] consider (panic) "r = Inl KernelPanic" | (go) phys p and R :: region_t where
      "page_span phys ?sz \<inter> U = {}" "page_span phys ?sz \<subseteq> {..<N}" "4096 dvd unat phys" "pmm_rel N (U \<union> page_span phys ?sz) p"
      "(unat (rg_address R), unat (rg_size R)) \<in> set (free_gaps True vm rs)" "?sz \<le> rg_size R"
      "vm_map node (Some s) phys (rg_address R) ?sz config (vm\<lparr>vm_arch := (vm_arch vm)\<lparr>ar_pmm := p\<rparr>\<rparr>) = Some r"
    unfolding Let_def by blast
  then show ?thesis
  proof cases
    case (go phys p R)
    let ?V = "page_span phys ?sz" let ?vm = "vm\<lparr>vm_arch := (vm_arch vm)\<lparr>ar_pmm := p\<rparr>\<rparr>" let ?reg = "new_region phys (rg_address R) ?sz config"
    have S: "0 < unat (rg_size R)" "n * 4096 \<le> unat (rg_size R)" "0 < n"
      using go(6) rsz(1,2) by (auto simp: word_le_nat_alt word_less_nat_alt)
    have gap: "(unat (rg_address R), unat (rg_size R)) \<in> set (free_gaps True ?vm rs)" using go(5) by (simp add: kspace_low_def kspace_limit_def)
    have dis: "\<forall>x\<in>set rs. r_stop ?reg \<le> r_start x \<or> r_stop x \<le> r_start ?reg"
      using kernel_gap(4) [OF ok go(5) S(1)] S(2) rsz(1) by (auto simp: new_region_interval)
    have fresh: "nodes (vm_kernel_memory_map ?vm) node = None" using node by simp
    from vm_map_gap [OF vm_ok_take [OF ok go(4,2)] fresh cfg gap S(1) rsz(1) S(3,2) go(3,7)]
    consider "r = Inl KernelPanic" | "r = Inl AssertFail" "unat (rg_address R) + unat ?sz = unat PAGE_TABLE_ARRAY_ADDR"
      | vm' U' where "r = Inr (?reg, vm')" "U \<union> ?V \<subseteq> U'" "vm_ok N U' vm' s (insort_key mr_virt_address ?reg rs)"
          "\<forall>off < unat ?sz. as_physical_for (Some s) (rg_address R + of_nat off) (vm_arch vm') = Inr (phys + of_nat off)" by blast
    then show ?thesis
    proof cases
      case 2
      then show ?thesis using go(5) by force
    next
      case (3 vm' U')
      then show ?thesis using go(1) rsz(4) dis
        by (intro disjI2 exI [of _ ?reg] exI [of _ vm'] exI [of _ U']) (auto simp: new_region_def)
    qed simp
  qed simp
qed

section \<open>An allocation in the small machine\<close>

lemma small_vm_ok:
  assumes "pmm_rel 128 {16..<19} p"
  shows "vm_ok 128 {16..<19} (small_vm (small_arch p)) 1 [kernel_image, get_mapping_region]"
proof -
  have st: "ar_virtual_addr (small_arch p) = 0xC0000000" "ar_current (small_arch p) = Some 1" "vm_arch (small_vm (small_arch p)) = small_arch p"
      "vm_kernel_memory_map (small_vm (small_arch p)) = small_tree" by (simp_all add: small_arch_def small_vm_def)
  have "space_view (small_arch p) small_space m = None" if "m < 1023 * 1024" for m
    using that small_entries(1) [of "m div 1024"]
    by (auto simp: space_view_def small_arch_dir view_def small_arch_def div_less_iff_less_mult)
  moreover have "pd_value (dir_of (small_arch p) small_space ! 768) \<noteq> 0" by (simp add: small_arch_dir small_entries)
  moreover have "get_pd_index (0xC0000000 :: u32) = 768" by (simp add: pd_index_div)
  ultimately show ?thesis
    using small_arch_ok [OF assms] small_tree_contents(1) small_regions_ok [OF st(1)]
    by (auto simp: vm_ok_def st small_regions)
qed

lemma small_default_alloc:
  assumes "pmm_rel 128 {16..<19} p" "mm_usable_mem_size (pm_memory_map p) = 0x80000" "\<forall>b\<in>set (pm_buddies p). bd_last_alloc b = 0"
  shows "\<exists>p'. pmm_alloc 0x1000 0 0xFFFFFFFE 0 p = Some (Inr (0x1000, p'))"
proof -
  have "pmm_alloc 0x1000 0 0xFFFFFFFE 0 p = pmm_alloc 0x1000 0 0xFFFFFFFF 0 p" by (simp add: pmm_alloc_def kmin_def assms(2))
  then show ?thesis using small_alloc [OF assms] by simp
qed

lemma small_find:
  assumes "ar_virtual_addr a = 0xC0000000"
  shows "\<exists>R. find_free_region (Some 1) 0x1000 True (small_vm a) = Some (Inr R) \<and> rg_address R = 0xC0000000 \<and> unat (rg_size R) = 0x100000"
proof -
  have gaps: "free_gaps True (small_vm a) [kernel_image, get_mapping_region] = [(0xC0000000, 0x100000), (0xC0200000, 0x3FA00000), (0x100000000, 0)]"
    by (simp add: kspace_low_def kspace_limit_def small_vm_def assms small_regions)
  have t: "region_tree (Some 1) True (small_vm a) = Inr small_tree" "0 < (0x1000 :: u32)" by (simp_all add: region_tree_def small_vm_def)
  from find_free_region_gap [OF t(1) small_tree_contents(1) small_regions_ok [OF assms] t(2), unfolded gaps] show ?thesis
  proof (elim exE conjE)
    fix q assume q: "find_free_region (Some 1) 0x1000 True (small_vm a) = Some q"
      "case q of Inl e \<Rightarrow> e = KernelPanic \<and> (\<forall>g\<in>set [(0xC0000000, 0x100000), (0xC0200000, 0x3FA00000), (0x100000000, 0)]. snd g < unat (0x1000 :: u32))
       | Inr r \<Rightarrow> (unat (rg_address r), unat (rg_size r)) \<in> set [(0xC0000000, 0x100000), (0xC0200000, 0x3FA00000), (0x100000000, 0)] \<and> 0x1000 \<le> rg_size r \<and>
         (\<forall>g\<in>set [(0xC0000000, 0x100000), (0xC0200000, 0x3FA00000), (0x100000000, 0)]. unat (0x1000 :: u32) \<le> snd g \<longrightarrow> unat (rg_size r) \<le> snd g)"
    then obtain R where R: "q = Inr R" "unat (rg_address R) = unat (0xC0000000 :: u32)" "unat (rg_size R) = 0x100000"
      by (cases q) (auto simp: word_le_nat_alt)
    then show ?thesis using q(1) by (simp only: word_unat_eq_iff [symmetric]) simp
  qed
qed

lemma small_allocation:
  assumes p: "pmm_rel 128 {16..<19} p" "mm_usable_mem_size (pm_memory_map p) = 0x80000" "\<forall>b\<in>set (pm_buddies p). bd_last_alloc b = 0"
  shows "\<exists>vm'. allocate_region 3 0x1000 default_config (small_vm (small_arch p)) = Some (Inr (new_region 0x1000 0xC0000000 0x1000 default_config, vm'))"
proof -
  let ?vm = "small_vm (small_arch p)" let ?rs = "[kernel_image, get_mapping_region]"
  obtain p' where p': "pmm_alloc 0x1000 0 0xFFFFFFFE 0 p = Some (Inr (0x1000, p'))" using small_default_alloc [OF p] by blast
  let ?a = "(small_arch p)\<lparr>ar_pmm := p'\<rparr>"
  have st: "ar_virtual_addr ?a = 0xC0000000" "ar_current (small_arch p) = Some 1" "ar_pmm (small_arch p) = p" "ar_spaces ?a 1 = Some small_space"
      "small_vm (small_arch p)\<lparr>vm_arch := ?a\<rparr> = small_vm ?a" by (simp_all add: small_arch_def small_vm_def)
  obtain R where R: "find_free_region (Some 1) 0x1000 True (small_vm ?a) = Some (Inr R)" "rg_address R = 0xC0000000" "unat (rg_size R) = 0x100000"
    using small_find [OF st(1)] by blast
  obtain V where V: "pmm_rel 128 ({16..<19} \<union> V) p'" "V \<subseteq> {..<128}" using alloc_takes_free_pages [OF p(1) _ _ p'] by auto
  have ok: "vm_ok 128 ({16..<19} \<union> V) (small_vm ?a) 1 ?rs" using vm_ok_take [OF small_vm_ok [OF p(1)] V] by (simp add: small_vm_def)
  have gap: "(unat (0xC0000000 :: u32), 0x100000) \<in> set (free_gaps True (small_vm ?a) ?rs)"
    by (simp add: kspace_low_def kspace_limit_def small_vm_def small_regions st(1))
  have arch: "vm_arch (small_vm ?a) = ?a" "vm_kernel_memory_map (small_vm ?a) = small_tree" by (simp_all add: small_vm_def)
  have rng: "range_ok ?a small_space default_config 0xC0000000 1"
    using gap_range_ok [OF ok _ gap, of small_space 1 default_config] st(4) by (simp add: arch default_config_def PAGE_TABLE_ARRAY_ADDR_def)
  have sp: "space_ok 128 ({16..<19} \<union> V) ?a small_space" "dir_of ?a small_space = small_directory"
    using space_ok_take [OF small_arch_ok(1) [OF p(1)] V] by (simp_all add: small_arch_dir)
  have "\<forall>m. unat (0xC0000000 :: u32) div 4096 \<le> m \<and> m < unat (0xC0000000 :: u32) div 4096 + 1 \<longrightarrow> pd_value (dir_of ?a small_space ! (m div 1024)) \<noteq> 0"
  proof (intro allI impI)
    fix m assume "unat (0xC0000000 :: u32) div 4096 \<le> m \<and> m < unat (0xC0000000 :: u32) div 4096 + 1"
    then have "m = 786432" by simp
    then show "pd_value (dir_of ?a small_space ! (m div 1024)) \<noteq> 0" unfolding sp(2) by (simp add: small_entries)
  qed
  then obtain a' where "arch_map (Some 1) 0x1000 0xC0000000 0x1000 default_config ?a = Some (Inr a')"
    using arch_map_tables_there [OF st(4) sp(1) rng, of "0x1000" "0x1000"] by auto
  then have "\<exists>vm'. vm_map 3 (Some 1) 0x1000 0xC0000000 0x1000 default_config (small_vm ?a) = Some (Inr (new_region 0x1000 0xC0000000 0x1000 default_config, vm'))"
    using vm_map_kernel [OF ok _ gap, of 3 "0x1000" "0x1000" default_config] small_tree_contents(2) by (auto simp: arch)
  moreover have "round_up_to_multiple 0x1000 PAGE_SIZE = (0x1000 :: u32)" by (simp add: round_up_to_multiple_def PAGE_SIZE_def)
  ultimately show ?thesis
    using p' R(1,2) st(2,3,5) by (simp add: allocate_region_def take_physical_def default_config_def rg_end_def Let_def small_vm_def)
qed

theorem allocate_region_correct_witness:
  "\<exists>p reg vm' U'. allocate_region 3 0x1000 default_config (small_vm (small_arch p)) = Some (Inr (reg, vm')) \<and>
     vm_ok 128 U' vm' 1 (insort_key mr_virt_address reg [kernel_image, get_mapping_region]) \<and>
     as_physical_for (Some 1) (mr_virt_address reg + of_nat 4) (vm_arch vm') = Inr (mr_phys_address reg + of_nat 4)"
proof -
  obtain p where p: "pmm_rel 128 {16..<19} p" "mm_usable_mem_size (pm_memory_map p) = 0x80000" "\<forall>b\<in>set (pm_buddies p). bd_last_alloc b = 0"
    using small_pmm by auto
  obtain vm' where run: "allocate_region 3 0x1000 default_config (small_vm (small_arch p)) = Some (Inr (new_region 0x1000 0xC0000000 0x1000 default_config, vm'))"
    using small_allocation [OF p] by blast
  have "nodes (vm_kernel_memory_map (small_vm (small_arch p))) 3 = None" using small_tree_contents(2) by (simp add: small_vm_def)
  from allocate_region_correct [OF small_vm_ok [OF p(1)] this _ _ _ run] obtain U' where
      "vm_ok 128 U' vm' 1 (insort_key mr_virt_address (new_region 0x1000 0xC0000000 0x1000 default_config) [kernel_image, get_mapping_region])"
      and phys: "\<forall>off < unat (0x1000 :: u32). as_physical_for (Some 1) (0xC0000000 + of_nat off) (vm_arch vm') = Inr (0x1000 + of_nat off)"
    by (auto simp: default_config_def new_region_def)
  moreover have "as_physical_for (Some 1) (0xC0000000 + of_nat 4) (vm_arch vm') = Inr (0x1000 + of_nat 4)" by (rule phys [rule_format]) simp
  ultimately show ?thesis using run by (intro exI [of _ p] exI [of _ "new_region 0x1000 0xC0000000 0x1000 default_config"] exI [of _ vm'] exI [of _ U']) (auto simp: new_region_def)
qed

end
