(* ===== verification/Spec2Isabelle.thy ===== *)
theory Spec2Isabelle
  imports KMath AVLSpec HeapSpec VirtualConsole VMMOps
begin

text \<open>
  A verification library for the OwOS kernel, an i686 kernel in C++ (\<open>src/src/kernel\<close>). It covers the memory
  management of the kernel, the containers of its library \<open>libk\<close>, and the path from a key stroke to a line that a
  process reads.

  \<^bold>\<open>Conventions.\<close> Machine integers are words of their width; \<open>size_t\<close> and addresses have 32 bits, so every
  wrap-around of the code is in the model. An operation that can stop the kernel returns \<open>kres\<close>, a fault or a result
  (\<open>Prelude\<close>): a failed \<open>assert\<close>, a null pointer, an access outside an array or object, a division by zero, a panic. A
  loop that need not end is a \<open>partial_function (option)\<close>; not returning is \<open>None\<close>, and where the code returns this
  is a theorem of its own. State is passed explicitly, as records with the members of the classes; linked structures live in
  a partial function from addresses to nodes. Memory that comes from \<open>operator new\<close> or \<open>kcalloc\<close> is an address that the
  operation is given, with the hypothesis that it is unused. Spin locks are free before and after every operation.

  \<^bold>\<open>Library (\<open>include/libk\<close>, \<open>libk\<close>).\<close>
  \<^item> \<open>KMath\<close> (\<open>kmath.hpp\<close>): rounding and powers of two on words of any width.
  \<^item> \<open>AVLTree\<close> (\<open>AVLTree.hpp\<close>): nodes with parent pointers, rotations, insertion, search, removal, traversal.
    \<open>AVLProofs\<close>, \<open>AVLOps\<close> and \<open>AVLRemove\<close> refine them to functional trees, \<open>AVLSpec\<close> to sorted sequences: what every
    operation does to the sequence, balance and height after any sequence of insertions, and the two cases in which removal
    goes wrong.
    The contract is the locale \<open>sorted_store_del\<close>.
  \<^item> \<open>Ctype\<close>, \<open>CString\<close>, \<open>CStringSpec\<close> (\<open>kcctype\<close>, \<open>kcstring\<close>, \<open>kcstdlib\<close>): character classes, and the memory and string
    routines over a byte memory; \<open>memmove\<close> is the copy through a buffer for every overlap.
  \<^item> \<open>Vector\<close>, \<open>VectorSpec\<close>, \<open>KString\<close> (\<open>kvector.hpp\<close>, \<open>kstack.hpp\<close>, \<open>kstring.hpp\<close>): arrays of slots that may be raw
    memory, refined to lists (locale \<open>sequence\<close>); the string over its vector.
  \<^item> \<open>Queues\<close> (\<open>CircularBuffer.hpp\<close>, \<open>klist.hpp\<close>, \<open>srmw_queue.hpp\<close>): three queues that keep the contract \<open>fifo\<close>.

  \<^bold>\<open>Memory.\<close>
  \<^item> \<open>BitmapHeap\<close>, \<open>HeapMap\<close>, \<open>HeapSpec\<close> (\<open>heap/BitmapHeap.cpp\<close>): the kernel heap with two bits of bitmap for each block,
    against a set of disjoint allocations: safety of \<open>alloc\<close>, exactness of \<open>free\<close>, when \<open>alloc\<close> returns and which places
    its search steps over, requests of no bytes, and a sequence of calls after which it does not return.
  \<^item> \<open>PMM\<close>, \<open>PMMSpec\<close>, \<open>PMMAlloc\<close>, \<open>PMMOps\<close> (\<open>memory/PhysicalMemoryManager.cpp\<close>, \<open>memory/MultibootMap.cpp\<close>): the
    bitmaps of the eight page sizes are a function of the set of used pages (\<open>pmm_rel\<close>); initialisation from the memory
    map, allocation, freeing and reserving are operations on that set. The search loop is a partial function; it returns under
    a condition on the last allocation and hangs without it. Requests of more than 512 KiB are outside the theorems, because
    the code then looks at the first page only, and so are memories that are not a multiple of 512 KiB, for which the spans of
    the larger page sizes can leave their bitmaps.
  \<^item> \<open>Paging\<close>, \<open>PagingSpec\<close>, \<open>PagingOps\<close> (\<open>arch/i686/memory.cpp\<close>): directories, page tables as frames, the fixed page
    through which tables are reached. An address space is a map from pages to entries (\<open>space_view\<close>); \<open>map\<close> sets exactly the
    range, \<open>unmap\<close> clears it and frees empty tables, \<open>as_physical_for\<close> reads it. \<open>space_ok\<close> is the well-formedness that they keep.
    The entry of the fixed page itself, which is written anew before every use, is not part of the state.
  \<^item> \<open>VMM\<close>, \<open>VMMSpec\<close>, \<open>VMMOps\<close> (\<open>memory/VirtualMemoryManager.cpp\<close>): the regions of an address space in AVL trees. The
    traversal is a visit of the regions and the gaps between them; \<open>find_free_region\<close> is best fit, \<open>find_region\<close> finds the
    containing region. \<open>allocate_region_correct\<close> joins the page allocator, the tree and the page tables under the
    invariant \<open>vm_ok\<close>.

  \<^bold>\<open>Terminal.\<close>
  \<^item> \<open>Keyboard\<close>, \<open>KeyboardSpec\<close> (\<open>devices/PS2KeyboardDevice.cpp\<close>, \<open>devices/KeyboardDevice.cpp\<close>): scan codes to events;
    the handler is total and stays inside its tables.
  \<^item> \<open>Framebuffer\<close>, \<open>FramebufferSpec\<close> (\<open>tty/psf.cpp\<close>, \<open>devices/FramebufferDevice.cpp\<close>): glyphs, drawing and scrolling; the
    screen shows the window of the off-screen buffer. The scan of the unicode table has the length of the file as fuel,
    which is enough because every step consumes two bytes. Memory next to the buffers is taken as writable, so that a store
    behind a buffer is a write and not a fault.
  \<^item> \<open>Console\<close>, \<open>ConsoleSpec\<close> (\<open>tty/FramebufferConsole.cpp\<close>): the cell grid; the contract of a console is the locale
    \<open>console\<close>, which the framebuffer console interprets. \<open>draw_text\<close> and \<open>draw_screen\<close> are the reference for what is drawn.
  \<^item> \<open>Terminal\<close>, \<open>TerminalSpec\<close> (\<open>tty/Terminal.cpp\<close>): control characters and escape sequences over any console; the
    invariant of \<open>echo\<close>, the text it shows, in its own cells and on the console, and the alternate screen.
  \<^item> \<open>TTY\<close>, \<open>TTYSpec\<close>, \<open>VirtualConsole\<close> (\<open>tty/TTY.cpp\<close>, \<open>include/tty/VirtualConsole.hpp\<close>): the line discipline
    refines one on lists of characters, over any display (locale \<open>tty_display\<close>).
  \<^item> This theory: the keyboard, the virtual console and the reader together; a typed line is the line that is read.

  \<^bold>\<open>Not modelled.\<close>
  \<^item> Of the modelled files: \<open>create_kernel_space\<close> (writes to fixed physical addresses before paging), \<open>load\<close> and the
    messages that invalidate translations on other processors (\<open>arch/i686/memory.cpp\<close>); \<open>copy_current_memory_space\<close>, which
    copies user memory, and the start of \<open>init\<close> (\<open>VirtualMemoryManager.cpp\<close>); copying and destroying whole trees; iterators
    and \<open>emplace\<close> variants of the containers. \<open>free(void *)\<close> of the virtual memory manager reads a region from a deleted
    tree node; the model reads the value the node had.
  \<^item> Hardware: the processor layer, interrupt controllers, PCI, AHCI, timers, serial port and VGA text mode act on registers and
    ports whose behaviour the sources do not define.
  \<^item> File systems, ELF loading, processes, scheduling and system calls: they act through virtual classes on storage and on the
    machine layer.
  \<^item> \<open>printf\<close>, \<open>kcmalloc\<close>, logging, the C runtime, the self tests and the userland programs.
  \<^item> Concurrency: operations run one after the other; an interrupt is a step between them.
\<close>

section \<open>From the keyboard to the reader\<close>

text \<open>An interrupt of the keyboard, followed by the calls that it deferred.\<close>

definition key_stroke :: "'c console_ops \<Rightarrow> u8 \<Rightarrow> ps2_keyboard \<times> 'c virtual_console \<Rightarrow> (ps2_keyboard \<times> 'c virtual_console) kres" where
  "key_stroke ops scancode kv =
     (let (k, v) = kv in kbind (handle_interrupt scancode k) (\<lambda>k. process_deferred_queue ops (k, v)))"

text \<open>The key and the character of a scan code without modifiers.\<close>

definition stroke_key :: "u8 \<Rightarrow> KeyCode" where
  "stroke_key s = default_scancode_map ! unat s"

definition stroke_char :: "u8 \<Rightarrow> u8" where
  "stroke_char s = (if stroke_key s < length default_keycode_map then default_keycode_map ! stroke_key s else 0)"

text \<open>Pressing a key that is neither a modifier nor an arrow and has a character other than the backslash.\<close>

definition char_stroke :: "u8 \<Rightarrow> bool" where
  "char_stroke s = (s < 0x80 \<and> stroke_key s < Key_Max \<and> parse_modifiers 0 False (stroke_key s) = 0 \<and>
     stroke_key s \<notin> {Key_None, Key_Up, Key_Down, Key_Left, Key_Right} \<and> stroke_char s \<notin> {0, 92})"

definition idle_keyboard :: "ps2_keyboard \<Rightarrow> bool" where
  "idle_keyboard k = (kb_ok k \<and> kb_modifiers k = 0 \<and> \<not> kb_e0_prefix k \<and> kb_listeners k = 1 \<and> kb_deferred k = [])"

definition stroke_event :: "u8 \<Rightarrow> key_event_t" where
  "stroke_event s = \<lparr>ev_key = stroke_key s, ev_scancode = ucast s, ev_modifiers = Pressed, ev_code_point = stroke_char s\<rparr>"

lemma press_code:
  assumes "s < (0x80 :: u8)"
  shows "s AND 0x7f = s" "s AND 0x80 = 0" "s \<noteq> 0xe0" "unat s < 128"
proof -
  show u: "unat s < 128" "s \<noteq> 0xe0" using assms by (auto simp: word_less_nat_alt)
  have "unat (take_bit 7 s) = unat s" using u(1) by (simp add: unsigned_take_bit_eq take_bit_nat_eq_self)
  then have "take_bit 7 s = s" by (simp only: word_unat_eq_iff)
  then show low: "s AND 0x7f = s" by (simp add: take_bit_eq_mask mask_eq_exp_minus_1)
  have "s AND 0x80 = s AND (0x7f AND 0x80)" using low by (metis and.assoc)
  then show "s AND 0x80 = 0" by simp
qed

lemma stroke_interrupt:
  assumes k: "idle_keyboard k" and s: "char_stroke s"
  shows "\<exists>k'. handle_interrupt s k = Inr k' \<and> kb_deferred k' = [stroke_event s] \<and> idle_keyboard (k'\<lparr>kb_deferred := []\<rparr>)"
proof -
  have s80: "s < 0x80" using s by (simp add: char_stroke_def)
  note pc = press_code [OF s80]
  have key: "scancode_key default_scancode_map s = Inr (stroke_key s)"
    using pc(4) by (simp add: scancode_key_def scancode_map_length stroke_key_def)
  have char: "keycode_char default_keycode_map (stroke_key s) = Inr (stroke_char s)"
    using s by (simp add: keycode_char_def char_stroke_def stroke_char_def)
  have nk: "stroke_key s \<noteq> Key_None" "parse_modifiers 0 False (stroke_key s) = 0" "stroke_char s \<noteq> 92"
    using s by (simp_all add: char_stroke_def)
  let ?k = "k\<lparr>kb_modifiers := 0, kb_e0_prefix := False\<rparr>"
  have "handle_interrupt s k = kb_push ?k (stroke_event s)"
    using k pc key char nk by (simp add: handle_interrupt_def Let_def idle_keyboard_def modifier_defs stroke_event_def)
  moreover obtain b where "kb_push ?k (stroke_event s) = Inr (?k\<lparr>kb_buffer := b, kb_deferred := [stroke_event s]\<rparr>)"
    "\<exists>evs. cb_rel b evs" "cb_capacity b = 16"
    using kb_push_ok [of ?k "stroke_event s"] k by (auto simp: idle_keyboard_def kb_ok_def)
  ultimately show ?thesis using k by (auto simp: idle_keyboard_def kb_ok_def)
qed

text \<open>A sequence of strokes is the sequence of its events, as the virtual console sees it.\<close>

lemma strokes_are_events:
  "idle_keyboard k \<Longrightarrow> list_all char_stroke codes \<Longrightarrow> kfold (handle_key_event ops) (map stroke_event codes) v = Inr v' \<Longrightarrow>
     \<exists>k'. kfold (key_stroke ops) codes (k, v) = Inr (k', v')"
proof (induction codes arbitrary: k v)
  case (Cons s codes)
  obtain k1 where k1: "handle_interrupt s k = Inr k1" "kb_deferred k1 = [stroke_event s]" "idle_keyboard (k1\<lparr>kb_deferred := []\<rparr>)"
    using stroke_interrupt Cons.prems(1,2) by auto
  obtain v1 where v1: "handle_key_event ops (stroke_event s) v = Inr v1"
    "kfold (handle_key_event ops) (map stroke_event codes) v1 = Inr v'"
    using Cons.prems(3) by (auto simp: kbind_Inr_iff)
  have "key_stroke ops s (k, v) = Inr (k1\<lparr>kb_deferred := []\<rparr>, v1)"
    using k1 v1(1) by (simp add: key_stroke_def process_deferred_queue_def idle_keyboard_def)
  then show ?case using Cons.IH [OF k1(3) _ v1(2)] Cons.prems(2) by simp
qed simp

lemma stroke_event_plain: "char_stroke s \<Longrightarrow> plain_key (stroke_event s)" "ev_code_point (stroke_event s) = stroke_char s"
  by (simp_all add: plain_key_def stroke_event_def char_stroke_def modifier_defs)

text \<open>The scan code of the return key.\<close>

lemma return_stroke: "char_stroke 0x1c" "stroke_char 0x1c = 10"
  by code_simp+

text \<open>
  C2. What is typed is read. On an idle keyboard with the virtual console as its one listener, which has the default settings, any
  number of strokes of keys with printable characters followed by the return key leaves the
  characters and a newline for the next \<open>read\<close>, whatever the scrolling and the cursor movement on the
  screen in between; nothing faults on the way from the interrupt handler through the line discipline
  and the terminal to the framebuffer.
\<close>

theorem typed_line_is_read:
  assumes "idle_keyboard k" "list_all (\<lambda>s. char_stroke s \<and> printable (stroke_char s)) codes" "length codes < 2 ^ 31 - 2"
    and "tty_rel (vc_tty v) ([], [])" "tty_termios (vc_tty v) = reset_termios" "str_rel (tty_read_line (vc_tty v)) []"
    and "term_disp (vc_term v)"
  shows "\<exists>k' v' s'. kfold (key_stroke fb_ops) (codes @ [0x1c]) (k, v) = Inr (k', v') \<and>
    tty_read n (vc_tty v') = Some (Inr (take n (map stroke_char codes @ [10]), s'))"
proof -
  let ?es = "map stroke_event codes"
  have es: "list_all plain_key ?es" "list_all (\<lambda>e. printable (ev_code_point e)) ?es" "length ?es < 2 ^ 31 - 2"
    using assms(2,3) stroke_event_plain by (auto simp: list_all_iff)
  have ret: "plain_key (stroke_event 0x1c)" "ev_code_point (stroke_event 0x1c) = 10"
    using stroke_event_plain return_stroke by auto
  obtain v' s' where v': "kfold (handle_key_event fb_ops) (?es @ [stroke_event 0x1c]) v = Inr v'"
    "tty_read n (vc_tty v') = Some (Inr (take n (map ev_code_point ?es @ [10]), s'))"
    using typed_line [OF assms(4,7,5,6) es ret] by blast
  have codes: "list_all char_stroke (codes @ [0x1c])" using assms(2) return_stroke(1) by (auto simp: list_all_iff)
  obtain k' where "kfold (key_stroke fb_ops) (codes @ [0x1c]) (k, v) = Inr (k', v')"
    using strokes_are_events [OF assms(1) codes, of fb_ops v v'] v'(1) by auto
  moreover have m: "map ev_code_point ?es = map stroke_char codes" by (simp add: stroke_event_plain(2))
  ultimately show ?thesis using v'(2) unfolding m by blast
qed

lemma idle_new: "idle_keyboard (register_listener ps2_new)"
  using kb_ok_new by (simp add: idle_keyboard_def register_listener_def ps2_new_def kb_ok_def)

theorem typed_line_is_read_witness:
  "\<exists>k v s. kfold (key_stroke fb_ops) ([0x23, 0x17] @ [0x1c]) (register_listener ps2_new, vc_new fb_ops wide_console) = Inr (k, v) \<and>
     tty_read 80 (vc_tty v) = Some (Inr ([104, 105, 10], s))"
proof -
  have codes: "list_all (\<lambda>s. char_stroke s \<and> printable (stroke_char s)) [0x23, 0x17]" by code_simp
  have chars: "map stroke_char [0x23, 0x17] = [104, 105]" by code_simp
  have v: "tty_rel (vc_tty (vc_new fb_ops wide_console)) ([], [])" "tty_termios (vc_tty (vc_new fb_ops wide_console)) = reset_termios"
    "str_rel (tty_read_line (vc_tty (vc_new fb_ops wide_console))) []" "term_disp (vc_term (vc_new fb_ops wide_console))"
    using tty_rel_new canonical_new(2) str_rel_empty wide_disp by (simp_all add: vc_new_def wide_terminal_def tty_new_def)
  show ?thesis using typed_line_is_read [OF idle_new codes _ v, of 80] chars by simp
qed

end
